(* ===== verification/Prelude.thy ===== *)
theory Prelude
  imports Main "HOL-Library.Word" "HOL-Library.Code_Target_Nat"
begin

unbundle bit_operations_syntax

text \<open>
  The shared vocabulary of the development: machine sizes, bytes, the results a C++ call
  can have (a value, a thrown exception, a fault), the memory blocks that \<open>memcpy\<close>,
  \<open>memmove\<close> and \<open>memset\<close> work on, and the generic list lemmas about them.

  Conventions.  A \<open>std::size_t\<close> is a \<open>nat\<close> below \<open>2 ^ 64\<close>; additions that the code
  performs on it are written \<open>size_add\<close>, which wraps as the hardware does.  A call that
  can throw returns an \<open>'a res\<close>; a call that also changes an object returns the pair of
  that result and the object after the call, so that the object after a throw is visible.
\<close>

section \<open>Machine integers and sizes\<close>

type_synonym u8 = "8 word"
type_synonym u16 = "16 word"
type_synonym u32 = "32 word"
type_synonym u64 = "64 word"

definition size_limit :: nat where
  "size_limit = 2 ^ 64"

definition size_max :: nat where
  "size_max = 2 ^ 64 - 1"

definition size_add :: "nat \<Rightarrow> nat \<Rightarrow> nat" where
  "size_add a b = (a + b) mod size_limit"

lemma size_limit_pos [simp]: "0 < size_limit"
  by (simp add: size_limit_def)

lemma size_max_less_limit [simp]: "size_max < size_limit"
  by (simp add: size_max_def size_limit_def)

lemma le_size_max_iff: "n \<le> size_max \<longleftrightarrow> n < size_limit"
  by (auto simp: size_max_def size_limit_def)

lemma size_add_exact [simp]: "a + b \<le> size_max \<Longrightarrow> size_add a b = a + b"
  by (simp add: size_add_def le_size_max_iff)

lemma size_add_le_max [simp]: "size_add a b \<le> size_max"
  by (simp add: size_add_def le_size_max_iff)

text \<open>Equality of bytes bit by bit.\<close>

lemma less_8_cases: "(n :: nat) < 8 \<longleftrightarrow> n = 0 \<or> n = 1 \<or> n = 2 \<or> n = 3 \<or> n = 4 \<or> n = 5 \<or> n = 6 \<or> n = 7"
  by auto

lemma byte_eqI:
  fixes a b :: u8
  assumes "bit a 0 = bit b 0" "bit a 1 = bit b 1" "bit a 2 = bit b 2" "bit a 3 = bit b 3"
    "bit a 4 = bit b 4" "bit a 5 = bit b 5" "bit a 6 = bit b 6" "bit a 7 = bit b 7"
  shows "a = b"
proof (rule bit_word_eqI)
  fix n assume "n < LENGTH(8)"
  then have "n < 8" by simp
  then show "bit a n = bit b n" unfolding less_8_cases using assms by auto
qed

section \<open>Results of calls\<close>

text \<open>
  The exceptions the library throws, with the message of the ones that carry one (and the error
  number of a \<open>std::system_error\<close>; \<open>Hlib_Error\<close> is an object of the library's own class \<open>Error\<close>,
  which is not a \<open>std::exception\<close>), and the faults: behaviour the language gives no meaning to (\<open>Out_Of_Bounds\<close> for a read or a
  write outside a block or through a null pointer, \<open>Signed_Overflow\<close> for signed arithmetic
  outside its type, \<open>Uninitialized\<close> for the use of a variable without a value), a failed \<open>assert\<close>, a wait for a mutex that is never released, and the call of \<open>std::terminate\<close> when an exception
  leaves a \<open>noexcept\<close> function.
\<close>

datatype exn =
    Bad_Alloc
  | Out_Of_Range string
  | Invalid_Argument string
  | Range_Error string
  | Overflow_Error string
  | Logic_Error string
  | Runtime_Error string
  | System_Error int string
  | Bad_Function_Call
  | Bad_Variant_Access
  | Hlib_Error "exn option"

datatype fault = Out_Of_Bounds | Assert_Failed | Terminated | Signed_Overflow | Uninitialized | Deadlock

datatype 'a res = Ret 'a | Throw exn | Fault fault

fun and_then :: "'a res \<times> 's \<Rightarrow> ('a \<Rightarrow> 's \<Rightarrow> 'b res \<times> 's) \<Rightarrow> 'b res \<times> 's" where
  "and_then (Ret a, s) k = k a s"
| "and_then (Throw e, s) k = (Throw e, s)"
| "and_then (Fault f, s) k = (Fault f, s)"

fun map_res :: "('a \<Rightarrow> 'b) \<Rightarrow> 'a res \<Rightarrow> 'b res" where
  "map_res f (Ret a) = Ret (f a)"
| "map_res f (Throw e) = Throw e"
| "map_res f (Fault x) = Fault x"

definition res_bind :: "'a res \<Rightarrow> ('a \<Rightarrow> 'b res) \<Rightarrow> 'b res" where
  "res_bind r k = (case r of Ret a \<Rightarrow> k a | Throw e \<Rightarrow> Throw e | Fault f \<Rightarrow> Fault f)"

text \<open>An exception that reaches a \<open>noexcept\<close> boundary ends the program.\<close>

fun noexcept :: "'a res \<times> 's \<Rightarrow> 'a res \<times> 's" where
  "noexcept (Throw e, s) = (Fault Terminated, s)"
| "noexcept (Ret a, s) = (Ret a, s)"
| "noexcept (Fault f, s) = (Fault f, s)"

fun no_fault :: "'a res \<Rightarrow> bool" where
  "no_fault (Fault f) = False"
| "no_fault (Ret a) = True"
| "no_fault (Throw e) = True"

lemma and_then_Ret_iff:
  "and_then r k = (Ret b, t) \<longleftrightarrow> (\<exists>a s. r = (Ret a, s) \<and> k a s = (Ret b, t))"
  by (cases r; cases "fst r") auto

lemma noexcept_Ret_iff [simp]: "noexcept r = (Ret a, s) \<longleftrightarrow> r = (Ret a, s)"
  by (cases r rule: noexcept.cases) auto

lemma no_fault_iff: "no_fault r \<longleftrightarrow> (\<exists>a. r = Ret a) \<or> (\<exists>e. r = Throw e)"
  by (cases r) auto

text \<open>If a call returns, the object is in \<open>P\<close> after it.\<close>

definition ensures :: "('s \<Rightarrow> bool) \<Rightarrow> 'a res \<times> 's \<Rightarrow> bool" where
  "ensures P x \<longleftrightarrow> (\<forall>a. fst x = Ret a \<longrightarrow> P (snd x))"

lemma ensures_pair: "P S \<Longrightarrow> ensures P (r, S)"
  by (simp add: ensures_def)

lemma ensures_Ret [simp]: "ensures P (Ret a, S) \<longleftrightarrow> P S"
  by (simp add: ensures_def)

lemma ensures_fault [simp]: "ensures P (Fault f, S)" "ensures P (Throw e, S)"
  by (simp_all add: ensures_def)

lemma ensures_and_then:
  assumes "ensures P x" and "\<And>a S. P S \<Longrightarrow> ensures Q (k a S)"
  shows "ensures Q (and_then x k)"
proof (cases x)
  case (Pair r S)
  with assms show ?thesis by (cases r) (auto simp: ensures_def)
qed

lemma ensures_noexcept: "ensures P x \<Longrightarrow> ensures P (noexcept x)"
  by (cases x rule: noexcept.cases) (auto simp: ensures_def)

lemma ensures_weaken: "ensures P x \<Longrightarrow> (\<And>S. P S \<Longrightarrow> Q S) \<Longrightarrow> ensures Q x"
  by (auto simp: ensures_def)

section \<open>Characters as bytes\<close>

definition byte_of_char :: "char \<Rightarrow> u8" where
  "byte_of_char c = word_of_nat (of_char c)"

definition char_of_byte :: "u8 \<Rightarrow> char" where
  "char_of_byte b = char_of (unat b)"

lemma char_of_byte_of_char [simp]: "char_of_byte (byte_of_char c) = c"
proof -
  have "of_char c < (256 :: nat)" by simp
  then show ?thesis by (simp add: char_of_byte_def byte_of_char_def unat_of_nat take_bit_nat_eq_self)
qed

lemma byte_of_char_0 [simp]: "byte_of_char c = 0 \<longleftrightarrow> c = CHR 0x00"
proof
  assume "byte_of_char c = 0"
  then have "char_of_byte (byte_of_char c) = char_of_byte 0" by (simp only:)
  then show "c = CHR 0x00" by (simp only: char_of_byte_of_char) (simp add: char_of_byte_def char_of_def)
qed (simp add: byte_of_char_def)

section \<open>Memory blocks\<close>

text \<open>
  A block is the list of its bytes.  \<open>blit off bs m\<close> is the block after \<open>bs\<close> has been
  stored at \<open>off\<close>; \<open>mem_write\<close>, \<open>mem_read\<close> and \<open>mem_move\<close> are the checked accesses:
  \<open>None\<close> is an access outside the block.
\<close>

definition blit :: "nat \<Rightarrow> 'a list \<Rightarrow> 'a list \<Rightarrow> 'a list" where
  "blit off bs m = take off m @ bs @ drop (off + length bs) m"

definition mem_write :: "nat \<Rightarrow> 'a list \<Rightarrow> 'a list \<Rightarrow> 'a list option" where
  "mem_write off bs m = (if off + length bs \<le> length m then Some (blit off bs m) else None)"

definition mem_read :: "nat \<Rightarrow> nat \<Rightarrow> 'a list \<Rightarrow> 'a list option" where
  "mem_read off n m = (if off + n \<le> length m then Some (take n (drop off m)) else None)"

definition mem_move :: "nat \<Rightarrow> nat \<Rightarrow> nat \<Rightarrow> 'a list \<Rightarrow> 'a list option" where
  "mem_move dst src n m = Option.bind (mem_read src n m) (\<lambda>bs. mem_write dst bs m)"

lemma length_blit [simp]: "off + length bs \<le> length m \<Longrightarrow> length (blit off bs m) = length m"
  by (simp add: blit_def)

lemma blit_Nil [simp]: "blit off [] m = m"
  by (simp add: blit_def)

lemma blit_end: "blit (length m) bs (m @ ys) = m @ bs @ drop (length bs) ys"
  by (simp add: blit_def)

lemma mem_write_Some [simp]: "off + length bs \<le> length m \<Longrightarrow> mem_write off bs m = Some (blit off bs m)"
  by (simp add: mem_write_def)

lemma mem_read_Some [simp]: "off + n \<le> length m \<Longrightarrow> mem_read off n m = Some (take n (drop off m))"
  by (simp add: mem_read_def)

lemma mem_move_Some [simp]:
  assumes "src + n \<le> length m" and "dst + n \<le> length m"
  shows "mem_move dst src n m = Some (blit dst (take n (drop src m)) m)"
  using assms by (simp add: mem_move_def)

lemma take_blit_before: "k \<le> off \<Longrightarrow> off + length bs \<le> length m \<Longrightarrow> take k (blit off bs m) = take k m"
  by (simp add: blit_def min_def)

lemma take_blit_over:
  "off + length bs \<le> length m \<Longrightarrow> take (off + length bs) (blit off bs m) = take off m @ bs"
  by (simp add: blit_def)

lemma drop_blit_after:
  assumes "off + length bs \<le> k" and "off + length bs \<le> length m"
  shows "drop k (blit off bs m) = drop k m"
  using assms by (simp add: blit_def)

lemma blit_blit_same_end:
  assumes "off + length bs \<le> length m" and "length bs + length cs \<le> length m - off"
  shows "blit (off + length bs) cs (blit off bs m) = blit off (bs @ cs) m"
  using assms by (simp add: blit_def ac_simps)

lemma take_blit_within:
  assumes "off + length bs \<le> n" and "n \<le> length m"
  shows "take n (blit off bs m) = blit off bs (take n m)"
proof -
  obtain d where "n = off + length bs + d" using assms(1) le_Suc_ex by blast
  then show ?thesis using assms(2) by (cases bs) (auto simp: blit_def min_def drop_take take_add)
qed

text \<open>
  Reading back a block that was stored to: the collection \<open>block_reads\<close> decides a read at a fixed place
  by comparing it with the places of the stores.
\<close>

named_theorems block_reads \<open>reads of blocks after stores\<close>

lemma nth_blit [block_reads]:
  "off + length bs \<le> length m \<Longrightarrow> i < length m \<Longrightarrow>
     blit off bs m ! i = (if i < off \<or> off + length bs \<le> i then m ! i else bs ! (i - off))"
  by (auto simp: blit_def nth_append min_def)

lemma slice_blit_same [block_reads]:
  "off + length bs \<le> length m \<Longrightarrow> k = length bs \<Longrightarrow> take k (drop off (blit off bs m)) = bs"
  by (simp add: blit_def)

lemma slice_blit_disjoint [block_reads]:
  assumes "off + length bs \<le> length m" and "at + k \<le> off \<or> off + length bs \<le> at"
  shows "take k (drop at (blit off bs m)) = take k (drop at m)"
  using assms(2)
proof
  assume "at + k \<le> off"
  then have "take k (drop at (blit off bs m)) = take k (drop at (take (at + k) (blit off bs m)))"
    by (simp add: take_drop add.commute)
  also have "take (at + k) (blit off bs m) = take (at + k) m"
    by (rule take_blit_before) (use \<open>at + k \<le> off\<close> assms(1) in auto)
  also have "take k (drop at (take (at + k) m)) = take k (drop at m)" by (simp add: take_drop add.commute)
  finally show ?thesis .
next
  assume "off + length bs \<le> at"
  then show ?thesis using assms(1) by (simp add: drop_blit_after)
qed

lemma take_drop_append: "i \<le> length xs \<Longrightarrow> take n (drop i xs) = take n (drop i (take (i + n) xs))"
  by (simp add: take_drop add.commute)

section \<open>Searching\<close>

text \<open>
  \<open>std::string::find\<close> and \<open>std::string_view::find\<close>: the first position not before \<open>pos\<close> at which the pattern occurs.
  An empty pattern occurs at every position up to and including the length.
\<close>

fun find_at :: "'a list \<Rightarrow> 'a list \<Rightarrow> nat option" where
  "find_at pat [] = (if pat = [] then Some 0 else None)"
| "find_at pat (x # xs) =
     (if take (length pat) (x # xs) = pat then Some 0 else map_option Suc (find_at pat xs))"

definition view_find :: "'a list \<Rightarrow> nat \<Rightarrow> 'a list \<Rightarrow> nat option" where
  "view_find pat pos xs =
     (if length xs < pos then None else map_option (\<lambda>i. pos + i) (find_at pat (drop pos xs)))"

lemma find_at_Some:
  "find_at pat xs = Some i \<Longrightarrow>
     take (length pat) (drop i xs) = pat \<and> i + length pat \<le> length xs \<and>
     (\<forall>j<i. take (length pat) (drop j xs) \<noteq> pat)"
proof (induction xs arbitrary: i)
  case Nil
  then show ?case by (auto split: if_splits)
next
  case (Cons x xs)
  show ?case
  proof (cases "take (length pat) (x # xs) = pat")
    case True
    then have "length pat \<le> length (x # xs)"
      by (metis length_take min.cobounded1)
    with Cons.prems True show ?thesis by simp
  next
    case False
    with Cons.prems obtain k where k: "find_at pat xs = Some k" "i = Suc k" by auto
    have "take (length pat) (drop j (x # xs)) \<noteq> pat" if "j < i" for j
      using that False k Cons.IH [OF k(1)] by (cases j) auto
    with k Cons.IH [OF k(1)] show ?thesis by auto
  qed
qed

lemma find_at_None:
  "find_at pat xs = None \<Longrightarrow> j \<le> length xs \<Longrightarrow> take (length pat) (drop j xs) \<noteq> pat"
proof (induction xs arbitrary: j)
  case Nil
  then show ?case by (auto split: if_splits)
next
  case (Cons x xs)
  then show ?case by (cases j) (auto split: if_splits)
qed

lemma view_find_Some:
  assumes "view_find pat pos xs = Some i"
  shows "pos \<le> i" "i + length pat \<le> length xs" "take (length pat) (drop i xs) = pat"
    "\<And>j. pos \<le> j \<Longrightarrow> j < i \<Longrightarrow> take (length pat) (drop j xs) \<noteq> pat"
proof -
  from assms obtain k where k: "find_at pat (drop pos xs) = Some k" "i = pos + k" "pos \<le> length xs"
    by (auto simp: view_find_def split: if_splits)
  note f = find_at_Some [OF k(1)]
  show "pos \<le> i" "i + length pat \<le> length xs" "take (length pat) (drop i xs) = pat"
    using f k by (auto simp: add.commute)
  show "take (length pat) (drop j xs) \<noteq> pat" if "pos \<le> j" "j < i" for j
  proof -
    from that obtain d where "j = pos + d" using le_Suc_ex by blast
    with that f k show ?thesis by (auto simp: add.commute)
  qed
qed

lemma view_find_None:
  assumes "view_find pat pos xs = None" and "pos \<le> j" and "j \<le> length xs"
  shows "take (length pat) (drop j xs) \<noteq> pat"
proof -
  from assms(2) obtain d where d: "j = pos + d" using le_Suc_ex by blast
  have "find_at pat (drop pos xs) = None"
    using assms by (auto simp: view_find_def split: if_splits)
  from find_at_None [OF this, of d] d assms(3) show ?thesis by (simp add: add.commute)
qed

lemma take_length_eq_prefix: "take (length pat) xs = pat \<longleftrightarrow> (\<exists>ys. xs = pat @ ys)"
  by (metis append_eq_conv_conj append_take_drop_id)

end
