(* ===== verification/Buffer.thy ===== *)
theory Buffer
  imports Prelude
begin

text \<open>
  The class \<open>Buffer\<close> of \<open>src/hlib_buffer.cpp\<close> and \<open>include/hlib/buffer.hpp\<close>: a growable
  block of bytes with a size, a capacity and a maximum.

  The four fields of the class are the four fields of the record; the block that \<open>m_data\<close>
  points to is the list of its bytes and the null pointer is \<open>None\<close>.  A pointer into the
  block that an operation returns is its offset (\<open>Some off\<close>), a returned null pointer is
  \<open>None\<close>.  What \<open>::realloc\<close> and \<open>free\<close> do is the C library's contract: a request may be
  refused, and a granted block keeps the old bytes and has indeterminate new ones.  Both
  choices are an argument \<open>allocator\<close> of every operation that allocates.  Arguments that
  point to caller memory are byte lists, so a caller's range that lies inside the buffer
  itself is outside this model.

  First the operations in the order of the source, then the well-formedness invariant that
  each of them keeps, then what each does to the contents, the \<open>m_size\<close> bytes in use.
\<close>

section \<open>State and allocator\<close>

record allocator =
  grants :: "nat \<Rightarrow> bool"
  junk :: "nat \<Rightarrow> u8"

record buffer =
  m_data :: "u8 list option"
  m_maximum :: nat
  m_capacity :: nat
  m_size :: nat

definition InfiniteCapacity :: nat where
  "InfiniteCapacity = size_max"

definition empty_buffer :: buffer where
  "empty_buffer = \<lparr>m_data = None, m_maximum = InfiniteCapacity, m_capacity = 0, m_size = 0\<rparr>"

type_synonym ptr = "nat option"

definition the_block :: "u8 list option \<Rightarrow> u8 list" where
  "the_block d = (case d of None \<Rightarrow> [] | Some m \<Rightarrow> m)"

definition os_realloc :: "allocator \<Rightarrow> u8 list option \<Rightarrow> nat \<Rightarrow> u8 list option" where
  "os_realloc A d n =
     (if grants A n
      then Some (take n (the_block d) @ map (junk A) [length (the_block d)..<n])
      else None)"

section \<open>Operations\<close>

subsection \<open>Reallocation\<close>

datatype realloc_type = Shrink | Grow | GrowZeroed

definition buf_realloc :: "allocator \<Rightarrow> nat \<Rightarrow> realloc_type \<Rightarrow> buffer \<Rightarrow> bool \<times> buffer" where
  "buf_realloc A capacity type b =
     (if type \<noteq> Shrink \<and> capacity \<le> m_capacity b then (True, b)
      else if m_maximum b < capacity then (False, b)
      else if 0 < capacity then
        (case os_realloc A (m_data b) capacity of
           None \<Rightarrow> (False, b)
         | Some data \<Rightarrow>
             let data' =
               (if type = GrowZeroed \<and> m_capacity b < capacity
                then blit (m_capacity b) (replicate (capacity - m_capacity b) 0) data
                else data)
             in (True, b\<lparr>m_data := Some data', m_capacity := capacity,
                         m_size := min (m_size b) capacity\<rparr>))
      else (True, b\<lparr>m_data := None, m_capacity := 0, m_size := min (m_size b) 0\<rparr>))"

subsection \<open>Observers\<close>

definition buf_data :: "buffer \<Rightarrow> ptr" where
  "buf_data b = (case m_data b of None \<Rightarrow> None | Some _ \<Rightarrow> Some 0)"

definition buf_empty :: "buffer \<Rightarrow> bool" where
  "buf_empty b \<longleftrightarrow> 0 = m_size b"

text \<open>\<open>get\<close> and \<open>at\<close> check the index against the capacity, not the size.\<close>

definition buf_get_nothrow :: "nat \<Rightarrow> buffer \<Rightarrow> ptr res" where
  "buf_get_nothrow index b = (if index < m_capacity b then Ret (Some index) else Fault Assert_Failed)"

definition buf_get :: "nat \<Rightarrow> buffer \<Rightarrow> ptr res" where
  "buf_get index b =
     (if m_capacity b \<le> index then Throw (Out_Of_Range ''Buffer::get() failed'')
      else Ret (Some index))"

definition load_byte :: "ptr \<Rightarrow> buffer \<Rightarrow> u8 res" where
  "load_byte p b =
     (case p of None \<Rightarrow> Fault Out_Of_Bounds
      | Some i \<Rightarrow> (if i < length (the_block (m_data b)) then Ret (the_block (m_data b) ! i)
                  else Fault Out_Of_Bounds))"

fun deref_res :: "ptr res \<Rightarrow> buffer \<Rightarrow> u8 res" where
  "deref_res (Ret p) b = load_byte p b"
| "deref_res (Throw e) b = Throw e"
| "deref_res (Fault f) b = Fault f"

definition buf_at_nothrow :: "nat \<Rightarrow> buffer \<Rightarrow> u8 res" where
  "buf_at_nothrow index b = deref_res (buf_get_nothrow index b) b"

definition buf_at :: "nat \<Rightarrow> buffer \<Rightarrow> u8 res" where
  "buf_at index b = deref_res (buf_get index b) b"

subsection \<open>Release and reservation\<close>

definition buf_reset :: "buffer \<Rightarrow> buffer" where
  "buf_reset b = b\<lparr>m_data := None, m_capacity := 0, m_size := 0\<rparr>"

definition buf_clear :: "buffer \<Rightarrow> buffer" where
  "buf_clear b = b\<lparr>m_size := 0\<rparr>"

definition buf_shrink :: "allocator \<Rightarrow> buffer \<Rightarrow> unit res \<times> buffer" where
  "buf_shrink A b =
     (if \<not> m_size b \<le> m_capacity b then (Fault Assert_Failed, b)
      else if m_data b = None \<or> m_size b = 0 then (Ret (), buf_reset b)
      else (Ret (), snd (buf_realloc A (m_size b) Shrink b)))"

text \<open>The pointer one past the contents; adding 0 to a null pointer gives a null pointer.\<close>

definition ptr_end :: "buffer \<Rightarrow> ptr" where
  "ptr_end b = (case m_data b of None \<Rightarrow> None | Some _ \<Rightarrow> Some (m_size b))"

definition reserve_with :: "realloc_type \<Rightarrow> allocator \<Rightarrow> nat \<Rightarrow> buffer \<Rightarrow> ptr res \<times> buffer" where
  "reserve_with type A capacity b =
     (if \<not> m_size b \<le> m_capacity b then (Fault Assert_Failed, b)
      else let (ok, b') = buf_realloc A capacity type b
           in if \<not> ok then (Ret None, b') else (Ret (buf_data b'), b'))"

definition extend_with :: "realloc_type \<Rightarrow> allocator \<Rightarrow> nat \<Rightarrow> buffer \<Rightarrow> ptr res \<times> buffer" where
  "extend_with type A capacity b =
     (if \<not> m_size b \<le> m_capacity b then (Fault Assert_Failed, b)
      else if capacity = 0 then (Ret (ptr_end b), b)
      else let (ok, b') = buf_realloc A (size_add (m_size b) capacity) type b
           in if \<not> ok then (Ret None, b') else (Ret (ptr_end b'), b'))"

definition resize_with :: "realloc_type \<Rightarrow> allocator \<Rightarrow> nat \<Rightarrow> buffer \<Rightarrow> ptr res \<times> buffer" where
  "resize_with type A sz b =
     (if \<not> m_size b \<le> m_capacity b then (Fault Assert_Failed, b)
      else if sz = 0 then (Ret (buf_data b), b\<lparr>m_size := sz\<rparr>)
      else let (ok, b') = buf_realloc A sz type b
           in if \<not> ok then (Ret None, b')
              else (Ret (buf_data b'), b'\<lparr>m_size := sz\<rparr>))"

text \<open>The throwing variants turn a null pointer for a non-zero request into \<open>std::bad_alloc\<close>.\<close>

definition throw_if_null :: "nat \<Rightarrow> ptr res \<times> buffer \<Rightarrow> ptr res \<times> buffer" where
  "throw_if_null n r =
     (case r of (Ret None, b) \<Rightarrow> (if 0 < n then (Throw Bad_Alloc, b) else (Ret None, b)) | _ \<Rightarrow> r)"

definition buf_reserve_nothrow :: "allocator \<Rightarrow> nat \<Rightarrow> buffer \<Rightarrow> ptr res \<times> buffer" where
  "buf_reserve_nothrow = reserve_with Grow"

definition buf_reserve :: "allocator \<Rightarrow> nat \<Rightarrow> buffer \<Rightarrow> ptr res \<times> buffer" where
  "buf_reserve A capacity b = throw_if_null capacity (buf_reserve_nothrow A capacity b)"

definition buf_reserveZeroed_nothrow :: "allocator \<Rightarrow> nat \<Rightarrow> buffer \<Rightarrow> ptr res \<times> buffer" where
  "buf_reserveZeroed_nothrow = reserve_with GrowZeroed"

definition buf_reserveZeroed :: "allocator \<Rightarrow> nat \<Rightarrow> buffer \<Rightarrow> ptr res \<times> buffer" where
  "buf_reserveZeroed A capacity b = throw_if_null capacity (buf_reserveZeroed_nothrow A capacity b)"

definition buf_extend_nothrow :: "allocator \<Rightarrow> nat \<Rightarrow> buffer \<Rightarrow> ptr res \<times> buffer" where
  "buf_extend_nothrow = extend_with Grow"

definition buf_extend :: "allocator \<Rightarrow> nat \<Rightarrow> buffer \<Rightarrow> ptr res \<times> buffer" where
  "buf_extend A capacity b = throw_if_null capacity (buf_extend_nothrow A capacity b)"

definition buf_extendZeroed_nothrow :: "allocator \<Rightarrow> nat \<Rightarrow> buffer \<Rightarrow> ptr res \<times> buffer" where
  "buf_extendZeroed_nothrow = extend_with GrowZeroed"

definition buf_extendZeroed :: "allocator \<Rightarrow> nat \<Rightarrow> buffer \<Rightarrow> ptr res \<times> buffer" where
  "buf_extendZeroed A capacity b = throw_if_null capacity (buf_extendZeroed_nothrow A capacity b)"

definition buf_resize_nothrow :: "allocator \<Rightarrow> nat \<Rightarrow> buffer \<Rightarrow> ptr res \<times> buffer" where
  "buf_resize_nothrow = resize_with Grow"

definition buf_resize :: "allocator \<Rightarrow> nat \<Rightarrow> buffer \<Rightarrow> ptr res \<times> buffer" where
  "buf_resize A sz b = throw_if_null sz (buf_resize_nothrow A sz b)"

definition buf_resizeZeroed_nothrow :: "allocator \<Rightarrow> nat \<Rightarrow> buffer \<Rightarrow> ptr res \<times> buffer" where
  "buf_resizeZeroed_nothrow = resize_with GrowZeroed"

definition buf_resizeZeroed :: "allocator \<Rightarrow> nat \<Rightarrow> buffer \<Rightarrow> ptr res \<times> buffer" where
  "buf_resizeZeroed A sz b = throw_if_null sz (buf_resizeZeroed_nothrow A sz b)"

subsection \<open>Insertion and assignment\<close>

text \<open>
  The source of an insertion is a pointer and a size: \<open>None\<close> is the null pointer, which makes
  room without copying, \<open>Some bs\<close> the bytes readable at the pointer.
\<close>

definition copy_in :: "nat \<Rightarrow> u8 list option \<Rightarrow> nat \<Rightarrow> u8 list \<Rightarrow> u8 list option" where
  "copy_in offset src sz m =
     (case src of None \<Rightarrow> Some m
      | Some bs \<Rightarrow> Option.bind (mem_read 0 sz bs) (\<lambda>cs. mem_write offset cs m))"

definition buf_insert_nothrow ::
  "allocator \<Rightarrow> nat \<Rightarrow> u8 list option \<Rightarrow> nat \<Rightarrow> buffer \<Rightarrow> bool res \<times> buffer" where
  "buf_insert_nothrow A offset src sz b =
     (if \<not> offset \<le> m_size b then (Fault Assert_Failed, b)
      else if \<not> m_size b \<le> m_capacity b then (Fault Assert_Failed, b)
      else if sz = 0 then (Ret True, b)
      else let (ok, b') = buf_realloc A (size_add (m_size b) sz) Grow b
           in if \<not> ok then (Ret False, b')
              else
                (case Option.bind
                        (mem_move (offset + sz) offset (m_size b' - offset) (the_block (m_data b')))
                        (copy_in offset src sz) of
                   None \<Rightarrow> (Fault Out_Of_Bounds, b')
                 | Some m \<Rightarrow>
                     (Ret True, b'\<lparr>m_data := Some m, m_size := size_add (m_size b') sz\<rparr>)))"

definition throw_if_false :: "bool res \<times> buffer \<Rightarrow> unit res \<times> buffer" where
  "throw_if_false r = and_then r (\<lambda>ok b. if ok then (Ret (), b) else (Throw Bad_Alloc, b))"

definition buf_insert ::
  "allocator \<Rightarrow> nat \<Rightarrow> u8 list option \<Rightarrow> nat \<Rightarrow> buffer \<Rightarrow> unit res \<times> buffer" where
  "buf_insert A offset src sz b = throw_if_false (buf_insert_nothrow A offset src sz b)"

definition buf_append_nothrow ::
  "allocator \<Rightarrow> u8 list option \<Rightarrow> nat \<Rightarrow> buffer \<Rightarrow> bool res \<times> buffer" where
  "buf_append_nothrow A src sz b = buf_insert_nothrow A (m_size b) src sz b"

definition buf_append :: "allocator \<Rightarrow> u8 list option \<Rightarrow> nat \<Rightarrow> buffer \<Rightarrow> unit res \<times> buffer" where
  "buf_append A src sz b = throw_if_false (buf_append_nothrow A src sz b)"

definition buf_assign_nothrow ::
  "allocator \<Rightarrow> u8 list option \<Rightarrow> nat \<Rightarrow> buffer \<Rightarrow> bool res \<times> buffer" where
  "buf_assign_nothrow A src sz b = buf_append_nothrow A src sz (b\<lparr>m_size := 0\<rparr>)"

definition buf_assign :: "allocator \<Rightarrow> u8 list option \<Rightarrow> nat \<Rightarrow> buffer \<Rightarrow> unit res \<times> buffer" where
  "buf_assign A src sz b = throw_if_false (buf_assign_nothrow A src sz b)"

text \<open>The overloads for \<open>std::string_view\<close> pass its data pointer and its size.\<close>

definition buf_insert_view_nothrow :: "allocator \<Rightarrow> nat \<Rightarrow> u8 list \<Rightarrow> buffer \<Rightarrow> bool res \<times> buffer" where
  "buf_insert_view_nothrow A offset view b = buf_insert_nothrow A offset (Some view) (length view) b"

definition buf_insert_view :: "allocator \<Rightarrow> nat \<Rightarrow> u8 list \<Rightarrow> buffer \<Rightarrow> unit res \<times> buffer" where
  "buf_insert_view A offset view b = buf_insert A offset (Some view) (length view) b"

definition buf_append_view_nothrow :: "allocator \<Rightarrow> u8 list \<Rightarrow> buffer \<Rightarrow> bool res \<times> buffer" where
  "buf_append_view_nothrow A view b = buf_append_nothrow A (Some view) (length view) b"

definition buf_append_view :: "allocator \<Rightarrow> u8 list \<Rightarrow> buffer \<Rightarrow> unit res \<times> buffer" where
  "buf_append_view A view b = buf_append A (Some view) (length view) b"

definition buf_assign_view_nothrow :: "allocator \<Rightarrow> u8 list \<Rightarrow> buffer \<Rightarrow> bool res \<times> buffer" where
  "buf_assign_view_nothrow A view b = buf_assign_nothrow A (Some view) (length view) b"

definition buf_assign_view :: "allocator \<Rightarrow> u8 list \<Rightarrow> buffer \<Rightarrow> unit res \<times> buffer" where
  "buf_assign_view A view b = buf_assign A (Some view) (length view) b"

subsection \<open>Construction and move\<close>

definition buf_ctor_max :: "allocator \<Rightarrow> nat \<Rightarrow> nat \<Rightarrow> ptr res \<times> buffer" where
  "buf_ctor_max A reservation maximum =
     buf_reserve A (min reservation maximum) (empty_buffer\<lparr>m_maximum := maximum\<rparr>)"

definition buf_ctor_reserve :: "allocator \<Rightarrow> nat \<Rightarrow> ptr res \<times> buffer" where
  "buf_ctor_reserve A reservation = buf_reserve A reservation empty_buffer"

definition buf_ctor_bytes :: "allocator \<Rightarrow> u8 list option \<Rightarrow> nat \<Rightarrow> unit res \<times> buffer" where
  "buf_ctor_bytes A src sz = buf_assign A src sz empty_buffer"

definition buf_ctor_view :: "allocator \<Rightarrow> u8 list \<Rightarrow> unit res \<times> buffer" where
  "buf_ctor_view A view = buf_assign A (Some view) (length view) empty_buffer"

definition buf_ctor_move :: "buffer \<Rightarrow> buffer \<times> buffer" where
  "buf_ctor_move that = (that, that\<lparr>m_data := None, m_capacity := 0, m_size := 0\<rparr>)"

definition buf_move_assign :: "buffer \<Rightarrow> buffer \<Rightarrow> buffer \<times> buffer" where
  "buf_move_assign this that =
     (let this' = (buf_reset this)\<lparr>m_maximum := m_maximum that\<rparr>
      in (this'\<lparr>m_data := m_data that, m_capacity := m_capacity that, m_size := m_size that\<rparr>,
          that\<lparr>m_data := m_data this', m_capacity := m_capacity this', m_size := m_size this'\<rparr>))"

subsection \<open>Removal and copies\<close>

definition buf_erase :: "nat \<Rightarrow> nat \<Rightarrow> buffer \<Rightarrow> unit res \<times> buffer" where
  "buf_erase offset sz b =
     (if \<not> size_add offset sz \<le> m_size b then (Fault Assert_Failed, b)
      else if \<not> m_size b \<le> m_capacity b then (Fault Assert_Failed, b)
      else
        (case mem_move offset (size_add offset sz) (m_size b - size_add offset sz)
                (the_block (m_data b)) of
           None \<Rightarrow> (Fault Out_Of_Bounds, b)
         | Some m \<Rightarrow>
             (Ret (), b\<lparr>m_data := (case m_data b of None \<Rightarrow> None | Some _ \<Rightarrow> Some m),
                        m_size := (m_size b + size_limit - sz) mod size_limit\<rparr>)))"

text \<open>
  \<open>copy\<close> and \<open>extract\<close> work on two buffers: the source and the destination, which is the
  state that \<open>assign\<close> changes.  The pointer into the source is the list of the bytes from
  there to the end of its block.
\<close>

definition src_at :: "nat \<Rightarrow> buffer \<Rightarrow> u8 list option" where
  "src_at offset b = (case m_data b of None \<Rightarrow> None | Some m \<Rightarrow> Some (drop offset m))"

definition buf_copy_nothrow :: "allocator \<Rightarrow> buffer \<Rightarrow> buffer \<Rightarrow> bool res \<times> buffer" where
  "buf_copy_nothrow A b dst = buf_assign_nothrow A (m_data b) (m_size b) dst"

definition buf_copy_to :: "allocator \<Rightarrow> buffer \<Rightarrow> buffer \<Rightarrow> unit res \<times> buffer" where
  "buf_copy_to A b dst = throw_if_false (buf_copy_nothrow A b dst)"

definition buf_copy :: "allocator \<Rightarrow> buffer \<Rightarrow> unit res \<times> buffer" where
  "buf_copy A b = buf_ctor_bytes A (m_data b) (m_size b)"

definition buf_copy_range_nothrow ::
  "allocator \<Rightarrow> nat \<Rightarrow> nat \<Rightarrow> buffer \<Rightarrow> buffer \<Rightarrow> bool res \<times> buffer" where
  "buf_copy_range_nothrow A offset sz b dst =
     (if \<not> size_add offset sz \<le> m_size b then (Fault Assert_Failed, dst)
      else buf_assign_nothrow A (src_at offset b) sz dst)"

definition buf_copy_range_to ::
  "allocator \<Rightarrow> nat \<Rightarrow> nat \<Rightarrow> buffer \<Rightarrow> buffer \<Rightarrow> unit res \<times> buffer" where
  "buf_copy_range_to A offset sz b dst =
     throw_if_false (buf_copy_range_nothrow A offset sz b dst)"

definition buf_copy_range :: "allocator \<Rightarrow> nat \<Rightarrow> nat \<Rightarrow> buffer \<Rightarrow> unit res \<times> buffer" where
  "buf_copy_range A offset sz b = buf_copy_range_to A offset sz b empty_buffer"

definition assign_then_erase ::
  "allocator \<Rightarrow> nat \<Rightarrow> nat \<Rightarrow> buffer \<Rightarrow> buffer \<Rightarrow> bool res \<times> buffer \<times> buffer" where
  "assign_then_erase A offset sz b dst =
     (case buf_assign_nothrow A (src_at offset b) sz dst of
        (Ret ok, dst') \<Rightarrow>
          (if \<not> ok then (Ret False, b, dst')
           else (case buf_erase offset sz b of
                   (Ret _, b') \<Rightarrow> (Ret True, b', dst')
                 | (Throw e, b') \<Rightarrow> (Throw e, b', dst')
                 | (Fault f, b') \<Rightarrow> (Fault f, b', dst')))
      | (Throw e, dst') \<Rightarrow> (Throw e, b, dst')
      | (Fault f, dst') \<Rightarrow> (Fault f, b, dst'))"

definition buf_extract_nothrow ::
  "allocator \<Rightarrow> nat \<Rightarrow> nat \<Rightarrow> buffer \<Rightarrow> buffer \<Rightarrow> bool res \<times> buffer \<times> buffer" where
  "buf_extract_nothrow A offset sz b dst =
     (if \<not> size_add offset sz \<le> m_size b then (Fault Assert_Failed, b, dst)
      else assign_then_erase A offset sz b dst)"

definition throw_if_false2 ::
  "bool res \<times> buffer \<times> buffer \<Rightarrow> unit res \<times> buffer \<times> buffer" where
  "throw_if_false2 r = and_then r (\<lambda>ok bs. if ok then (Ret (), bs) else (Throw Bad_Alloc, bs))"

definition buf_extract_to ::
  "allocator \<Rightarrow> nat \<Rightarrow> nat \<Rightarrow> buffer \<Rightarrow> buffer \<Rightarrow> unit res \<times> buffer \<times> buffer" where
  "buf_extract_to A offset sz b dst = throw_if_false2 (buf_extract_nothrow A offset sz b dst)"

definition buf_extract ::
  "allocator \<Rightarrow> nat \<Rightarrow> nat \<Rightarrow> buffer \<Rightarrow> unit res \<times> buffer \<times> buffer" where
  "buf_extract A offset sz b = buf_extract_to A offset sz b empty_buffer"

definition buf_extract_until_nothrow ::
  "allocator \<Rightarrow> nat \<Rightarrow> u8 list \<Rightarrow> bool \<Rightarrow> buffer \<Rightarrow> buffer \<Rightarrow> bool res \<times> buffer \<times> buffer" where
  "buf_extract_until_nothrow A offset sentinel include b dst =
     (if \<not> offset \<le> m_size b then (Fault Assert_Failed, b, dst)
      else
        (case view_find sentinel offset (take (m_size b) (the_block (m_data b))) of
           Some position \<Rightarrow>
             let sz = position - offset;
                 sz' = (if include then sz + length sentinel else sz)
             in assign_then_erase A offset sz' b dst
         | None \<Rightarrow> (Ret True, b, buf_clear dst)))"

definition buf_extract_until_to ::
  "allocator \<Rightarrow> nat \<Rightarrow> u8 list \<Rightarrow> bool \<Rightarrow> buffer \<Rightarrow> buffer \<Rightarrow> unit res \<times> buffer \<times> buffer" where
  "buf_extract_until_to A offset sentinel include b dst =
     throw_if_false2 (buf_extract_until_nothrow A offset sentinel include b dst)"

definition buf_extract_until ::
  "allocator \<Rightarrow> nat \<Rightarrow> u8 list \<Rightarrow> bool \<Rightarrow> buffer \<Rightarrow> unit res \<times> buffer \<times> buffer" where
  "buf_extract_until A offset sentinel include b =
     buf_extract_until_to A offset sentinel include b empty_buffer"

definition buf_to_string :: "buffer \<Rightarrow> u8 list" where
  "buf_to_string b = take (m_size b) (the_block (m_data b))"


text \<open>Client code stores bytes through a pointer that an operation returned.\<close>

definition buf_store :: "ptr \<Rightarrow> u8 list \<Rightarrow> buffer \<Rightarrow> unit res \<times> buffer" where
  "buf_store p bs b =
     (case (p, m_data b) of
        (Some off, Some m) \<Rightarrow>
          (case mem_write off bs m of
             None \<Rightarrow> (Fault Out_Of_Bounds, b)
           | Some m' \<Rightarrow> (Ret (), b\<lparr>m_data := Some m'\<rparr>))
      | _ \<Rightarrow> (if bs = [] then (Ret (), b) else (Fault Out_Of_Bounds, b)))"

section \<open>Well-formedness\<close>

abbreviation contents :: "buffer \<Rightarrow> u8 list" where
  "contents \<equiv> buf_to_string"

definition buffer_wf :: "buffer \<Rightarrow> bool" where
  "buffer_wf b \<longleftrightarrow>
     m_size b \<le> m_capacity b \<and> m_capacity b \<le> m_maximum b \<and> m_maximum b \<le> size_max \<and>
     (m_data b = None \<longleftrightarrow> m_capacity b = 0) \<and> length (the_block (m_data b)) = m_capacity b"

lemma the_block_simps [simp]: "the_block None = []" "the_block (Some m) = m"
  by (simp_all add: the_block_def)

lemma buffer_wfD:
  assumes "buffer_wf b"
  shows "m_size b \<le> m_capacity b" "m_capacity b \<le> m_maximum b" "m_maximum b \<le> size_max"
    "length (the_block (m_data b)) = m_capacity b" "m_data b = None \<longleftrightarrow> m_capacity b = 0"
    "m_size b \<le> size_max" "m_capacity b \<le> size_max"
  using assms by (auto simp: buffer_wf_def)

lemma length_contents [simp]: "buffer_wf b \<Longrightarrow> length (contents b) = m_size b"
  by (simp add: buf_to_string_def buffer_wf_def)

lemma contents_null [simp]: "m_data b = None \<Longrightarrow> contents b = []"
  by (simp add: buf_to_string_def)

lemma empty_buffer_wf [simp]: "buffer_wf empty_buffer"
  by (simp add: buffer_wf_def empty_buffer_def InfiniteCapacity_def)

lemma contents_empty_buffer [simp]: "contents empty_buffer = []"
  by (simp add: buf_to_string_def empty_buffer_def)

lemma m_size_empty_buffer [simp]: "m_size empty_buffer = 0"
  by (simp add: empty_buffer_def)

subsection \<open>Reallocation\<close>

lemma os_realloc_Some:
  "os_realloc A d n = Some m \<Longrightarrow>
     length m = n \<and> take (min n (length (the_block d))) m = take (min n (length (the_block d))) (the_block d)"
  by (auto simp: os_realloc_def split: if_splits)

text \<open>
  The one lemma about reallocation that the operations use: the result is well-formed, a
  refused request changes nothing, a granted one has the capacity, and growing keeps the
  size and every byte of the old block.
\<close>

lemma realloc_grow:
  assumes "buffer_wf b" and "type \<noteq> Shrink" and "buf_realloc A capacity type b = (ok, b')"
  shows "buffer_wf b' \<and> m_size b' = m_size b \<and> m_maximum b' = m_maximum b
     \<and> m_capacity b \<le> m_capacity b' \<and> (ok \<longrightarrow> capacity \<le> m_capacity b') \<and> (\<not> ok \<longrightarrow> b' = b)
     \<and> take (m_capacity b) (the_block (m_data b')) = the_block (m_data b)"
proof -
  note wf = buffer_wfD [OF assms(1)]
  show ?thesis
  proof (cases "capacity \<le> m_capacity b \<or> m_maximum b < capacity")
    case True
    with assms wf show ?thesis
      by (auto simp: buf_realloc_def split: if_splits)
  next
    case False
    show ?thesis
    proof (cases "os_realloc A (m_data b) capacity")
      case None
      with False assms wf show ?thesis
        by (auto simp: buf_realloc_def split: if_splits)
    next
      case (Some m)
      from os_realloc_Some [OF Some] False wf
      have "length m = capacity" and "take (m_capacity b) m = the_block (m_data b)"
        by (auto simp: min_def split: if_splits)
      with Some False assms wf show ?thesis
        by (auto simp: buf_realloc_def buffer_wf_def take_blit_before split: if_splits)
    qed
  qed
qed

lemma realloc_grow_contents:
  assumes "buffer_wf b" and "type \<noteq> Shrink" and "buf_realloc A capacity type b = (ok, b')"
  shows "contents b' = contents b"
proof -
  note r = realloc_grow [OF assms]
  have "take (m_size b) (the_block (m_data b')) =
        take (m_size b) (take (m_capacity b) (the_block (m_data b')))"
    using buffer_wfD(1) [OF assms(1)] by simp
  also have "\<dots> = take (m_size b) (the_block (m_data b))"
    using r by simp
  finally show ?thesis using r by (simp add: buf_to_string_def)
qed

lemma realloc_shrink:
  assumes "buffer_wf b" and "0 < m_size b" and "buf_realloc A (m_size b) Shrink b = (ok, b')"
  shows "buffer_wf b' \<and> contents b' = contents b \<and> m_maximum b' = m_maximum b
     \<and> (ok \<longrightarrow> m_capacity b' = m_size b) \<and> (\<not> ok \<longrightarrow> b' = b)"
proof (cases "os_realloc A (m_data b) (m_size b)")
  case None
  with assms show ?thesis by (auto simp: buf_realloc_def split: if_splits)
next
  case (Some m)
  note wf = buffer_wfD [OF assms(1)]
  from os_realloc_Some [OF Some] wf
  have "length m = m_size b" and "take (m_size b) m = take (m_size b) (the_block (m_data b))"
    by (auto simp: min_def split: if_splits)
  with Some assms wf show ?thesis
    by (auto simp: buf_realloc_def buffer_wf_def buf_to_string_def split: if_splits)
qed

subsection \<open>Each operation\<close>

lemma buf_reset_wf [simp]: "buffer_wf b \<Longrightarrow> buffer_wf (buf_reset b)"
  by (simp add: buffer_wf_def buf_reset_def)

lemma contents_buf_reset [simp]: "contents (buf_reset b) = []"
  by (simp add: buf_reset_def buf_to_string_def)

lemma buf_clear_wf [simp]: "buffer_wf b \<Longrightarrow> buffer_wf (buf_clear b)"
  by (simp add: buffer_wf_def buf_clear_def)

lemma contents_buf_clear [simp]: "contents (buf_clear b) = []"
  by (simp add: buf_clear_def buf_to_string_def)

lemma set_size_wf: "buffer_wf b \<Longrightarrow> n \<le> m_capacity b \<Longrightarrow> buffer_wf (b\<lparr>m_size := n\<rparr>)"
  by (simp add: buffer_wf_def)

lemma buf_shrink_spec:
  assumes "buffer_wf b" and "buf_shrink A b = (r, b')"
  shows "r = Ret () \<and> buffer_wf b' \<and> contents b' = contents b"
proof (cases "m_data b = None \<or> m_size b = 0")
  case True
  with assms have "r = Ret ()" and "b' = buf_reset b"
    using buffer_wfD(1) [OF assms(1)] by (auto simp: buf_shrink_def)
  moreover from True have "contents b = []"
    by (auto simp: buf_to_string_def)
  ultimately show ?thesis using assms(1) by simp
next
  case False
  then have pos: "0 < m_size b" by simp
  from False assms have "r = Ret ()" and "b' = snd (buf_realloc A (m_size b) Shrink b)"
    using buffer_wfD(1) [OF assms(1)] by (auto simp: buf_shrink_def)
  with realloc_shrink [OF assms(1) pos, of A] show ?thesis
    by (metis prod.collapse)
qed

text \<open>Reserving: the contents never change; a pointer is returned only with the capacity.\<close>

lemma reserve_with_spec:
  assumes "buffer_wf b" and "type \<noteq> Shrink" and "reserve_with type A capacity b = (r, b')"
  shows "buffer_wf b' \<and> contents b' = contents b \<and> m_size b' = m_size b \<and> m_maximum b' = m_maximum b
     \<and> (r = Ret None \<and> (0 < capacity \<longrightarrow> b' = b) \<or> r = Ret (Some 0) \<and> capacity \<le> m_capacity b')"
proof -
  obtain ok c where c: "buf_realloc A capacity type b = (ok, c)" by fastforce
  note g = realloc_grow [OF assms(1,2) c] and gc = realloc_grow_contents [OF assms(1,2) c]
  have "(r, b') = (if \<not> ok then (Ret None, c) else (Ret (buf_data c), c))"
    using assms(3) buffer_wfD(1) [OF assms(1)] c by (simp add: reserve_with_def)
  then show ?thesis
    using g gc buffer_wfD(5) [of c] by (cases ok; cases "m_data c") (auto simp: buf_data_def)
qed

lemma extend_with_spec:
  assumes "buffer_wf b" and "type \<noteq> Shrink" and "m_size b + n \<le> size_max"
    and "extend_with type A n b = (r, b')"
  shows "buffer_wf b' \<and> contents b' = contents b \<and> m_size b' = m_size b \<and> m_maximum b' = m_maximum b
     \<and> (r = Ret None \<and> b' = b \<or> r = Ret (Some (m_size b)) \<and> m_size b + n \<le> m_capacity b')"
proof (cases "n = 0")
  case True
  with assms buffer_wfD [OF assms(1)] show ?thesis
    by (auto simp: extend_with_def ptr_end_def split: option.splits)
next
  case False
  obtain ok c where c: "buf_realloc A (m_size b + n) type b = (ok, c)" by fastforce
  note g = realloc_grow [OF assms(1,2) c] and gc = realloc_grow_contents [OF assms(1,2) c]
  have "(r, b') = (if \<not> ok then (Ret None, c) else (Ret (ptr_end c), c))"
    using assms(3,4) buffer_wfD(1) [OF assms(1)] c False by (simp add: extend_with_def)
  then show ?thesis
    using g gc False buffer_wfD(5) [of c] by (cases ok; cases "m_data c") (auto simp: ptr_end_def)
qed

text \<open>Resizing keeps the common prefix of the contents.\<close>

lemma resize_with_spec:
  assumes "buffer_wf b" and "type \<noteq> Shrink" and "resize_with type A n b = (r, b')"
  shows "buffer_wf b' \<and> m_maximum b' = m_maximum b
     \<and> (r = Ret None \<and> (0 < n \<longrightarrow> b' = b) \<and> (n = 0 \<longrightarrow> m_size b' = 0)
        \<or> r = Ret (Some 0) \<and> m_size b' = n
          \<and> take (min n (m_size b)) (contents b') = take (min n (m_size b)) (contents b))"
proof (cases "n = 0")
  case True
  with assms buffer_wfD [OF assms(1)] show ?thesis
    by (auto simp: resize_with_def buf_data_def buffer_wf_def split: option.splits)
next
  case False
  obtain ok c where c: "buf_realloc A n type b = (ok, c)" by fastforce
  note g = realloc_grow [OF assms(1,2) c] and gc = realloc_grow_contents [OF assms(1,2) c]
  have r: "(r, b') = (if \<not> ok then (Ret None, c) else (Ret (buf_data c), c\<lparr>m_size := n\<rparr>))"
    using assms(3) buffer_wfD(1) [OF assms(1)] c False by (simp add: resize_with_def)
  show ?thesis
  proof (cases ok)
    case True
    then have "n \<le> m_capacity c" using g by simp
    then have "buffer_wf (c\<lparr>m_size := n\<rparr>)" and "m_data c \<noteq> None"
      using g False buffer_wfD(5) [of c] by (auto intro: set_size_wf)
    moreover have "take (min n (m_size b)) (contents (c\<lparr>m_size := n\<rparr>)) = take (min n (m_size b)) (contents c)"
      using g by (simp add: buf_to_string_def)
    ultimately show ?thesis
      using r True g gc by (auto simp: buf_data_def split: option.splits)
  next
    case False
    with r g assms(1) \<open>n \<noteq> 0\<close> show ?thesis by simp
  qed
qed

lemma throw_if_null_cases:
  assumes "throw_if_null n (r, b) = (r', b')"
  shows "b' = b \<and> (r' = r \<and> (r = Ret None \<longrightarrow> n = 0) \<or> r = Ret None \<and> 0 < n \<and> r' = Throw Bad_Alloc)"
  using assms by (auto simp: throw_if_null_def split: res.splits option.splits if_splits)


text \<open>
  Insertion.  The block-level fact is that moving the tail up and storing the new bytes in
  the gap puts them between the two halves of the old contents.
\<close>

lemma insert_block:
  assumes "off \<le> n" and "n + length bs \<le> length m"
  shows "take (n + length bs) (blit off bs (blit (off + length bs) (take (n - off) (drop off m)) m))
       = take off (take n m) @ bs @ drop off (take n m)"
proof -
  obtain d where n: "n = off + d" using assms(1) le_Suc_ex by blast
  have len: "length (take d (drop off m)) = d" using assms(2) n by simp
  have t: "take (off + length bs) m = take off m @ take (length bs) (drop off m)"
    by (rule take_add)
  have "blit (off + length bs) (take d (drop off m)) m =
        take off m @ take (length bs) (drop off m) @ take d (drop off m) @ drop (off + length bs + d) m"
    using len by (simp add: blit_def t)
  then have "blit off bs (blit (off + length bs) (take d (drop off m)) m) =
        take off m @ bs @ take d (drop off m) @ drop (off + length bs + d) m"
    using assms(2) n by (simp add: blit_def)
  then show ?thesis using assms(2) n len by (simp add: drop_take)
qed

lemma insert_gap:
  assumes "off \<le> n" and "n + k \<le> length m"
  defines "v \<equiv> blit (off + k) (take (n - off) (drop off m)) m"
  shows "take off (take (n + k) v) = take off (take n m)"
    and "drop (off + k) (take (n + k) v) = drop off (take n m)"
proof -
  obtain d where n: "n = off + d" using assms(1) le_Suc_ex by blast
  have v: "v = take (off + k) m @ take d (drop off m) @ drop (off + k + d) m"
    using assms(2) n by (simp add: v_def blit_def)
  show "take off (take (n + k) v) = take off (take n m)"
    using assms(2) n by (simp add: v min_def)
  show "drop (off + k) (take (n + k) v) = drop off (take n m)"
    using assms(2) n by (simp add: v drop_take)
qed

text \<open>
  What an insertion may do: it fails and changes nothing, or it makes room for \<open>k\<close> bytes at
  the offset and, when the source is not the null pointer, the room holds the source's bytes.
\<close>

definition inserted :: "nat \<Rightarrow> u8 list option \<Rightarrow> nat \<Rightarrow> u8 list \<Rightarrow> u8 list \<Rightarrow> bool" where
  "inserted off src k xs ys \<longleftrightarrow>
     length ys = length xs + k \<and> take off ys = take off xs \<and> drop (off + k) ys = drop off xs \<and>
     (case src of None \<Rightarrow> True | Some bs \<Rightarrow> take k (drop off ys) = take k bs)"

lemma inserted_Some:
  assumes "inserted off (Some bs) k xs ys"
  shows "ys = take off xs @ take k bs @ drop off xs"
proof -
  have "ys = take off ys @ take k (drop off ys) @ drop (off + k) ys"
    by (metis add.commute append_take_drop_id drop_drop)
  with assms show ?thesis by (simp add: inserted_def)
qed

lemma buf_insert_nothrow_spec:
  assumes "buffer_wf b" and "off \<le> m_size b" and "m_size b + k \<le> size_max"
    and "src = None \<or> k \<le> length (the src)"
    and "buf_insert_nothrow A off src k b = (r, b')"
  shows "buffer_wf b' \<and> m_maximum b' = m_maximum b
     \<and> (r = Ret False \<and> b' = b \<or> r = Ret True \<and> inserted off src k (contents b) (contents b'))"
proof (cases "k = 0")
  case True
  with assms buffer_wfD [OF assms(1)] show ?thesis
    by (auto simp: buf_insert_nothrow_def inserted_def split: option.splits)
next
  case False
  obtain ok c where c: "buf_realloc A (m_size b + k) Grow b = (ok, c)" by fastforce
  have grow: "Grow \<noteq> Shrink" by simp
  note g = realloc_grow [OF assms(1) grow c] and gc = realloc_grow_contents [OF assms(1) grow c]
  show ?thesis
  proof (cases ok)
    case False
    with assms c g \<open>k \<noteq> 0\<close> buffer_wfD(1) [OF assms(1)] show ?thesis
      by (simp add: buf_insert_nothrow_def)
  next
    case True
    define m where "m = the_block (m_data c)"
    define moved where "moved = blit (off + k) (take (m_size b - off) (drop off m)) m"
    have room: "m_size b + k \<le> length m" and lm: "length m = m_capacity c"
      using g True buffer_wfD(4) [of c] by (auto simp: m_def)
    have lenmv: "length moved = length m"
      using room assms(2) by (simp add: moved_def)
    obtain m' where m': "copy_in off src k moved = Some m'"
      and m'_len: "length m' = length m"
      and m'_eq: "m' = (case src of None \<Rightarrow> moved | Some bs \<Rightarrow> blit off (take k bs) moved)"
      using assms(2,4) room lenmv by (cases src) (auto simp: copy_in_def)
    have "(r, b') = (Ret True, c\<lparr>m_data := Some m', m_size := m_size b + k\<rparr>)"
      using assms(2,3,5) c True \<open>k \<noteq> 0\<close> buffer_wfD(1) [OF assms(1)] g room m'
      by (simp add: buf_insert_nothrow_def m_def moved_def)
    then have r: "r = Ret True" and b': "b' = c\<lparr>m_data := Some m', m_size := m_size b + k\<rparr>"
      by simp_all
    have old: "contents b = take (m_size b) m"
      using g gc by (simp add: buf_to_string_def m_def)
    have new: "contents b' = take (m_size b + k) m'"
      by (simp add: b' buf_to_string_def)
    have "inserted off src k (contents b) (contents b')"
    proof (cases src)
      case None
      with m'_eq have "m' = moved" by simp
      moreover have "length (take (m_size b + k) moved) = m_size b + k"
        using room lenmv by simp
      ultimately show ?thesis
        using insert_gap [OF assms(2) room, folded moved_def] None room
        by (simp add: inserted_def old new)
    next
      case (Some bs)
      with assms(4) have lk: "length (take k bs) = k" by simp
      have "contents b' = take off (contents b) @ take k bs @ drop off (contents b)"
        using insert_block [OF assms(2), of "take k bs" m] room lk m'_eq Some
        by (simp add: old new moved_def)
      moreover have "off \<le> length (contents b)"
        using assms(1,2) by simp
      ultimately show ?thesis
        using Some lk by (simp add: inserted_def)
    qed
    moreover have "buffer_wf b'"
      using g room lm m'_len True buffer_wfD(5) [of c] \<open>k \<noteq> 0\<close>
      by (auto simp: b' buffer_wf_def)
    ultimately show ?thesis using g r b' by simp
  qed
qed

lemma throw_if_false_cases:
  assumes "throw_if_false (r, b) = (r', b')"
  shows "b' = b \<and> (r = Ret True \<and> r' = Ret () \<or> r = Ret False \<and> r' = Throw Bad_Alloc
     \<or> (\<exists>e. r = Throw e \<and> r' = Throw e) \<or> (\<exists>f. r = Fault f \<and> r' = Fault f))"
  using assms by (cases r) (auto simp: throw_if_false_def split: if_splits)

lemma buf_insert_spec:
  assumes "buffer_wf b" and "off \<le> m_size b" and "m_size b + k \<le> size_max"
    and "src = None \<or> k \<le> length (the src)" and "buf_insert A off src k b = (r, b')"
  shows "buffer_wf b' \<and> m_maximum b' = m_maximum b
     \<and> (r = Throw Bad_Alloc \<and> b' = b \<or> r = Ret () \<and> inserted off src k (contents b) (contents b'))"
proof -
  obtain r1 b1 where c: "buf_insert_nothrow A off src k b = (r1, b1)" by fastforce
  note s = buf_insert_nothrow_spec [OF assms(1-4) c]
  from assms(5) c have "throw_if_false (r1, b1) = (r, b')" by (simp add: buf_insert_def)
  from throw_if_false_cases [OF this] s show ?thesis by auto
qed

lemma buf_append_nothrow_spec:
  assumes "buffer_wf b" and "m_size b + k \<le> size_max" and "k \<le> length bs"
    and "buf_append_nothrow A (Some bs) k b = (r, b')"
  shows "buffer_wf b' \<and> m_maximum b' = m_maximum b
     \<and> (r = Ret False \<and> b' = b \<or> r = Ret True \<and> contents b' = contents b @ take k bs)"
  using buf_insert_nothrow_spec [of b "m_size b" k "Some bs" A r b'] assms
  by (auto simp: buf_append_nothrow_def dest: inserted_Some)

lemma buf_append_spec:
  assumes "buffer_wf b" and "m_size b + k \<le> size_max" and "k \<le> length bs"
    and "buf_append A (Some bs) k b = (r, b')"
  shows "buffer_wf b' \<and> m_maximum b' = m_maximum b
     \<and> (r = Throw Bad_Alloc \<and> b' = b \<or> r = Ret () \<and> contents b' = contents b @ take k bs)"
proof -
  obtain r1 b1 where c: "buf_append_nothrow A (Some bs) k b = (r1, b1)" by fastforce
  note s = buf_append_nothrow_spec [OF assms(1-3) c]
  from assms(4) c have "throw_if_false (r1, b1) = (r, b')" by (simp add: buf_append_def)
  from throw_if_false_cases [OF this] s show ?thesis by auto
qed

text \<open>Assignment empties the buffer first, so a refused one leaves it empty.  The source may be null when the size is 0.\<close>

lemma buf_assign_nothrow_spec:
  assumes "buffer_wf b" and "k \<le> size_max" and "k \<le> length (the_block src)"
    and "buf_assign_nothrow A src k b = (r, b')"
  shows "buffer_wf b' \<and> m_maximum b' = m_maximum b
     \<and> (r = Ret False \<and> contents b' = [] \<or> r = Ret True \<and> contents b' = take k (the_block src))"
proof (cases src)
  case None
  with assms have "k = 0" by simp
  with None assms show ?thesis
    by (auto simp: buf_assign_nothrow_def buf_append_nothrow_def buf_insert_nothrow_def
        buffer_wf_def buf_to_string_def)
next
  case (Some bs)
  have wf0: "buffer_wf (b\<lparr>m_size := 0\<rparr>)" using assms(1) by (auto intro: set_size_wf)
  have "contents (b\<lparr>m_size := 0\<rparr>) = []" by (simp add: buf_to_string_def)
  with Some assms wf0 buf_append_nothrow_spec [OF wf0, of k bs A r b'] show ?thesis
    by (auto simp: buf_assign_nothrow_def)
qed

lemma buf_assign_spec:
  assumes "buffer_wf b" and "k \<le> size_max" and "k \<le> length (the_block src)"
    and "buf_assign A src k b = (r, b')"
  shows "buffer_wf b' \<and> m_maximum b' = m_maximum b
     \<and> (r = Throw Bad_Alloc \<and> contents b' = [] \<or> r = Ret () \<and> contents b' = take k (the_block src))"
proof -
  obtain r1 b1 where c: "buf_assign_nothrow A src k b = (r1, b1)" by fastforce
  note s = buf_assign_nothrow_spec [OF assms(1-3) c]
  from assms(4) c have "throw_if_false (r1, b1) = (r, b')" by (simp add: buf_assign_def)
  from throw_if_false_cases [OF this] s show ?thesis by auto
qed

lemma erase_block:
  assumes "off + k \<le> n" and "n \<le> length m"
  shows "take (n - k) (blit off (take (n - (off + k)) (drop (off + k) m)) m) =
         take off (take n m) @ drop (off + k) (take n m)"
proof -
  obtain d where n: "n = off + k + d" using assms(1) le_Suc_ex by blast
  have "length (take d (drop (off + k) m)) = d" using assms(2) n by simp
  then show ?thesis using assms(2) n by (simp add: blit_def drop_take)
qed

lemma buf_erase_spec:
  assumes "buffer_wf b" and "off + k \<le> m_size b" and "buf_erase off k b = (r, b')"
  shows "r = Ret () \<and> buffer_wf b' \<and> m_maximum b' = m_maximum b
     \<and> contents b' = take off (contents b) @ drop (off + k) (contents b)"
proof -
  note wf = buffer_wfD [OF assms(1)]
  define m where "m = the_block (m_data b)"
  have sizes: "off + k \<le> size_max" "m_size b \<le> length m" "length m = m_capacity b"
    using assms(2) wf by (auto simp: m_def)
  have sub: "(m_size b + size_limit - k) mod size_limit = m_size b - k"
  proof -
    have "m_size b + size_limit - k = (m_size b - k) + size_limit"
      using assms(2) by simp
    moreover have "m_size b - k < size_limit"
      using wf(6) by (simp add: le_size_max_iff)
    ultimately show ?thesis by (simp only: mod_add_self2 mod_less)
  qed
  define m' where "m' = blit off (take (m_size b - (off + k)) (drop (off + k) m)) m"
  have mv: "mem_move off (off + k) (m_size b - (off + k)) m = Some m'"
    using assms(2) sizes by (simp add: m'_def)
  have len': "length m' = length m"
    using assms(2) sizes by (simp add: m'_def)
  from mv assms wf sizes sub have r: "r = Ret ()"
    and b': "b' = b\<lparr>m_data := (case m_data b of None \<Rightarrow> None | Some _ \<Rightarrow> Some m'), m_size := m_size b - k\<rparr>"
    by (auto simp: buf_erase_def m_def)
  have "buffer_wf b'"
    using assms(1) len' sizes by (auto simp: b' buffer_wf_def split: option.splits)
  moreover have "contents b' = take off (contents b) @ drop (off + k) (contents b)"
  proof (cases "m_data b")
    case None
    with wf assms(2) show ?thesis by (simp add: b' buf_to_string_def)
  next
    case (Some x)
    with erase_block [OF assms(2) sizes(2)] show ?thesis
      by (simp add: b' buf_to_string_def m'_def m_def)
  qed
  ultimately show ?thesis using r b' by simp
qed


lemma src_at_block [simp]: "the_block (src_at off b) = drop off (the_block (m_data b))"
  by (simp add: src_at_def the_block_def split: option.splits)

lemma take_block_contents:
  assumes "off + k \<le> m_size b"
  shows "take k (drop off (the_block (m_data b))) = take k (drop off (contents b))"
  using assms by (simp add: buf_to_string_def drop_take min_def)

lemma assign_then_erase_spec:
  assumes "buffer_wf b" and "buffer_wf dst" and "off + k \<le> m_size b"
    and "assign_then_erase A off k b dst = (r, b', dst')"
  shows "buffer_wf b' \<and> buffer_wf dst'
     \<and> (r = Ret False \<and> b' = b \<and> contents dst' = []
        \<or> r = Ret True \<and> contents dst' = take k (drop off (contents b))
          \<and> contents b' = take off (contents b) @ drop (off + k) (contents b))"
proof -
  note wf = buffer_wfD [OF assms(1)]
  obtain r1 d1 where d1: "buf_assign_nothrow A (src_at off b) k dst = (r1, d1)" by fastforce
  obtain r2 b2 where b2: "buf_erase off k b = (r2, b2)" by fastforce
  have k: "k \<le> size_max" "k \<le> length (the_block (src_at off b))"
    using assms(3) wf by auto
  note a = buf_assign_nothrow_spec [OF assms(2) k d1]
  note e = buf_erase_spec [OF assms(1,3) b2]
  from a show ?thesis
    using e assms(1,4) d1 b2 take_block_contents [OF assms(3)]
    by (auto simp: assign_then_erase_def)
qed

lemma buf_extract_nothrow_spec:
  assumes "buffer_wf b" and "buffer_wf dst" and "off + k \<le> m_size b"
    and "buf_extract_nothrow A off k b dst = (r, b', dst')"
  shows "buffer_wf b' \<and> buffer_wf dst'
     \<and> (r = Ret False \<and> b' = b \<and> contents dst' = []
        \<or> r = Ret True \<and> contents dst' = take k (drop off (contents b))
          \<and> contents b' = take off (contents b) @ drop (off + k) (contents b))"
proof (rule assign_then_erase_spec [OF assms(1-3)])
  have "off + k \<le> size_max" using assms(3) buffer_wfD(6) [OF assms(1)] by simp
  then show "assign_then_erase A off k b dst = (r, b', dst')"
    using assms(3,4) by (simp add: buf_extract_nothrow_def)
qed

lemma buf_copy_range_nothrow_spec:
  assumes "buffer_wf b" and "buffer_wf dst" and "off + k \<le> m_size b"
    and "buf_copy_range_nothrow A off k b dst = (r, dst')"
  shows "buffer_wf dst'
     \<and> (r = Ret False \<and> contents dst' = [] \<or> r = Ret True \<and> contents dst' = take k (drop off (contents b)))"
proof -
  note wf = buffer_wfD [OF assms(1)]
  have k: "k \<le> size_max" "k \<le> length (the_block (src_at off b))" "off + k \<le> size_max"
    using assms(3) wf by auto
  then have "buf_assign_nothrow A (src_at off b) k dst = (r, dst')"
    using assms(3,4) by (simp add: buf_copy_range_nothrow_def)
  from buf_assign_nothrow_spec [OF assms(2) k(1,2) this] take_block_contents [OF assms(3)]
  show ?thesis by auto
qed

lemma buf_copy_nothrow_spec:
  assumes "buffer_wf b" and "buffer_wf dst" and "buf_copy_nothrow A b dst = (r, dst')"
  shows "buffer_wf dst' \<and> (r = Ret False \<and> contents dst' = [] \<or> r = Ret True \<and> contents dst' = contents b)"
  using buf_assign_nothrow_spec [of dst "m_size b" "m_data b" A r dst'] assms buffer_wfD [OF assms(1)]
  by (auto simp: buf_copy_nothrow_def buf_to_string_def)

text \<open>
  Extraction up to a sentinel: either no sentinel occurs from the offset on, then the source
  is untouched and the destination empty, or the bytes up to its first occurrence move.
\<close>

lemma buf_extract_until_nothrow_spec:
  assumes "buffer_wf b" and "buffer_wf dst" and "off \<le> m_size b"
    and "buf_extract_until_nothrow A off pat incl b dst = (r, b', dst')"
  shows "buffer_wf b' \<and> buffer_wf dst' \<and>
     (case view_find pat off (contents b) of
        None \<Rightarrow> r = Ret True \<and> b' = b \<and> contents dst' = []
      | Some p \<Rightarrow>
          let k = p - off + (if incl then length pat else 0)
          in r = Ret False \<and> b' = b \<and> contents dst' = []
             \<or> r = Ret True \<and> contents dst' = take k (drop off (contents b))
               \<and> contents b' = take off (contents b) @ drop (off + k) (contents b))"
proof (cases "view_find pat off (contents b)")
  case None
  with assms show ?thesis
    by (auto simp: buf_extract_until_nothrow_def buf_to_string_def [symmetric])
next
  case (Some p)
  define k where "k = p - off + (if incl then length pat else 0)"
  note f = view_find_Some(1,2) [OF Some]
  have "off + k \<le> m_size b"
    using f assms(1) by (auto simp: k_def)
  moreover have "assign_then_erase A off k b dst = (r, b', dst')"
    using assms(3,4) Some
    by (simp add: buf_extract_until_nothrow_def buf_to_string_def [symmetric] k_def Let_def
        split: if_splits)
  ultimately show ?thesis
    using assign_then_erase_spec [OF assms(1,2)] Some by (simp add: k_def Let_def)
qed

lemma buf_move_assign_spec:
  assumes "buffer_wf this" and "buffer_wf that" and "buf_move_assign this that = (this', that')"
  shows "buffer_wf this' \<and> buffer_wf that' \<and> contents this' = contents that \<and> contents that' = []"
  using assms by (auto simp: buf_move_assign_def buf_reset_def buffer_wf_def buf_to_string_def Let_def)

lemma buf_store_spec:
  assumes "buffer_wf b" and "off + length bs \<le> m_capacity b" and "m_data b \<noteq> None"
  shows "buf_store (Some off) bs b = (Ret (), b\<lparr>m_data := Some (blit off bs (the_block (m_data b)))\<rparr>)"
    and "buffer_wf (b\<lparr>m_data := Some (blit off bs (the_block (m_data b)))\<rparr>)"
  using assms by (auto simp: buf_store_def buffer_wf_def split: option.splits)

text \<open>
  The idiom of the functions that fill a buffer in place: extend it, store through the returned
  pointer, and make the extension part of the contents.  Of the extension, what was not stored
  is whatever the block held.
\<close>

lemma extend_store_resize:
  assumes "buffer_wf b" and "m_size b + n \<le> size_max" and "0 < n" and "length bs \<le> n"
    and "buf_extend_nothrow A n b = (Ret (Some off), b1)"
  shows "\<exists>b2 b3 tl. off = m_size b \<and> m_size b1 = m_size b
    \<and> buf_store (Some off) bs b1 = (Ret (), b2) \<and> m_size b2 = m_size b
    \<and> buf_resize A (m_size b + n) b2 = (Ret (Some 0), b3) \<and> buffer_wf b3
    \<and> contents b3 = contents b @ bs @ tl \<and> length tl = n - length bs"
proof -
  have g: "Grow \<noteq> Shrink" by simp
  from extend_with_spec [OF assms(1) g assms(2)] assms(5)
  have e: "buffer_wf b1" "contents b1 = contents b" "m_size b1 = m_size b" "off = m_size b"
    "m_size b + n \<le> m_capacity b1"
    by (fastforce simp: buf_extend_nothrow_def)+
  note wf1 = buffer_wfD [OF e(1)]
  have some: "m_data b1 \<noteq> None" using wf1(5) e(5) assms(3) by simp
  then obtain m where m: "m_data b1 = Some m" by auto
  have len: "length m = m_capacity b1" using wf1(4) m by simp
  have room: "m_size b + length bs \<le> m_capacity b1" using assms(4) e(5) by simp
  let ?m = "blit (m_size b) bs m"
  let ?b2 = "b1\<lparr>m_data := Some ?m\<rparr>"
  let ?b3 = "?b2\<lparr>m_size := m_size b + n\<rparr>"
  let ?tl = "take (n - length bs) (drop (m_size b + length bs) m)"
  from buf_store_spec [OF e(1) room some] m
  have st: "buf_store (Some (m_size b)) bs b1 = (Ret (), ?b2)" and wf2: "buffer_wf ?b2" by simp_all
  have "buf_resize A (m_size b + n) ?b2 = (Ret (Some 0), ?b3)"
    using e(3,5) wf1(1) assms(3)
    by (simp add: buf_resize_def buf_resize_nothrow_def resize_with_def buf_realloc_def throw_if_null_def buf_data_def)
  moreover have "buffer_wf ?b3" using set_size_wf [OF wf2, of "m_size b + n"] e(5) by simp
  moreover have "contents ?b3 = contents b @ bs @ ?tl"
  proof -
    have "contents b = take (m_size b) m" using e(2,3) m by (simp add: buf_to_string_def)
    moreover have "contents ?b3 = take (m_size b + n) ?m" by (simp add: buf_to_string_def)
    moreover have "take (m_size b + n) ?m = take (m_size b) m @ bs @ ?tl"
      using len room assms(4) by (simp add: blit_def)
    ultimately show ?thesis by simp
  qed
  moreover have "length ?tl = n - length bs" using len e(5) assms(4) by simp
  ultimately show ?thesis using st e(3,4) by auto
qed

section \<open>Programs over two buffers\<close>

text \<open>
  The public operations as commands.  The first buffer is the object of the call and the
  second the other object that \<open>copy\<close>, \<open>extract\<close> and the move work on; \<open>Other\<close> exchanges
  the two roles, so that every sequence of calls on two buffers is a list of commands.
\<close>

datatype buffer_cmd =
    Reset | Clear | Shrink_to_fit
  | Reserve nat | ReserveZeroed nat
  | Extend nat | ExtendZeroed nat
  | Resize nat | ResizeZeroed nat
  | Assign "u8 list" | Append "u8 list" | Insert nat "u8 list" | InsertSpace nat nat
  | Erase nat nat
  | CopyTo | CopyRangeTo nat nat
  | ExtractTo nat nat | ExtractUntilTo nat "u8 list" bool
  | MoveTo | Other

definition on_first :: "'a res \<times> buffer \<Rightarrow> buffer \<Rightarrow> unit res \<times> buffer \<times> buffer" where
  "on_first r d = (map_res (\<lambda>_. ()) (fst r), snd r, d)"

definition on_second :: "buffer \<Rightarrow> 'a res \<times> buffer \<Rightarrow> unit res \<times> buffer \<times> buffer" where
  "on_second b r = (map_res (\<lambda>_. ()) (fst r), b, snd r)"

fun exec_cmd :: "allocator \<Rightarrow> buffer_cmd \<Rightarrow> buffer \<times> buffer \<Rightarrow> unit res \<times> buffer \<times> buffer" where
  "exec_cmd A Reset (b, d) = (Ret (), buf_reset b, d)"
| "exec_cmd A Clear (b, d) = (Ret (), buf_clear b, d)"
| "exec_cmd A Shrink_to_fit (b, d) = on_first (buf_shrink A b) d"
| "exec_cmd A (Reserve n) (b, d) = on_first (buf_reserve A n b) d"
| "exec_cmd A (ReserveZeroed n) (b, d) = on_first (buf_reserveZeroed A n b) d"
| "exec_cmd A (Extend n) (b, d) = on_first (buf_extend A n b) d"
| "exec_cmd A (ExtendZeroed n) (b, d) = on_first (buf_extendZeroed A n b) d"
| "exec_cmd A (Resize n) (b, d) = on_first (buf_resize A n b) d"
| "exec_cmd A (ResizeZeroed n) (b, d) = on_first (buf_resizeZeroed A n b) d"
| "exec_cmd A (Assign bs) (b, d) = on_first (buf_assign_view A bs b) d"
| "exec_cmd A (Append bs) (b, d) = on_first (buf_append_view A bs b) d"
| "exec_cmd A (Insert off bs) (b, d) = on_first (buf_insert_view A off bs b) d"
| "exec_cmd A (InsertSpace off k) (b, d) = on_first (buf_insert A off None k b) d"
| "exec_cmd A (Erase off k) (b, d) = on_first (buf_erase off k b) d"
| "exec_cmd A CopyTo (b, d) = on_second b (buf_copy_to A b d)"
| "exec_cmd A (CopyRangeTo off k) (b, d) = on_second b (buf_copy_range_to A off k b d)"
| "exec_cmd A (ExtractTo off k) (b, d) = buf_extract_to A off k b d"
| "exec_cmd A (ExtractUntilTo off pat incl) (b, d) = buf_extract_until_to A off pat incl b d"
| "exec_cmd A MoveTo (b, d) = (Ret (), snd (buf_move_assign d b), fst (buf_move_assign d b))"
| "exec_cmd A Other (b, d) = (Ret (), d, b)"

text \<open>
  The abstract machine: two byte strings.  \<open>cmd_pre\<close> is what a caller must see to,
  \<open>cmd_spec\<close> what a call that returns does, \<open>cmd_fail\<close> what a call that throws
  \<open>std::bad_alloc\<close> leaves behind.
\<close>

fun cmd_pre :: "buffer_cmd \<Rightarrow> u8 list \<times> u8 list \<Rightarrow> bool" where
  "cmd_pre (Extend n) (xs, ys) = (length xs + n \<le> size_max)"
| "cmd_pre (ExtendZeroed n) (xs, ys) = (length xs + n \<le> size_max)"
| "cmd_pre (Assign bs) (xs, ys) = (length bs \<le> size_max)"
| "cmd_pre (Append bs) (xs, ys) = (length xs + length bs \<le> size_max)"
| "cmd_pre (Insert off bs) (xs, ys) = (off \<le> length xs \<and> length xs + length bs \<le> size_max)"
| "cmd_pre (InsertSpace off k) (xs, ys) = (off \<le> length xs \<and> length xs + k \<le> size_max)"
| "cmd_pre (Erase off k) (xs, ys) = (off + k \<le> length xs)"
| "cmd_pre (CopyRangeTo off k) (xs, ys) = (off + k \<le> length xs)"
| "cmd_pre (ExtractTo off k) (xs, ys) = (off + k \<le> length xs)"
| "cmd_pre (ExtractUntilTo off pat incl) (xs, ys) = (off \<le> length xs)"
| "cmd_pre c p = True"

definition resized :: "nat \<Rightarrow> u8 list \<Rightarrow> u8 list \<Rightarrow> bool" where
  "resized n xs xs' \<longleftrightarrow>
     length xs' = n \<and> take (min n (length xs)) xs' = take (min n (length xs)) xs"

fun cmd_spec :: "buffer_cmd \<Rightarrow> u8 list \<times> u8 list \<Rightarrow> u8 list \<times> u8 list \<Rightarrow> bool" where
  "cmd_spec Reset (xs, ys) (xs', ys') = (xs' = [] \<and> ys' = ys)"
| "cmd_spec Clear (xs, ys) (xs', ys') = (xs' = [] \<and> ys' = ys)"
| "cmd_spec (Resize n) (xs, ys) (xs', ys') = (resized n xs xs' \<and> ys' = ys)"
| "cmd_spec (ResizeZeroed n) (xs, ys) (xs', ys') = (resized n xs xs' \<and> ys' = ys)"
| "cmd_spec (Assign bs) (xs, ys) (xs', ys') = (xs' = bs \<and> ys' = ys)"
| "cmd_spec (Append bs) (xs, ys) (xs', ys') = (xs' = xs @ bs \<and> ys' = ys)"
| "cmd_spec (Insert off bs) (xs, ys) (xs', ys') = (xs' = take off xs @ bs @ drop off xs \<and> ys' = ys)"
| "cmd_spec (InsertSpace off k) (xs, ys) (xs', ys') = (inserted off None k xs xs' \<and> ys' = ys)"
| "cmd_spec (Erase off k) (xs, ys) (xs', ys') = (xs' = take off xs @ drop (off + k) xs \<and> ys' = ys)"
| "cmd_spec CopyTo (xs, ys) (xs', ys') = (xs' = xs \<and> ys' = xs)"
| "cmd_spec (CopyRangeTo off k) (xs, ys) (xs', ys') = (xs' = xs \<and> ys' = take k (drop off xs))"
| "cmd_spec (ExtractTo off k) (xs, ys) (xs', ys') =
     (xs' = take off xs @ drop (off + k) xs \<and> ys' = take k (drop off xs))"
| "cmd_spec (ExtractUntilTo off pat incl) (xs, ys) (xs', ys') =
     (case view_find pat off xs of
        None \<Rightarrow> xs' = xs \<and> ys' = []
      | Some p \<Rightarrow>
          (let k = p - off + (if incl then length pat else 0)
           in xs' = take off xs @ drop (off + k) xs \<and> ys' = take k (drop off xs)))"
| "cmd_spec MoveTo (xs, ys) (xs', ys') = (xs' = [] \<and> ys' = xs)"
| "cmd_spec Other (xs, ys) (xs', ys') = (xs' = ys \<and> ys' = xs)"
| "cmd_spec c (xs, ys) (xs', ys') = (xs' = xs \<and> ys' = ys)"

fun cmd_fail :: "buffer_cmd \<Rightarrow> u8 list \<times> u8 list \<Rightarrow> u8 list \<times> u8 list \<Rightarrow> bool" where
  "cmd_fail (Assign bs) (xs, ys) (xs', ys') = (xs' = [] \<and> ys' = ys)"
| "cmd_fail CopyTo (xs, ys) (xs', ys') = (xs' = xs \<and> ys' = [])"
| "cmd_fail (CopyRangeTo off k) (xs, ys) (xs', ys') = (xs' = xs \<and> ys' = [])"
| "cmd_fail (ExtractTo off k) (xs, ys) (xs', ys') = (xs' = xs \<and> ys' = [])"
| "cmd_fail (ExtractUntilTo off pat incl) (xs, ys) (xs', ys') = (xs' = xs \<and> ys' = [])"
| "cmd_fail c (xs, ys) (xs', ys') = (xs' = xs \<and> ys' = ys)"

definition buffers_wf :: "buffer \<times> buffer \<Rightarrow> bool" where
  "buffers_wf p \<longleftrightarrow> buffer_wf (fst p) \<and> buffer_wf (snd p)"

abbreviation contents2 :: "buffer \<times> buffer \<Rightarrow> u8 list \<times> u8 list" where
  "contents2 p \<equiv> (contents (fst p), contents (snd p))"

text \<open>The simulation diagram, stated for one command.\<close>

definition simulates :: "buffer_cmd \<Rightarrow> buffer \<times> buffer \<Rightarrow> unit res \<times> buffer \<times> buffer \<Rightarrow> bool" where
  "simulates c p rp' \<longleftrightarrow>
     buffers_wf (snd rp') \<and>
     (fst rp' = Ret () \<and> cmd_spec c (contents2 p) (contents2 (snd rp'))
      \<or> fst rp' = Throw Bad_Alloc \<and> cmd_fail c (contents2 p) (contents2 (snd rp')))"


lemma reserve_throwing:
  assumes "buffer_wf b" and "type \<noteq> Shrink"
    and "throw_if_null n (reserve_with type A n b) = (r, b')"
  shows "buffer_wf b' \<and> contents b' = contents b \<and> ((\<exists>p. r = Ret p) \<or> r = Throw Bad_Alloc)"
proof -
  obtain r1 b1 where c: "reserve_with type A n b = (r1, b1)" by fastforce
  from reserve_with_spec [OF assms(1,2) c] throw_if_null_cases [of n r1 b1 r b'] c assms(3)
  show ?thesis by auto
qed

lemma extend_throwing:
  assumes "buffer_wf b" and "type \<noteq> Shrink" and "m_size b + n \<le> size_max"
    and "throw_if_null n (extend_with type A n b) = (r, b')"
  shows "buffer_wf b' \<and> contents b' = contents b \<and> ((\<exists>p. r = Ret p) \<or> r = Throw Bad_Alloc)"
proof -
  obtain r1 b1 where c: "extend_with type A n b = (r1, b1)" by fastforce
  from extend_with_spec [OF assms(1-3) c] throw_if_null_cases [of n r1 b1 r b'] c assms(4)
  show ?thesis by auto
qed

lemma resize_throwing:
  assumes "buffer_wf b" and "type \<noteq> Shrink"
    and "throw_if_null n (resize_with type A n b) = (r, b')"
  shows "buffer_wf b' \<and> ((\<exists>p. r = Ret p) \<and> resized n (contents b) (contents b')
     \<or> r = Throw Bad_Alloc \<and> b' = b)"
proof -
  obtain r1 b1 where c: "resize_with type A n b = (r1, b1)" by fastforce
  from resize_with_spec [OF assms(1,2) c] throw_if_null_cases [of n r1 b1 r b'] c assms(1,3)
  show ?thesis by (auto simp: resized_def)
qed

lemmas throwing_defs =
  buf_reserve_def buf_reserve_nothrow_def buf_reserveZeroed_def buf_reserveZeroed_nothrow_def
  buf_extend_def buf_extend_nothrow_def buf_extendZeroed_def buf_extendZeroed_nothrow_def
  buf_resize_def buf_resize_nothrow_def buf_resizeZeroed_def buf_resizeZeroed_nothrow_def

lemma simulates_first:
  assumes "buffer_wf d"
    and "\<And>r b'. op = (r, b') \<Longrightarrow> buffer_wf b' \<and>
           ((\<exists>v. r = Ret v) \<and> cmd_spec c (contents b, contents d) (contents b', contents d)
            \<or> r = Throw Bad_Alloc \<and> cmd_fail c (contents b, contents d) (contents b', contents d))"
  shows "simulates c (b, d) (on_first op d)"
  using assms by (cases op) (fastforce simp: simulates_def on_first_def buffers_wf_def)

lemma simulates_second:
  assumes "buffer_wf b"
    and "\<And>r d'. op = (r, d') \<Longrightarrow> buffer_wf d' \<and>
           ((\<exists>v. r = Ret v) \<and> cmd_spec c (contents b, contents d) (contents b, contents d')
            \<or> r = Throw Bad_Alloc \<and> cmd_fail c (contents b, contents d) (contents b, contents d'))"
  shows "simulates c (b, d) (on_second b op)"
  using assms by (cases op) (fastforce simp: simulates_def on_second_def buffers_wf_def)

lemma throw_if_false2_cases:
  assumes "throw_if_false2 (r, p) = (r', p')"
  shows "p' = p \<and> (r = Ret True \<and> r' = Ret () \<or> r = Ret False \<and> r' = Throw Bad_Alloc
     \<or> (\<exists>e. r = Throw e \<and> r' = Throw e) \<or> (\<exists>f. r = Fault f \<and> r' = Fault f))"
  using assms by (cases r) (auto simp: throw_if_false2_def split: if_splits)

lemma sim_copy_to:
  assumes "buffer_wf b" and "buffer_wf d"
  shows "simulates CopyTo (b, d) (exec_cmd A CopyTo (b, d))"
proof -
  obtain r1 d1 where c: "buf_copy_nothrow A b d = (r1, d1)" by fastforce
  note s = buf_copy_nothrow_spec [OF assms c]
  show ?thesis
    using assms(1) s c
    by (auto simp: buf_copy_to_def intro!: simulates_second dest!: throw_if_false_cases)
qed

lemma sim_copy_range_to:
  assumes "buffer_wf b" and "buffer_wf d" and "off + k \<le> m_size b"
  shows "simulates (CopyRangeTo off k) (b, d) (exec_cmd A (CopyRangeTo off k) (b, d))"
proof -
  obtain r1 d1 where c: "buf_copy_range_nothrow A off k b d = (r1, d1)" by fastforce
  note s = buf_copy_range_nothrow_spec [OF assms c]
  show ?thesis
    using assms(1) s c
    by (auto simp: buf_copy_range_to_def intro!: simulates_second dest!: throw_if_false_cases)
qed

lemma sim_extract_to:
  assumes "buffer_wf b" and "buffer_wf d" and "off + k \<le> m_size b"
  shows "simulates (ExtractTo off k) (b, d) (exec_cmd A (ExtractTo off k) (b, d))"
proof -
  obtain r1 b1 d1 where c: "buf_extract_nothrow A off k b d = (r1, b1, d1)"
    using prod_cases3 by blast
  obtain r p where e: "throw_if_false2 (r1, b1, d1) = (r, p)"
    by (cases "throw_if_false2 (r1, b1, d1)") blast
  from buf_extract_nothrow_spec [OF assms c] throw_if_false2_cases [OF e] c e
  show ?thesis by (auto simp: buf_extract_to_def simulates_def buffers_wf_def)
qed

lemma sim_extract_until_to:
  assumes "buffer_wf b" and "buffer_wf d" and "off \<le> m_size b"
  shows "simulates (ExtractUntilTo off pat incl) (b, d) (exec_cmd A (ExtractUntilTo off pat incl) (b, d))"
proof -
  obtain r1 b1 d1 where c: "buf_extract_until_nothrow A off pat incl b d = (r1, b1, d1)"
    using prod_cases3 by blast
  obtain r p where e: "throw_if_false2 (r1, b1, d1) = (r, p)"
    by (cases "throw_if_false2 (r1, b1, d1)") blast
  note s = buf_extract_until_nothrow_spec [OF assms c] and t = throw_if_false2_cases [OF e]
  show ?thesis
  proof (cases "view_find pat off (contents b)")
    case None
    with s t c e show ?thesis
      by (auto simp: buf_extract_until_to_def simulates_def buffers_wf_def)
  next
    case (Some q)
    with s t c e show ?thesis
      by (auto simp: buf_extract_until_to_def simulates_def buffers_wf_def Let_def)
  qed
qed

lemma sim_move_to:
  assumes "buffer_wf b" and "buffer_wf d"
  shows "simulates MoveTo (b, d) (exec_cmd A MoveTo (b, d))"
  using buf_move_assign_spec [OF assms(2,1), of "fst (buf_move_assign d b)" "snd (buf_move_assign d b)"]
  by (simp add: simulates_def buffers_wf_def)

lemma exec_cmd_simulates:
  assumes "buffers_wf p" and "cmd_pre c (contents2 p)"
  shows "simulates c p (exec_cmd A c p)"
proof -
  obtain b d where p: "p = (b, d)" by fastforce
  have wf: "buffer_wf b" "buffer_wf d" using assms(1) p by (simp_all add: buffers_wf_def)
  have grow: "Grow \<noteq> Shrink" "GrowZeroed \<noteq> Shrink" by simp_all
  show ?thesis
  proof (cases c)
    case Shrink_to_fit
    then show ?thesis
      using p wf(2) buf_shrink_spec [OF wf(1)] by (auto intro!: simulates_first)
  next
    case (Reserve n)
    then show ?thesis
      using p wf(2) reserve_throwing [OF wf(1) grow(1)]
      by (fastforce simp: throwing_defs intro!: simulates_first)
  next
    case (ReserveZeroed n)
    then show ?thesis
      using p wf(2) reserve_throwing [OF wf(1) grow(2)]
      by (fastforce simp: throwing_defs intro!: simulates_first)
  next
    case (Extend n)
    then show ?thesis
      using p assms(2) wf extend_throwing [OF wf(1) grow(1)]
      by (fastforce simp: throwing_defs intro!: simulates_first)
  next
    case (ExtendZeroed n)
    then show ?thesis
      using p assms(2) wf extend_throwing [OF wf(1) grow(2)]
      by (fastforce simp: throwing_defs intro!: simulates_first)
  next
    case (Resize n)
    then show ?thesis
      using p wf(2) resize_throwing [OF wf(1) grow(1)]
      by (fastforce simp: throwing_defs intro!: simulates_first)
  next
    case (ResizeZeroed n)
    then show ?thesis
      using p wf(2) resize_throwing [OF wf(1) grow(2)]
      by (fastforce simp: throwing_defs intro!: simulates_first)
  next
    case (Assign bs)
    then show ?thesis
      using p assms(2) wf(2) buf_assign_spec [OF wf(1), of "length bs" "Some bs" A]
      by (fastforce simp: buf_assign_view_def intro!: simulates_first)
  next
    case (Append bs)
    then show ?thesis
      using p assms(2) wf buf_append_spec [OF wf(1), of "length bs" bs A]
      by (fastforce simp: buf_append_view_def intro!: simulates_first)
  next
    case (Insert off bs)
    then show ?thesis
      using p assms(2) wf buf_insert_spec [OF wf(1), of off "length bs" "Some bs" A]
      by (fastforce simp: buf_insert_view_def intro!: simulates_first dest: inserted_Some)
  next
    case (InsertSpace off k)
    then show ?thesis
      using p assms(2) wf buf_insert_spec [OF wf(1), of off k None A]
      by (fastforce intro!: simulates_first)
  next
    case (Erase off k)
    then show ?thesis
      using p assms(2) wf buf_erase_spec [OF wf(1), of off k]
      by (fastforce intro!: simulates_first)
  next
    case CopyTo then show ?thesis using p wf sim_copy_to by simp
  next
    case (CopyRangeTo off k) then show ?thesis using p wf assms(2) sim_copy_range_to by simp
  next
    case (ExtractTo off k) then show ?thesis using p wf assms(2) sim_extract_to by simp
  next
    case (ExtractUntilTo off pat incl)
    then show ?thesis using p wf assms(2) sim_extract_until_to by simp
  next
    case MoveTo then show ?thesis using p wf sim_move_to by simp
  qed (use p wf in \<open>simp_all add: simulates_def buffers_wf_def\<close>)
qed

text \<open>
  The pairs of buffers a program can have: two constructed buffers, then any commands whose
  preconditions the program sees to, with whatever allocator behaviour at each of them, and
  going on after an exception.
\<close>

inductive buffers_reachable :: "buffer \<times> buffer \<Rightarrow> bool" where
  constructed: "m1 \<le> size_max \<Longrightarrow> m2 \<le> size_max \<Longrightarrow>
     buf_ctor_max A1 n1 m1 = (Ret p1, b) \<Longrightarrow> buf_ctor_max A2 n2 m2 = (Ret p2, d) \<Longrightarrow>
     buffers_reachable (b, d)"
| command: "buffers_reachable p \<Longrightarrow> cmd_pre c (contents2 p) \<Longrightarrow> exec_cmd A c p = (r, p') \<Longrightarrow>
     buffers_reachable p'"

lemma buf_ctor_max_spec:
  assumes "m \<le> size_max" and "buf_ctor_max A n m = (r, b)"
  shows "buffer_wf b \<and> contents b = []"
proof -
  have wf: "buffer_wf (empty_buffer\<lparr>m_maximum := m\<rparr>)"
    using assms(1) by (simp add: buffer_wf_def empty_buffer_def)
  have c: "contents (empty_buffer\<lparr>m_maximum := m\<rparr>) = []"
    by (simp add: buf_to_string_def empty_buffer_def)
  show ?thesis
    using reserve_throwing [OF wf, of Grow "min n m" A r b] assms(2) c
    by (simp add: buf_ctor_max_def throwing_defs)
qed

lemma buffers_reachable_wf: "buffers_reachable p \<Longrightarrow> buffers_wf p"
proof (induction rule: buffers_reachable.induct)
  case (constructed m1 m2 A1 n1 p1 b A2 n2 p2 d)
  then show ?case
    using buf_ctor_max_spec by (fastforce simp: buffers_wf_def)
next
  case (command p c A r p')
  then show ?case
    using exec_cmd_simulates [of p c A] by (simp add: simulates_def)
qed


lemma realloc_zeroed:
  assumes "buffer_wf b" and "m_capacity b < capacity" and "buf_realloc A capacity GrowZeroed b = (True, b')"
  shows "drop (m_capacity b) (the_block (m_data b')) = replicate (capacity - m_capacity b) 0"
    and "m_capacity b' = capacity"
proof -
  note wf = buffer_wfD [OF assms(1)]
  from assms(2,3) obtain m where m: "os_realloc A (m_data b) capacity = Some m"
    and b': "b' = b\<lparr>m_data := Some (blit (m_capacity b) (replicate (capacity - m_capacity b) 0) m),
                    m_capacity := capacity, m_size := min (m_size b) capacity\<rparr>"
    by (auto simp: buf_realloc_def split: if_splits option.splits)
  from os_realloc_Some [OF m] have "length m = capacity" by simp
  with assms(2) show "drop (m_capacity b) (the_block (m_data b')) = replicate (capacity - m_capacity b) 0"
    by (simp add: b' blit_def)
  show "m_capacity b' = capacity" by (simp add: b')
qed

section \<open>Properties\<close>

text \<open>
  C1.  Every pair of buffers a program can reach is well-formed: the size is within the
  capacity, the capacity within the maximum, the pointer is null exactly when the capacity is
  0 and otherwise points to a block of exactly the capacity.
\<close>

theorem reachable_buffers_well_formed:
  assumes "buffers_reachable (b, d)"
  shows "buffer_wf b \<and> buffer_wf d"
  using buffers_reachable_wf [OF assms] by (simp add: buffers_wf_def)

definition ample :: allocator where
  "ample = \<lparr>grants = (\<lambda>_. True), junk = (\<lambda>_. 255)\<rparr>"

lemma buf_ctor_max_0: "buf_ctor_max A 0 m = (Ret None, empty_buffer\<lparr>m_maximum := m\<rparr>)"
  by (simp add: buf_ctor_max_def throwing_defs throw_if_null_def reserve_with_def buf_realloc_def
      empty_buffer_def buf_data_def)

lemma empty_buffers_reachable: "buffers_reachable (empty_buffer, empty_buffer)"
proof -
  have "buf_ctor_max ample 0 size_max = (Ret None, empty_buffer)"
    by (simp add: buf_ctor_max_0 empty_buffer_def InfiniteCapacity_def)
  from buffers_reachable.constructed [OF order_refl order_refl this this] show ?thesis .
qed

theorem reachable_buffers_well_formed_witness:
  "buffer_wf (snd (buf_reserve ample 3 empty_buffer)) \<and> buffer_wf empty_buffer"
proof (rule reachable_buffers_well_formed)
  show "buffers_reachable (snd (buf_reserve ample 3 empty_buffer), empty_buffer)"
    by (rule buffers_reachable.command [OF empty_buffers_reachable, of "Reserve 3" ample])
      (auto simp: on_first_def)
qed

text \<open>
  C2.  The buffer refines a byte string.  On a reachable pair of buffers and with the
  caller's preconditions met, no operation reads or writes outside a block or fails an
  assertion: it either returns, and then the contents have changed as the operation's
  specification on byte strings says, or it throws \<open>std::bad_alloc\<close>, and then the contents
  are unchanged, except that \<open>assign\<close>, \<open>copy\<close> and \<open>extract\<close> leave their target empty.
\<close>

theorem buffer_refines_byte_string:
  assumes "buffers_reachable p" and "cmd_pre c (contents2 p)" and "exec_cmd A c p = (r, p')"
  shows "r = Ret () \<and> cmd_spec c (contents2 p) (contents2 p')
     \<or> r = Throw Bad_Alloc \<and> cmd_fail c (contents2 p) (contents2 p')"
  using exec_cmd_simulates [OF buffers_reachable_wf [OF assms(1)] assms(2), of A] assms(3)
  by (simp add: simulates_def)

theorem buffer_refines_byte_string_witness:
  "\<exists>r p'. exec_cmd ample (Append [1, 2]) (empty_buffer, empty_buffer) = (r, p') \<and>
     (r = Ret () \<and> cmd_spec (Append [1, 2]) ([], []) (contents2 p')
      \<or> r = Throw Bad_Alloc \<and> cmd_fail (Append [1, 2]) ([], []) (contents2 p'))"
proof -
  obtain r p' where e: "exec_cmd ample (Append [1, 2]) (empty_buffer, empty_buffer) = (r, p')"
    by (cases "exec_cmd ample (Append [1, 2]) (empty_buffer, empty_buffer)") blast
  have "cmd_pre (Append [1, 2]) (contents2 (empty_buffer, empty_buffer))"
    by (simp add: size_max_def)
  from buffer_refines_byte_string [OF empty_buffers_reachable this e] e show ?thesis by auto
qed

text \<open>
  Extracting a range and inserting it again at the same offset restores the contents:
  \<open>extract\<close> moves exactly the bytes it removes.
\<close>

theorem extract_then_insert_restores:
  assumes "buffer_wf b" and "buffer_wf dst" and "off + k \<le> m_size b"
    and "buf_extract_to A off k b dst = (Ret (), b', dst')"
    and "buf_insert_view A' off (contents dst') b' = (Ret (), b'')"
  shows "contents b'' = contents b"
proof -
  obtain r1 p1 where c: "buf_extract_nothrow A off k b dst = (r1, p1)"
    by (cases "buf_extract_nothrow A off k b dst") blast
  then have "throw_if_false2 (r1, p1) = (Ret (), b', dst')"
    using assms(4) by (simp add: buf_extract_to_def)
  from throw_if_false2_cases [OF this] c
  have "buf_extract_nothrow A off k b dst = (Ret True, b', dst')" by auto
  note x = buf_extract_nothrow_spec [OF assms(1-3) this]
  then have wf': "buffer_wf b'" and off: "off \<le> m_size b'"
    and room: "m_size b' + length (contents dst') \<le> size_max"
    using assms(1,3) buffer_wfD(6) [OF assms(1)] length_contents [of b'] length_contents [of b]
    by auto
  have "inserted off (Some (contents dst')) (length (contents dst')) (contents b') (contents b'')"
    using buf_insert_spec [OF wf' off room, of "Some (contents dst')" A' "Ret ()" b''] assms(5)
    by (simp add: buf_insert_view_def)
  then have "contents b'' = take off (contents b') @ contents dst' @ drop off (contents b')"
    by (auto dest: inserted_Some)
  also have "\<dots> = take off (contents b) @ take k (drop off (contents b)) @ drop (off + k) (contents b)"
    using x assms(1,3) by (simp add: min_def)
  also have "\<dots> = contents b"
    by (metis add.commute append_take_drop_id drop_drop)
  finally show ?thesis .
qed

theorem extract_then_insert_restores_witness:
  "\<exists>b b' dst' b''. contents b = [7, 8, 9]
     \<and> buf_extract_to ample 1 1 b empty_buffer = (Ret (), b', dst')
     \<and> buf_insert_view ample 1 (contents dst') b' = (Ret (), b'') \<and> contents b'' = contents b"
proof -
  let ?b = "\<lparr>m_data = Some [7, 8, 9], m_maximum = 9, m_capacity = 3, m_size = 3\<rparr> :: buffer"
  let ?b' = "\<lparr>m_data = Some [7, 9, 9], m_maximum = 9, m_capacity = 3, m_size = 2\<rparr> :: buffer"
  let ?d = "\<lparr>m_data = Some [8], m_maximum = size_max, m_capacity = 1, m_size = 1\<rparr> :: buffer"
  let ?c = "\<lparr>m_data = Some [7, 8, 9], m_maximum = 9, m_capacity = 3, m_size = 3\<rparr> :: buffer"
  have wf: "buffer_wf ?b" "1 + 1 \<le> m_size ?b"
    by (simp_all add: buffer_wf_def size_max_def)
  have e: "buf_extract_to ample 1 1 ?b empty_buffer = (Ret (), ?b', ?d)"
    by code_simp
  have i: "buf_insert_view ample 1 (contents ?d) ?b' = (Ret (), ?c)"
    by code_simp
  have "contents ?b = [7, 8, 9]" by (simp add: buf_to_string_def)
  with extract_then_insert_restores [OF wf(1) empty_buffer_wf wf(2) e i] e i show ?thesis by blast
qed

text \<open>
  Splitting a stream at a sentinel loses nothing: when \<open>extract\<close> with an included
  sentinel returns from the front of the buffer, either the sentinel does not occur at all,
  the buffer is unchanged and the result empty; or the result is a piece that ends in the
  sentinel, holds no earlier occurrence, and followed by what is left gives the old contents.
\<close>

theorem extract_until_splits:
  assumes "buffer_wf b" and "buffer_wf dst"
    and "buf_extract_until_to A 0 pat True b dst = (Ret (), b', dst')"
  shows "(view_find pat 0 (contents b) = None \<and> contents b' = contents b \<and> contents dst' = [])
     \<or> (\<exists>piece. contents dst' = piece @ pat \<and> contents dst' @ contents b' = contents b
         \<and> (\<forall>j < length piece. take (length pat) (drop j (contents b)) \<noteq> pat))"
proof -
  obtain r1 p1 where c: "buf_extract_until_nothrow A 0 pat True b dst = (r1, p1)"
    by (cases "buf_extract_until_nothrow A 0 pat True b dst") blast
  then have "throw_if_false2 (r1, p1) = (Ret (), b', dst')"
    using assms(3) by (simp add: buf_extract_until_to_def)
  from throw_if_false2_cases [OF this] c
  have x: "buf_extract_until_nothrow A 0 pat True b dst = (Ret True, b', dst')" by auto
  note s = buf_extract_until_nothrow_spec [OF assms(1,2) le0 x]
  show ?thesis
  proof (cases "view_find pat 0 (contents b)")
    case None
    with s show ?thesis by simp
  next
    case (Some p)
    note f = view_find_Some [OF Some]
    from s Some have d: "contents dst' = take (p + length pat) (contents b)"
      and b': "contents b' = drop (p + length pat) (contents b)"
      by (simp_all add: Let_def)
    have "contents dst' = take p (contents b) @ pat"
      using f(3) by (simp add: d take_add)
    moreover have "contents dst' @ contents b' = contents b"
      by (simp add: d b')
    moreover have "take (length pat) (drop j (contents b)) \<noteq> pat" if "j < length (take p (contents b))" for j
      using that f(4) [of j] by simp
    ultimately show ?thesis by blast
  qed
qed

theorem extract_until_splits_witness:
  "\<exists>b' dst'. buf_extract_until_to ample 0 [10] True
       \<lparr>m_data = Some [65, 10, 66], m_maximum = 9, m_capacity = 3, m_size = 3\<rparr> empty_buffer = (Ret (), b', dst')
     \<and> contents dst' = [65, 10] \<and> contents dst' @ contents b' = [65, 10, 66]"
proof -
  let ?b = "\<lparr>m_data = Some [65, 10, 66], m_maximum = 9, m_capacity = 3, m_size = 3\<rparr> :: buffer"
  let ?b' = "\<lparr>m_data = Some [66, 10, 66], m_maximum = 9, m_capacity = 3, m_size = 1\<rparr> :: buffer"
  let ?d = "\<lparr>m_data = Some [65, 10], m_maximum = size_max, m_capacity = 2, m_size = 2\<rparr> :: buffer"
  have wf: "buffer_wf ?b" by (simp add: buffer_wf_def size_max_def)
  have e: "buf_extract_until_to ample 0 [10] True ?b empty_buffer = (Ret (), ?b', ?d)"
    by code_simp
  have c: "contents ?b = [65, 10, 66]" "contents ?d = [65, 10]" "contents ?b' = [66]"
    by (simp_all add: buf_to_string_def)
  from extract_until_splits [OF wf empty_buffer_wf e]
  have "contents ?d @ contents ?b' = contents ?b"
    using c by (auto simp: view_find_def)
  with e c show ?thesis by auto
qed

text \<open>
  What \<open>resizeZeroed\<close> zeroes: the bytes past the old capacity are 0, and the bytes of
  the old contents are kept.
\<close>

theorem resizeZeroed_zeroes_past_capacity:
  assumes "buffer_wf b" and "buf_resizeZeroed A n b = (Ret (Some 0), b')"
    and "m_capacity b \<le> i" and "i < n"
  shows "contents b' ! i = 0 \<and> resized n (contents b) (contents b')"
proof -
  have gz: "GrowZeroed \<noteq> Shrink" by simp
  from resize_throwing [OF assms(1) gz, of n A] assms(2)
  have r: "resized n (contents b) (contents b')" by (simp add: throwing_defs)
  obtain ok c where c: "buf_realloc A n GrowZeroed b = (ok, c)" by fastforce
  from assms c buffer_wfD(1) [OF assms(1)] have ok: "ok" and b': "b' = c\<lparr>m_size := n\<rparr>"
    by (auto simp: throwing_defs resize_with_def throw_if_null_def split: if_splits option.splits)
  have cap: "m_capacity b < n" using assms(3,4) by simp
  note z = realloc_zeroed [OF assms(1) cap, of A c]
  have "length (the_block (m_data c)) = n"
    using z c ok realloc_grow [OF assms(1) gz c] buffer_wfD(4) [of c] by simp
  then have "the_block (m_data c) ! i = drop (m_capacity b) (the_block (m_data c)) ! (i - m_capacity b)"
    using assms(3,4) by simp
  also have "\<dots> = 0"
    using z c ok assms(3,4) by simp
  finally have "contents b' ! i = 0"
    using assms(4) by (simp add: b' buf_to_string_def)
  with r show ?thesis by simp
qed

theorem resizeZeroed_zeroes_past_capacity_witness:
  "\<exists>b'. buf_resizeZeroed ample 2 empty_buffer = (Ret (Some 0), b') \<and> contents b' ! 1 = 0"
proof -
  let ?b' = "\<lparr>m_data = Some [0, 0], m_maximum = size_max, m_capacity = 2, m_size = 2\<rparr> :: buffer"
  have e: "buf_resizeZeroed ample 2 empty_buffer = (Ret (Some 0), ?b')"
    by code_simp
  have "m_capacity empty_buffer \<le> 1" by (simp add: empty_buffer_def)
  from resizeZeroed_zeroes_past_capacity [OF empty_buffer_wf e this] e show ?thesis by auto
qed

text \<open>
  What \<open>resizeZeroed\<close> does not zero: growing within the capacity exposes whatever the
  block held there, here a byte 255 that a cleared buffer still has.
\<close>

theorem resizeZeroed_exposes_stale_byte:
  "\<exists>b b'. buffer_wf b \<and> contents b = [] \<and> buf_resizeZeroed ample 1 b = (Ret (Some 0), b')
     \<and> contents b' = [255]"
proof -
  let ?b = "\<lparr>m_data = Some [255], m_maximum = 9, m_capacity = 1, m_size = 0\<rparr> :: buffer"
  have "buf_resizeZeroed ample 1 ?b = (Ret (Some 0), ?b\<lparr>m_size := 1\<rparr>)"
    by code_simp
  moreover have "buffer_wf ?b" by (simp add: buffer_wf_def size_max_def)
  ultimately show ?thesis by (fastforce simp: buf_to_string_def)
qed

text \<open>
  The size arithmetic of \<open>insert\<close> is unchecked: when the sum of the size and the
  inserted length does not fit a \<open>size_t\<close>, the reallocation is asked for the wrapped sum,
  grants it without growing, and the tail move leaves the block.
\<close>

theorem insert_size_overflow_faults:
  assumes "buffer_wf b" and "off \<le> m_size b" and "k \<le> size_max" and "size_limit \<le> m_size b + k"
  shows "fst (buf_insert_nothrow A off src k b) = Fault Out_Of_Bounds"
proof -
  note wf = buffer_wfD [OF assms(1)]
  have w: "size_add (m_size b) k = m_size b + k - size_limit"
    using assms(3,4) wf(6)
    by (simp add: size_add_def size_max_def size_limit_def mod_if)
  have le: "size_add (m_size b) k \<le> m_capacity b"
    using w assms(3) wf(1) by (simp add: size_max_def size_limit_def)
  have k: "k \<noteq> 0" using assms(4) wf(6) by (auto simp: le_size_max_iff)
  have "m_capacity b < off + k + (m_size b - off)"
    using assms(2,4) wf(7) by (simp add: le_size_max_iff)
  then have "mem_move (off + k) off (m_size b - off) (the_block (m_data b)) = None"
    using wf by (auto simp: mem_move_def mem_read_def mem_write_def split: if_splits)
  then show ?thesis
    using assms(2) wf(1) k le by (simp add: buf_insert_nothrow_def buf_realloc_def)
qed

theorem insert_size_overflow_faults_witness:
  "fst (buf_insert_nothrow ample 0 None size_max
     \<lparr>m_data = Some [1], m_maximum = 9, m_capacity = 1, m_size = 1\<rparr>) = Fault Out_Of_Bounds"
  by (rule insert_size_overflow_faults) (simp_all add: buffer_wf_def size_max_def size_limit_def)

end
