(* ===== verification/Source_Sink.thy ===== *)
theory Source_Sink
  imports Buffer
begin

text \<open>
  The byte streams of \<open>include/hlib/source.hpp\<close>, \<open>include/hlib/sink.hpp\<close> and their
  implementations in \<open>src/\<close>.  \<open>Source\<close> and \<open>Sink\<close> are abstract classes over two virtual
  functions each; the virtual functions are the fields of a record (the vtable), so that the
  operations of the base classes are written once, over any vtable, as in the code.

  The adapters over a \<open>Buffer\<close> and over a contiguous standard container are the vtables
  \<open>buffer_sink\<close>, \<open>buffer_source\<close>, \<open>list_sink\<close> and \<open>list_source\<close>.  The locales
  \<open>sink_provider\<close> and \<open>source_provider\<close> state what the base classes rely on; they are
  interpreted on these vtables, and the properties of \<open>produce\<close> and \<open>consume\<close> follow.
\<close>

section \<open>Sinks\<close>

record 's sink_vtable =
  vt_size :: "'s \<Rightarrow> nat"
  vt_resize :: "nat \<Rightarrow> 's \<Rightarrow> ptr res \<times> 's"
  vt_store :: "ptr \<Rightarrow> u8 list \<Rightarrow> 's \<Rightarrow> unit res \<times> 's"

text \<open>
  \<open>vt_size\<close> and \<open>vt_resize\<close> are the two virtual functions; \<open>vt_store\<close> is the effect of
  storing bytes through the pointer that \<open>vt_resize\<close> returned.
\<close>

record 's sink =
  sk_maximum :: nat
  sk_impl :: 's

definition MinimalCapacity :: nat where
  "MinimalCapacity = 0"

definition lift_impl :: "'s sink \<Rightarrow> 'a res \<times> 's \<Rightarrow> 'a res \<times> 's sink" where
  "lift_impl k r = (fst r, k\<lparr>sk_impl := snd r\<rparr>)"

definition sink_full :: "'s sink_vtable \<Rightarrow> 's sink \<Rightarrow> bool" where
  "sink_full V k \<longleftrightarrow> MinimalCapacity = sk_maximum k \<or> vt_size V (sk_impl k) = sk_maximum k"

definition sink_headroom :: "'s sink_vtable \<Rightarrow> 's sink \<Rightarrow> nat res" where
  "sink_headroom V k =
     (if \<not> MinimalCapacity \<noteq> sk_maximum k then Fault Assert_Failed
      else if \<not> vt_size V (sk_impl k) \<le> sk_maximum k then Fault Assert_Failed
      else Ret (sk_maximum k - vt_size V (sk_impl k)))"

definition sink_headroom_limit :: "'s sink_vtable \<Rightarrow> nat \<Rightarrow> 's sink \<Rightarrow> nat res" where
  "sink_headroom_limit V limit k =
     (if MinimalCapacity = sk_maximum k then Ret (size_add (vt_size V (sk_impl k)) limit)
      else map_res (\<lambda>h. min h limit) (sink_headroom V k))"

definition sink_produce :: "'s sink_vtable \<Rightarrow> nat \<Rightarrow> 's sink \<Rightarrow> ptr res \<times> 's sink" where
  "sink_produce V n k =
     (if \<not> (MinimalCapacity = sk_maximum k \<or> size_add (vt_size V (sk_impl k)) n \<le> sk_maximum k)
      then (Fault Assert_Failed, k)
      else let before_resize = vt_size V (sk_impl k)
           in and_then (lift_impl k (vt_resize V (size_add before_resize n) (sk_impl k)))
                (\<lambda>p k'. (Ret (map_option (\<lambda>off. off + before_resize) p), k')))"

definition sink_produce_bytes :: "'s sink_vtable \<Rightarrow> u8 list \<Rightarrow> nat \<Rightarrow> 's sink \<Rightarrow> nat res \<times> 's sink" where
  "sink_produce_bytes V bs n k =
     and_then (sink_produce V n k)
       (\<lambda>p k'. case p of
           None \<Rightarrow> (Ret 0, k')
         | Some off \<Rightarrow>
             (case mem_read 0 n bs of
                None \<Rightarrow> (Fault Out_Of_Bounds, k')
              | Some cs \<Rightarrow>
                  and_then (lift_impl k' (vt_store V (Some off) cs (sk_impl k')))
                    (\<lambda>_ k''. (Ret (vt_size V (sk_impl k'')), k''))))"

subsection \<open>What a sink relies on\<close>

text \<open>
  The contract of the two virtual functions, over the bytes an implementation holds: a
  resize either ends the program (an allocation failure inside a \<open>noexcept\<close> function), or
  keeps the common prefix and returns the start of the bytes; a null pointer is returned
  only for an empty result.
\<close>

locale sink_provider =
  fixes V :: "'s sink_vtable" and inv :: "'s \<Rightarrow> bool" and bytes :: "'s \<Rightarrow> u8 list"
  assumes size_bytes: "inv s \<Longrightarrow> vt_size V s = length (bytes s)"
    and size_bound: "inv s \<Longrightarrow> length (bytes s) \<le> size_max"
    and resize_law: "inv s \<Longrightarrow> n \<le> size_max \<Longrightarrow> vt_resize V n s = (r, s') \<Longrightarrow>
          r = Fault Terminated
          \<or> inv s' \<and> resized n (bytes s) (bytes s') \<and> (r = Ret (Some 0) \<or> r = Ret None \<and> n = 0)"
    and store_law: "inv s \<Longrightarrow> off + length cs \<le> length (bytes s) \<Longrightarrow> vt_store V (Some off) cs s = (q, s') \<Longrightarrow>
          q = Ret () \<and> inv s' \<and> bytes s' = blit off cs (bytes s)"
begin

lemma produce_law:
  assumes "inv (sk_impl k)" and "sk_maximum k = 0 \<or> length (bytes (sk_impl k)) + n \<le> sk_maximum k"
    and "length (bytes (sk_impl k)) + n \<le> size_max" and "sink_produce V n k = (r, k')"
  shows "r = Fault Terminated
     \<or> sk_maximum k' = sk_maximum k \<and> inv (sk_impl k')
       \<and> resized (length (bytes (sk_impl k)) + n) (bytes (sk_impl k)) (bytes (sk_impl k'))
       \<and> (r = Ret (Some (length (bytes (sk_impl k)))) \<or> r = Ret None \<and> n = 0 \<and> bytes (sk_impl k) = [])"
proof -
  let ?len = "length (bytes (sk_impl k))"
  obtain r1 s1 where c: "vt_resize V (?len + n) (sk_impl k) = (r1, s1)" by fastforce
  note law = resize_law [OF assms(1,3) c]
  have p: "sink_produce V n k = and_then (r1, k\<lparr>sk_impl := s1\<rparr>)
      (\<lambda>p k'. (Ret (map_option (\<lambda>off. off + ?len) p), k'))"
    using assms(2,3) c size_bytes [OF assms(1)]
    by (auto simp: sink_produce_def lift_impl_def MinimalCapacity_def)
  from law show ?thesis
    using p assms(4) by auto
qed

text \<open>Producing bytes appends them.\<close>

lemma produce_bytes_law:
  assumes "inv (sk_impl k)" and "sk_maximum k = 0 \<or> length (bytes (sk_impl k)) + n \<le> sk_maximum k"
    and "length (bytes (sk_impl k)) + n \<le> size_max" and "n \<le> length bs"
    and "sink_produce_bytes V bs n k = (r, k')"
  shows "r = Fault Terminated
     \<or> sk_maximum k' = sk_maximum k \<and> inv (sk_impl k')
       \<and> bytes (sk_impl k') = bytes (sk_impl k) @ take n bs \<and> r = Ret (length (bytes (sk_impl k')))"
proof -
  let ?len = "length (bytes (sk_impl k))"
  obtain r1 k1 where c: "sink_produce V n k = (r1, k1)" by fastforce
  from produce_law [OF assms(1-3) c] consider
      (dies) "r1 = Fault Terminated"
    | (null) "r1 = Ret None" "n = 0" "bytes (sk_impl k) = []" "sk_maximum k1 = sk_maximum k"
        "inv (sk_impl k1)" "resized ?len (bytes (sk_impl k)) (bytes (sk_impl k1))"
    | (ok) "r1 = Ret (Some ?len)" "sk_maximum k1 = sk_maximum k" "inv (sk_impl k1)"
        "resized (?len + n) (bytes (sk_impl k)) (bytes (sk_impl k1))"
    by auto
  then show ?thesis
  proof cases
    case dies
    with c assms(5) show ?thesis by (auto simp: sink_produce_bytes_def)
  next
    case null
    with c assms(5) show ?thesis by (auto simp: sink_produce_bytes_def resized_def)
  next
    case ok
    obtain r2 s2 where st: "vt_store V (Some ?len) (take n bs) (sk_impl k1) = (r2, s2)" by fastforce
    have room: "?len + length (take n bs) \<le> length (bytes (sk_impl k1))"
      using ok(4) assms(4) by (simp add: resized_def)
    note law = store_law [OF ok(3) room st]
    have "bytes s2 = take ?len (bytes (sk_impl k1)) @ take n bs"
      using law ok(4) assms(4) by (simp add: blit_def resized_def)
    also have "take ?len (bytes (sk_impl k1)) = bytes (sk_impl k)"
      using ok(4) by (simp add: resized_def)
    finally have "bytes s2 = bytes (sk_impl k) @ take n bs" .
    with c ok law st assms(4,5) size_bytes show ?thesis
      by (auto simp: sink_produce_bytes_def lift_impl_def)
  qed
qed

end

subsection \<open>Adapters\<close>

text \<open>
  \<open>SinkAdapter<Buffer>::resize\<close> calls the throwing \<open>Buffer::resize\<close> and is itself
  \<open>noexcept\<close>.
\<close>

definition buffer_sink_resize :: "allocator \<Rightarrow> nat \<Rightarrow> buffer \<Rightarrow> ptr res \<times> buffer" where
  "buffer_sink_resize A n b =
     noexcept (and_then (buf_resize A n b) (\<lambda>_ b'. (Ret (buf_data b'), b')))"

definition buffer_sink :: "allocator \<Rightarrow> buffer sink_vtable" where
  "buffer_sink A = \<lparr>vt_size = m_size, vt_resize = buffer_sink_resize A, vt_store = buf_store\<rparr>"

text \<open>
  \<open>SinkAdapter\<close> over a standard container of bytes: \<open>resize\<close> cuts or appends zero bytes and
  may fail to allocate; \<open>data\<close> of the non-empty container is its first byte.
\<close>

definition list_sink_resize :: "allocator \<Rightarrow> nat \<Rightarrow> u8 list \<Rightarrow> ptr res \<times> u8 list" where
  "list_sink_resize A n xs =
     (if length xs < n \<and> \<not> grants A n then (Fault Terminated, xs)
      else let xs' = take n xs @ replicate (n - length xs) 0
           in (Ret (if xs' = [] then None else Some 0), xs'))"

definition list_store :: "ptr \<Rightarrow> u8 list \<Rightarrow> u8 list \<Rightarrow> unit res \<times> u8 list" where
  "list_store p cs xs =
     (case Option.bind p (\<lambda>off. mem_write off cs xs) of
        None \<Rightarrow> (Fault Out_Of_Bounds, xs) | Some xs' \<Rightarrow> (Ret (), xs'))"

definition list_sink :: "allocator \<Rightarrow> u8 list sink_vtable" where
  "list_sink A = \<lparr>vt_size = length, vt_resize = list_sink_resize A, vt_store = list_store\<rparr>"

text \<open>
  The constructor reserves the maximum when it is not infinite, and a move constructs the
  base class anew, so the moved-to sink has the default maximum.
\<close>

definition buffer_sink_ctor :: "allocator \<Rightarrow> nat \<Rightarrow> buffer \<Rightarrow> unit res \<times> buffer sink" where
  "buffer_sink_ctor A maximum data =
     (if InfiniteCapacity \<noteq> maximum
      then and_then (noexcept (lift_impl \<lparr>sk_maximum = maximum, sk_impl = data\<rparr> (buf_reserve A maximum data)))
             (\<lambda>_ k. (Ret (), k))
      else (Ret (), \<lparr>sk_maximum = maximum, sk_impl = data\<rparr>))"

definition sink_move :: "'s sink \<Rightarrow> 's sink" where
  "sink_move that = \<lparr>sk_maximum = MinimalCapacity, sk_impl = sk_impl that\<rparr>"

definition sink_move_assign :: "'s sink \<Rightarrow> 's sink \<Rightarrow> 's sink" where
  "sink_move_assign this that = this\<lparr>sk_impl := sk_impl that\<rparr>"

definition make_shared_sink_buffer :: "allocator \<Rightarrow> nat \<Rightarrow> unit res \<times> buffer sink" where
  "make_shared_sink_buffer A maximum = buffer_sink_ctor A maximum empty_buffer"

lemma buffer_sink_resize_law:
  assumes "buffer_wf b" and "buffer_sink_resize A n b = (r, b')"
  shows "r = Fault Terminated
    \<or> buffer_wf b' \<and> resized n (contents b) (contents b') \<and> (r = Ret (Some 0) \<or> r = Ret None \<and> n = 0)"
proof -
  have g: "Grow \<noteq> Shrink" by simp
  obtain r1 b1 where c: "buf_resize A n b = (r1, b1)" by fastforce
  from resize_throwing [OF assms(1) g, of n A r1 b1] c
  have "buffer_wf b1 \<and> ((\<exists>p. r1 = Ret p) \<and> resized n (contents b) (contents b1) \<or> r1 = Throw Bad_Alloc)"
    by (auto simp: throwing_defs)
  with c assms(2) buffer_wfD [of b1] show ?thesis
    by (auto simp: buffer_sink_resize_def buf_data_def resized_def split: option.splits)
qed

lemma buf_store_law:
  assumes "buffer_wf b" and "off + length cs \<le> length (contents b)" and "buf_store (Some off) cs b = (r, b')"
  shows "r = Ret () \<and> buffer_wf b' \<and> contents b' = blit off cs (contents b)"
proof (cases "m_data b")
  case None
  with assms buffer_wfD [OF assms(1)] show ?thesis
    by (auto simp: buf_store_def buf_to_string_def split: if_splits)
next
  case (Some m)
  note wf = buffer_wfD [OF assms(1)]
  have le: "off + length cs \<le> m_size b" using assms(1,2) by simp
  then have cap: "off + length cs \<le> m_capacity b" using wf by simp
  from buf_store_spec [OF assms(1) cap] Some assms(3)
  have "r = Ret ()" and b': "b' = b\<lparr>m_data := Some (blit off cs m)\<rparr>" and "buffer_wf b'"
    by auto
  moreover have "take (m_size b) (blit off cs m) = blit off cs (take (m_size b) m)"
    using le wf Some by (intro take_blit_within) simp_all
  ultimately show ?thesis using Some by (simp add: b' buf_to_string_def)
qed

interpretation buffer_sink: sink_provider "buffer_sink A" buffer_wf contents
proof (unfold_locales, goal_cases)
  case (1 s) then show ?case by (simp add: buffer_sink_def)
next
  case (2 s) then show ?case by (simp add: buffer_wfD)
next
  case (3 s n r s')
  then have "buffer_sink_resize A n s = (r, s')" by (simp add: buffer_sink_def)
  with 3(1) show ?case by (rule buffer_sink_resize_law)
next
  case (4 s off cs q s')
  then have "buf_store (Some off) cs s = (q, s')" by (simp add: buffer_sink_def)
  with 4(1,2) show ?case by (rule buf_store_law)
qed

interpretation list_sink: sink_provider "list_sink A" "\<lambda>xs. length xs \<le> size_max" "\<lambda>xs. xs"
proof (unfold_locales, goal_cases)
  case (1 s) then show ?case by (simp add: list_sink_def)
next
  case (2 s) then show ?case .
next
  case (3 s n r s')
  then show ?case
    by (auto simp: list_sink_def list_sink_resize_def resized_def min_def Let_def split: if_splits)
next
  case (4 s off cs q s')
  then show ?case by (auto simp: list_sink_def list_store_def)
qed

section \<open>Sources\<close>

record 's source_vtable =
  vs_size :: "'s \<Rightarrow> nat"
  vs_data :: "'s \<Rightarrow> u8 list"

text \<open>\<open>vs_data\<close> is the memory readable from the pointer that \<open>data()\<close> returns.\<close>

record 's source =
  so_progress :: nat
  so_impl :: 's

definition source_available :: "'s source_vtable \<Rightarrow> 's source \<Rightarrow> nat res" where
  "source_available V s =
     (if \<not> so_progress s \<le> vs_size V (so_impl s) then Fault Assert_Failed
      else Ret (vs_size V (so_impl s) - so_progress s))"

definition source_empty :: "'s source_vtable \<Rightarrow> 's source \<Rightarrow> bool res" where
  "source_empty V s =
     (if \<not> so_progress s \<le> vs_size V (so_impl s) then Fault Assert_Failed
      else Ret (so_progress s = vs_size V (so_impl s)))"

text \<open>The pointer that \<open>peek\<close> returns is its offset in the data.\<close>

definition source_peek :: "'s source_vtable \<Rightarrow> nat \<Rightarrow> 's source \<Rightarrow> nat res" where
  "source_peek V n s =
     (if \<not> size_add (so_progress s) n \<le> vs_size V (so_impl s) then Fault Assert_Failed
      else Ret (so_progress s))"

definition source_consume :: "'s source_vtable \<Rightarrow> nat \<Rightarrow> 's source \<Rightarrow> nat res \<times> 's source" where
  "source_consume V n s =
     and_then (source_peek V n s, s)
       (\<lambda>off s'. (Ret off, s'\<lparr>so_progress := size_add (so_progress s') n\<rparr>))"

definition source_read :: "'s source_vtable \<Rightarrow> nat \<Rightarrow> nat \<Rightarrow> 's source \<Rightarrow> u8 list res" where
  "source_read V off n s =
     (case mem_read off n (vs_data V (so_impl s)) of
        None \<Rightarrow> Fault Out_Of_Bounds | Some bs \<Rightarrow> Ret bs)"

definition source_consume_into :: "'s source_vtable \<Rightarrow> nat \<Rightarrow> 's source \<Rightarrow> u8 list res \<times> 's source" where
  "source_consume_into V n s =
     and_then (source_consume V n s) (\<lambda>off s'. (source_read V off n s', s'))"

locale source_provider =
  fixes V :: "'s source_vtable" and inv :: "'s \<Rightarrow> bool" and bytes :: "'s \<Rightarrow> u8 list"
  assumes size_bytes: "inv s \<Longrightarrow> vs_size V s = length (bytes s)"
    and size_bound: "inv s \<Longrightarrow> length (bytes s) \<le> size_max"
    and data_bytes: "inv s \<Longrightarrow> take (length (bytes s)) (vs_data V s) = bytes s"
begin

definition rest :: "'s source \<Rightarrow> u8 list" where
  "rest s = drop (so_progress s) (bytes (so_impl s))"

definition source_inv :: "'s source \<Rightarrow> bool" where
  "source_inv s \<longleftrightarrow> inv (so_impl s) \<and> so_progress s \<le> length (bytes (so_impl s))"

lemma available_law: "source_inv s \<Longrightarrow> source_available V s = Ret (length (rest s))"
  by (simp add: source_available_def source_inv_def rest_def size_bytes)

lemma empty_law: "source_inv s \<Longrightarrow> source_empty V s = Ret (rest s = [])"
  by (auto simp: source_empty_def source_inv_def rest_def size_bytes)

lemma consume_law:
  assumes "source_inv s" and "n \<le> length (rest s)"
  shows "source_consume V n s = (Ret (so_progress s), s\<lparr>so_progress := so_progress s + n\<rparr>)"
proof -
  have "inv (so_impl s)" and le: "so_progress s + n \<le> length (bytes (so_impl s))"
    using assms by (auto simp: source_inv_def rest_def)
  moreover from this have "so_progress s + n \<le> size_max"
    using size_bound order_trans by blast
  ultimately show ?thesis
    by (simp add: source_consume_def source_peek_def size_bytes)
qed

lemma consume_into_law:
  assumes "source_inv s" and "n \<le> length (rest s)"
  shows "\<exists>s'. source_consume_into V n s = (Ret (take n (rest s)), s') \<and> source_inv s'
     \<and> rest s' = drop n (rest s) \<and> so_impl s' = so_impl s"
proof -
  let ?s' = "s\<lparr>so_progress := so_progress s + n\<rparr>"
  have inv: "inv (so_impl s)" and le: "so_progress s + n \<le> length (bytes (so_impl s))"
    using assms by (auto simp: source_inv_def rest_def)
  let ?d = "vs_data V (so_impl s)" and ?len = "length (bytes (so_impl s))"
  note d = data_bytes [OF inv]
  have len: "?len \<le> length ?d" by (metis d length_take min.cobounded1)
  have "take n (drop (so_progress s) ?d) = take n (drop (so_progress s) (take ?len ?d))"
    using le by (simp add: drop_take min_def)
  then have "take n (drop (so_progress s) ?d) = take n (rest s)"
    by (simp add: d rest_def)
  then have "source_consume_into V n s = (Ret (take n (rest s)), ?s')"
    using consume_law [OF assms] le len by (simp add: source_consume_into_def source_read_def)
  moreover have "source_inv ?s' \<and> rest ?s' = drop n (rest s)"
    using inv le by (simp add: source_inv_def rest_def add.commute)
  ultimately show ?thesis by simp
qed

end

definition buffer_source :: "buffer source_vtable" where
  "buffer_source = \<lparr>vs_size = m_size, vs_data = (\<lambda>b. the_block (m_data b))\<rparr>"

definition list_source :: "u8 list source_vtable" where
  "list_source = \<lparr>vs_size = length, vs_data = (\<lambda>xs. xs)\<rparr>"

text \<open>A constructed or moved-to source starts at the beginning; an assignment keeps the target's progress.\<close>

definition make_source :: "'s \<Rightarrow> 's source" where
  "make_source data = \<lparr>so_progress = 0, so_impl = data\<rparr>"

definition source_move :: "'s source \<Rightarrow> 's source" where
  "source_move that = \<lparr>so_progress = 0, so_impl = so_impl that\<rparr>"

definition source_move_assign :: "'s source \<Rightarrow> 's source \<Rightarrow> 's source" where
  "source_move_assign this that = this\<lparr>so_impl := so_impl that\<rparr>"

definition make_shared_source_buffer :: "allocator \<Rightarrow> u8 list \<Rightarrow> unit res \<times> buffer source" where
  "make_shared_source_buffer A view =
     (case buf_ctor_view A view of (r, b) \<Rightarrow> (r, make_source b))"

interpretation buffer_source: source_provider buffer_source buffer_wf contents
  by unfold_locales (simp_all add: buffer_source_def buffer_wfD, simp add: buf_to_string_def)

interpretation list_source: source_provider list_source "\<lambda>xs. length xs \<le> size_max" "\<lambda>xs. xs"
  by unfold_locales (simp_all add: list_source_def)

section \<open>Properties\<close>

fun produce_all :: "'s sink_vtable \<Rightarrow> u8 list list \<Rightarrow> 's sink \<Rightarrow> unit res \<times> 's sink" where
  "produce_all V [] k = (Ret (), k)"
| "produce_all V (c # cs) k =
     and_then (sink_produce_bytes V c (length c) k) (\<lambda>_. produce_all V cs)"

fun consume_all :: "'s source_vtable \<Rightarrow> nat list \<Rightarrow> 's source \<Rightarrow> u8 list res \<times> 's source" where
  "consume_all V [] s = (Ret [], s)"
| "consume_all V (n # ns) s =
     and_then (source_consume_into V n s)
       (\<lambda>bs s'. and_then (consume_all V ns s') (\<lambda>rest s''. (Ret (bs @ rest), s'')))"

context sink_provider
begin

lemma produce_all_law:
  assumes "inv (sk_impl k)"
    and "sk_maximum k = 0 \<or> length (bytes (sk_impl k)) + length (concat cs) \<le> sk_maximum k"
    and "length (bytes (sk_impl k)) + length (concat cs) \<le> size_max"
    and "produce_all V cs k = (r, k')"
  shows "r = Fault Terminated
     \<or> r = Ret () \<and> sk_maximum k' = sk_maximum k \<and> inv (sk_impl k')
       \<and> bytes (sk_impl k') = bytes (sk_impl k) @ concat cs"
  using assms
proof (induction cs arbitrary: k)
  case (Cons c cs)
  obtain r1 k1 where p: "sink_produce_bytes V c (length c) k = (r1, k1)" by fastforce
  have room: "sk_maximum k = 0 \<or> length (bytes (sk_impl k)) + length c \<le> sk_maximum k"
    "length (bytes (sk_impl k)) + length c \<le> size_max"
    using Cons.prems(2,3) by auto
  from produce_bytes_law [OF Cons.prems(1) room le_refl p] Cons.prems p Cons.IH [of k1] show ?case
    by (auto simp: add.assoc)
qed simp

lemma headroom_law:
  assumes "inv (sk_impl k)" and "sk_maximum k \<noteq> 0" and "length (bytes (sk_impl k)) \<le> sk_maximum k"
  shows "sink_headroom V k = Ret (sk_maximum k - length (bytes (sk_impl k)))"
    and "sink_full V k \<longleftrightarrow> length (bytes (sk_impl k)) = sk_maximum k"
  using assms by (auto simp: sink_headroom_def sink_full_def MinimalCapacity_def size_bytes)

end

context source_provider
begin

lemma consume_all_law:
  assumes "source_inv s" and "sum_list ns \<le> length (rest s)"
  shows "\<exists>s'. consume_all V ns s = (Ret (take (sum_list ns) (rest s)), s') \<and> source_inv s'
     \<and> rest s' = drop (sum_list ns) (rest s)"
  using assms
proof (induction ns arbitrary: s)
  case (Cons n ns)
  then obtain s1 where s1: "source_consume_into V n s = (Ret (take n (rest s)), s1)"
    "source_inv s1" "rest s1 = drop n (rest s)"
    using consume_into_law [of s n] by auto
  with Cons obtain s2 where "consume_all V ns s1 = (Ret (take (sum_list ns) (rest s1)), s2)"
    "source_inv s2" "rest s2 = drop (sum_list ns) (rest s1)"
    by fastforce
  with s1 show ?case by (simp add: take_add add.commute)
qed simp

end

text \<open>
  A stream through a buffer: chunks produced into a bounded buffer sink that has room for
  them accumulate in order, the sink's headroom is exactly what is left of its maximum, and a
  source over the same buffer, read in chunks of any sizes, returns the same bytes in order.
\<close>

theorem produced_chunks_are_consumed:
  assumes "buffer_wf b" and "contents b = []" and "length (concat cs) \<le> m" and "m \<le> size_max" and "0 < m"
    and "sum_list ns \<le> length (concat cs)"
    and "produce_all (buffer_sink A) cs \<lparr>sk_maximum = m, sk_impl = b\<rparr> = (r, k)"
  shows "r = Fault Terminated \<or>
    r = Ret () \<and> sink_headroom (buffer_sink A) k = Ret (m - length (concat cs))
      \<and> sink_full (buffer_sink A) k = (length (concat cs) = m)
      \<and> (\<exists>s. consume_all buffer_source ns (make_source (sk_impl k)) = (Ret (take (sum_list ns) (concat cs)), s)
           \<and> source_available buffer_source s = Ret (length (concat cs) - sum_list ns))"
proof -
  let ?k = "\<lparr>sk_maximum = m, sk_impl = b\<rparr>" and ?s = "make_source (sk_impl k)"
  have "r = Fault Terminated \<or> r = Ret () \<and> sk_maximum k = m \<and> buffer_wf (sk_impl k) \<and> contents (sk_impl k) = concat cs"
    using buffer_sink.produce_all_law [of ?k cs A r k] assms by auto
  then consider "r = Fault Terminated"
    | (ok) "r = Ret ()" "sk_maximum k = m" "buffer_wf (sk_impl k)" "contents (sk_impl k) = concat cs" by blast
  then show ?thesis
  proof cases
    case ok
    then have s: "buffer_source.source_inv ?s" "buffer_source.rest ?s = concat cs"
      by (simp_all add: buffer_source.source_inv_def buffer_source.rest_def make_source_def)
    from buffer_source.consume_all_law [OF s(1)] s(2) assms(6) obtain s' where
      "consume_all buffer_source ns ?s = (Ret (take (sum_list ns) (concat cs)), s')"
      "buffer_source.source_inv s'" "buffer_source.rest s' = drop (sum_list ns) (concat cs)" by auto
    with ok buffer_sink.headroom_law [of k A] buffer_source.available_law [of s'] assms(3,5) show ?thesis
      by auto
  qed simp
qed

theorem produced_chunks_are_consumed_witness:
  "\<exists>r k. produce_all (buffer_sink ample) [[1, 2], [3]] \<lparr>sk_maximum = 4, sk_impl = empty_buffer\<rparr> = (r, k)
     \<and> (r = Fault Terminated \<or> sink_headroom (buffer_sink ample) k = Ret 1
         \<and> fst (consume_all buffer_source [1, 1] (make_source (sk_impl k))) = Ret [1, 2])"
proof -
  obtain r k where e: "produce_all (buffer_sink ample) [[1, 2], [3]]
      \<lparr>sk_maximum = 4, sk_impl = empty_buffer\<rparr> = (r, k)"
    by (cases "produce_all (buffer_sink ample) [[1, 2], [3]] \<lparr>sk_maximum = 4, sk_impl = empty_buffer\<rparr>") blast
  have len: "length (concat [[1, 2], [3 :: u8]]) \<le> 4" "sum_list [1, 1] \<le> length (concat [[1, 2], [3 :: u8]])"
    by simp_all
  have m: "4 \<le> size_max" "0 < (4::nat)" by (simp_all add: size_max_def)
  from produced_chunks_are_consumed [OF empty_buffer_wf contents_empty_buffer len(1) m len(2) e] e
  show ?thesis by auto
qed

text \<open>
  What a move keeps.  A moved-to sink holds the data but not the maximum, so it reports
  itself full and its \<open>headroom\<close> fails the assertion; a moved-to source holds the data but
  starts again at its beginning, whatever the moved-from source had consumed; and an assigned
  source keeps its own progress over the new data.
\<close>

theorem moved_adapters_lose_their_state:
  "sink_full V (sink_move k) \<and> sink_headroom V (sink_move k) = Fault Assert_Failed
   \<and> sk_impl (sink_move k) = sk_impl k
   \<and> source_available W (source_move s) = Ret (vs_size W (so_impl s))
   \<and> so_progress (source_move_assign t s) = so_progress t \<and> so_impl (source_move_assign t s) = so_impl s"
  by (simp add: sink_full_def sink_headroom_def sink_move_def source_available_def source_move_def
      source_move_assign_def)

end
