(* ===== verification/Serial.thy ===== *)
theory Serial
  imports Source_Sink
begin

text \<open>
  \<open>include/hlib/serial.hpp\<close>: big-endian (\<open>be\<close>) and little-endian (\<open>le\<close>) encoding of
  scalars, and the \<open>Serializer\<close> and \<open>Deserializer\<close> that run them over a sink and a source.

  Each specialisation of \<open>transform\<close> is one definition, with its shifts as written.  A
  signed integer is the word of its two's complement: \<open>>>\<close> on it is \<open>signed_drop_bit\<close>, and
  the decoders compute in the promoted type (32 bits for the 16-bit types).  A \<open>float\<close> or
  \<open>double\<close> is its bit pattern, which is what the union in the code reads.  The \<open>i\<close>th byte at
  a pointer is the \<open>i\<close>th element of the list; the classes only call the decoders on as many
  bytes as they consumed.

  The locale \<open>scalar_codec\<close> is what the two classes rely on; it is interpreted on every
  encoder/decoder pair.  The round trip of a whole record of fields through a sink and a
  source is then proved once.
\<close>

section \<open>Scalars\<close>

definition byte_of :: "'a::len word \<Rightarrow> u8" where
  "byte_of w = ucast w"

subsection \<open>The namespace \<open>be\<close>\<close>

definition be_put_bool :: "bool \<Rightarrow> u8 list" where
  "be_put_bool v = [if v then 1 else 0]"

definition be_put_i8 :: "u8 \<Rightarrow> u8 list" where
  "be_put_i8 v =
     [byte_of v]"

definition be_put_i16 :: "u16 \<Rightarrow> u8 list" where
  "be_put_i16 v =
     [byte_of (signed_drop_bit 8 v), byte_of (signed_drop_bit 0 v)]"

definition be_put_i32 :: "u32 \<Rightarrow> u8 list" where
  "be_put_i32 v =
     [byte_of (signed_drop_bit 24 v), byte_of (signed_drop_bit 16 v),
      byte_of (signed_drop_bit 8 v), byte_of (signed_drop_bit 0 v)]"

definition be_put_i64 :: "u64 \<Rightarrow> u8 list" where
  "be_put_i64 v =
     [byte_of (signed_drop_bit 56 v), byte_of (signed_drop_bit 48 v),
      byte_of (signed_drop_bit 40 v), byte_of (signed_drop_bit 32 v),
      byte_of (signed_drop_bit 24 v), byte_of (signed_drop_bit 16 v),
      byte_of (signed_drop_bit 8 v), byte_of (signed_drop_bit 0 v)]"

definition be_put_u8 :: "u8 \<Rightarrow> u8 list" where
  "be_put_u8 v =
     [byte_of v]"

definition be_put_u16 :: "u16 \<Rightarrow> u8 list" where
  "be_put_u16 v =
     [byte_of (drop_bit 8 v), byte_of (drop_bit 0 v)]"

definition be_put_u32 :: "u32 \<Rightarrow> u8 list" where
  "be_put_u32 v =
     [byte_of (drop_bit 24 v), byte_of (drop_bit 16 v),
      byte_of (drop_bit 8 v), byte_of (drop_bit 0 v)]"

definition be_put_u64 :: "u64 \<Rightarrow> u8 list" where
  "be_put_u64 v =
     [byte_of (drop_bit 56 v), byte_of (drop_bit 48 v),
      byte_of (drop_bit 40 v), byte_of (drop_bit 32 v),
      byte_of (drop_bit 24 v), byte_of (drop_bit 16 v),
      byte_of (drop_bit 8 v), byte_of (drop_bit 0 v)]"

definition be_put_float :: "u32 \<Rightarrow> u8 list" where
  "be_put_float bits = be_put_u32 bits"

definition be_put_double :: "u64 \<Rightarrow> u8 list" where
  "be_put_double bits = be_put_u64 bits"

definition be_get_bool :: "u8 list \<Rightarrow> bool" where
  "be_get_bool ptr = (ptr ! 0 \<noteq> 0)"

definition be_get_i8 :: "u8 list \<Rightarrow> u8" where
  "be_get_i8 ptr = ptr ! 0"

definition be_get_i16 :: "u8 list \<Rightarrow> u16" where
  "be_get_i16 ptr =
     ucast (push_bit 8 (scast (ucast (ptr ! 0) :: 16 word) :: 32 word) OR push_bit 0 (scast (ucast (ptr ! 1) :: 16 word) :: 32 word))"

definition be_get_i32 :: "u8 list \<Rightarrow> u32" where
  "be_get_i32 ptr =
     push_bit 24 (ucast (ptr ! 0)) OR
     push_bit 16 (ucast (ptr ! 1)) OR
     push_bit 8 (ucast (ptr ! 2)) OR
     push_bit 0 (ucast (ptr ! 3))"

definition be_get_i64 :: "u8 list \<Rightarrow> u64" where
  "be_get_i64 ptr =
     push_bit 56 (ucast (ptr ! 0)) OR
     push_bit 48 (ucast (ptr ! 1)) OR
     push_bit 40 (ucast (ptr ! 2)) OR
     push_bit 32 (ucast (ptr ! 3)) OR
     push_bit 24 (ucast (ptr ! 4)) OR
     push_bit 16 (ucast (ptr ! 5)) OR
     push_bit 8 (ucast (ptr ! 6)) OR
     push_bit 0 (ucast (ptr ! 7))"

definition be_get_u8 :: "u8 list \<Rightarrow> u8" where
  "be_get_u8 ptr = ptr ! 0"

definition be_get_u16 :: "u8 list \<Rightarrow> u16" where
  "be_get_u16 ptr =
     ucast (push_bit 8 (ucast (ucast (ptr ! 0) :: 16 word) :: 32 word) OR push_bit 0 (ucast (ucast (ptr ! 1) :: 16 word) :: 32 word))"

definition be_get_u32 :: "u8 list \<Rightarrow> u32" where
  "be_get_u32 ptr =
     push_bit 24 (ucast (ptr ! 0)) OR
     push_bit 16 (ucast (ptr ! 1)) OR
     push_bit 8 (ucast (ptr ! 2)) OR
     push_bit 0 (ucast (ptr ! 3))"

definition be_get_u64 :: "u8 list \<Rightarrow> u64" where
  "be_get_u64 ptr =
     push_bit 56 (ucast (ptr ! 0)) OR
     push_bit 48 (ucast (ptr ! 1)) OR
     push_bit 40 (ucast (ptr ! 2)) OR
     push_bit 32 (ucast (ptr ! 3)) OR
     push_bit 24 (ucast (ptr ! 4)) OR
     push_bit 16 (ucast (ptr ! 5)) OR
     push_bit 8 (ucast (ptr ! 6)) OR
     push_bit 0 (ucast (ptr ! 7))"

definition be_get_float :: "u8 list \<Rightarrow> u32" where
  "be_get_float ptr = be_get_u32 ptr"

definition be_get_double :: "u8 list \<Rightarrow> u64" where
  "be_get_double ptr = be_get_u64 ptr"

subsection \<open>The namespace \<open>le\<close>\<close>

definition le_put_bool :: "bool \<Rightarrow> u8 list" where
  "le_put_bool v = [if v then 1 else 0]"

definition le_put_i8 :: "u8 \<Rightarrow> u8 list" where
  "le_put_i8 v =
     [byte_of v]"

definition le_put_i16 :: "u16 \<Rightarrow> u8 list" where
  "le_put_i16 v =
     [byte_of (signed_drop_bit 0 v), byte_of (signed_drop_bit 8 v)]"

definition le_put_i32 :: "u32 \<Rightarrow> u8 list" where
  "le_put_i32 v =
     [byte_of (signed_drop_bit 0 v), byte_of (signed_drop_bit 8 v),
      byte_of (signed_drop_bit 16 v), byte_of (signed_drop_bit 24 v)]"

definition le_put_i64 :: "u64 \<Rightarrow> u8 list" where
  "le_put_i64 v =
     [byte_of (signed_drop_bit 0 v), byte_of (signed_drop_bit 8 v),
      byte_of (signed_drop_bit 16 v), byte_of (signed_drop_bit 24 v),
      byte_of (signed_drop_bit 32 v), byte_of (signed_drop_bit 40 v),
      byte_of (signed_drop_bit 48 v), byte_of (signed_drop_bit 56 v)]"

definition le_put_u8 :: "u8 \<Rightarrow> u8 list" where
  "le_put_u8 v =
     [byte_of v]"

definition le_put_u16 :: "u16 \<Rightarrow> u8 list" where
  "le_put_u16 v =
     [byte_of (drop_bit 0 v), byte_of (drop_bit 8 v)]"

definition le_put_u32 :: "u32 \<Rightarrow> u8 list" where
  "le_put_u32 v =
     [byte_of (drop_bit 0 v), byte_of (drop_bit 8 v),
      byte_of (drop_bit 16 v), byte_of (drop_bit 24 v)]"

definition le_put_u64 :: "u64 \<Rightarrow> u8 list" where
  "le_put_u64 v =
     [byte_of (drop_bit 0 v), byte_of (drop_bit 8 v),
      byte_of (drop_bit 16 v), byte_of (drop_bit 24 v),
      byte_of (drop_bit 32 v), byte_of (drop_bit 40 v),
      byte_of (drop_bit 48 v), byte_of (drop_bit 56 v)]"

definition le_put_float :: "u32 \<Rightarrow> u8 list" where
  "le_put_float bits = le_put_u32 bits"

definition le_put_double :: "u64 \<Rightarrow> u8 list" where
  "le_put_double bits = le_put_u64 bits"

definition le_get_bool :: "u8 list \<Rightarrow> bool" where
  "le_get_bool ptr = (ptr ! 0 \<noteq> 0)"

definition le_get_i8 :: "u8 list \<Rightarrow> u8" where
  "le_get_i8 ptr = ptr ! 0"

definition le_get_i16 :: "u8 list \<Rightarrow> u16" where
  "le_get_i16 ptr =
     ucast (push_bit 0 (scast (ucast (ptr ! 0) :: 16 word) :: 32 word) OR push_bit 8 (scast (ucast (ptr ! 1) :: 16 word) :: 32 word))"

definition le_get_i32 :: "u8 list \<Rightarrow> u32" where
  "le_get_i32 ptr =
     push_bit 0 (ucast (ptr ! 0)) OR
     push_bit 8 (ucast (ptr ! 1)) OR
     push_bit 16 (ucast (ptr ! 2)) OR
     push_bit 24 (ucast (ptr ! 3))"

definition le_get_i64 :: "u8 list \<Rightarrow> u64" where
  "le_get_i64 ptr =
     push_bit 0 (ucast (ptr ! 0)) OR
     push_bit 8 (ucast (ptr ! 1)) OR
     push_bit 16 (ucast (ptr ! 2)) OR
     push_bit 24 (ucast (ptr ! 3)) OR
     push_bit 32 (ucast (ptr ! 4)) OR
     push_bit 40 (ucast (ptr ! 5)) OR
     push_bit 48 (ucast (ptr ! 6)) OR
     push_bit 56 (ucast (ptr ! 7))"

definition le_get_u8 :: "u8 list \<Rightarrow> u8" where
  "le_get_u8 ptr = ptr ! 0"

definition le_get_u16 :: "u8 list \<Rightarrow> u16" where
  "le_get_u16 ptr =
     ucast (push_bit 0 (ucast (ucast (ptr ! 0) :: 16 word) :: 32 word) OR push_bit 8 (ucast (ucast (ptr ! 1) :: 16 word) :: 32 word))"

definition le_get_u32 :: "u8 list \<Rightarrow> u32" where
  "le_get_u32 ptr =
     push_bit 0 (ucast (ptr ! 0)) OR
     push_bit 8 (ucast (ptr ! 1)) OR
     push_bit 16 (ucast (ptr ! 2)) OR
     push_bit 24 (ucast (ptr ! 3))"

definition le_get_u64 :: "u8 list \<Rightarrow> u64" where
  "le_get_u64 ptr =
     push_bit 0 (ucast (ptr ! 0)) OR
     push_bit 8 (ucast (ptr ! 1)) OR
     push_bit 16 (ucast (ptr ! 2)) OR
     push_bit 24 (ucast (ptr ! 3)) OR
     push_bit 32 (ucast (ptr ! 4)) OR
     push_bit 40 (ucast (ptr ! 5)) OR
     push_bit 48 (ucast (ptr ! 6)) OR
     push_bit 56 (ucast (ptr ! 7))"

definition le_get_float :: "u8 list \<Rightarrow> u32" where
  "le_get_float ptr = le_get_u32 ptr"

definition le_get_double :: "u8 list \<Rightarrow> u64" where
  "le_get_double ptr = le_get_u64 ptr"

lemmas put_defs =
  byte_of_def
  be_put_i8_def be_put_i16_def be_put_i32_def be_put_i64_def be_put_u8_def be_put_u16_def be_put_u32_def be_put_u64_def be_put_bool_def
  le_put_i8_def le_put_i16_def le_put_i32_def le_put_i64_def le_put_u8_def le_put_u16_def le_put_u32_def le_put_u64_def le_put_bool_def

lemmas get_defs =
  be_get_i8_def be_get_i16_def be_get_i32_def be_get_i64_def be_get_u8_def be_get_u16_def be_get_u32_def be_get_u64_def be_get_bool_def
  le_get_i8_def le_get_i16_def le_get_i32_def le_get_i64_def le_get_u8_def le_get_u16_def le_get_u32_def le_get_u64_def le_get_bool_def

subsection \<open>The contract of an encoder and its decoder\<close>

text \<open>
  A scalar codec writes a fixed number of bytes, and reading them back gives the value.  A
  lossless codec also writes what it read; the encoding of \<open>bool\<close> is not, since every
  non-zero byte reads as true.
\<close>

locale scalar_codec =
  fixes put :: "'a \<Rightarrow> u8 list" and get :: "u8 list \<Rightarrow> 'a" and width :: nat
  assumes length_put: "length (put v) = width"
    and get_put: "get (put v) = v"
begin

lemma put_inj: "put v = put w \<longleftrightarrow> v = w"
  by (metis get_put)

lemma get_put_prefix: "get (take width (put v @ bs)) = v"
  by (simp add: length_put get_put)

end

locale lossless_codec = scalar_codec +
  assumes put_get: "length bs = width \<Longrightarrow> put (get bs) = bs"
begin

lemma get_inj: "length bs = width \<Longrightarrow> length cs = width \<Longrightarrow> get bs = get cs \<longleftrightarrow> bs = cs"
  by (metis put_get)

end

text \<open>Word equality byte by byte, which the proofs of the codecs use.\<close>

lemma byte_index_cases:
  fixes n :: nat
  assumes "n < 8 * k"
  obtains q r where "n = 8 * q + r" and "q < k" and "r < 8"
proof
  show "n = 8 * (n div 8) + n mod 8" by simp
  show "n div 8 < k" using assms by (simp add: less_mult_imp_div_less mult.commute)
  show "n mod 8 < 8" by simp
qed

lemma less_numeral_cases:
  "(q::nat) < 2 \<longleftrightarrow> q = 0 \<or> q = 1"
  "(q::nat) < 4 \<longleftrightarrow> q = 0 \<or> q = 1 \<or> q = 2 \<or> q = 3"
  "(q::nat) < 8 \<longleftrightarrow> q = 0 \<or> q = 1 \<or> q = 2 \<or> q = 3 \<or> q = 4 \<or> q = 5 \<or> q = 6 \<or> q = 7"
  by auto

lemma word16_eqI:
  fixes a b :: "16 word"
  assumes "\<And>r. r < 8 \<Longrightarrow> bit a r = bit b r" and "\<And>r. r < 8 \<Longrightarrow> bit a (8 + r) = bit b (8 + r)"
  shows "a = b"
proof (rule bit_word_eqI)
  fix n assume "n < LENGTH(16)"
  then have "n < 8 * 2" by simp
  then obtain q r where n: "n = 8 * q + r" "q < 2" "r < 8" by (rule byte_index_cases)
  from n(2) show "bit a n = bit b n"
    unfolding less_numeral_cases using assms n(1,3) by auto
qed

lemma word32_eqI:
  fixes a b :: "32 word"
  assumes "\<And>r. r < 8 \<Longrightarrow> bit a r = bit b r" and "\<And>r. r < 8 \<Longrightarrow> bit a (8 + r) = bit b (8 + r)"
    and "\<And>r. r < 8 \<Longrightarrow> bit a (16 + r) = bit b (16 + r)" and "\<And>r. r < 8 \<Longrightarrow> bit a (24 + r) = bit b (24 + r)"
  shows "a = b"
proof (rule bit_word_eqI)
  fix n assume "n < LENGTH(32)"
  then have "n < 8 * 4" by simp
  then obtain q r where n: "n = 8 * q + r" "q < 4" "r < 8" by (rule byte_index_cases)
  from n(2) show "bit a n = bit b n"
    unfolding less_numeral_cases using assms n(1,3) by auto
qed

lemma word64_eqI:
  fixes a b :: "64 word"
  assumes "\<And>r. r < 8 \<Longrightarrow> bit a r = bit b r" and "\<And>r. r < 8 \<Longrightarrow> bit a (8 + r) = bit b (8 + r)"
    and "\<And>r. r < 8 \<Longrightarrow> bit a (16 + r) = bit b (16 + r)" and "\<And>r. r < 8 \<Longrightarrow> bit a (24 + r) = bit b (24 + r)"
    and "\<And>r. r < 8 \<Longrightarrow> bit a (32 + r) = bit b (32 + r)" and "\<And>r. r < 8 \<Longrightarrow> bit a (40 + r) = bit b (40 + r)"
    and "\<And>r. r < 8 \<Longrightarrow> bit a (48 + r) = bit b (48 + r)" and "\<And>r. r < 8 \<Longrightarrow> bit a (56 + r) = bit b (56 + r)"
  shows "a = b"
proof (rule bit_word_eqI)
  fix n assume "n < LENGTH(64)"
  then have "n < 8 * 8" by simp
  then obtain q r where n: "n = 8 * q + r" "q < 8" "r < 8" by (rule byte_index_cases)
  from n(2) show "bit a n = bit b n"
    unfolding less_numeral_cases using assms n(1,3) by auto
qed

lemma byte_bit_beyond [simp]: "8 \<le> k \<Longrightarrow> \<not> bit (a :: u8) (k + n)"
  using bit_imp_le_length [of a "k + n"] by auto

lemma length_2_cases: "length bs = 2 \<Longrightarrow> \<exists>a b. bs = [a, b]"
  by (auto simp: numeral_eq_Suc length_Suc_conv)

lemma length_4_cases: "length bs = 4 \<Longrightarrow> \<exists>a b c d. bs = [a, b, c, d]"
  by (auto simp: numeral_eq_Suc length_Suc_conv)

lemma length_8_cases: "length bs = 8 \<Longrightarrow> \<exists>a b c d e f g h. bs = [a, b, c, d, e, f, g, h]"
  by (auto simp: numeral_eq_Suc length_Suc_conv)

lemma length_1_cases: "length bs = Suc 0 \<Longrightarrow> \<exists>a. bs = [a]"
  by (auto simp: numeral_eq_Suc length_Suc_conv)

interpretation be_i8: lossless_codec be_put_i8 be_get_i8 1
proof (unfold_locales, goal_cases)
  case (1 v) then show ?case by (simp add: put_defs)
next
  case (2 v) then show ?case
    by (rule bit_word_eqI) (simp_all add: put_defs get_defs bit_simps)
next
  case (3 bs) then show ?case
    by (auto dest!: length_1_cases intro!: bit_word_eqI simp: put_defs get_defs bit_simps)
qed

interpretation be_i16: lossless_codec be_put_i16 be_get_i16 2
proof (unfold_locales, goal_cases)
  case (1 v) then show ?case by (simp add: put_defs)
next
  case (2 v) then show ?case
    by (rule word16_eqI) (simp_all add: put_defs get_defs bit_simps)
next
  case (3 bs) then show ?case
    by (auto dest!: length_2_cases intro!: bit_word_eqI simp: put_defs get_defs bit_simps)
qed

interpretation be_i32: lossless_codec be_put_i32 be_get_i32 4
proof (unfold_locales, goal_cases)
  case (1 v) then show ?case by (simp add: put_defs)
next
  case (2 v) then show ?case
    by (rule word32_eqI) (simp_all add: put_defs get_defs bit_simps)
next
  case (3 bs) then show ?case
    by (auto dest!: length_4_cases intro!: bit_word_eqI simp: put_defs get_defs bit_simps)
qed

interpretation be_i64: lossless_codec be_put_i64 be_get_i64 8
proof (unfold_locales, goal_cases)
  case (1 v) then show ?case by (simp add: put_defs)
next
  case (2 v) then show ?case
    by (rule word64_eqI) (simp_all add: put_defs get_defs bit_simps)
next
  case (3 bs) then show ?case
    by (auto dest!: length_8_cases intro!: bit_word_eqI simp: put_defs get_defs bit_simps)
qed

interpretation be_u8: lossless_codec be_put_u8 be_get_u8 1
proof (unfold_locales, goal_cases)
  case (1 v) then show ?case by (simp add: put_defs)
next
  case (2 v) then show ?case
    by (rule bit_word_eqI) (simp_all add: put_defs get_defs bit_simps)
next
  case (3 bs) then show ?case
    by (auto dest!: length_1_cases intro!: bit_word_eqI simp: put_defs get_defs bit_simps)
qed

interpretation be_u16: lossless_codec be_put_u16 be_get_u16 2
proof (unfold_locales, goal_cases)
  case (1 v) then show ?case by (simp add: put_defs)
next
  case (2 v) then show ?case
    by (rule word16_eqI) (simp_all add: put_defs get_defs bit_simps)
next
  case (3 bs) then show ?case
    by (auto dest!: length_2_cases intro!: bit_word_eqI simp: put_defs get_defs bit_simps)
qed

interpretation be_u32: lossless_codec be_put_u32 be_get_u32 4
proof (unfold_locales, goal_cases)
  case (1 v) then show ?case by (simp add: put_defs)
next
  case (2 v) then show ?case
    by (rule word32_eqI) (simp_all add: put_defs get_defs bit_simps)
next
  case (3 bs) then show ?case
    by (auto dest!: length_4_cases intro!: bit_word_eqI simp: put_defs get_defs bit_simps)
qed

interpretation be_u64: lossless_codec be_put_u64 be_get_u64 8
proof (unfold_locales, goal_cases)
  case (1 v) then show ?case by (simp add: put_defs)
next
  case (2 v) then show ?case
    by (rule word64_eqI) (simp_all add: put_defs get_defs bit_simps)
next
  case (3 bs) then show ?case
    by (auto dest!: length_8_cases intro!: bit_word_eqI simp: put_defs get_defs bit_simps)
qed

interpretation be_bool: scalar_codec be_put_bool be_get_bool 1
  by unfold_locales (simp_all add: put_defs get_defs)

interpretation be_float: lossless_codec be_put_float be_get_float 4
  by unfold_locales (simp_all add: be_put_float_def be_get_float_def be_u32.length_put be_u32.get_put be_u32.put_get)

interpretation be_double: lossless_codec be_put_double be_get_double 8
  by unfold_locales (simp_all add: be_put_double_def be_get_double_def be_u64.length_put be_u64.get_put be_u64.put_get)

interpretation le_i8: lossless_codec le_put_i8 le_get_i8 1
proof (unfold_locales, goal_cases)
  case (1 v) then show ?case by (simp add: put_defs)
next
  case (2 v) then show ?case
    by (rule bit_word_eqI) (simp_all add: put_defs get_defs bit_simps)
next
  case (3 bs) then show ?case
    by (auto dest!: length_1_cases intro!: bit_word_eqI simp: put_defs get_defs bit_simps)
qed

interpretation le_i16: lossless_codec le_put_i16 le_get_i16 2
proof (unfold_locales, goal_cases)
  case (1 v) then show ?case by (simp add: put_defs)
next
  case (2 v) then show ?case
    by (rule word16_eqI) (simp_all add: put_defs get_defs bit_simps)
next
  case (3 bs) then show ?case
    by (auto dest!: length_2_cases intro!: bit_word_eqI simp: put_defs get_defs bit_simps)
qed

interpretation le_i32: lossless_codec le_put_i32 le_get_i32 4
proof (unfold_locales, goal_cases)
  case (1 v) then show ?case by (simp add: put_defs)
next
  case (2 v) then show ?case
    by (rule word32_eqI) (simp_all add: put_defs get_defs bit_simps)
next
  case (3 bs) then show ?case
    by (auto dest!: length_4_cases intro!: bit_word_eqI simp: put_defs get_defs bit_simps)
qed

interpretation le_i64: lossless_codec le_put_i64 le_get_i64 8
proof (unfold_locales, goal_cases)
  case (1 v) then show ?case by (simp add: put_defs)
next
  case (2 v) then show ?case
    by (rule word64_eqI) (simp_all add: put_defs get_defs bit_simps)
next
  case (3 bs) then show ?case
    by (auto dest!: length_8_cases intro!: bit_word_eqI simp: put_defs get_defs bit_simps)
qed

interpretation le_u8: lossless_codec le_put_u8 le_get_u8 1
proof (unfold_locales, goal_cases)
  case (1 v) then show ?case by (simp add: put_defs)
next
  case (2 v) then show ?case
    by (rule bit_word_eqI) (simp_all add: put_defs get_defs bit_simps)
next
  case (3 bs) then show ?case
    by (auto dest!: length_1_cases intro!: bit_word_eqI simp: put_defs get_defs bit_simps)
qed

interpretation le_u16: lossless_codec le_put_u16 le_get_u16 2
proof (unfold_locales, goal_cases)
  case (1 v) then show ?case by (simp add: put_defs)
next
  case (2 v) then show ?case
    by (rule word16_eqI) (simp_all add: put_defs get_defs bit_simps)
next
  case (3 bs) then show ?case
    by (auto dest!: length_2_cases intro!: bit_word_eqI simp: put_defs get_defs bit_simps)
qed

interpretation le_u32: lossless_codec le_put_u32 le_get_u32 4
proof (unfold_locales, goal_cases)
  case (1 v) then show ?case by (simp add: put_defs)
next
  case (2 v) then show ?case
    by (rule word32_eqI) (simp_all add: put_defs get_defs bit_simps)
next
  case (3 bs) then show ?case
    by (auto dest!: length_4_cases intro!: bit_word_eqI simp: put_defs get_defs bit_simps)
qed

interpretation le_u64: lossless_codec le_put_u64 le_get_u64 8
proof (unfold_locales, goal_cases)
  case (1 v) then show ?case by (simp add: put_defs)
next
  case (2 v) then show ?case
    by (rule word64_eqI) (simp_all add: put_defs get_defs bit_simps)
next
  case (3 bs) then show ?case
    by (auto dest!: length_8_cases intro!: bit_word_eqI simp: put_defs get_defs bit_simps)
qed

interpretation le_bool: scalar_codec le_put_bool le_get_bool 1
  by unfold_locales (simp_all add: put_defs get_defs)

interpretation le_float: lossless_codec le_put_float le_get_float 4
  by unfold_locales (simp_all add: le_put_float_def le_get_float_def le_u32.length_put le_u32.get_put le_u32.put_get)

interpretation le_double: lossless_codec le_put_double le_get_double 8
  by unfold_locales (simp_all add: le_put_double_def le_get_double_def le_u64.length_put le_u64.get_put le_u64.put_get)

section \<open>Serializer and Deserializer\<close>

text \<open>
  The two classes exist in both namespaces and differ only in the scalar functions they
  call; the namespace is an argument.  A field is a value together with the overload of
  \<open>transform\<close> that its C++ type selects.
\<close>

datatype endian = BE | LE

datatype field =
    F_bool bool
  | F_i8 u8
  | F_i16 u16
  | F_i32 u32
  | F_i64 u64
  | F_u8 u8
  | F_u16 u16
  | F_u32 u32
  | F_u64 u64
  | F_float u32
  | F_double u64
  | F_bytes "u8 list"
  | F_cstring "u8 list"

datatype shape =
    S_bool | S_i8 | S_i16 | S_i32 | S_i64 | S_u8 | S_u16 | S_u32 | S_u64 | S_float | S_double | S_bytes nat | S_cstring

fun shape_of :: "field \<Rightarrow> shape" where
"shape_of (F_bool v) = S_bool"
| "shape_of (F_i8 v) = S_i8"
| "shape_of (F_i16 v) = S_i16"
| "shape_of (F_i32 v) = S_i32"
| "shape_of (F_i64 v) = S_i64"
| "shape_of (F_u8 v) = S_u8"
| "shape_of (F_u16 v) = S_u16"
| "shape_of (F_u32 v) = S_u32"
| "shape_of (F_u64 v) = S_u64"
| "shape_of (F_float v) = S_float"
| "shape_of (F_double v) = S_double"
| "shape_of (F_bytes bs) = S_bytes (length bs)"
| "shape_of (F_cstring bs) = S_cstring"

text \<open>The bytes that the scalar overload writes, and the reader that matches it.\<close>

fun put_scalar :: "endian \<Rightarrow> field \<Rightarrow> u8 list" where
"put_scalar BE (F_bool v) = be_put_bool v"
| "put_scalar BE (F_i8 v) = be_put_i8 v"
| "put_scalar BE (F_i16 v) = be_put_i16 v"
| "put_scalar BE (F_i32 v) = be_put_i32 v"
| "put_scalar BE (F_i64 v) = be_put_i64 v"
| "put_scalar BE (F_u8 v) = be_put_u8 v"
| "put_scalar BE (F_u16 v) = be_put_u16 v"
| "put_scalar BE (F_u32 v) = be_put_u32 v"
| "put_scalar BE (F_u64 v) = be_put_u64 v"
| "put_scalar BE (F_float v) = be_put_float v"
| "put_scalar BE (F_double v) = be_put_double v"
| "put_scalar LE (F_bool v) = le_put_bool v"
| "put_scalar LE (F_i8 v) = le_put_i8 v"
| "put_scalar LE (F_i16 v) = le_put_i16 v"
| "put_scalar LE (F_i32 v) = le_put_i32 v"
| "put_scalar LE (F_i64 v) = le_put_i64 v"
| "put_scalar LE (F_u8 v) = le_put_u8 v"
| "put_scalar LE (F_u16 v) = le_put_u16 v"
| "put_scalar LE (F_u32 v) = le_put_u32 v"
| "put_scalar LE (F_u64 v) = le_put_u64 v"
| "put_scalar LE (F_float v) = le_put_float v"
| "put_scalar LE (F_double v) = le_put_double v"
| "put_scalar e (F_bytes bs) = []"
| "put_scalar e (F_cstring bs) = []"

fun get_scalar :: "endian \<Rightarrow> shape \<Rightarrow> u8 list \<Rightarrow> field" where
"get_scalar BE S_bool ptr = F_bool (be_get_bool ptr)"
| "get_scalar BE S_i8 ptr = F_i8 (be_get_i8 ptr)"
| "get_scalar BE S_i16 ptr = F_i16 (be_get_i16 ptr)"
| "get_scalar BE S_i32 ptr = F_i32 (be_get_i32 ptr)"
| "get_scalar BE S_i64 ptr = F_i64 (be_get_i64 ptr)"
| "get_scalar BE S_u8 ptr = F_u8 (be_get_u8 ptr)"
| "get_scalar BE S_u16 ptr = F_u16 (be_get_u16 ptr)"
| "get_scalar BE S_u32 ptr = F_u32 (be_get_u32 ptr)"
| "get_scalar BE S_u64 ptr = F_u64 (be_get_u64 ptr)"
| "get_scalar BE S_float ptr = F_float (be_get_float ptr)"
| "get_scalar BE S_double ptr = F_double (be_get_double ptr)"
| "get_scalar LE S_bool ptr = F_bool (le_get_bool ptr)"
| "get_scalar LE S_i8 ptr = F_i8 (le_get_i8 ptr)"
| "get_scalar LE S_i16 ptr = F_i16 (le_get_i16 ptr)"
| "get_scalar LE S_i32 ptr = F_i32 (le_get_i32 ptr)"
| "get_scalar LE S_i64 ptr = F_i64 (le_get_i64 ptr)"
| "get_scalar LE S_u8 ptr = F_u8 (le_get_u8 ptr)"
| "get_scalar LE S_u16 ptr = F_u16 (le_get_u16 ptr)"
| "get_scalar LE S_u32 ptr = F_u32 (le_get_u32 ptr)"
| "get_scalar LE S_u64 ptr = F_u64 (le_get_u64 ptr)"
| "get_scalar LE S_float ptr = F_float (le_get_float ptr)"
| "get_scalar LE S_double ptr = F_double (le_get_double ptr)"
| "get_scalar e (S_bytes n) ptr = F_bytes []"
| "get_scalar e S_cstring ptr = F_cstring []"

fun width_of :: "shape \<Rightarrow> nat" where
"width_of S_bool = 1"
| "width_of S_i8 = 1"
| "width_of S_i16 = 2"
| "width_of S_i32 = 4"
| "width_of S_i64 = 8"
| "width_of S_u8 = 1"
| "width_of S_u16 = 2"
| "width_of S_u32 = 4"
| "width_of S_u64 = 8"
| "width_of S_float = 4"
| "width_of S_double = 8"
| "width_of (S_bytes n) = n"
| "width_of S_cstring = 0"

text \<open>The assertion on the headroom that every overload of \<open>Serializer::transform\<close> starts with.\<close>

definition with_headroom :: "'s sink_vtable \<Rightarrow> nat \<Rightarrow> 's sink \<Rightarrow> unit res \<times> 's sink \<Rightarrow> unit res \<times> 's sink" where
  "with_headroom V n k r =
     (case sink_headroom V k of
        Ret h \<Rightarrow> (if \<not> n \<le> h then (Fault Assert_Failed, k) else r)
      | Throw e \<Rightarrow> (Throw e, k)
      | Fault f \<Rightarrow> (Fault f, k))"

definition serialize_scalar :: "'s sink_vtable \<Rightarrow> u8 list \<Rightarrow> nat \<Rightarrow> 's sink \<Rightarrow> unit res \<times> 's sink" where
  "serialize_scalar V bs width k =
     with_headroom V width k
       (and_then (sink_produce V width k) (\<lambda>p k'. lift_impl k' (vt_store V p bs (sk_impl k'))))"

definition serialize_container :: "'s sink_vtable \<Rightarrow> u8 list \<Rightarrow> 's sink \<Rightarrow> unit res \<times> 's sink" where
  "serialize_container V value k =
     with_headroom V (length value) k
       (and_then (sink_produce_bytes V value (length value) k) (\<lambda>_ k'. (Ret (), k')))"

text \<open>A C string argument is the memory before its terminating zero byte, or more.\<close>

definition strlen :: "u8 list \<Rightarrow> nat" where
  "strlen bs = length (takeWhile (\<lambda>b. b \<noteq> 0) bs)"

definition serialize_cstring :: "'s sink_vtable \<Rightarrow> u8 list \<Rightarrow> 's sink \<Rightarrow> unit res \<times> 's sink" where
  "serialize_cstring V value k =
     (let n = strlen value + 1
      in with_headroom V n k
           (and_then (sink_produce_bytes V (value @ [0]) n k) (\<lambda>_ k'. (Ret (), k'))))"

fun serialize_field :: "'s sink_vtable \<Rightarrow> endian \<Rightarrow> field \<Rightarrow> 's sink \<Rightarrow> unit res \<times> 's sink" where
  "serialize_field V e (F_bytes bs) k = serialize_container V bs k"
| "serialize_field V e (F_cstring bs) k = serialize_cstring V bs k"
| "serialize_field V e f k = serialize_scalar V (put_scalar e f) (width_of (shape_of f)) k"

fun serialize_all :: "'s sink_vtable \<Rightarrow> endian \<Rightarrow> field list \<Rightarrow> 's sink \<Rightarrow> unit res \<times> 's sink" where
  "serialize_all V e [] k = (Ret (), k)"
| "serialize_all V e (f # fs) k = and_then (serialize_field V e f k) (\<lambda>_. serialize_all V e fs)"

text \<open>
  \<open>Deserializer::transform<T, U>\<close> asserts that \<open>sizeof(T)\<close> bytes are available and consumes
  \<open>sizeof(U)\<close>.
\<close>

definition with_available :: "'s source_vtable \<Rightarrow> nat \<Rightarrow> 's source \<Rightarrow> 'a res \<times> 's source \<Rightarrow> 'a res \<times> 's source" where
  "with_available V n s r =
     (case source_available V s of
        Ret a \<Rightarrow> (if \<not> n \<le> a then (Fault Assert_Failed, s) else r)
      | Throw e \<Rightarrow> (Throw e, s)
      | Fault f \<Rightarrow> (Fault f, s))"

definition deserialize_scalar ::
  "'s source_vtable \<Rightarrow> (u8 list \<Rightarrow> 'a) \<Rightarrow> nat \<Rightarrow> nat \<Rightarrow> 's source \<Rightarrow> 'a res \<times> 's source" where
  "deserialize_scalar V get sizeT sizeU s =
     with_available V sizeT s
       (and_then (source_consume_into V sizeU s) (\<lambda>bs s'. (Ret (get bs), s')))"

definition deserialize_container ::
  "'s source_vtable \<Rightarrow> u8 list \<Rightarrow> nat \<Rightarrow> 's source \<Rightarrow> u8 list res \<times> 's source" where
  "deserialize_container V value n s =
     with_available V n s
       (and_then (source_consume_into V n s) (\<lambda>bs s'. (Ret (value @ bs), s')))"

text \<open>
  The scan for the terminating zero.  Each round consumes one byte, so a source of \<open>n\<close>
  remaining bytes needs at most \<open>n\<close> rounds; \<open>fuel\<close> is that number.
\<close>

fun scan_cstring :: "'s source_vtable \<Rightarrow> nat \<Rightarrow> 's source \<Rightarrow> unit res \<times> 's source" where
  "scan_cstring V 0 s = (Fault Assert_Failed, s)"
| "scan_cstring V (Suc fuel) s =
     and_then (source_consume_into V 1 s)
       (\<lambda>bs s'. if bs ! 0 = 0 then (Ret (), s')
                else with_available V 1 s' (scan_cstring V fuel s'))"

definition deserialize_cstring :: "'s source_vtable \<Rightarrow> 's source \<Rightarrow> u8 list res \<times> 's source" where
  "deserialize_cstring V s =
     with_available V 1 s
       (and_then (source_peek V 1 s, s)
         (\<lambda>off s'. and_then (scan_cstring V (vs_size V (so_impl s')) s')
           (\<lambda>_ s''. (Ret (takeWhile (\<lambda>b. b \<noteq> 0) (drop off (vs_data V (so_impl s'')))), s''))))"

fun deserialize_field :: "'s source_vtable \<Rightarrow> endian \<Rightarrow> shape \<Rightarrow> 's source \<Rightarrow> field res \<times> 's source" where
  "deserialize_field V e (S_bytes n) s =
     and_then (deserialize_container V [] n s) (\<lambda>bs s'. (Ret (F_bytes bs), s'))"
| "deserialize_field V e S_cstring s =
     and_then (deserialize_cstring V s) (\<lambda>bs s'. (Ret (F_cstring bs), s'))"
| "deserialize_field V e sh s = deserialize_scalar V (get_scalar e sh) (width_of sh) (width_of sh) s"

fun deserialize_all :: "'s source_vtable \<Rightarrow> endian \<Rightarrow> shape list \<Rightarrow> 's source \<Rightarrow> field list res \<times> 's source" where
  "deserialize_all V e [] s = (Ret [], s)"
| "deserialize_all V e (sh # shs) s =
     and_then (deserialize_field V e sh s)
       (\<lambda>f s'. and_then (deserialize_all V e shs s') (\<lambda>fs s''. (Ret (f # fs), s'')))"

section \<open>What the classes do\<close>

fun field_bytes :: "endian \<Rightarrow> field \<Rightarrow> u8 list" where
  "field_bytes e (F_bytes bs) = bs"
| "field_bytes e (F_cstring bs) = bs @ [0]"
| "field_bytes e f = put_scalar e f"

definition record_bytes :: "endian \<Rightarrow> field list \<Rightarrow> u8 list" where
  "record_bytes e fs = concat (map (field_bytes e) fs)"

fun cstring_ok :: "field \<Rightarrow> bool" where
  "cstring_ok (F_cstring bs) = (0 \<notin> set bs)"
| "cstring_ok f = True"

fun is_scalar :: "field \<Rightarrow> bool" where
  "is_scalar (F_bytes bs) = False"
| "is_scalar (F_cstring bs) = False"
| "is_scalar f = True"

lemma field_cases:
  obtains (bytes) bs where "f = F_bytes bs" | (cstring) bs where "f = F_cstring bs" | (scalar) "is_scalar f"
  by (cases f) auto

lemma length_put_scalar: "is_scalar f \<Longrightarrow> length (put_scalar e f) = width_of (shape_of f)"
  by (cases e; cases f)
    (simp_all add: be_bool.length_put be_i8.length_put be_i16.length_put be_i32.length_put be_i64.length_put be_u8.length_put be_u16.length_put be_u32.length_put be_u64.length_put be_float.length_put be_double.length_put
      le_bool.length_put le_i8.length_put le_i16.length_put le_i32.length_put le_i64.length_put le_u8.length_put le_u16.length_put le_u32.length_put le_u64.length_put le_float.length_put le_double.length_put)

lemma get_put_scalar: "is_scalar f \<Longrightarrow> get_scalar e (shape_of f) (put_scalar e f) = f"
  by (cases e; cases f)
    (simp_all add: be_bool.get_put be_i8.get_put be_i16.get_put be_i32.get_put be_i64.get_put be_u8.get_put be_u16.get_put be_u32.get_put be_u64.get_put be_float.get_put be_double.get_put
      le_bool.get_put le_i8.get_put le_i16.get_put le_i32.get_put le_i64.get_put le_u8.get_put le_u16.get_put le_u32.get_put le_u64.get_put le_float.get_put le_double.get_put)

lemma width_scalar_pos: "is_scalar f \<Longrightarrow> 0 < width_of (shape_of f)"
  by (cases f) auto

lemma scalar_simps:
  assumes "is_scalar f"
  shows "serialize_field V e f k = serialize_scalar V (put_scalar e f) (width_of (shape_of f)) k"
    and "field_bytes e f = put_scalar e f"
    and "deserialize_field V' e (shape_of f) s =
           deserialize_scalar V' (get_scalar e (shape_of f)) (width_of (shape_of f)) (width_of (shape_of f)) s"
  using assms by (cases f; simp)+

lemma strlen_no_zero [simp]: "0 \<notin> set bs \<Longrightarrow> strlen bs = length bs"
proof -
  assume "0 \<notin> set bs"
  then have "takeWhile (\<lambda>b. b \<noteq> 0) bs = bs" by (intro takeWhile_eq_all_conv [THEN iffD2]) auto
  then show ?thesis by (simp only: strlen_def)
qed

context sink_provider
begin

definition holds :: "'s sink \<Rightarrow> nat \<Rightarrow> bool" where
  "holds k n \<longleftrightarrow> inv (sk_impl k) \<and> sk_maximum k \<noteq> 0 \<and>
     length (bytes (sk_impl k)) + n \<le> sk_maximum k \<and> length (bytes (sk_impl k)) + n \<le> size_max"

definition appended :: "u8 list \<Rightarrow> 's sink \<Rightarrow> unit res \<times> 's sink \<Rightarrow> bool" where
  "appended bs k rk \<longleftrightarrow> fst rk = Fault Terminated
     \<or> fst rk = Ret () \<and> sk_maximum (snd rk) = sk_maximum k \<and> inv (sk_impl (snd rk))
       \<and> bytes (sk_impl (snd rk)) = bytes (sk_impl k) @ bs"

lemma with_headroom_ok: "holds k n \<Longrightarrow> with_headroom V n k r = r"
  by (auto simp: with_headroom_def sink_headroom_def holds_def MinimalCapacity_def size_bytes)

lemma produce_store_law:
  assumes "holds k (length bs)" and "0 < length bs"
  shows "appended bs k (and_then (sink_produce V (length bs) k) (\<lambda>p k'. lift_impl k' (vt_store V p bs (sk_impl k'))))"
proof -
  let ?len = "length (bytes (sk_impl k))"
  obtain r1 k1 where c: "sink_produce V (length bs) k = (r1, k1)" by fastforce
  from assms have "inv (sk_impl k)" "sk_maximum k = 0 \<or> ?len + length bs \<le> sk_maximum k"
    "?len + length bs \<le> size_max" by (auto simp: holds_def)
  note p = produce_law [OF this c]
  show ?thesis
  proof (cases "r1 = Fault Terminated")
    case True with c show ?thesis by (simp add: appended_def)
  next
    case False
    with p assms(2) have ok: "r1 = Ret (Some ?len)" "sk_maximum k1 = sk_maximum k" "inv (sk_impl k1)"
      "resized (?len + length bs) (bytes (sk_impl k)) (bytes (sk_impl k1))" by auto
    obtain r2 s2 where st: "vt_store V (Some ?len) bs (sk_impl k1) = (r2, s2)" by fastforce
    have "?len + length bs \<le> length (bytes (sk_impl k1))"
      using ok(4) by (simp add: resized_def)
    from store_law [OF ok(3) this st]
    have "r2 = Ret ()" "inv s2" and b: "bytes s2 = blit ?len bs (bytes (sk_impl k1))" by auto
    moreover have "blit ?len bs (bytes (sk_impl k1)) = bytes (sk_impl k) @ bs"
      using ok(4) by (simp add: blit_def resized_def)
    ultimately show ?thesis using c ok st by (simp add: appended_def lift_impl_def)
  qed
qed

lemma produce_bytes_appended:
  assumes "holds k n" and "n \<le> length bs"
  shows "appended (take n bs) k (and_then (sink_produce_bytes V bs n k) (\<lambda>_ k'. (Ret (), k')))"
proof -
  obtain r k' where c: "sink_produce_bytes V bs n k = (r, k')" by fastforce
  from assms(1) have "inv (sk_impl k)" "sk_maximum k = 0 \<or> length (bytes (sk_impl k)) + n \<le> sk_maximum k"
    "length (bytes (sk_impl k)) + n \<le> size_max" by (auto simp: holds_def)
  from produce_bytes_law [OF this assms(2) c] c show ?thesis by (auto simp: appended_def)
qed

lemma serialize_field_law:
  assumes "holds k (length (field_bytes e f))" and "cstring_ok f"
  shows "appended (field_bytes e f) k (serialize_field V e f k)"
proof (cases f rule: field_cases)
  case (bytes bs)
  with assms produce_bytes_appended [of k "length bs" bs] show ?thesis
    by (simp add: serialize_container_def with_headroom_ok)
next
  case (cstring bs)
  with assms produce_bytes_appended [of k "length bs + 1" "bs @ [0]"] show ?thesis
    by (simp add: serialize_cstring_def with_headroom_ok)
next
  case scalar
  note sc = scalar_simps [OF scalar] and len = length_put_scalar [OF scalar, of e]
  have "holds k (length (put_scalar e f))" using assms(1) sc by simp
  from produce_store_law [OF this] show ?thesis
    using len width_scalar_pos [OF scalar] \<open>holds k (length (put_scalar e f))\<close>
    by (simp add: sc serialize_scalar_def with_headroom_ok)
qed

lemma serialize_all_law:
  assumes "holds k (length (record_bytes e fs))" and "\<forall>f \<in> set fs. cstring_ok f"
  shows "appended (record_bytes e fs) k (serialize_all V e fs k)"
  using assms
proof (induction fs arbitrary: k)
  case Nil
  then show ?case by (simp add: appended_def record_bytes_def holds_def)
next
  case (Cons f fs)
  obtain r k1 where c: "serialize_field V e f k = (r, k1)" by fastforce
  have "holds k (length (field_bytes e f))"
    using Cons.prems(1) by (auto simp: holds_def record_bytes_def)
  from serialize_field_law [OF this] c Cons.prems(2)
  have a: "appended (field_bytes e f) k (r, k1)" by simp
  show ?case
  proof (cases "r = Fault Terminated")
    case True with c show ?thesis by (simp add: appended_def)
  next
    case False
    with a have ok: "r = Ret ()" "sk_maximum k1 = sk_maximum k" "inv (sk_impl k1)"
      "bytes (sk_impl k1) = bytes (sk_impl k) @ field_bytes e f" by (auto simp: appended_def)
    then have "holds k1 (length (record_bytes e fs))"
      using Cons.prems(1) by (auto simp: holds_def record_bytes_def)
    from Cons.IH [OF this] Cons.prems(2) c ok show ?thesis
      by (auto simp: appended_def record_bytes_def)
  qed
qed

end

context source_provider
begin

lemma with_available_ok: "source_inv s \<Longrightarrow> n \<le> length (rest s) \<Longrightarrow> with_available V n s r = r"
  by (simp add: with_available_def available_law)

lemma consume_prefix:
  assumes "source_inv s" and "rest s = bs @ tail"
  shows "\<exists>s'. source_consume_into V (length bs) s = (Ret bs, s') \<and> source_inv s' \<and> rest s' = tail
     \<and> so_impl s' = so_impl s"
  using consume_into_law [OF assms(1), of "length bs"] assms(2) by auto

lemma scan_law:
  assumes "source_inv s" and "rest s = bs @ [0] @ tail" and "0 \<notin> set bs" and "length bs < fuel"
  shows "\<exists>s'. scan_cstring V fuel s = (Ret (), s') \<and> source_inv s' \<and> rest s' = tail \<and> so_impl s' = so_impl s"
  using assms
proof (induction bs arbitrary: s fuel)
  case Nil
  then obtain m where "fuel = Suc m" by (cases fuel) auto
  with Nil consume_prefix [OF Nil(1), of "[0]" tail] show ?case by auto
next
  case (Cons b bs)
  then obtain m where m: "fuel = Suc m" by (cases fuel) auto
  from consume_prefix [OF Cons.prems(1), of "[b]" "bs @ [0] @ tail"] Cons.prems(2)
  obtain s1 where s1: "source_consume_into V 1 s = (Ret [b], s1)" "source_inv s1"
    "rest s1 = bs @ [0] @ tail" "so_impl s1 = so_impl s" by auto
  from Cons.IH [OF s1(2,3), of m] Cons.prems(3,4) m s1 show ?case
    by (auto simp: with_available_ok)
qed

lemma takeWhile_stops: "0 \<notin> set bs \<Longrightarrow> takeWhile (\<lambda>b. b \<noteq> 0) (bs @ [0] @ tail) = (bs :: u8 list)"
  by (induction bs) auto

lemma deserialize_cstring_law:
  assumes "source_inv s" and "rest s = bs @ [0] @ tail" and "0 \<notin> set bs"
  shows "\<exists>s'. deserialize_cstring V s = (Ret bs, s') \<and> source_inv s' \<and> rest s' = tail"
proof -
  have inv: "inv (so_impl s)" and le: "so_progress s \<le> length (bytes (so_impl s))"
    using assms(1) by (auto simp: source_inv_def)
  have one: "1 \<le> length (rest s)" using assms(2) by simp
  have "length bs < length (rest s)" using assms(2) by simp
  also have "\<dots> \<le> vs_size V (so_impl s)" using inv by (simp add: rest_def size_bytes)
  finally have "length bs < vs_size V (so_impl s)" .
  from scan_law [OF assms this] obtain s' where s': "scan_cstring V (vs_size V (so_impl s)) s = (Ret (), s')"
    "source_inv s'" "rest s' = tail" "so_impl s' = so_impl s" by blast
  have peek: "source_peek V 1 s = Ret (so_progress s)"
    using consume_law [OF assms(1) one]
    by (auto simp: source_consume_def source_peek_def split: if_splits)
  let ?d = "vs_data V (so_impl s)"
  have "take (length (bytes (so_impl s))) ?d = bytes (so_impl s)" by (rule data_bytes [OF inv])
  then have "?d = bytes (so_impl s) @ drop (length (bytes (so_impl s))) ?d"
    by (metis append_take_drop_id)
  then obtain more where "?d = bytes (so_impl s) @ more" by blast
  then have "drop (so_progress s) ?d = bs @ [0] @ tail @ more"
    using le assms(2) by (simp add: rest_def)
  then have "takeWhile (\<lambda>b. b \<noteq> 0) (drop (so_progress s) ?d) = bs"
    using takeWhile_stops [OF assms(3), of "tail @ more"] by simp
  with s' peek one assms(1) show ?thesis
    by (simp add: deserialize_cstring_def with_available_ok)
qed

lemma deserialize_field_law:
  assumes "source_inv s" and "rest s = field_bytes e f @ tail" and "cstring_ok f"
  shows "\<exists>s'. deserialize_field V e (shape_of f) s = (Ret f, s') \<and> source_inv s' \<and> rest s' = tail"
proof (cases f rule: field_cases)
  case (bytes bs)
  with assms consume_prefix [OF assms(1), of bs tail] show ?thesis
    by (auto simp: deserialize_container_def with_available_ok)
next
  case (cstring bs)
  with assms deserialize_cstring_law [OF assms(1), of bs tail] show ?thesis by auto
next
  case scalar
  note sc = scalar_simps [OF scalar] and len = length_put_scalar [OF scalar, of e]
  have r: "rest s = put_scalar e f @ tail" using assms(2) sc by simp
  from consume_prefix [OF assms(1) r] obtain s' where
    "source_consume_into V (width_of (shape_of f)) s = (Ret (put_scalar e f), s')"
    "source_inv s'" "rest s' = tail" using len by auto
  with r len assms(1) show ?thesis
    by (simp add: sc deserialize_scalar_def with_available_ok get_put_scalar [OF scalar])
qed

lemma deserialize_all_law:
  assumes "source_inv s" and "rest s = record_bytes e fs @ tail" and "\<forall>f \<in> set fs. cstring_ok f"
  shows "\<exists>s'. deserialize_all V e (map shape_of fs) s = (Ret fs, s') \<and> source_inv s' \<and> rest s' = tail"
  using assms
proof (induction fs arbitrary: s)
  case Nil
  then show ?case by (simp add: record_bytes_def)
next
  case (Cons f fs)
  have "rest s = field_bytes e f @ record_bytes e fs @ tail"
    using Cons.prems(2) by (simp add: record_bytes_def)
  from deserialize_field_law [OF Cons.prems(1) this] Cons.prems(3) obtain s1 where
    s1: "deserialize_field V e (shape_of f) s = (Ret f, s1)" "source_inv s1"
      "rest s1 = record_bytes e fs @ tail" by auto
  from Cons.IH [OF s1(2,3)] Cons.prems(3) s1 show ?case by auto
qed

end

section \<open>Properties\<close>

text \<open>The wire format: the digits of the value in base 256, least significant first.\<close>

definition digits256 :: "nat \<Rightarrow> nat \<Rightarrow> u8 list" where
  "digits256 n x = map (\<lambda>i. word_of_nat (x div 256 ^ i)) [0..<n]"

lemma byte_of_drop_bit: "byte_of (drop_bit k v) = word_of_nat (unat v div 2 ^ k)"
proof -
  have "unat (drop_bit k v) = unat v div 2 ^ k"
    unfolding unat_drop_bit_eq by (rule drop_bit_eq_div)
  moreover have "(ucast w :: u8) = word_of_nat (unat w)" for w :: "'a word"
    by (simp add: word_eq_iff_unsigned)
  ultimately show ?thesis by (simp only: byte_of_def)
qed

lemma upt_digits: "[0..<2] = [0, 1::nat]" "[0..<4] = [0, 1, 2, 3::nat]" "[0..<8] = [0, 1, 2, 3, 4, 5, 6, 7::nat]"
  by code_simp+

text \<open>
  C9.  The byte order on the wire: \<open>le\<close> writes an unsigned integer as its base-256 digits
  with the least significant first, \<open>be\<close> writes the same digits reversed, and a signed integer
  is written as the unsigned integer with the same bit pattern.
\<close>

theorem wire_format:
  fixes a :: u16 and b :: u32 and c :: u64
  shows "le_put_u16 a = digits256 2 (unat a) \<and> be_put_u16 a = rev (digits256 2 (unat a))
    \<and> le_put_u32 b = digits256 4 (unat b) \<and> be_put_u32 b = rev (digits256 4 (unat b))
    \<and> le_put_u64 c = digits256 8 (unat c) \<and> be_put_u64 c = rev (digits256 8 (unat c))
    \<and> le_put_i16 a = le_put_u16 a \<and> be_put_i16 a = be_put_u16 a
    \<and> le_put_i32 b = le_put_u32 b \<and> be_put_i32 b = be_put_u32 b
    \<and> le_put_i64 c = le_put_u64 c \<and> be_put_i64 c = be_put_u64 c"
proof -
  have "le_put_u16 a = digits256 2 (unat a)" "be_put_u16 a = rev (digits256 2 (unat a))"
    "le_put_u32 b = digits256 4 (unat b)" "be_put_u32 b = rev (digits256 4 (unat b))"
    "le_put_u64 c = digits256 8 (unat c)" "be_put_u64 c = rev (digits256 8 (unat c))"
    unfolding digits256_def upt_digits le_put_u16_def be_put_u16_def le_put_u32_def be_put_u32_def
      le_put_u64_def be_put_u64_def byte_of_drop_bit by simp_all
  moreover have "le_put_i16 a = le_put_u16 a" "be_put_i16 a = be_put_u16 a"
    "le_put_i32 b = le_put_u32 b" "be_put_i32 b = be_put_u32 b"
    "le_put_i64 c = le_put_u64 c" "be_put_i64 c = be_put_u64 c"
    unfolding put_defs by (auto intro!: bit_word_eqI simp: bit_simps)
  ultimately show ?thesis by simp
qed

text \<open>
  C10.  Round trip through a buffer: fields serialized into a buffer's sink with room for them
  are read back, in either byte order, by a deserializer with the same field types, which
  leaves nothing over.  The only other outcome is the end of the program on an allocation
  failure.
\<close>

theorem serialize_deserialize_buffer:
  assumes "buffer_wf b" and "contents b = []" and "\<forall>f \<in> set fs. cstring_ok f"
    and "length (record_bytes e fs) \<le> m" and "m \<le> size_max" and "0 < m"
    and "serialize_all (buffer_sink A) e fs \<lparr>sk_maximum = m, sk_impl = b\<rparr> = (r, k)"
  shows "r = Fault Terminated \<or>
    r = Ret () \<and> contents (sk_impl k) = record_bytes e fs \<and>
    (\<exists>s. deserialize_all buffer_source e (map shape_of fs) (make_source (sk_impl k)) = (Ret fs, s)
      \<and> source_available buffer_source s = Ret 0)"
proof -
  have "buffer_sink.holds \<lparr>sk_maximum = m, sk_impl = b\<rparr> (length (record_bytes e fs))"
    using assms by (simp add: buffer_sink.holds_def)
  from buffer_sink.serialize_all_law [OF this assms(3), of A] assms(2,7)
  have a: "r = Fault Terminated \<or> r = Ret () \<and> buffer_wf (sk_impl k) \<and> contents (sk_impl k) = record_bytes e fs"
    by (auto simp: buffer_sink.appended_def)
  show ?thesis
  proof (cases "r = Fault Terminated")
    case False
    with a have ok: "r = Ret ()" "buffer_wf (sk_impl k)" "contents (sk_impl k) = record_bytes e fs" by auto
    let ?s = "make_source (sk_impl k)"
    have inv: "buffer_source.source_inv ?s"
      using ok(2) by (simp add: buffer_source.source_inv_def make_source_def)
    have "buffer_source.rest ?s = record_bytes e fs @ []"
      using ok(3) by (simp add: buffer_source.rest_def make_source_def)
    from buffer_source.deserialize_all_law [OF inv this assms(3)] ok buffer_source.available_law
    show ?thesis by fastforce
  qed simp
qed

theorem serialize_deserialize_buffer_witness:
  "\<exists>r k. serialize_all (buffer_sink ample) BE [F_u16 4660, F_cstring [65], F_bool True]
       \<lparr>sk_maximum = 16, sk_impl = empty_buffer\<rparr> = (r, k) \<and>
     (r = Fault Terminated \<or> contents (sk_impl k) = [18, 52, 65, 0, 1])"
proof -
  let ?fs = "[F_u16 4660, F_cstring [65], F_bool True]"
  obtain r k where e: "serialize_all (buffer_sink ample) BE ?fs
      \<lparr>sk_maximum = 16, sk_impl = empty_buffer\<rparr> = (r, k)"
    by (cases "serialize_all (buffer_sink ample) BE ?fs \<lparr>sk_maximum = 16, sk_impl = empty_buffer\<rparr>") blast
  have ok: "\<forall>f \<in> set ?fs. cstring_ok f" by simp
  have b: "record_bytes BE ?fs = [18, 52, 65, 0, 1]"
    by (simp add: record_bytes_def put_defs drop_bit_eq_div)
  then have len: "length (record_bytes BE ?fs) \<le> 16" by simp
  have m: "16 \<le> size_max" "0 < (16::nat)" by (simp_all add: size_max_def)
  from serialize_deserialize_buffer [OF empty_buffer_wf contents_empty_buffer ok len m e] e b
  show ?thesis by auto
qed

text \<open>
  A value written as the narrower type \<open>U\<close> takes \<open>sizeof(U)\<close> bytes, but reading it back
  with \<open>transform<T, U>\<close> asserts that \<open>sizeof(T)\<close> bytes are left: a one-byte encoding of a
  four-byte type at the end of a stream fails the assertion although its byte is there.
\<close>

theorem narrow_read_at_end_asserts:
  "deserialize_scalar list_source (\<lambda>bs. ucast (be_get_u8 bs) :: u32) 4 1 (make_source (be_put_u8 v)) =
     (Fault Assert_Failed, make_source (be_put_u8 v))
   \<and> deserialize_scalar list_source (\<lambda>bs. ucast (be_get_u8 bs) :: u32) 1 1 (make_source (be_put_u8 v)) =
     (Ret (ucast v), \<lparr>so_progress = 1, so_impl = be_put_u8 v\<rparr>)"
  by (simp add: deserialize_scalar_def with_available_def source_available_def list_source_def
      make_source_def put_defs get_defs source_consume_into_def source_consume_def source_peek_def
      source_read_def size_add_def size_limit_def)

end
