(* ===== verification/Strings.thy ===== *)
theory Strings
  imports Prelude "HOL-Library.Sublist"
begin

text \<open>
  The string functions of \<open>src/hlib_string.cpp\<close> and \<open>include/hlib/string.hpp\<close>, except the base64
  codec, which is in \<open>Base64\<close>.  A \<open>std::string\<close> is a \<open>string\<close> that may contain NUL; the C
  functions \<open>strtol\<close> and its relatives see it through \<open>c_str\<close>, up to the first NUL.  They are
  modelled for the C locale and 64-bit \<open>long\<close>, with the value they leave in \<open>errno\<close> as the
  state that is passed along: which conversions reset it and which read it is part of the
  behaviour.  \<open>strtof\<close> and \<open>strtod\<close> are parameters.
\<close>

section \<open>Characters\<close>

abbreviation code :: "char \<Rightarrow> nat" where
  "code c \<equiv> of_char c"

abbreviation NUL :: char where
  "NUL \<equiv> CHR 0x00"

definition is_space :: "char \<Rightarrow> bool" where
  "is_space c \<longleftrightarrow> code c = 32 \<or> 9 \<le> code c \<and> code c \<le> 13"

definition digit_value :: "char \<Rightarrow> nat option" where
  "digit_value c =
     (if 48 \<le> code c \<and> code c \<le> 57 then Some (code c - 48)
      else if 97 \<le> code c \<and> code c \<le> 122 then Some (code c - 97 + 10)
      else if 65 \<le> code c \<and> code c \<le> 90 then Some (code c - 65 + 10)
      else None)"

definition is_digit :: "nat \<Rightarrow> char \<Rightarrow> bool" where
  "is_digit base c = (case digit_value c of None \<Rightarrow> False | Some d \<Rightarrow> d < base)"

definition toupper :: "char \<Rightarrow> char" where
  "toupper c = (if 97 \<le> code c \<and> code c \<le> 122 then char_of (code c - 32) else c)"

definition tolower :: "char \<Rightarrow> char" where
  "tolower c = (if 65 \<le> code c \<and> code c \<le> 90 then char_of (code c + 32) else c)"

section \<open>The C number parsers\<close>

type_synonym errno = int

definition ERANGE :: errno where "ERANGE = 34"
definition EINVAL :: errno where "EINVAL = 22"

definition c_str :: "string \<Rightarrow> string" where
  "c_str s = takeWhile (\<lambda>c. c \<noteq> NUL) s"

definition digits_value :: "nat \<Rightarrow> string \<Rightarrow> nat" where
  "digits_value base ds = foldl (\<lambda>a c. a * base + the (digit_value c)) 0 ds"

text \<open>An optional sign; the number of characters it takes is the length difference.\<close>

fun scan_sign :: "string \<Rightarrow> bool \<times> string" where
  "scan_sign (c # s) = (if c = CHR ''-'' then (True, s) else if c = CHR ''+'' then (False, s) else (False, c # s))"
| "scan_sign [] = (False, [])"

text \<open>The base that is in force after the prefix, and the text after the prefix.\<close>

definition scan_prefix :: "nat \<Rightarrow> string \<Rightarrow> nat \<times> string" where
  "scan_prefix base s =
     (if (base = 0 \<or> base = 16) \<and> 3 \<le> length s \<and> s ! 0 = CHR ''0'' \<and> tolower (s ! 1) = CHR ''x''
         \<and> is_digit 16 (s ! 2)
      then (16, drop 2 s)
      else if base = 0 then (if s \<noteq> [] \<and> s ! 0 = CHR ''0'' then 8 else 10, s)
      else (base, s))"

text \<open>
  The subject sequence: its sign, its magnitude, and the position after it; \<open>None\<close> when no
  conversion can be performed.
\<close>

definition scan_number :: "string \<Rightarrow> nat \<Rightarrow> (bool \<times> nat \<times> nat) option" where
  "scan_number s base =
     (let s1 = dropWhile is_space s;
          (neg, s2) = scan_sign s1;
          (b, s3) = scan_prefix base s2;
          ds = takeWhile (is_digit b) s3
      in if ds = [] then None
         else Some (neg, digits_value b ds, length s - length s3 + length ds))"

definition valid_base :: "int \<Rightarrow> bool" where
  "valid_base base \<longleftrightarrow> base = 0 \<or> 2 \<le> base \<and> base \<le> 36"

text \<open>
  \<open>strtol\<close> and \<open>strtoll\<close> return the value, clamped to 64 bits, and the end position; a bad base
  stores no end position.
\<close>

definition LONG_MIN :: int where "LONG_MIN = - (2 ^ 63)"
definition LONG_MAX :: int where "LONG_MAX = 2 ^ 63 - 1"
definition ULONG_MAX :: int where "ULONG_MAX = 2 ^ 64 - 1"

definition strtol :: "string \<Rightarrow> int \<Rightarrow> errno \<Rightarrow> (int \<times> nat option) \<times> errno" where
  "strtol s base err =
     (if \<not> valid_base base then ((0, None), EINVAL)
      else case scan_number s (nat base) of
             None \<Rightarrow> ((0, Some 0), err)
           | Some (neg, mag, end) \<Rightarrow>
               let v = (if neg then - int mag else int mag)
               in if v < LONG_MIN then ((LONG_MIN, Some end), ERANGE)
                  else if LONG_MAX < v then ((LONG_MAX, Some end), ERANGE)
                  else ((v, Some end), err))"

definition strtoul :: "string \<Rightarrow> int \<Rightarrow> errno \<Rightarrow> (int \<times> nat option) \<times> errno" where
  "strtoul s base err =
     (if \<not> valid_base base then ((0, None), EINVAL)
      else case scan_number s (nat base) of
             None \<Rightarrow> ((0, Some 0), err)
           | Some (neg, mag, end) \<Rightarrow>
               if ULONG_MAX < int mag then ((ULONG_MAX, Some end), ERANGE)
               else (((if neg then (- int mag) mod 2 ^ 64 else int mag), Some end), err))"

text \<open>\<open>nullptr == pos || 0 != *pos\<close>, with the position relative to the C string.\<close>

definition stopped_early :: "string \<Rightarrow> nat option \<Rightarrow> bool" where
  "stopped_early s pos = (case pos of None \<Rightarrow> True | Some i \<Rightarrow> i < length s)"

section \<open>Conversions that return an optional\<close>

definition not_a_number :: "string \<Rightarrow> bool" where
  "not_a_number value \<longleftrightarrow> value = [] \<or> is_space (hd value)"

definition stob_nothrow :: "string \<Rightarrow> bool option" where
  "stob_nothrow value = (if ''true'' = value then Some True else if ''false'' = value then Some False else None)"

definition stoi8_nothrow :: "string \<Rightarrow> int \<Rightarrow> errno \<Rightarrow> int option \<times> errno" where
  "stoi8_nothrow value base err =
     (if not_a_number value then (None, err)
      else case strtol (c_str value) base err of
             ((r, pos), err') \<Rightarrow>
               if stopped_early (c_str value) pos \<or> r < - 128 \<or> 127 < r
               then (None, err') else (Some r, err'))"

definition stoi16_nothrow :: "string \<Rightarrow> int \<Rightarrow> errno \<Rightarrow> int option \<times> errno" where
  "stoi16_nothrow value base err =
     (if not_a_number value then (None, err)
      else case strtol (c_str value) base err of
             ((r, pos), err') \<Rightarrow>
               if stopped_early (c_str value) pos \<or> r < - 32768 \<or> 32767 < r
               then (None, err') else (Some r, err'))"

definition stoi32_nothrow :: "string \<Rightarrow> int \<Rightarrow> errno \<Rightarrow> int option \<times> errno" where
  "stoi32_nothrow value base err =
     (if not_a_number value then (None, err)
      else case strtol (c_str value) base 0 of
             ((r, pos), err') \<Rightarrow>
               if stopped_early (c_str value) pos \<or> r < - 2147483648 \<or> 2147483647 < r \<or> ((LONG_MIN = r \<or> LONG_MAX = r) \<and> err' = ERANGE)
               then (None, err') else (Some r, err'))"

definition stoi64_nothrow :: "string \<Rightarrow> int \<Rightarrow> errno \<Rightarrow> int option \<times> errno" where
  "stoi64_nothrow value base err =
     (if not_a_number value then (None, err)
      else case strtol (c_str value) base 0 of
             ((r, pos), err') \<Rightarrow>
               if stopped_early (c_str value) pos \<or> ((LONG_MIN = r \<or> LONG_MAX = r) \<and> err' = ERANGE)
               then (None, err') else (Some r, err'))"

definition stoui8_nothrow :: "string \<Rightarrow> int \<Rightarrow> errno \<Rightarrow> int option \<times> errno" where
  "stoui8_nothrow value base err =
     (if not_a_number value then (None, err)
      else case strtoul (c_str value) base err of
             ((r, pos), err') \<Rightarrow>
               if stopped_early (c_str value) pos \<or> r < 0 \<or> 255 < r
               then (None, err') else (Some r, err'))"

definition stoui16_nothrow :: "string \<Rightarrow> int \<Rightarrow> errno \<Rightarrow> int option \<times> errno" where
  "stoui16_nothrow value base err =
     (if not_a_number value then (None, err)
      else case strtoul (c_str value) base err of
             ((r, pos), err') \<Rightarrow>
               if stopped_early (c_str value) pos \<or> r < 0 \<or> 65535 < r
               then (None, err') else (Some r, err'))"

definition stoui32_nothrow :: "string \<Rightarrow> int \<Rightarrow> errno \<Rightarrow> int option \<times> errno" where
  "stoui32_nothrow value base err =
     (if not_a_number value then (None, err)
      else case strtoul (c_str value) base 0 of
             ((r, pos), err') \<Rightarrow>
               if stopped_early (c_str value) pos \<or> r < 0 \<or> 4294967295 < r \<or> (ULONG_MAX = r \<and> err' = ERANGE)
               then (None, err') else (Some r, err'))"

definition stoui64_nothrow :: "string \<Rightarrow> int \<Rightarrow> errno \<Rightarrow> int option \<times> errno" where
  "stoui64_nothrow value base err =
     (if not_a_number value then (None, err)
      else case strtoul (c_str value) base 0 of
             ((r, pos), err') \<Rightarrow>
               if stopped_early (c_str value) pos \<or> (ULONG_MAX = r \<and> err' = ERANGE)
               then (None, err') else (Some r, err'))"

definition stof32_nothrow :: "(string \<Rightarrow> errno \<Rightarrow> ('f \<times> nat option) \<times> errno) \<Rightarrow> string \<Rightarrow> errno \<Rightarrow> 'f option \<times> errno" where
  "stof32_nothrow strtof value err =
     (if not_a_number value then (None, err)
      else case strtof (c_str value) err of
             ((r, pos), err') \<Rightarrow>
               if stopped_early (c_str value) pos \<or> err' = ERANGE then (None, err') else (Some r, err'))"

definition stof64_nothrow :: "(string \<Rightarrow> errno \<Rightarrow> ('f \<times> nat option) \<times> errno) \<Rightarrow> string \<Rightarrow> errno \<Rightarrow> 'f option \<times> errno" where
  "stof64_nothrow strtod value err =
     (if not_a_number value then (None, err)
      else case strtod (c_str value) err of
             ((r, pos), err') \<Rightarrow>
               if stopped_early (c_str value) pos \<or> err' = ERANGE then (None, err') else (Some r, err'))"

section \<open>Conversions that throw\<close>

definition stob :: "string \<Rightarrow> bool res" where
  "stob value =
     (if ''true'' = value then Ret True else if ''false'' = value then Ret False
      else Throw (Invalid_Argument ''stob''))"

definition stoi8 :: "string \<Rightarrow> int \<Rightarrow> errno \<Rightarrow> int res \<times> errno" where
  "stoi8 value base err =
     (if not_a_number value then (Throw (Invalid_Argument ''stoi8''), err)
      else case strtol (c_str value) base err of
             ((r, pos), err') \<Rightarrow>
               if stopped_early (c_str value) pos then (Throw (Invalid_Argument ''stoi8''), err')
               else if r < - 128 \<or> 127 < r
               then (Throw (Range_Error ''stoi8''), err') else (Ret r, err'))"

definition stoi16 :: "string \<Rightarrow> int \<Rightarrow> errno \<Rightarrow> int res \<times> errno" where
  "stoi16 value base err =
     (if not_a_number value then (Throw (Invalid_Argument ''stoi16''), err)
      else case strtol (c_str value) base err of
             ((r, pos), err') \<Rightarrow>
               if stopped_early (c_str value) pos then (Throw (Invalid_Argument ''stoi16''), err')
               else if r < - 32768 \<or> 32767 < r
               then (Throw (Range_Error ''stoi16''), err') else (Ret r, err'))"

definition stoi32 :: "string \<Rightarrow> int \<Rightarrow> errno \<Rightarrow> int res \<times> errno" where
  "stoi32 value base err =
     (if not_a_number value then (Throw (Invalid_Argument ''stoi32''), err)
      else case strtol (c_str value) base 0 of
             ((r, pos), err') \<Rightarrow>
               if stopped_early (c_str value) pos then (Throw (Invalid_Argument ''stoi32''), err')
               else if r < - 2147483648 \<or> 2147483647 < r \<or> ((LONG_MIN = r \<or> LONG_MAX = r) \<and> err' = ERANGE)
               then (Throw (Range_Error ''stoi32''), err') else (Ret r, err'))"

definition stoi64 :: "string \<Rightarrow> int \<Rightarrow> errno \<Rightarrow> int res \<times> errno" where
  "stoi64 value base err =
     (if not_a_number value then (Throw (Invalid_Argument ''stoi64''), err)
      else case strtol (c_str value) base 0 of
             ((r, pos), err') \<Rightarrow>
               if stopped_early (c_str value) pos then (Throw (Invalid_Argument ''stoi64''), err')
               else if ((LONG_MIN = r \<or> LONG_MAX = r) \<and> err' = ERANGE)
               then (Throw (Range_Error ''stoi64''), err') else (Ret r, err'))"

definition stoui8 :: "string \<Rightarrow> int \<Rightarrow> errno \<Rightarrow> int res \<times> errno" where
  "stoui8 value base err =
     (if not_a_number value then (Throw (Invalid_Argument ''stoui8''), err)
      else case strtoul (c_str value) base err of
             ((r, pos), err') \<Rightarrow>
               if stopped_early (c_str value) pos then (Throw (Invalid_Argument ''stoui8''), err')
               else if r < 0 \<or> 255 < r
               then (Throw (Range_Error ''stoui8''), err') else (Ret r, err'))"

definition stoui16 :: "string \<Rightarrow> int \<Rightarrow> errno \<Rightarrow> int res \<times> errno" where
  "stoui16 value base err =
     (if not_a_number value then (Throw (Invalid_Argument ''stoui16''), err)
      else case strtoul (c_str value) base err of
             ((r, pos), err') \<Rightarrow>
               if stopped_early (c_str value) pos then (Throw (Invalid_Argument ''stoui16''), err')
               else if r < 0 \<or> 65535 < r
               then (Throw (Range_Error ''stoui16''), err') else (Ret r, err'))"

definition stoui32 :: "string \<Rightarrow> int \<Rightarrow> errno \<Rightarrow> int res \<times> errno" where
  "stoui32 value base err =
     (if not_a_number value then (Throw (Invalid_Argument ''stoui32''), err)
      else case strtoul (c_str value) base 0 of
             ((r, pos), err') \<Rightarrow>
               if stopped_early (c_str value) pos then (Throw (Invalid_Argument ''stoui32''), err')
               else if r < 0 \<or> 4294967295 < r \<or> (ULONG_MAX = r \<and> err' = ERANGE)
               then (Throw (Range_Error ''stoui32''), err') else (Ret r, err'))"

definition stoui64 :: "string \<Rightarrow> int \<Rightarrow> errno \<Rightarrow> int res \<times> errno" where
  "stoui64 value base err =
     (if not_a_number value then (Throw (Invalid_Argument ''stoui32''), err)
      else case strtoul (c_str value) base 0 of
             ((r, pos), err') \<Rightarrow>
               if stopped_early (c_str value) pos then (Throw (Invalid_Argument ''stoui32''), err')
               else if (ULONG_MAX = r \<and> err' = ERANGE)
               then (Throw (Range_Error ''stoui32''), err') else (Ret r, err'))"

definition stof32 :: "(string \<Rightarrow> errno \<Rightarrow> ('f \<times> nat option) \<times> errno) \<Rightarrow> string \<Rightarrow> errno \<Rightarrow> 'f res \<times> errno" where
  "stof32 strtof value err =
     (if not_a_number value then (Throw (Invalid_Argument ''stof32''), err)
      else case strtof (c_str value) err of
             ((r, pos), err') \<Rightarrow>
               if stopped_early (c_str value) pos then (Throw (Invalid_Argument ''stof32''), err')
               else if err' = ERANGE then (Throw (Range_Error ''stof32''), err') else (Ret r, err'))"

definition stof64 :: "(string \<Rightarrow> errno \<Rightarrow> ('f \<times> nat option) \<times> errno) \<Rightarrow> string \<Rightarrow> errno \<Rightarrow> 'f res \<times> errno" where
  "stof64 strtod value err =
     (if not_a_number value then (Throw (Invalid_Argument ''stof64''), err)
      else case strtod (c_str value) err of
             ((r, pos), err') \<Rightarrow>
               if stopped_early (c_str value) pos then (Throw (Invalid_Argument ''stof64''), err')
               else if err' = ERANGE then (Throw (Range_Error ''stof64''), err') else (Ret r, err'))"

text \<open>\<open>string_to<T>\<close> selects the conversion by the size and the signedness of \<open>T\<close>.\<close>

datatype int_type = I8 | I16 | I32 | I64 | U8 | U16 | U32 | U64

fun string_to_int_nothrow :: "int_type \<Rightarrow> string \<Rightarrow> int \<Rightarrow> errno \<Rightarrow> int option \<times> errno" where
  "string_to_int_nothrow I8 = stoi8_nothrow"
| "string_to_int_nothrow I16 = stoi16_nothrow"
| "string_to_int_nothrow I32 = stoi32_nothrow"
| "string_to_int_nothrow I64 = stoi64_nothrow"
| "string_to_int_nothrow U8 = stoui8_nothrow"
| "string_to_int_nothrow U16 = stoui16_nothrow"
| "string_to_int_nothrow U32 = stoui32_nothrow"
| "string_to_int_nothrow U64 = stoui64_nothrow"

fun string_to_int :: "int_type \<Rightarrow> string \<Rightarrow> int \<Rightarrow> errno \<Rightarrow> int res \<times> errno" where
  "string_to_int I8 = stoi8"
| "string_to_int I16 = stoi16"
| "string_to_int I32 = stoi32"
| "string_to_int I64 = stoi64"
| "string_to_int U8 = stoui8"
| "string_to_int U16 = stoui16"
| "string_to_int U32 = stoui32"
| "string_to_int U64 = stoui64"

fun type_min :: "int_type \<Rightarrow> int" where
  "type_min I8 = - (2 ^ 7)"
| "type_min I16 = - (2 ^ 15)"
| "type_min I32 = - (2 ^ 31)"
| "type_min I64 = - (2 ^ 63)"
| "type_min U8 = 0"
| "type_min U16 = 0"
| "type_min U32 = 0"
| "type_min U64 = 0"

fun type_max :: "int_type \<Rightarrow> int" where
  "type_max I8 = 2 ^ 7 - 1"
| "type_max I16 = 2 ^ 15 - 1"
| "type_max I32 = 2 ^ 31 - 1"
| "type_max I64 = 2 ^ 63 - 1"
| "type_max U8 = 2 ^ 8 - 1"
| "type_max U16 = 2 ^ 16 - 1"
| "type_max U32 = 2 ^ 32 - 1"
| "type_max U64 = 2 ^ 64 - 1"

fun is_signed :: "int_type \<Rightarrow> bool" where
  "is_signed I8 = True"
| "is_signed I16 = True"
| "is_signed I32 = True"
| "is_signed I64 = True"
| "is_signed U8 = False"
| "is_signed U16 = False"
| "is_signed U32 = False"
| "is_signed U64 = False"

fun conversion_name :: "int_type \<Rightarrow> string" where
  "conversion_name I8 = ''stoi8''"
| "conversion_name I16 = ''stoi16''"
| "conversion_name I32 = ''stoi32''"
| "conversion_name I64 = ''stoi64''"
| "conversion_name U8 = ''stoui8''"
| "conversion_name U16 = ''stoui16''"
| "conversion_name U32 = ''stoui32''"
| "conversion_name U64 = ''stoui32''"

section \<open>Decimal text\<close>

text \<open>\<open>std::to_string\<close> of an integer.\<close>

fun dec_nat :: "nat \<Rightarrow> string" where
  "dec_nat n = (if n < 10 then [char_of (48 + n)] else dec_nat (n div 10) @ [char_of (48 + n mod 10)])"

declare dec_nat.simps [simp del]

definition to_string_int :: "int \<Rightarrow> string" where
  "to_string_int v = (if v < 0 then CHR ''-'' # dec_nat (nat (- v)) else dec_nat (nat v))"

lemma code_digit [simp]: "d < 10 \<Longrightarrow> code (char_of (48 + d)) = 48 + d"
  by simp

lemma digit_value_dec [simp]: "d < 10 \<Longrightarrow> digit_value (char_of (48 + d)) = Some d"
  by (simp add: digit_value_def)

lemma dec_nat_digits: "\<forall>c \<in> set (dec_nat n). is_digit 10 c \<and> \<not> is_space c \<and> c \<noteq> NUL \<and> c \<noteq> CHR ''-'' \<and> c \<noteq> CHR ''+''"
proof (induction n rule: dec_nat.induct)
  case (1 n)
  have d: "is_digit 10 c \<and> \<not> is_space c \<and> c \<noteq> NUL \<and> c \<noteq> CHR ''-'' \<and> c \<noteq> CHR ''+''"
    if "c = char_of (48 + d)" "d < 10" for c and d :: nat
  proof -
    have "code c = 48 + d" using that by simp
    then have "c \<noteq> NUL \<and> c \<noteq> CHR ''-'' \<and> c \<noteq> CHR ''+''" by auto
    then show ?thesis using that by (simp add: is_digit_def is_space_def)
  qed
  show ?case
  proof (cases "n < 10")
    case True
    then show ?thesis using d by (subst dec_nat.simps) simp
  next
    case False
    then show ?thesis using d [of _ "n mod 10"] 1 by (subst dec_nat.simps) auto
  qed
qed

lemma dec_nat_not_Nil [simp]: "dec_nat n \<noteq> []"
  by (subst dec_nat.simps) simp

lemma digits_value_dec [simp]: "digits_value 10 (dec_nat n) = n"
proof (induction n rule: dec_nat.induct)
  case (1 n)
  then show ?case
    by (subst dec_nat.simps) (auto simp: digits_value_def)
qed

lemma takeWhile_dec: "takeWhile (is_digit 10) (dec_nat n) = dec_nat n"
  using dec_nat_digits by simp

lemma scan_sign_dec: "scan_sign (dec_nat n) = (False, dec_nat n)"
  using dec_nat_digits [of n] by (cases "dec_nat n") auto

lemma dropWhile_dec: "dropWhile is_space (dec_nat n) = dec_nat n"
  using dec_nat_digits [of n] by (cases "dec_nat n") auto

lemma scan_number_dec: "scan_number (dec_nat n) 10 = Some (False, n, length (dec_nat n))"
  by (simp add: scan_number_def dropWhile_dec scan_sign_dec scan_prefix_def takeWhile_dec)

lemma scan_number_dec_neg: "scan_number (CHR ''-'' # dec_nat n) 10 = Some (True, n, Suc (length (dec_nat n)))"
  by (simp add: scan_number_def is_space_def scan_prefix_def takeWhile_dec)

lemma scan_number_to_string:
  "scan_number (to_string_int v) 10 = Some (v < 0, nat \<bar>v\<bar>, length (to_string_int v))"
  by (simp add: to_string_int_def scan_number_dec scan_number_dec_neg)

lemma c_str_to_string [simp]: "c_str (to_string_int v) = to_string_int v"
  using dec_nat_digits by (auto simp: c_str_def to_string_int_def)

lemma to_string_is_number [simp]: "\<not> not_a_number (to_string_int v)"
  using dec_nat_digits [of "nat v"] hd_in_set [of "dec_nat (nat v)"]
  by (auto simp: not_a_number_def to_string_int_def is_space_def)

lemma valid_base_10 [simp]: "valid_base 10"
  by (simp add: valid_base_def)

lemma strtol_to_string:
  "strtol (to_string_int v) 10 err =
     ((max LONG_MIN (min LONG_MAX v), Some (length (to_string_int v))),
      if v < LONG_MIN \<or> LONG_MAX < v then ERANGE else err)"
  by (auto simp: strtol_def scan_number_to_string Let_def LONG_MIN_def LONG_MAX_def)

lemma strtoul_to_string:
  "strtoul (to_string_int v) 10 err =
     ((if ULONG_MAX < \<bar>v\<bar> then ULONG_MAX else v mod 2 ^ 64, Some (length (to_string_int v))),
      if ULONG_MAX < \<bar>v\<bar> then ERANGE else err)"
  by (auto simp: strtoul_def scan_number_to_string ULONG_MAX_def)

lemmas strto_defs = strtol_def strtoul_def LONG_MIN_def LONG_MAX_def ULONG_MAX_def ERANGE_def EINVAL_def

lemmas stoi_defs =
  stoi8_def stoi16_def stoi32_def stoi64_def stoui8_def stoui16_def stoui32_def stoui64_def

lemmas stoi_nothrow_defs =
  stoi8_nothrow_def stoi16_nothrow_def stoi32_nothrow_def stoi64_nothrow_def
  stoui8_nothrow_def stoui16_nothrow_def stoui32_nothrow_def stoui64_nothrow_def

lemma strtol_bounds: "strtol s base err = ((r, pos), err') \<Longrightarrow> LONG_MIN \<le> r \<and> r \<le> LONG_MAX"
  by (auto simp: strtol_def LONG_MIN_def LONG_MAX_def Let_def split: if_splits option.splits)

lemma strtoul_bounds: "strtoul s base err = ((r, pos), err') \<Longrightarrow> 0 \<le> r \<and> r \<le> ULONG_MAX"
  using pos_mod_bound [of "2 ^ 64" "- int n" for n]
  by (fastforce simp: strtoul_def ULONG_MAX_def split: if_splits option.splits)

fun in_outcomes :: "int \<Rightarrow> int \<Rightarrow> string \<Rightarrow> int res \<Rightarrow> bool" where
  "in_outcomes lo hi name (Ret v) = (lo \<le> v \<and> v \<le> hi)"
| "in_outcomes lo hi name (Throw e) = (e = Invalid_Argument name \<or> e = Range_Error name)"
| "in_outcomes lo hi name (Fault f) = False"

lemma both_forms:
  "(if N then (None, err) else case X of ((r, pos), err') \<Rightarrow> if S pos \<or> C r err' then (None, err') else (Some r, err')) =
   (case (if N then (Throw I, err)
          else case X of ((r, pos), err') \<Rightarrow>
                 if S pos then (Throw I, err') else if C r err' then (Throw R, err') else (Ret r, err')) of
      (r, err') \<Rightarrow> (case r of Ret v \<Rightarrow> Some v | _ \<Rightarrow> None, err'))"
  by (simp split: prod.split)

lemma in_outcomes_iff:
  "in_outcomes lo hi name r \<longleftrightarrow>
     r \<in> Ret ` {lo..hi} \<union> {Throw (Invalid_Argument name), Throw (Range_Error name)}"
  by (cases r) auto

subsection \<open>Properties of the conversions\<close>

text \<open>
  The decimal text of an integer parses back: for every integer type and every integer
  that is non-negative or of a signed type, the conversion of its \<open>std::to_string\<close> text returns
  the integer when the type can hold it and throws a range error naming the conversion when it
  cannot, at any magnitude and whatever \<open>errno\<close> was.
\<close>

theorem string_to_int_of_to_string:
  assumes "is_signed t \<or> 0 \<le> v"
  shows "fst (string_to_int t (to_string_int v) 10 err) =
     (if type_min t \<le> v \<and> v \<le> type_max t then Ret v else Throw (Range_Error (conversion_name t)))"
  using assms
  by (cases t)
    (auto simp: stoi_defs strtol_to_string strtoul_to_string stopped_early_def LONG_MIN_def LONG_MAX_def
      ULONG_MAX_def ERANGE_def max_def min_def)

theorem string_to_int_of_to_string_witness:
  "fst (string_to_int I8 (to_string_int (- 128)) 10 0) = Ret (- 128)
   \<and> fst (string_to_int U64 (to_string_int (2 ^ 64)) 10 0) = Throw (Range_Error ''stoui32'')"
  using string_to_int_of_to_string [of I8 "- 128" 0] string_to_int_of_to_string [of U64 "2 ^ 64" 0] by simp

text \<open>
  The two forms of every conversion agree, on every text, base and \<open>errno\<close>: the form that
  returns an optional has a value exactly when the other returns, and it is the same value, the
  form that throws never ends otherwise than by a value or by an invalid argument or range error
  carrying its name, both leave the same \<open>errno\<close>, and a returned value is within the type.
\<close>

theorem string_to_int_total:
  "string_to_int_nothrow t s base err =
     (case string_to_int t s base err of (r, err') \<Rightarrow> (case r of Ret v \<Rightarrow> Some v | _ \<Rightarrow> None, err'))
   \<and> fst (string_to_int t s base err) \<in>
       Ret ` {type_min t..type_max t}
       \<union> {Throw (Invalid_Argument (conversion_name t)), Throw (Range_Error (conversion_name t))}"
proof -
  obtain r pos e1 where a: "strtol (c_str s) base err = ((r, pos), e1)" by (metis prod.exhaust_sel)
  obtain r0 pos0 e0 where b: "strtol (c_str s) base 0 = ((r0, pos0), e0)" by (metis prod.exhaust_sel)
  obtain q qos d1 where c: "strtoul (c_str s) base err = ((q, qos), d1)" by (metis prod.exhaust_sel)
  obtain q0 qos0 d0 where d: "strtoul (c_str s) base 0 = ((q0, qos0), d0)" by (metis prod.exhaust_sel)
  have "string_to_int_nothrow t s base err =
     (case string_to_int t s base err of (r, err') \<Rightarrow> (case r of Ret v \<Rightarrow> Some v | _ \<Rightarrow> None, err'))"
    by (cases t; simp only: string_to_int.simps string_to_int_nothrow.simps stoi_defs stoi_nothrow_defs;
        rule both_forms)
  moreover have "in_outcomes (type_min t) (type_max t) (conversion_name t) (fst (string_to_int t s base err))"
    using strtol_bounds [OF a] strtol_bounds [OF b] strtoul_bounds [OF c] strtoul_bounds [OF d]
    by (cases t; simp add: stoi_defs a b c d LONG_MIN_def LONG_MAX_def ULONG_MAX_def)
  ultimately show ?thesis by (simp add: in_outcomes_iff)
qed

text \<open>
  What the conversions accept beyond decimal text of the type.  Text after an embedded NUL
  is ignored, whatever it is; a string that starts with NUL converts to 0; and an unsigned
  64-bit conversion accepts a negative number and returns it modulo \<open>2 ^ 64\<close>.
\<close>

theorem string_to_int_lenient:
  assumes "s \<noteq> []" and "- (2 ^ 64) < v" and "v < 0"
  shows "string_to_int t (s @ NUL # junk) base err = string_to_int t s base err
    \<and> fst (string_to_int t (NUL # junk) 10 err) = Ret 0
    \<and> fst (string_to_int U64 (to_string_int v) 10 err) = Ret (v + 2 ^ 64)"
proof -
  have "c_str (s @ NUL # junk) = c_str s"
    by (simp add: c_str_def takeWhile_tail)
  moreover have "not_a_number (s @ NUL # junk) = not_a_number s"
    using assms(1) by (cases s) (simp_all add: not_a_number_def)
  ultimately have 1: "string_to_int t (s @ NUL # junk) base err = string_to_int t s base err"
    by (cases t) (simp_all add: stoi_defs)
  have 2: "fst (string_to_int t (NUL # junk) 10 err) = Ret 0"
    by (cases t) (auto simp: stoi_defs not_a_number_def is_space_def c_str_def strto_defs scan_number_def
        scan_prefix_def stopped_early_def)
  have "v mod 2 ^ 64 = v + 2 ^ 64"
  proof -
    have "(v + 2 ^ 64) mod 2 ^ 64 = v + 2 ^ 64"
      using assms(2,3) by (intro mod_pos_pos_trivial) simp_all
    then show ?thesis by (metis mod_add_self2)
  qed
  then have "fst (string_to_int U64 (to_string_int v) 10 err) = Ret (v + 2 ^ 64)"
    using assms(2,3) by (simp add: stoui64_def strtoul_to_string stopped_early_def ULONG_MAX_def ERANGE_def)
  with 1 2 show ?thesis by blast
qed

theorem string_to_int_lenient_witness:
  "string_to_int I8 (''12'' @ NUL # ''x'') 10 0 = string_to_int I8 ''12'' 10 0
   \<and> fst (string_to_int U64 (to_string_int (- 1)) 10 0) = Ret (2 ^ 64 - 1)"
  using string_to_int_lenient [of "''12''" "- 1" I8 "''x''" 10 0] by simp

text \<open>
  The floating-point conversions read \<open>errno\<close> without having reset it: after any call that
  left \<open>ERANGE\<close> there, a text that \<open>strtof\<close> converts completely and in range is reported as a
  range error.  The hypothesis is what the C standard says of \<open>strtof\<close>: a conversion that
  succeeds leaves \<open>errno\<close> alone.
\<close>

theorem stof_reports_stale_errno:
  assumes "\<And>e. strtof (c_str value) e = ((r, Some (length (c_str value))), e)"
    and "value \<noteq> []" and "\<not> is_space (hd value)"
  shows "fst (stof32 strtof value 0) = Ret r
    \<and> fst (stof32 strtof value ERANGE) = Throw (Range_Error ''stof32'')
    \<and> stof64 strtof value ERANGE = (Throw (Range_Error ''stof64''), ERANGE)
    \<and> stof32_nothrow strtof value ERANGE = (None, ERANGE)"
  using assms
  by (simp add: stof32_def stof64_def stof32_nothrow_def not_a_number_def stopped_early_def ERANGE_def)

theorem stof_reports_stale_errno_witness:
  "fst (stof32 (\<lambda>s e. ((1 :: nat, Some (length s)), e)) ''1.0'' ERANGE) = Throw (Range_Error ''stof32'')"
proof -
  have "fst (stof32 (\<lambda>s e. ((1 :: nat, Some (length s)), e)) ''1.0'' 0) = Ret 1
    \<and> fst (stof32 (\<lambda>s e. ((1 :: nat, Some (length s)), e)) ''1.0'' ERANGE) = Throw (Range_Error ''stof32'')
    \<and> stof64 (\<lambda>s e. ((1 :: nat, Some (length s)), e)) ''1.0'' ERANGE = (Throw (Range_Error ''stof64''), ERANGE)
    \<and> stof32_nothrow (\<lambda>s e. ((1 :: nat, Some (length s)), e)) ''1.0'' ERANGE = (None, ERANGE)"
    by (rule stof_reports_stale_errno) (simp_all add: is_space_def)
  then show ?thesis by simp
qed

section \<open>Comparing and searching\<close>

fun iequals_loop :: "string \<Rightarrow> string \<Rightarrow> bool" where
  "iequals_loop (a # as) (b # bs) = (if tolower a \<noteq> tolower b then False else iequals_loop as bs)"
| "iequals_loop _ _ = True"

definition iequals :: "string \<Rightarrow> string \<Rightarrow> bool" where
  "iequals lhs rhs = (if length lhs \<noteq> length rhs then False else iequals_loop lhs rhs)"

definition starts_with :: "string \<Rightarrow> string \<Rightarrow> bool" where
  "starts_with s sub = (if length s < length sub then False else take (length sub) s = sub)"

definition starts_with_char :: "string \<Rightarrow> char \<Rightarrow> bool" where
  "starts_with_char s c = (if s = [] then False else hd s = c)"

definition ends_with :: "string \<Rightarrow> string \<Rightarrow> bool" where
  "ends_with s sub =
     (if length s < length sub then False
      else let offset = length s - length sub in take (length sub) (drop offset s) = sub)"

definition ends_with_char :: "string \<Rightarrow> char \<Rightarrow> bool" where
  "ends_with_char s c = (if s = [] then False else last s = c)"

definition contains :: "string \<Rightarrow> string \<Rightarrow> bool" where
  "contains s sub \<longleftrightarrow> view_find sub 0 s \<noteq> None"

definition contains_char :: "string \<Rightarrow> char \<Rightarrow> bool" where
  "contains_char s c \<longleftrightarrow> view_find [c] 0 s \<noteq> None"

text \<open>The loop of \<open>count\<close>, which need not end; \<open>None\<close> is a call that does not return.\<close>

partial_function (option) count_loop :: "string \<Rightarrow> string \<Rightarrow> nat \<Rightarrow> nat \<Rightarrow> nat option" where
  "count_loop s sub pos n =
     (case view_find sub pos s of
        None \<Rightarrow> Some n
      | Some p \<Rightarrow> count_loop s sub (p + length sub) (n + 1))"

definition count_substring :: "string \<Rightarrow> string \<Rightarrow> nat option" where
  "count_substring s sub = count_loop s sub 0 0"

definition count_char :: "string \<Rightarrow> char \<Rightarrow> nat option" where
  "count_char s c = count_loop s [c] 0 0"

section \<open>Transforming\<close>

definition to_upper :: "string \<Rightarrow> string" where
  "to_upper s = map toupper s"

definition to_lower :: "string \<Rightarrow> string" where
  "to_lower s = map tolower s"

fun find_first_not_of :: "string \<Rightarrow> string \<Rightarrow> nat option" where
  "find_first_not_of chars [] = None"
| "find_first_not_of chars (c # s) =
     (if c \<in> set chars then map_option Suc (find_first_not_of chars s) else Some 0)"

text \<open>\<open>string.erase(0, n)\<close> with \<open>n = npos\<close> erases everything.\<close>

definition trim_left :: "string \<Rightarrow> string \<Rightarrow> string" where
  "trim_left s chars = (case find_first_not_of chars s of None \<Rightarrow> [] | Some n \<Rightarrow> drop n s)"

fun count_trailing :: "string \<Rightarrow> string \<Rightarrow> nat \<Rightarrow> nat" where
  "count_trailing chars [] pos = pos"
| "count_trailing chars (c # rs) pos = (if c \<notin> set chars then pos else count_trailing chars rs (pos + 1))"

definition trim_right :: "string \<Rightarrow> string \<Rightarrow> string" where
  "trim_right s chars = take (length s - count_trailing chars (rev s) 0) s"

definition trim :: "string \<Rightarrow> string \<Rightarrow> string" where
  "trim s chars = trim_right (trim_left s chars) chars"

text \<open>
  The loop of \<open>split\<close> with its locals \<open>tokens\<close>, \<open>token\<close> and \<open>count\<close>.  A token that has been
  moved into the vector is empty afterwards.
\<close>

fun split_loop :: "(char \<Rightarrow> bool) \<Rightarrow> bool \<Rightarrow> string \<Rightarrow> string list \<Rightarrow> string \<Rightarrow> nat \<Rightarrow> string list \<times> string \<times> nat" where
  "split_loop is_delimiter filter_empty [] tokens token n = (tokens, token, n)"
| "split_loop is_delimiter filter_empty (c # s) tokens token n =
     (if is_delimiter c
      then if token \<noteq> [] \<or> \<not> filter_empty
           then split_loop is_delimiter filter_empty s (tokens @ [token]) [] (n + 1)
           else split_loop is_delimiter filter_empty s tokens token (n + 1)
      else split_loop is_delimiter filter_empty s tokens (token @ [c]) n)"

definition split :: "string \<Rightarrow> (char \<Rightarrow> bool) \<Rightarrow> bool \<Rightarrow> string list" where
  "split s is_delimiter filter_empty =
     (if s = [] then []
      else case split_loop is_delimiter filter_empty s [] [] 0 of
             (tokens, token, n) \<Rightarrow>
               if token \<noteq> [] \<or> n > 0 \<and> \<not> filter_empty then tokens @ [token] else tokens)"

definition split_char :: "string \<Rightarrow> char \<Rightarrow> bool \<Rightarrow> string list" where
  "split_char s delimiter filter_empty = split s (\<lambda>c. delimiter = c) filter_empty"

definition fill_left :: "string \<Rightarrow> nat \<Rightarrow> char \<Rightarrow> string" where
  "fill_left s n c = (let n' = max (length s) n in replicate (n' - length s) c @ s)"

definition fill_right :: "string \<Rightarrow> nat \<Rightarrow> char \<Rightarrow> string" where
  "fill_right s n c = (let n' = max (length s) n in s @ replicate (n' - length s) c)"

definition join :: "'a list list \<Rightarrow> 'a list \<Rightarrow> 'a list" where
  "join v separator =
     (if v = [] then [] else concat (map (\<lambda>t. t @ separator) (butlast v)) @ last v)"

text \<open>\<open>std::string::rfind\<close> of a character.\<close>

definition rfind :: "char \<Rightarrow> string \<Rightarrow> nat option" where
  "rfind c s = (if c \<in> set s then Some (length s - 1 - length (takeWhile (\<lambda>d. d \<noteq> c) (rev s))) else None)"

definition replace :: "string \<Rightarrow> string \<Rightarrow> string \<Rightarrow> string" where
  "replace s literal value =
     (case view_find literal 0 s of
        None \<Rightarrow> s
      | Some pos \<Rightarrow> take pos s @ value @ drop (pos + length literal) s)"

section \<open>What the text functions do\<close>

lemma takeWhile_stop: "list_all P xs \<Longrightarrow> ys = [] \<or> \<not> P (hd ys) \<Longrightarrow> takeWhile P (xs @ ys) = xs \<and> dropWhile P (xs @ ys) = ys"
  by (induction xs) (cases ys; auto)+

lemma c_str_id: "NUL \<notin> set s \<Longrightarrow> c_str s = s"
  by (auto simp: c_str_def takeWhile_eq_all_conv)

lemma rfind_last: "c \<notin> set ys \<Longrightarrow> rfind c (xs @ c # ys) = Some (length xs)"
proof -
  assume "c \<notin> set ys"
  then have "takeWhile (\<lambda>d. d \<noteq> c) (rev ys @ c # rev xs) = rev ys"
    by (intro takeWhile_stop [THEN conjunct1]) (auto simp: list_all_iff)
  then show ?thesis by (simp add: rfind_def)
qed

lemma iequals_loop_iff: "length lhs = length rhs \<Longrightarrow> iequals_loop lhs rhs \<longleftrightarrow> map tolower lhs = map tolower rhs"
  by (induction lhs rhs rule: list_induct2) auto

lemma view_find_0: "view_find pat 0 s = find_at pat s"
  by (cases "find_at pat s") (simp_all add: view_find_def)

lemma find_char: "c \<notin> set xs \<Longrightarrow> view_find [c] 0 (xs @ c # ys) = Some (length xs)"
proof -
  assume "c \<notin> set xs"
  then have "find_at [c] (xs @ c # ys) = Some (length xs)" by (induction xs) auto
  then show ?thesis by (simp add: view_find_0)
qed

lemma find_char_None: "c \<notin> set xs \<Longrightarrow> view_find [c] 0 xs = None"
proof -
  assume "c \<notin> set xs"
  then have "find_at [c] xs = None" by (induction xs) auto
  then show ?thesis by (simp add: view_find_0)
qed

lemma find_at_None_iff: "find_at pat s = None \<longleftrightarrow> \<not> sublist pat s"
proof
  assume n: "find_at pat s = None"
  show "\<not> sublist pat s"
  proof
    assume "sublist pat s"
    then obtain as bs where "s = as @ pat @ bs" by (auto simp: sublist_def)
    with find_at_None [OF n, of "length as"] show False by simp
  qed
next
  assume "\<not> sublist pat s"
  then show "find_at pat s = None"
  proof (rule contrapos_np)
    assume "find_at pat s \<noteq> None"
    then obtain i where i: "find_at pat s = Some i" by auto
    from find_at_Some [OF i] have "take (length pat) (drop i s) = pat" by simp
    then have "drop i s = pat @ drop (length pat) (drop i s)" by (metis append_take_drop_id)
    then have "s = take i s @ pat @ drop (length pat) (drop i s)" by (metis append_take_drop_id)
    then show "sublist pat s" unfolding sublist_def by blast
  qed
qed

lemma find_at_eq:
  assumes "take (length pat) (drop i xs) = pat" and "i \<le> length xs"
    and "\<And>j. j < i \<Longrightarrow> take (length pat) (drop j xs) \<noteq> pat"
  shows "find_at pat xs = Some i"
proof (cases "find_at pat xs")
  case None
  from find_at_None [OF None assms(2)] assms(1) show ?thesis by simp
next
  case (Some k)
  from find_at_Some [OF Some] assms show ?thesis
    by (metis Some linorder_neqE_nat)
qed

lemma count_loop_returns:
  assumes "count_loop s sub pos n = Some r"
  shows "sub = [] \<longrightarrow> length s < pos"
proof (rule count_loop.raw_induct [OF _ assms, where P = "\<lambda>s sub pos n r. sub = [] \<longrightarrow> length s < pos"])
  fix loop s sub pos n r
  assume ih: "\<And>sub pos n b y. loop sub pos n b = Some y \<Longrightarrow> pos = [] \<longrightarrow> length sub < n"
    and step: "(case view_find sub pos s of None \<Rightarrow> Some n
      | Some p \<Rightarrow> loop s sub (p + length sub) (n + 1)) = Some r"
  show "sub = [] \<longrightarrow> length s < pos"
  proof (intro impI, rule ccontr)
    assume sub: "sub = []" and le: "\<not> length s < pos"
    have "find_at [] (drop pos s) = Some 0" by (cases "drop pos s") simp_all
    with sub le step ih [of s "[]" pos "n + 1" r] show False by (simp add: view_find_def)
  qed
qed

lemma count_loop_Nil: "pos \<le> length s \<Longrightarrow> count_loop s [] pos n = None"
  using count_loop_returns [of s "[]" pos n] by (cases "count_loop s [] pos n") auto

lemma count_loop_spec:
  assumes "sub \<noteq> []" and "pos \<le> length s"
  shows "\<exists>ps tl. drop pos s = concat (map (\<lambda>p. p @ sub) ps) @ tl \<and> \<not> sublist sub tl
    \<and> (\<forall>p \<in> set ps. find_at sub (p @ sub) = Some (length p)) \<and> count_loop s sub pos n = Some (n + length ps)"
  using assms(2)
proof (induction "length s - pos" arbitrary: pos n rule: less_induct)
  case less
  show ?case
  proof (cases "find_at sub (drop pos s)")
    case None
    then have "count_loop s sub pos n = Some n"
      using less.prems by (subst count_loop.simps) (simp add: view_find_def)
    with None show ?thesis
      by (intro exI [of _ "[]"] exI [of _ "drop pos s"]) (simp add: find_at_None_iff)
  next
    case (Some i)
    note f = find_at_Some [OF Some]
    let ?pos = "pos + i + length sub"
    have le: "?pos \<le> length s" using f less.prems by auto
    have step: "count_loop s sub pos n = count_loop s sub ?pos (n + 1)"
      using Some less.prems by (subst count_loop.simps) (simp add: view_find_def)
    have "length s - ?pos < length s - pos" using assms(1) le by (cases sub) simp_all
    from less.hyps [OF this le] obtain ps tl where t: "drop ?pos s = concat (map (\<lambda>p. p @ sub) ps) @ tl"
      "\<not> sublist sub tl" "\<forall>p \<in> set ps. find_at sub (p @ sub) = Some (length p)"
      "count_loop s sub ?pos (n + 1) = Some (n + 1 + length ps)" by blast
    let ?p = "take i (drop pos s)"
    have len: "length ?p = i" using f by simp
    have "drop pos s = ?p @ drop i (drop pos s)" by (rule append_take_drop_id [symmetric])
    also have "drop i (drop pos s) = sub @ drop (length sub) (drop i (drop pos s))"
      using f by (metis append_take_drop_id)
    finally have split: "drop pos s = (?p @ sub) @ drop ?pos s"
      by (simp add: add.commute add.left_commute)
    have "take (length sub) (drop j (?p @ sub)) \<noteq> sub" if "j < i" for j
    proof -
      have "take (length sub) (drop j (drop pos s)) = take (length sub) (drop j (?p @ sub))"
        using that len by (subst split) simp
      moreover have "take (length sub) (drop j (drop pos s)) \<noteq> sub" using f that by blast
      ultimately show ?thesis by argo
    qed
    then have "find_at sub (?p @ sub) = Some (length ?p)"
      using len by (intro find_at_eq) simp_all
    with t split step show ?thesis
      by (intro exI [of _ "?p # ps"] exI [of _ tl]) simp
  qed
qed


lemma find_first_not_of_None: "find_first_not_of chars s = None \<Longrightarrow> set s \<subseteq> set chars"
  by (induction s) (auto split: if_splits)

lemma find_first_not_of_Some:
  "find_first_not_of chars s = Some n \<Longrightarrow>
     n < length s \<and> set (take n s) \<subseteq> set chars \<and> s ! n \<notin> set chars"
  by (induction s arbitrary: n) (auto split: if_splits)

lemma trim_left_dropWhile: "trim_left s chars = dropWhile (\<lambda>c. c \<in> set chars) s"
  unfolding trim_left_def by (induction s) (auto split: option.splits)

lemma count_trailing_eq: "count_trailing chars rs pos = pos + length (takeWhile (\<lambda>c. c \<in> set chars) rs)"
  by (induction rs arbitrary: pos) auto

lemma trim_right_rev: "trim_right s chars = rev (dropWhile (\<lambda>c. c \<in> set chars) (rev s))"
  by (simp add: trim_right_def count_trailing_eq dropWhile_eq_drop rev_drop)

lemma hd_dropWhile_rev:
  assumes "s = dropWhile P t" and "rev (dropWhile P (rev s)) \<noteq> []"
  shows "\<not> P (hd (rev (dropWhile P (rev s))))"
proof -
  from assms(2) have "\<not> (\<forall>x \<in> set s. P x)" by (auto simp: dropWhile_eq_Nil_conv)
  then have "s \<noteq> []" by auto
  then have "\<not> P (hd s)" using assms(1) hd_dropWhile [of P t] by simp
  moreover have "hd (rev (dropWhile P (rev s))) = hd s"
  proof -
    have "s = rev (dropWhile P (rev s)) @ rev (takeWhile P (rev s))"
      by (metis rev_append rev_rev_ident takeWhile_dropWhile_id)
    then show ?thesis using assms(2) by (metis hd_append2)
  qed
  ultimately show ?thesis by simp
qed

text \<open>The tokens of a text as a structural recursion, the reference for \<open>split\<close>.\<close>

fun tokens :: "(char \<Rightarrow> bool) \<Rightarrow> string \<Rightarrow> string list" where
  "tokens p [] = [[]]"
| "tokens p (c # s) = (if p c then [] # tokens p s else (c # hd (tokens p s)) # tl (tokens p s))"

lemma tokens_not_Nil [simp]: "tokens p s \<noteq> []"
  by (cases s) auto

lemma split_loop_tokens:
  "split_loop p False s ts token n =
     (ts @ butlast ((token @ hd (tokens p s)) # tl (tokens p s)),
      last ((token @ hd (tokens p s)) # tl (tokens p s)),
      n + length (tl (tokens p s)))"
proof (induction s arbitrary: ts token n)
  case (Cons c s)
  then show ?case
    by (cases "tokens p s") (auto split: if_splits)
qed simp

lemma length_tokens: "length (tokens p s) = Suc (length (List.filter p s))"
  by (induction s) auto

lemma split_tokens: "split s p False = (if s = [] then [] else tokens p s)"
proof (cases "s = []")
  case False
  obtain t ts where t: "tokens p s = t # ts" by (cases "tokens p s") auto
  have nonempty: "t \<noteq> [] \<or> ts \<noteq> []" using t False by (cases s) (auto split: if_splits)
  from this have "(if last (t # ts) \<noteq> [] \<or> length ts > 0 then butlast (t # ts) @ [last (t # ts)] else butlast (t # ts)) = t # ts"
    by (cases "ts = []") (simp_all only: append_butlast_last_id, simp_all)
  with t False nonempty show ?thesis
    unfolding split_def split_loop_tokens by auto
qed (simp add: split_def)

lemma split_loop_filtered:
  "split_loop p True s ts token n =
     (let (us, u, m) = split_loop p False s ts' token n
      in (ts @ List.filter (\<lambda>t. t \<noteq> []) (drop (length ts') us), u, m))"
proof (induction s arbitrary: ts ts' token n)
  case (Cons c s)
  show ?case
  proof (cases "p c")
    case False
    with Cons [of ts "token @ [c]" n ts'] show ?thesis by simp
  next
    case True
    then show ?thesis
      using Cons [of "ts @ [token]" "[]" "n + 1" "ts' @ [token]"] Cons [of ts token "n + 1" "ts' @ [token]"]
      by (cases "token = []") (auto simp: split_loop_tokens butlast_append)
  qed
qed simp

lemma split_filtered: "split s p True = List.filter (\<lambda>t. t \<noteq> []) (split s p False)"
  using split_loop_filtered [of p s "[]" "[]" 0 "[]"]
  by (auto simp: split_def Let_def split: prod.splits)

lemma join_Cons: "ts \<noteq> [] \<Longrightarrow> join (t # ts) sep = t @ sep @ join ts sep"
  by (simp add: join_def)

lemma join_single [simp]: "join [t] sep = t"
  by (simp add: join_def)

lemma join_tokens: "join (tokens (\<lambda>c. d = c) s) [d] = s"
proof (induction s)
  case (Cons c s)
  obtain t ts where t: "tokens (\<lambda>c. d = c) s = t # ts" by (cases "tokens (\<lambda>c. d = c) s") auto
  with Cons show ?case
    by (cases "ts = []") (auto simp: join_Cons)
qed simp

lemma tokens_free: "\<forall>t \<in> set (tokens p s). \<forall>c \<in> set t. \<not> p c"
proof (induction s)
  case (Cons c s)
  then show ?case by (cases "tokens p s") auto
qed simp

lemma tokens_append: "\<forall>c \<in> set t. \<not> p c \<Longrightarrow> tokens p (t @ s) = (t @ hd (tokens p s)) # tl (tokens p s)"
  by (induction t) auto

lemma tokens_join:
  assumes "ts \<noteq> []" and "\<forall>t \<in> set ts. d \<notin> set t"
  shows "tokens (\<lambda>c. d = c) (join ts [d]) = ts"
  using assms
proof (induction ts)
  case (Cons t ts)
  have free: "\<forall>c \<in> set t. \<not> d = c" using Cons.prems(2) by auto
  show ?case
  proof (cases "ts = []")
    case True
    with tokens_append [OF free, of "[]"] show ?thesis by simp
  next
    case False
    with Cons free show ?thesis by (simp add: join_Cons tokens_append [OF free])
  qed
qed simp

subsection \<open>Properties of the text functions\<close>

text \<open>
  C11.  \<open>split\<close> and \<open>join\<close> are inverse: joining the tokens of a text with the delimiter gives the
  text back, and splitting a joined list of delimiter-free tokens gives the list back, unless it
  is the list of one empty token.  The tokens are delimiter-free and one more than the
  delimiters, and filtering leaves exactly the non-empty tokens in their order.
\<close>

theorem split_join:
  assumes "\<forall>t \<in> set ts. d \<notin> set t" and "ts \<noteq> [[]]"
  shows "join (split_char s d False) [d] = s
    \<and> split_char (join ts [d]) d False = ts
    \<and> (s = [] \<or> length (split s p False) = Suc (length (List.filter p s)))
    \<and> list_all (\<lambda>t. list_all (\<lambda>c. \<not> p c) t) (split s p False)
    \<and> split s p True = List.filter (\<lambda>t. t \<noteq> []) (split s p False)"
proof -
  have 1: "join (split_char s d False) [d] = s"
    by (simp add: split_char_def split_tokens join_tokens, simp add: join_def)
  have 2: "split_char (join ts [d]) d False = ts"
  proof (cases "ts = []")
    case True
    then show ?thesis by (simp add: split_char_def split_tokens join_def)
  next
    case False
    note tj = tokens_join [OF False assms(1)]
    have "join ts [d] \<noteq> []"
    proof
      assume "join ts [d] = []"
      with tj assms(2) show False by simp
    qed
    with tj show ?thesis by (simp add: split_char_def split_tokens)
  qed
  have 3: "list_all (\<lambda>t. list_all (\<lambda>c. \<not> p c) t) (split s p False)"
    using tokens_free [of p s] by (simp add: split_tokens list_all_iff)
  from 1 2 3 show ?thesis
    by (simp add: split_filtered split_tokens length_tokens)
qed

theorem split_join_witness:
  "split_char (join [''foo'', [], ''bar''] '','') CHR '','' False = [''foo'', [], ''bar'']
   \<and> split_char '',a,,b'' CHR '','' True = [''a'', ''b'']"
  using split_join [of "[''foo'', [], ''bar'']" "CHR '',''" "'',a,,b''" "\<lambda>c. CHR '','' = c"]
  by (simp add: split_char_def split_def)

text \<open>
  \<open>trim\<close> removes a prefix and a suffix of the given characters and nothing else, and what
  remains is empty or neither begins nor ends with one of them; \<open>trim_left\<close> and \<open>trim_right\<close>
  each remove their side.
\<close>

theorem trim_removes_both_ends:
  "\<exists>l r. s = l @ trim s chars @ r \<and> set l \<subseteq> set chars \<and> set r \<subseteq> set chars
    \<and> s = l @ trim_left s chars
    \<and> (trim s chars = [] \<or> hd (trim s chars) \<notin> set chars \<and> last (trim s chars) \<notin> set chars)"
proof -
  let ?P = "\<lambda>c. c \<in> set chars" and ?t = "trim_left s chars"
  have s: "s = takeWhile ?P s @ ?t" by (simp add: trim_left_dropWhile)
  have t: "?t = trim s chars @ rev (takeWhile ?P (rev ?t))"
    by (simp add: trim_def trim_right_rev flip: rev_append)
  have "set (takeWhile ?P s) \<subseteq> set chars" "set (rev (takeWhile ?P (rev ?t))) \<subseteq> set chars"
    by (auto dest: set_takeWhileD)
  moreover have "trim s chars = [] \<or> hd (trim s chars) \<notin> set chars \<and> last (trim s chars) \<notin> set chars"
  proof (cases "trim s chars = []")
    case False
    then have ne: "rev (dropWhile ?P (rev ?t)) \<noteq> []" by (simp add: trim_def trim_right_rev)
    have "hd (rev (dropWhile ?P (rev ?t))) \<notin> set chars"
      by (rule hd_dropWhile_rev [OF trim_left_dropWhile ne])
    moreover have "last (rev (dropWhile ?P (rev ?t))) \<notin> set chars"
      using ne hd_dropWhile [of ?P "rev ?t"] by (simp add: last_rev)
    ultimately show ?thesis by (simp add: trim_def trim_right_rev)
  qed simp
  ultimately show ?thesis using s t by metis
qed

text \<open>
  \<open>count\<close> returns for every non-empty substring, and the number is that of the greedy
  decomposition of the text from the left: each piece ends with the first occurrence in what is
  left, and the tail has none.
\<close>

theorem count_counts_occurrences:
  assumes "sub \<noteq> []"
  shows "\<exists>ps tl. s = concat (map (\<lambda>p. p @ sub) ps) @ tl \<and> contains tl sub = False
    \<and> list_all (\<lambda>p. view_find sub 0 (p @ sub) = Some (length p)) ps
    \<and> count_substring s sub = Some (length ps)"
  using count_loop_spec [OF assms, of 0 s 0]
  by (simp add: count_substring_def contains_def list_all_iff view_find_0 find_at_None_iff)

theorem count_counts_occurrences_witness: "\<exists>n. count_substring ''foobarfoo'' ''foo'' = Some n"
  using count_counts_occurrences [of "''foo''" "''foobarfoo''"] by auto

text \<open>\<open>count\<close> of an empty substring never returns: its position does not advance.\<close>

theorem count_empty_never_returns: "count_substring s [] = None"
  by (simp add: count_substring_def count_loop_Nil)

text \<open>
  The predicates decide what their names say: prefix, suffix, contiguous sublist, and
  equality up to ASCII case; \<open>replace\<close> changes the first occurrence only; and the fill functions
  pad to the length and never cut.
\<close>

theorem text_predicates:
  "starts_with s sub = prefix sub s \<and> ends_with s sub = suffix sub s \<and> contains s sub = sublist sub s
   \<and> starts_with_char s c = prefix [c] s \<and> ends_with_char s c = suffix [c] s \<and> contains_char s c = (c \<in> set s)
   \<and> iequals s sub = (to_lower s = to_lower sub)
   \<and> (replace s sub val = s \<and> \<not> sublist sub s
      \<or> (\<exists>a b. s = a @ sub @ b \<and> view_find sub 0 s = Some (length a) \<and> replace s sub val = a @ val @ b))
   \<and> suffix s (fill_left s n c) \<and> prefix s (fill_right s n c)
   \<and> length (fill_left s n c) = max (length s) n \<and> length (fill_right s n c) = max (length s) n"
proof -
  have 1: "starts_with s sub = prefix sub s"
    by (auto simp: starts_with_def prefix_def take_length_eq_prefix)
  have 2: "ends_with s sub = suffix sub s"
  proof
    assume e: "ends_with s sub"
    then have "drop (length s - length sub) s = sub"
      by (simp add: ends_with_def split: if_splits)
    then show "suffix sub s" by (metis suffix_drop)
  next
    assume "suffix sub s"
    then show "ends_with s sub" by (auto simp: suffix_def ends_with_def)
  qed
  have 3: "contains s sub = sublist sub s" for sub
    by (simp add: contains_def view_find_0 find_at_None_iff)
  have 4: "contains_char s c = (c \<in> set s)"
    using 3 [of "[c]"] by (auto simp: contains_def contains_char_def sublist_def in_set_conv_decomp)
  have 5: "iequals s sub = (to_lower s = to_lower sub)"
    by (auto simp: iequals_def to_lower_def iequals_loop_iff dest: map_eq_imp_length_eq)
  have 6: "replace s sub val = s \<and> \<not> sublist sub s
      \<or> (\<exists>a b. s = a @ sub @ b \<and> view_find sub 0 s = Some (length a) \<and> replace s sub val = a @ val @ b)"
  proof (cases "view_find sub 0 s")
    case None
    then have "\<not> sublist sub s" by (simp add: view_find_0 find_at_None_iff)
    with None show ?thesis by (simp add: replace_def)
  next
    case (Some i)
    note f = view_find_Some [OF Some]
    have "drop i s = sub @ drop (i + length sub) s"
      using f(3) by (metis append_take_drop_id drop_drop add.commute)
    then have "s = take i s @ sub @ drop (i + length sub) s" by (metis append_take_drop_id)
    moreover have "length (take i s) = i" using f(2) by simp
    ultimately show ?thesis using Some by (auto simp: replace_def)
  qed
  have 7: "starts_with_char s c = prefix [c] s" "ends_with_char s c = suffix [c] s"
    by (cases s; auto simp: starts_with_char_def prefix_def)
      (cases s rule: rev_cases; auto simp: ends_with_char_def)
  from 1 2 3 4 5 6 7 show ?thesis
    by (simp add: fill_left_def fill_right_def suffix_def prefix_def Let_def)
qed

end
