(* ===== verification/Base64.thy ===== *)
theory Base64
  imports Buffer Strings
begin

text \<open>
  The functions of \<open>src/hlib_string.cpp\<close> that work on memory: the base64 codec and
  \<open>memory_copy\<close>; and the \<open>join\<close> of \<open>include/hlib/string.hpp\<close> that builds its text in a buffer.

  The codec extends the buffer, writes through the returned pointer and then resizes.  The text
  that \<open>base64_encode\<close> writes is compared with the definition of RFC 4648: the bits of the data
  in groups of six, padded with zero bits, and \<open>=\<close> up to a multiple of four characters.
\<close>

section \<open>Encoding\<close>

definition encode_table :: string where
  "encode_table = ''ABCDEFGHIJKLMNOPQRSTUVWXYZabcdefghijklmnopqrstuvwxyz0123456789+/''"

definition encode_char :: "u8 \<Rightarrow> u8" where
  "encode_char i = byte_of_char (encode_table ! unat i)"

definition base64_encode_get_length :: "nat \<Rightarrow> nat" where
  "base64_encode_get_length n = (size_add n 2 div 3 * 4) mod size_limit"

definition encode_start :: "u8 \<Rightarrow> u8 \<Rightarrow> u8 list" where
  "encode_start src0 src1 =
     [encode_char (drop_bit 2 (src0 AND 0xfc)),
      encode_char (push_bit 4 (src0 AND 0x03) OR drop_bit 4 (src1 AND 0xf0))]"

text \<open>The loop over groups of three bytes and the switch on the one or two bytes left.\<close>

fun encode_loop :: "u8 list \<Rightarrow> u8 list" where
  "encode_loop (src0 # src1 # src2 # src) =
     encode_start src0 src1 @
     [encode_char (push_bit 2 (src1 AND 0x0f) OR drop_bit 6 (src2 AND 0xc0)),
      encode_char (src2 AND 0x3f)] @ encode_loop src"
| "encode_loop [src0, src1] =
     encode_start src0 src1 @ [encode_char (push_bit 2 (src1 AND 0x0f)), byte_of_char CHR ''='']"
| "encode_loop [src0] =
     [encode_char (drop_bit 2 (src0 AND 0xfc)), encode_char (push_bit 4 (src0 AND 0x03)),
      byte_of_char CHR ''='', byte_of_char CHR ''='']"
| "encode_loop [] = []"

definition base64_encode_into :: "allocator \<Rightarrow> u8 list \<Rightarrow> buffer \<Rightarrow> bool res \<times> buffer" where
  "base64_encode_into A data b =
     (let encoded_length = base64_encode_get_length (length data)
      in if 0 = encoded_length then (Ret True, b)
         else and_then (buf_extend_nothrow A encoded_length b)
           (\<lambda>dst b. if dst = None then (Ret False, b)
              else and_then (buf_store dst (encode_loop data) b)
                (\<lambda>_ b. noexcept (and_then (buf_resize A (size_add (m_size b) encoded_length) b)
                   (\<lambda>_ b. (Ret True, b))))))"

text \<open>The result of the inner call is ignored.\<close>

definition base64_encode :: "allocator \<Rightarrow> u8 list \<Rightarrow> u8 list res" where
  "base64_encode A data = fst (and_then (base64_encode_into A data empty_buffer) (\<lambda>_ b. (Ret (buf_to_string b), b)))"

definition base64_encode_buffer :: "allocator \<Rightarrow> buffer \<Rightarrow> u8 list res" where
  "base64_encode_buffer A b = base64_encode A (take (m_size b) (the_block (m_data b)))"

section \<open>Decoding\<close>

definition base64_decode_get_size :: "nat \<Rightarrow> nat" where
  "base64_decode_get_size n = (3 * (n div 4) + 2) mod size_limit"

definition decode_char :: "u8 \<Rightarrow> u8" where
  "decode_char c =
     (if 65 \<le> c \<and> c \<le> 90 then c - 65 + 0
      else if 97 \<le> c \<and> c \<le> 122 then c - 97 + 26
      else if 48 \<le> c \<and> c \<le> 57 then c - 48 + 52
      else if c = 43 then 62 else 63)"

definition decode2 :: "u8 \<Rightarrow> u8 \<Rightarrow> u8 list" where
  "decode2 src0 src1 = [push_bit 2 (decode_char src0) OR drop_bit 4 (decode_char src1 AND 0x30)]"

definition decode3 :: "u8 \<Rightarrow> u8 \<Rightarrow> u8 \<Rightarrow> u8 list" where
  "decode3 src0 src1 src2 =
     decode2 src0 src1 @ [push_bit 4 (decode_char src1 AND 0x0f) OR drop_bit 2 (decode_char src2 AND 0x3c)]"

definition decode4 :: "u8 \<Rightarrow> u8 \<Rightarrow> u8 \<Rightarrow> u8 \<Rightarrow> u8 list" where
  "decode4 src0 src1 src2 src3 =
     decode3 src0 src1 src2 @ [push_bit 6 (decode_char src2 AND 0x03) OR decode_char src3]"

text \<open>
  The loop takes groups of four while five or more characters are left; \<open>None\<close> is the failed
  assertion of the switch after it.
\<close>

fun decode_loop :: "u8 list \<Rightarrow> u8 list option" where
  "decode_loop (src0 # src1 # src2 # src3 # src4 # src) =
     map_option (\<lambda>bs. decode4 src0 src1 src2 src3 @ bs) (decode_loop (src4 # src))"
| "decode_loop [src0, src1, src2, src3] =
     (if src3 \<noteq> byte_of_char CHR ''='' then Some (decode4 src0 src1 src2 src3)
      else if src2 \<noteq> byte_of_char CHR ''='' then Some (decode3 src0 src1 src2)
      else Some (decode2 src0 src1))"
| "decode_loop [src0, src1, src2] = Some (decode3 src0 src1 src2)"
| "decode_loop [src0, src1] = Some []"
| "decode_loop [src0] = None"
| "decode_loop [] = None"

definition base64_decode_into :: "allocator \<Rightarrow> u8 list \<Rightarrow> buffer \<Rightarrow> bool res \<times> buffer" where
  "base64_decode_into A data b =
     (let decoded_size = base64_decode_get_size (length data)
      in if 0 = decoded_size then (Ret True, b)
         else noexcept (and_then (buf_extend A decoded_size b)
           (\<lambda>dst b. if dst = None then (Ret False, b)
              else case decode_loop data of
                     None \<Rightarrow> (Fault Assert_Failed, b)
                   | Some bs \<Rightarrow>
                       and_then (buf_store dst bs b)
                         (\<lambda>_ b. and_then (buf_resize A (size_add (m_size b) decoded_size) b)
                            (\<lambda>_ b. (Ret True, b))))))"

definition base64_decode :: "allocator \<Rightarrow> u8 list \<Rightarrow> unit res \<times> buffer" where
  "base64_decode A s = and_then (base64_decode_into A s empty_buffer) (\<lambda>_ b. (Ret (), b))"

section \<open>Strided copies\<close>

text \<open>The destination is a block, the source the bytes readable at its pointer.\<close>

fun memory_copy_loop :: "nat \<Rightarrow> nat \<Rightarrow> nat \<Rightarrow> nat \<Rightarrow> nat \<Rightarrow> nat \<Rightarrow> u8 list \<Rightarrow> u8 list \<Rightarrow> u8 list option" where
  "memory_copy_loop 0 d dst_stride s src_stride line_size src dst = Some dst"
| "memory_copy_loop (Suc lines) d dst_stride s src_stride line_size src dst =
     Option.bind (mem_read s line_size src) (\<lambda>bs. Option.bind (mem_write d bs dst)
       (memory_copy_loop lines (d + dst_stride) dst_stride (s + src_stride) src_stride line_size src))"

definition memory_copy :: "nat \<Rightarrow> nat \<Rightarrow> nat \<Rightarrow> nat \<Rightarrow> u8 list \<Rightarrow> u8 list \<Rightarrow> unit res \<times> u8 list" where
  "memory_copy dst_stride src_stride line_size lines src dst =
     (case memory_copy_loop lines 0 dst_stride 0 src_stride line_size src dst of
        None \<Rightarrow> (Fault Out_Of_Bounds, dst) | Some dst' \<Rightarrow> (Ret (), dst'))"

section \<open>Joining into a buffer\<close>

fun join_loop :: "allocator \<Rightarrow> u8 list \<Rightarrow> ('a \<Rightarrow> u8 list) \<Rightarrow> bool \<Rightarrow> 'a list \<Rightarrow> buffer \<Rightarrow> unit res \<times> buffer" where
  "join_loop A separator formatter separate [] b = (Ret (), b)"
| "join_loop A separator formatter separate (x # xs) b =
     and_then (if separate then buf_append_view A separator b else (Ret (), b))
       (\<lambda>_ b. and_then (buf_append_view A (formatter x) b)
         (\<lambda>_ b. join_loop A separator formatter True xs b))"

definition join_container :: "allocator \<Rightarrow> 'a list \<Rightarrow> u8 list \<Rightarrow> ('a \<Rightarrow> u8 list) \<Rightarrow> u8 list res" where
  "join_container A xs separator formatter =
     fst (and_then (buf_ctor_reserve A 4096)
       (\<lambda>_ b. and_then (join_loop A separator formatter False xs b) (\<lambda>_ b. (Ret (buf_to_string b), b))))"

section \<open>The codec against RFC 4648\<close>

definition bits_of_byte :: "u8 \<Rightarrow> bool list" where
  "bits_of_byte a = map (bit a) (rev [0..<8])"

text \<open>The value of a group of six bits, most significant first.\<close>

definition sextet :: "bool list \<Rightarrow> u8" where
  "sextet bs = horner_sum of_bool 2 (rev (bs @ replicate (6 - length bs) False))"

fun sextets :: "bool list \<Rightarrow> u8 list" where
  "sextets (b0 # b1 # b2 # b3 # b4 # b5 # bs) = sextet [b0, b1, b2, b3, b4, b5] # sextets bs"
| "sextets [] = []"
| "sextets bs = [sextet bs]"

text \<open>
  Table 1 of the RFC, by the ASCII codes of its ranges: \<open>A\<close> to \<open>Z\<close>, \<open>a\<close> to \<open>z\<close>, \<open>0\<close> to \<open>9\<close>, \<open>+\<close> and \<open>/\<close>;
  and the pad \<open>=\<close>.
\<close>

definition table_code :: "nat \<Rightarrow> nat" where
  "table_code n =
     (if n < 26 then 65 + n else if n < 52 then 97 + (n - 26) else if n < 62 then 48 + (n - 52)
      else if n = 62 then 43 else 47)"

definition rfc_char :: "u8 \<Rightarrow> u8" where
  "rfc_char s = word_of_nat (table_code (unat s))"

definition rfc_pad :: u8 where
  "rfc_pad = 61"

definition base64_rfc :: "u8 list \<Rightarrow> u8 list" where
  "base64_rfc data =
     map rfc_char (sextets (concat (map bits_of_byte data)))
     @ replicate ((3 - length data mod 3) mod 3) rfc_pad"

text \<open>Test vectors of section 10, and the last two values of the alphabet.\<close>

lemma base64_rfc_test_vectors:
  "map (\<lambda>s. base64_rfc (map byte_of_char s)) [[], ''f'', ''fo'', ''foo'', ''foob'', ''fooba'', ''foobar'']
   = map (map byte_of_char) [[], ''Zg=='', ''Zm8='', ''Zm9v'', ''Zm9vYg=='', ''Zm9vYmE='', ''Zm9vYmFy'']"
  "base64_rfc [0xfb, 0xff] = map byte_of_char ''+/8=''"
  by code_simp+

lemma bits_of_byte_eq:
  "bits_of_byte a = [bit a 7, bit a 6, bit a 5, bit a 4, bit a 3, bit a 2, bit a 1, bit a 0]"
proof -
  have "[0..<8] = [0, 1, 2, 3, 4, 5, 6, 7 :: nat]" by code_simp
  then show ?thesis by (simp add: bits_of_byte_def)
qed

lemma sextet_bits:
  "bit (sextet bs) i \<longleftrightarrow> i < length (bs @ replicate (6 - length bs) False)
     \<and> rev (bs @ replicate (6 - length bs) False) ! i \<and> i < 8"
  by (auto simp: sextet_def bit_horner_sum_bit_iff)

lemma padding_eqs: "replicate 2 x = [x, x]" "replicate 4 x = [x, x, x, x]"
  by (simp_all add: numeral_eq_Suc)

lemma sextet_eqs:
  "sextet [bit a 7, bit a 6, bit a 5, bit a 4, bit a 3, bit a 2] = drop_bit 2 (a AND 0xfc)"
  "sextet [bit a 1, bit a 0, bit b 7, bit b 6, bit b 5, bit b 4] = push_bit 4 (a AND 0x03) OR drop_bit 4 (b AND 0xf0)"
  "sextet [bit b 3, bit b 2, bit b 1, bit b 0, bit c 7, bit c 6] = push_bit 2 (b AND 0x0f) OR drop_bit 6 (c AND 0xc0)"
  "sextet [bit c 5, bit c 4, bit c 3, bit c 2, bit c 1, bit c 0] = c AND 0x3f"
  "sextet [bit b 3, bit b 2, bit b 1, bit b 0] = push_bit 2 (b AND 0x0f)"
  "sextet [bit a 1, bit a 0] = push_bit 4 (a AND 0x03)"
  by (rule byte_eqI; simp add: sextet_bits bit_simps padding_eqs)+

lemma table_ranges:
  fixes n :: nat
  assumes "n < 64"
  obtains (upper) "n < 26" | (lower) "26 \<le> n" "n < 52" | (digit) "52 \<le> n" "n < 62" | (plus) "n = 62" | (slash) "n = 63"
  using assms by linarith

lemma table_code_less: "n < 64 \<Longrightarrow> table_code n < 128"
  by (cases n rule: table_ranges) (simp_all add: table_code_def)

lemma encode_table_nth: "n < 64 \<Longrightarrow> of_char (encode_table ! n) = table_code n"
proof -
  assume n: "n < 64"
  have "map of_char encode_table = map table_code [0..<64]" by code_simp
  moreover from this have "length encode_table = 64" by (metis length_map length_upt diff_zero)
  ultimately show ?thesis using n by (metis nth_map nth_upt add_0 length_upt diff_zero)
qed

lemma mask_6_less: "(w :: u8) AND 0x3f < 64"
  using and_mask_less' [of 6 w] by (simp add: mask_eq_exp_minus_1)

lemma sextet_args_less:
  fixes a b c :: u8
  shows "drop_bit 2 (a AND 0xfc) < 64" "push_bit 4 (a AND 0x03) OR drop_bit 4 (b AND 0xf0) < 64"
    "push_bit 2 (b AND 0x0f) OR drop_bit 6 (c AND 0xc0) < 64" "c AND 0x3f < 64"
    "push_bit 2 (b AND 0x0f) < 64" "push_bit 4 (a AND 0x03) < 64"
proof -
  have less: "w < 64" if "\<not> bit w 6" "\<not> bit w 7" for w :: u8
  proof -
    have "w = w AND 0x3f" by (rule byte_eqI; use that in \<open>simp add: bit_simps\<close>)
    then show ?thesis by (metis mask_6_less)
  qed
  show "drop_bit 2 (a AND 0xfc) < 64" "push_bit 4 (a AND 0x03) OR drop_bit 4 (b AND 0xf0) < 64"
    "push_bit 2 (b AND 0x0f) OR drop_bit 6 (c AND 0xc0) < 64" "c AND 0x3f < 64"
    "push_bit 2 (b AND 0x0f) < 64" "push_bit 4 (a AND 0x03) < 64"
    by (rule less; simp add: bit_simps)+
qed

text \<open>The table of the code is that of the RFC, on the values of six bits.\<close>

lemma encode_char_rfc: "i < 64 \<Longrightarrow> encode_char i = rfc_char i"
  by (simp add: encode_char_def byte_of_char_def encode_table_nth rfc_char_def word_less_nat_alt)

lemma pad_rfc: "byte_of_char CHR ''='' = rfc_pad"
  by (simp add: byte_of_char_def rfc_pad_def)

lemma encode_args_rfc:
  fixes a b c :: u8
  shows "encode_char (drop_bit 2 (a AND 0xfc)) = rfc_char (drop_bit 2 (a AND 0xfc))"
    "encode_char (push_bit 4 (a AND 0x03) OR drop_bit 4 (b AND 0xf0)) = rfc_char (push_bit 4 (a AND 0x03) OR drop_bit 4 (b AND 0xf0))"
    "encode_char (push_bit 2 (b AND 0x0f) OR drop_bit 6 (c AND 0xc0)) = rfc_char (push_bit 2 (b AND 0x0f) OR drop_bit 6 (c AND 0xc0))"
    "encode_char (c AND 0x3f) = rfc_char (c AND 0x3f)"
    "encode_char (push_bit 2 (b AND 0x0f)) = rfc_char (push_bit 2 (b AND 0x0f))"
    "encode_char (push_bit 4 (a AND 0x03)) = rfc_char (push_bit 4 (a AND 0x03))"
  by (intro encode_char_rfc sextet_args_less)+

lemmas rfc_unfolds =
  encode_loop.simps encode_start_def base64_rfc_def concat.simps list.map bits_of_byte_eq append.simps
  sextets.simps sextet_eqs encode_args_rfc pad_rfc

lemma encode_loop_rfc: "encode_loop data = base64_rfc data"
proof (induction data rule: encode_loop.induct)
  case (1 a b c src)
  then have "encode_loop src = map rfc_char (sextets (concat (map bits_of_byte src)))
     @ replicate ((3 - length src mod 3) mod 3) rfc_pad"
    by (simp only: base64_rfc_def)
  moreover have "length (a # b # c # src) mod 3 = length src mod 3" by simp
  ultimately show ?case
    unfolding rfc_unfolds by simp
next
  case (2 a b)
  show ?case unfolding rfc_unfolds by simp
next
  case (3 a)
  show ?case unfolding rfc_unfolds by (simp add: padding_eqs)
next
  case 4
  show ?case by (simp add: base64_rfc_def)
qed

lemma decode_table:
  assumes "n < 64"
  shows "decode_char (word_of_nat (table_code n)) = word_of_nat n"
proof -
  have u: "unat (word_of_nat (table_code n) :: u8) = table_code n"
    using table_code_less [OF assms] by (simp add: unat_of_nat)
  from assms show ?thesis
  proof (cases n rule: table_ranges)
    case upper
    with u show ?thesis by (simp add: table_code_def decode_char_def word_le_nat_alt)
  next
    case lower
    with u show ?thesis by (simp add: table_code_def decode_char_def word_le_nat_alt)
  next
    case digit
    then have "48 \<le> n - 4 \<and> n - 4 \<le> 57" by auto
    with digit u show ?thesis by (auto simp: table_code_def decode_char_def word_le_nat_alt of_nat_diff)
  qed (simp_all add: table_code_def decode_char_def)
qed

lemma encode_decode_char:
  assumes "i < 64"
  shows "decode_char (encode_char i) = i" and "encode_char i \<noteq> byte_of_char CHR ''=''"
proof -
  have n: "unat i < 64" using assms by (simp add: word_less_nat_alt)
  then have e: "encode_char i = word_of_nat (table_code (unat i))"
    by (simp add: encode_char_def byte_of_char_def encode_table_nth)
  with decode_table [OF n] show "decode_char (encode_char i) = i" by simp
  have "table_code (unat i) \<noteq> 61" using n by (cases "unat i" rule: table_ranges) (simp_all add: table_code_def)
  moreover have "unat (encode_char i) = table_code (unat i)"
    using e table_code_less [OF n] by (simp add: unat_of_nat)
  moreover have "unat (byte_of_char CHR ''='') = 61" by (simp add: byte_of_char_def)
  ultimately show "encode_char i \<noteq> byte_of_char CHR ''=''" by metis
qed

lemma decode_args:
  fixes a b c :: u8
  shows "decode_char (encode_char (drop_bit 2 (a AND 0xfc))) = drop_bit 2 (a AND 0xfc)"
    "decode_char (encode_char (push_bit 4 (a AND 0x03) OR drop_bit 4 (b AND 0xf0))) = push_bit 4 (a AND 0x03) OR drop_bit 4 (b AND 0xf0)"
    "decode_char (encode_char (push_bit 2 (b AND 0x0f) OR drop_bit 6 (c AND 0xc0))) = push_bit 2 (b AND 0x0f) OR drop_bit 6 (c AND 0xc0)"
    "decode_char (encode_char (c AND 0x3f)) = c AND 0x3f"
    "decode_char (encode_char (push_bit 2 (b AND 0x0f))) = push_bit 2 (b AND 0x0f)"
    "decode_char (encode_char (push_bit 4 (a AND 0x03))) = push_bit 4 (a AND 0x03)"
  by (intro encode_decode_char sextet_args_less)+

lemma decode_bits:
  fixes a b c :: u8
  shows "push_bit 2 (drop_bit 2 (a AND 0xfc)) OR drop_bit 4 ((push_bit 4 (a AND 0x03) OR drop_bit 4 (b AND 0xf0)) AND 0x30) = a"
    "push_bit 4 ((push_bit 4 (a AND 0x03) OR drop_bit 4 (b AND 0xf0)) AND 0x0f)
       OR drop_bit 2 ((push_bit 2 (b AND 0x0f) OR drop_bit 6 (c AND 0xc0)) AND 0x3c) = b"
    "push_bit 6 ((push_bit 2 (b AND 0x0f) OR drop_bit 6 (c AND 0xc0)) AND 0x03) OR (c AND 0x3f) = c"
    "push_bit 4 ((push_bit 4 (a AND 0x03) OR drop_bit 4 (b AND 0xf0)) AND 0x0f) OR drop_bit 2 (push_bit 2 (b AND 0x0f) AND 0x3c) = b"
    "push_bit 2 (drop_bit 2 (a AND 0xfc)) OR drop_bit 4 (push_bit 4 (a AND 0x03) AND 0x30) = a"
  by (rule byte_eqI; auto simp: bit_simps)+

lemma decode_groups:
  "decode4 (encode_char (drop_bit 2 (a AND 0xfc))) (encode_char (push_bit 4 (a AND 0x03) OR drop_bit 4 (b AND 0xf0)))
     (encode_char (push_bit 2 (b AND 0x0f) OR drop_bit 6 (c AND 0xc0))) (encode_char (c AND 0x3f)) = [a, b, c]"
  "decode3 (encode_char (drop_bit 2 (a AND 0xfc))) (encode_char (push_bit 4 (a AND 0x03) OR drop_bit 4 (b AND 0xf0)))
     (encode_char (push_bit 2 (b AND 0x0f))) = [a, b]"
  "decode2 (encode_char (drop_bit 2 (a AND 0xfc))) (encode_char (push_bit 4 (a AND 0x03))) = [a]"
  by (simp_all only: decode4_def decode3_def decode2_def decode_args decode_bits append.simps)

lemma group_arith:
  "(5 + n) div 4 = Suc (Suc n div 4)" "(5 + n) mod 4 = Suc n mod 4" "(5 + n) div 3 = Suc (Suc (Suc n) div 3)"
  for n :: nat
  by presburger+

lemma length_encode_loop: "length (encode_loop data) = 4 * ((length data + 2) div 3)"
  by (induction data rule: encode_loop.induct) (simp_all add: encode_start_def group_arith)

lemma decode_encode_loop: "data \<noteq> [] \<Longrightarrow> decode_loop (encode_loop data) = Some data"
proof (induction data rule: encode_loop.induct)
  case (1 a b c src)
  have pad: "encode_char (c AND 0x3f) \<noteq> byte_of_char CHR ''=''"
    by (intro encode_decode_char sextet_args_less)
  show ?case
  proof (cases "encode_loop src")
    case Nil
    then have "src = []" by (cases src rule: encode_loop.cases) (simp_all add: encode_start_def)
    with Nil show ?thesis
      using pad by (simp only: encode_loop.simps encode_start_def append.simps decode_loop.simps decode_groups
          not_False_eq_True if_True simp_thms)
  next
    case (Cons e es)
    then have "src \<noteq> []" by auto
    with 1 Cons have "decode_loop (e # es) = Some src" by simp
    with Cons show ?thesis
      by (simp only: encode_loop.simps encode_start_def append.simps decode_loop.simps decode_groups option.map)
  qed
next
  case (2 a b)
  have "encode_char (push_bit 2 (b AND 0x0f)) \<noteq> byte_of_char CHR ''=''"
    by (intro encode_decode_char sextet_args_less)
  then show ?case
    by (simp only: encode_loop.simps encode_start_def append.simps decode_loop.simps decode_groups
        not_False_eq_True not_True_eq_False if_True if_False simp_thms)
next
  case (3 a)
  show ?case
    by (simp only: encode_loop.simps encode_start_def append.simps decode_loop.simps decode_groups
        not_True_eq_False if_False simp_thms)
qed simp

lemma decode_loop_fits: "decode_loop s = Some bs \<Longrightarrow> length bs \<le> 3 * (length s div 4) + 2"
  by (induction s arbitrary: bs rule: decode_loop.induct)
    (auto simp: decode4_def decode3_def decode2_def group_arith split: if_splits)

lemma decode_loop_None: "decode_loop s = None \<longleftrightarrow> s = [] \<or> length s mod 4 = 1"
  by (induction s rule: decode_loop.induct) (auto simp: group_arith)

lemma decode_loop_short:
  "length s mod 4 = 2 \<Longrightarrow> \<exists>bs. decode_loop s = Some bs \<and> length bs = 3 * (length s div 4)"
  by (induction s rule: decode_loop.induct)
    (auto simp: decode4_def decode3_def decode2_def group_arith)

lemma decode_size_exact: "n \<le> size_max \<Longrightarrow> base64_decode_get_size n = 3 * (n div 4) + 2"
  by (simp add: base64_decode_get_size_def size_max_def size_limit_def)

text \<open>What \<open>base64_decode\<close> does with any text.\<close>

lemma base64_decode_into_cases:
  assumes "buffer_wf b" and "m_size b + base64_decode_get_size (length s) \<le> size_max" and "length s \<le> size_max"
    and "base64_decode_into A s b = (r, b')"
  shows "r = Fault Terminated \<and> fst (buf_extend_nothrow A (base64_decode_get_size (length s)) b) = Ret None
    \<or> r = Fault Assert_Failed \<and> (s = [] \<or> length s mod 4 = 1)
    \<or> (\<exists>bs tl. decode_loop s = Some bs \<and> r = Ret True \<and> buffer_wf b' \<and> contents b' = contents b @ bs @ tl
        \<and> length tl = 3 * (length s div 4) + 2 - length bs)"
proof -
  let ?n = "base64_decode_get_size (length s)"
  have n: "?n = 3 * (length s div 4) + 2" using decode_size_exact assms(3) by simp
  obtain r1 b1 where c: "buf_extend_nothrow A ?n b = (r1, b1)" by fastforce
  have g: "Grow \<noteq> Shrink" by simp
  from extend_with_spec [OF assms(1) g assms(2)] c
  consider "r1 = Ret None" | (ok) "r1 = Ret (Some (m_size b))" by (auto simp: buf_extend_nothrow_def)
  then show ?thesis
  proof cases
    case 1
    with c n assms(4) show ?thesis
      by (auto simp: base64_decode_into_def buf_extend_def throw_if_null_def)
  next
    case ok
    show ?thesis
    proof (cases "decode_loop s")
      case None
      with c ok n assms(4) show ?thesis
        by (auto simp: base64_decode_into_def buf_extend_def throw_if_null_def decode_loop_None)
    next
      case (Some bs)
      have fits: "length bs \<le> ?n" using decode_loop_fits [OF Some] n by simp
      have pos: "0 < ?n" using n by simp
      from extend_store_resize [OF assms(1,2) pos fits c [unfolded ok]] obtain b2 b3 tl where
        "m_size b1 = m_size b" "buf_store (Some (m_size b)) bs b1 = (Ret (), b2)" "m_size b2 = m_size b"
        "buf_resize A (m_size b + ?n) b2 = (Ret (Some 0), b3)" "buffer_wf b3"
        "contents b3 = contents b @ bs @ tl" "length tl = ?n - length bs" by blast
      with c ok Some n assms(2,4) show ?thesis
        by (auto simp: base64_decode_into_def buf_extend_def throw_if_null_def)
    qed
  qed
qed

section \<open>Properties\<close>

text \<open>
  C12.  \<open>base64_encode\<close> appends exactly the RFC 4648 text of the data to the buffer, of the length
  that \<open>base64_encode_get_length\<close> promises, or, when the buffer cannot grow, reports it and leaves
  the contents alone.
\<close>

theorem base64_encode_is_rfc4648:
  assumes "buffer_wf b" and "length data + 2 \<le> size_max"
    and "m_size b + 4 * ((length data + 2) div 3) \<le> size_max"
    and "base64_encode_into A data b = (r, b')"
  shows "buffer_wf b' \<and> (r = Ret True \<and> contents b' = contents b @ base64_rfc data
      \<and> length (base64_rfc data) = base64_encode_get_length (length data)
    \<or> r = Ret False \<and> contents b' = contents b
      \<and> fst (buf_extend_nothrow A (base64_encode_get_length (length data)) b) = Ret None)"
proof -
  let ?n = "base64_encode_get_length (length data)"
  have n: "?n = 4 * ((length data + 2) div 3)"
    using assms(2,3) by (simp add: base64_encode_get_length_def size_max_def size_limit_def)
  have len: "length (encode_loop data) = ?n" using n by (simp add: length_encode_loop)
  show ?thesis
  proof (cases "?n = 0")
    case True
    with assms(4) len assms(1) show ?thesis
      by (auto simp: base64_encode_into_def simp flip: encode_loop_rfc)
  next
    case False
    then have pos: "0 < ?n" by simp
    obtain r1 b1 where c: "buf_extend_nothrow A ?n b = (r1, b1)" by fastforce
    have g: "Grow \<noteq> Shrink" by simp
    have room: "m_size b + ?n \<le> size_max" using n assms(3) by simp
    from extend_with_spec [OF assms(1) g room] c
    consider (no) "r1 = Ret None" "b1 = b" | (ok) "r1 = Ret (Some (m_size b))"
      by (auto simp: buf_extend_nothrow_def)
    then show ?thesis
    proof cases
      case no
      with c False assms(1,4) show ?thesis by (auto simp: base64_encode_into_def)
    next
      case ok
      have fits: "length (encode_loop data) \<le> ?n" using len by simp
      from extend_store_resize [OF assms(1) room pos fits c [unfolded ok]] obtain b2 b3 tl where
        "m_size b1 = m_size b" "buf_store (Some (m_size b)) (encode_loop data) b1 = (Ret (), b2)"
        "m_size b2 = m_size b" "buf_resize A (m_size b + ?n) b2 = (Ret (Some 0), b3)" "buffer_wf b3"
        "contents b3 = contents b @ encode_loop data @ tl" "length tl = ?n - length (encode_loop data)" by blast
      with c ok False len room assms(4) show ?thesis
        by (auto simp: base64_encode_into_def simp flip: encode_loop_rfc)
    qed
  qed
qed

theorem base64_encode_is_rfc4648_witness:
  "\<exists>r b'. base64_encode_into ample [104, 108] empty_buffer = (r, b')
     \<and> (r = Ret True \<and> contents b' = map byte_of_char ''aGw='' \<or> r = Ret False \<and> contents b' = [])"
proof -
  obtain r b' where e: "base64_encode_into ample [104, 108] empty_buffer = (r, b')"
    by (cases "base64_encode_into ample [104, 108] empty_buffer") blast
  have s: "length [104, 108 :: u8] + 2 \<le> size_max"
    "m_size empty_buffer + 4 * ((length [104, 108 :: u8] + 2) div 3) \<le> size_max"
    by (simp_all add: size_max_def)
  have "encode_loop [104, 108] = map byte_of_char ''aGw=''" by code_simp
  with base64_encode_is_rfc4648 [OF empty_buffer_wf s e] e show ?thesis
    by (auto simp: encode_loop_rfc)
qed

text \<open>
  C13.  Decoding the text of data that is not empty gives the data, followed by two to four bytes that are
  not part of it: the decoder resizes the buffer to \<open>base64_decode_get_size\<close>, an upper bound, whatever it
  has written.  Decoding the text of no data, which is empty, fails an assertion.  The only other outcome
  is the end of the program when the buffer could not be extended.
\<close>

theorem base64_decode_of_encode:
  assumes "buffer_wf b" and "length (base64_rfc data) \<le> size_max"
    and "m_size b + length (base64_rfc data) + 2 \<le> size_max"
    and "base64_decode_into A (base64_rfc data) b = (r, b')"
  shows "r = Fault Terminated
        \<and> fst (buf_extend_nothrow A (base64_decode_get_size (length (base64_rfc data))) b) = Ret None
    \<or> data = [] \<and> r = Fault Assert_Failed
    \<or> data \<noteq> [] \<and> r = Ret True \<and> (\<exists>tl. contents b' = contents b @ data @ tl \<and> 2 \<le> length tl \<and> length tl \<le> 4)"
proof -
  have len: "length (base64_rfc data) = 4 * ((length data + 2) div 3)"
    using length_encode_loop [of data] by (simp add: encode_loop_rfc)
  have room: "m_size b + base64_decode_get_size (length (base64_rfc data)) \<le> size_max"
    using assms(2,3) by (simp add: decode_size_exact len)
  note cases = base64_decode_into_cases [OF assms(1) room assms(2,4)]
  show ?thesis
  proof (cases "data = []")
    case True
    then have "decode_loop (base64_rfc data) = None" by (simp flip: encode_loop_rfc)
    with cases True show ?thesis by auto
  next
    case False
    then have "decode_loop (base64_rfc data) = Some data"
      using decode_encode_loop [of data] by (simp add: encode_loop_rfc)
    with cases False show ?thesis by (auto simp: len decode_loop_None [symmetric])
  qed
qed

theorem base64_decode_of_encode_witness:
  "\<exists>r b'. base64_decode_into ample (base64_rfc [104, 108]) empty_buffer = (r, b')
    \<and> (r = Fault Terminated \<or> r = Ret True \<and> take 2 (contents b') = [104, 108] \<and> 4 \<le> length (contents b'))"
proof -
  obtain r b' where e: "base64_decode_into ample (base64_rfc [104, 108]) empty_buffer = (r, b')"
    by (cases "base64_decode_into ample (base64_rfc [104, 108]) empty_buffer") blast
  have "length (base64_rfc [104, 108]) = 4"
    using length_encode_loop [of "[104, 108]"] by (simp add: encode_loop_rfc)
  then have s: "length (base64_rfc [104, 108]) \<le> size_max"
    "m_size empty_buffer + length (base64_rfc [104, 108]) + 2 \<le> size_max"
    by (simp_all add: size_max_def)
  from base64_decode_of_encode [OF empty_buffer_wf s e] e show ?thesis by auto
qed

text \<open>
  The texts the decoder does not handle.  An empty text, or one whose length is one more than
  a multiple of four, fails an assertion.  Of an unpadded text whose length is two more than a
  multiple of four, the last two characters are not decoded: the bytes come from the whole groups
  only, and the byte that the two characters encode is lost although the call reports success.
\<close>

theorem base64_decode_incomplete:
  assumes "buffer_wf b" and "length t \<le> size_max" and "m_size b + length t + 2 \<le> size_max"
    and "base64_decode_into A t b = (r, b')"
    and "t = [] \<or> length t mod 4 = 1 \<or> length t mod 4 = 2"
  shows "r = Fault Terminated
    \<or> r = Fault Assert_Failed \<and> length t mod 4 \<noteq> 2
    \<or> r = Ret True \<and> length t mod 4 = 2
      \<and> (\<exists>bs tl. decode_loop t = Some bs \<and> length bs = 3 * (length t div 4) \<and> contents b' = contents b @ bs @ tl)"
proof -
  have "3 * (length t div 4) \<le> length t" by presburger
  then have room: "m_size b + base64_decode_get_size (length t) \<le> size_max"
    using assms(2,3) by (simp add: decode_size_exact)
  from base64_decode_into_cases [OF assms(1) room assms(2,4)] consider
      "r = Fault Terminated"
    | (bad) "r = Fault Assert_Failed" "t = [] \<or> length t mod 4 = 1"
    | (ok) bs tl where "decode_loop t = Some bs" "r = Ret True" "contents b' = contents b @ bs @ tl"
    by blast
  then show ?thesis
  proof cases
    case bad
    then show ?thesis by auto
  next
    case ok
    then have "length t mod 4 = 2" using assms(5) decode_loop_None [of t] by auto
    with ok decode_loop_short [of t] show ?thesis by auto
  qed simp
qed

theorem base64_decode_incomplete_witness:
  "\<exists>r b'. base64_decode_into ample [97, 65] empty_buffer = (r, b')
    \<and> (r = Fault Terminated \<or> r = Ret True) \<and> decode_loop [97, 65] = Some []"
proof -
  obtain r b' where e: "base64_decode_into ample [97, 65] empty_buffer = (r, b')"
    by (cases "base64_decode_into ample [97, 65] empty_buffer") blast
  have s: "length [97, 65 :: u8] \<le> size_max" "m_size empty_buffer + length [97, 65 :: u8] + 2 \<le> size_max"
    by (simp_all add: size_max_def)
  from base64_decode_incomplete [OF empty_buffer_wf s e] e show ?thesis by simp
qed


lemma memory_copy_loop_spec:
  assumes "line_size \<le> ds"
    and "\<And>l. l < lines \<Longrightarrow> d + l * ds + line_size \<le> length dst"
    and "\<And>l. l < lines \<Longrightarrow> s + l * ss + line_size \<le> length src"
  shows "\<exists>dst'. memory_copy_loop lines d ds s ss line_size src dst = Some dst' \<and> length dst' = length dst
    \<and> (\<forall>l c. l < lines \<and> c < line_size \<longrightarrow> dst' ! (d + l * ds + c) = src ! (s + l * ss + c))
    \<and> (\<forall>i. (\<forall>l < lines. i < d + l * ds \<or> d + l * ds + line_size \<le> i) \<longrightarrow> dst' ! i = dst ! i)"
  using assms(2,3)
proof (induction lines arbitrary: d s dst)
  case (Suc lines)
  let ?bs = "take line_size (drop s src)"
  let ?dst = "blit d ?bs dst"
  have len: "length ?bs = line_size" "s + line_size \<le> length src" "d + line_size \<le> length dst"
    using Suc.prems(1) [of 0] Suc.prems(2) [of 0] by simp_all
  have dst: "length ?dst = length dst" using len by simp
  have "d + ds + l * ds + line_size \<le> length ?dst" "s + ss + l * ss + line_size \<le> length src" if "l < lines" for l
    using Suc.prems(1) [of "Suc l"] Suc.prems(2) [of "Suc l"] that dst by simp_all
  from Suc.IH [OF this] obtain dst' where d': "memory_copy_loop lines (d + ds) ds (s + ss) ss line_size src ?dst = Some dst'"
    "length dst' = length ?dst"
    "\<And>l c. l < lines \<Longrightarrow> c < line_size \<Longrightarrow> dst' ! (d + ds + l * ds + c) = src ! (s + ss + l * ss + c)"
    "\<And>i. (\<And>l. l < lines \<Longrightarrow> i < d + ds + l * ds \<or> d + ds + l * ds + line_size \<le> i) \<Longrightarrow> dst' ! i = ?dst ! i"
    by metis
  have b: "?dst ! i = (if d \<le> i \<and> i < d + line_size then src ! (s + (i - d)) else dst ! i)" if "i < length dst" for i
    using len that by (auto simp: blit_def nth_append min_def)
  have 1: "dst' ! (d + l * ds + c) = src ! (s + l * ss + c)" if "l < Suc lines" "c < line_size" for l c
  proof (cases l)
    case 0
    have "dst' ! (d + c) = ?dst ! (d + c)" using that assms(1) by (intro d'(4)) auto
    with 0 b [of "d + c"] that len show ?thesis by simp
  next
    case (Suc k)
    with d'(3) [of k c] that show ?thesis by (simp add: ac_simps)
  qed
  have 2: "dst' ! i = dst ! i" if out: "\<forall>l < Suc lines. i < d + l * ds \<or> d + l * ds + line_size \<le> i" for i
  proof -
    have "dst' ! i = ?dst ! i"
    proof (rule d'(4))
      fix l assume "l < lines"
      with out [rule_format, of "Suc l"] show "i < d + ds + l * ds \<or> d + ds + l * ds + line_size \<le> i"
        by (simp add: ac_simps)
    qed
    also have "\<dots> = dst ! i"
      using out [rule_format, of 0] len by (cases "i < length dst") (auto simp: b blit_def nth_append)
    finally show ?thesis .
  qed
  have "memory_copy_loop (Suc lines) d ds s ss line_size src dst = Some dst'"
    using d'(1) len by simp
  with 1 2 d'(2) dst show ?case by auto
qed simp

text \<open>
  \<open>memory_copy\<close> copies a rectangle and nothing else: when lines do not overlap in the
  destination and both rectangles lie in their memory, the byte in column \<open>c\<close> of line \<open>l\<close> of the
  destination is the source's, and every byte between and after the lines is unchanged.
\<close>

theorem memory_copy_rectangle:
  assumes "line_size \<le> dst_stride" and "0 < dst_stride" and "0 < lines"
    and "(lines - 1) * dst_stride + line_size \<le> length dst"
    and "(lines - 1) * src_stride + line_size \<le> length src"
  shows "\<exists>dst'. memory_copy dst_stride src_stride line_size lines src dst = (Ret (), dst')
    \<and> dst' = map (\<lambda>i. if i div dst_stride < lines \<and> i mod dst_stride < line_size
                       then src ! (i div dst_stride * src_stride + i mod dst_stride) else dst ! i) [0..<length dst]"
proof -
  have bound: "l * k + line_size \<le> n" if "l < lines" "(lines - 1) * k + line_size \<le> n" for l k n
  proof -
    have "l * k \<le> (lines - 1) * k" using that(1) by (intro mult_right_mono) simp_all
    with that(2) show ?thesis by linarith
  qed
  have "0 + l * dst_stride + line_size \<le> length dst" "0 + l * src_stride + line_size \<le> length src" if "l < lines" for l
    using bound [OF that assms(4)] bound [OF that assms(5)] by simp_all
  from memory_copy_loop_spec [OF assms(1) this] obtain dst' where
    d: "memory_copy_loop lines 0 dst_stride 0 src_stride line_size src dst = Some dst' \<and> length dst' = length dst
    \<and> (\<forall>l c. l < lines \<and> c < line_size \<longrightarrow> dst' ! (0 + l * dst_stride + c) = src ! (0 + l * src_stride + c))
    \<and> (\<forall>i. (\<forall>l < lines. i < 0 + l * dst_stride \<or> 0 + l * dst_stride + line_size \<le> i) \<longrightarrow> dst' ! i = dst ! i)"
    by blast
  then have m: "memory_copy_loop lines 0 dst_stride 0 src_stride line_size src dst = Some dst'" "length dst' = length dst"
    by simp_all
  have m3: "dst' ! (l * dst_stride + c) = src ! (l * src_stride + c)" if "l < lines" "c < line_size" for l c
    using d that by (metis add_0)
  have m4: "dst' ! i = dst ! i" if "\<And>l. l < lines \<Longrightarrow> i < l * dst_stride \<or> l * dst_stride + line_size \<le> i" for i
    using d that by (metis add_0)
  have "dst' ! i = (if i div dst_stride < lines \<and> i mod dst_stride < line_size
      then src ! (i div dst_stride * src_stride + i mod dst_stride) else dst ! i)" for i
  proof (cases "i div dst_stride < lines \<and> i mod dst_stride < line_size")
    case True
    with m3 [of "i div dst_stride" "i mod dst_stride"] show ?thesis by simp
  next
    case False
    have "i < l * dst_stride \<or> l * dst_stride + line_size \<le> i" if l: "l < lines" for l
    proof (rule ccontr)
      assume "\<not> ?thesis"
      then have in_line: "l * dst_stride \<le> i" "i < l * dst_stride + line_size" by auto
      define c where "c = i - l * dst_stride"
      have i: "i = l * dst_stride + c" and c: "c < line_size" using in_line by (auto simp: c_def)
      have "i div dst_stride = l" "i mod dst_stride = c" using c assms(1,2) by (simp_all add: i)
      with False l c show False by simp
    qed
    with m4 have "dst' ! i = dst ! i" by blast
    with False show ?thesis by (simp only: if_False)
  qed
  then have "dst' = map (\<lambda>i. if i div dst_stride < lines \<and> i mod dst_stride < line_size
      then src ! (i div dst_stride * src_stride + i mod dst_stride) else dst ! i) [0..<length dst]"
    using m(2) by (intro nth_equalityI) simp_all
  with m(1) show ?thesis by (simp add: memory_copy_def)
qed

theorem memory_copy_rectangle_witness:
  "memory_copy 3 2 2 2 [1, 2, 3, 4] [0, 0, 0, 0, 0] = (Ret (), [1, 2, 0, 3, 4])"
proof -
  have h: "(2::nat) \<le> 3" "(0::nat) < 3" "(0::nat) < 2" "(2 - 1) * 3 + 2 \<le> length [0, 0, 0, 0, 0 :: u8]"
    "(2 - 1) * 2 + 2 \<le> length [1, 2, 3, 4 :: u8]" by simp_all
  have "[0..<length [0, 0, 0, 0, 0 :: u8]] = [0, 1, 2, 3, 4]" by code_simp
  with memory_copy_rectangle [OF h] show ?thesis by simp
qed

lemma join_loop_law:
  assumes "buffer_wf b"
    and "m_size b + length (concat (map (\<lambda>x. separator @ formatter x) xs)) \<le> size_max"
    and "join_loop A separator formatter separate xs b = (r, b')"
  shows "r = Throw Bad_Alloc
    \<or> r = Ret () \<and> buffer_wf b'
      \<and> contents b' = contents b @ (if separate then concat (map (\<lambda>x. separator @ formatter x) xs) else join (map formatter xs) separator)"
  using assms
proof (induction xs arbitrary: b separate)
  case Nil
  then show ?case by (simp add: join_def)
next
  case (Cons x xs)
  obtain r1 b1 where s1: "(if separate then buf_append_view A separator b else (Ret (), b)) = (r1, b1)"
    by fastforce
  have "buffer_wf b1 \<and> (r1 = Throw Bad_Alloc \<or> r1 = Ret () \<and> contents b1 = contents b @ (if separate then separator else []))"
    using s1 Cons.prems(1,2) buf_append_spec [of b "length separator" separator A r1 b1]
    by (auto simp: buf_append_view_def split: if_splits)
  then consider "r1 = Throw Bad_Alloc"
    | (ok) "r1 = Ret ()" "buffer_wf b1" "contents b1 = contents b @ (if separate then separator else [])" by auto
  then show ?case
  proof cases
    case ok
    have size1: "m_size b1 = m_size b + (if separate then length separator else 0)"
      using length_contents [OF ok(2)] length_contents [OF Cons.prems(1)] ok(3) by (cases separate) simp_all
    obtain r2 b2 where s2: "buf_append_view A (formatter x) b1 = (r2, b2)" by fastforce
    have "buffer_wf b2 \<and> (r2 = Throw Bad_Alloc \<or> r2 = Ret () \<and> contents b2 = contents b1 @ formatter x)"
    proof -
      have "m_size b1 + length (formatter x) \<le> size_max"
        using size1 Cons.prems(2) by (simp split: if_splits)
      from buf_append_spec [OF ok(2) this order_refl s2 [unfolded buf_append_view_def]] show ?thesis
        by auto
    qed
    then consider "r2 = Throw Bad_Alloc" | (ok2) "r2 = Ret ()" "buffer_wf b2" "contents b2 = contents b1 @ formatter x" by auto
    then show ?thesis
    proof cases
      case ok2
      have size2: "m_size b2 = m_size b1 + length (formatter x)"
        using length_contents [OF ok(2)] length_contents [OF ok2(2)] ok2(3) by simp
      have room: "m_size b2 + length (concat (map (\<lambda>x. separator @ formatter x) xs)) \<le> size_max"
        using size1 size2 Cons.prems(2) by (simp split: if_splits)
      have step: "join_loop A separator formatter True xs b2 = (r, b')"
        using Cons.prems(3) s1 s2 ok(1) ok2(1) by simp
      have tail: "formatter x @ concat (map (\<lambda>x. separator @ formatter x) xs) = join (map formatter (x # xs)) separator"
      proof (induction xs arbitrary: x)
        case (Cons y ys)
        then show ?case by (simp add: join_Cons)
      qed simp
      from Cons.IH [OF ok2(2) room step] ok ok2 tail show ?thesis by auto
    qed (use Cons.prems(3) s1 s2 ok in auto)
  qed (use Cons.prems(3) s1 in auto)
qed

text \<open>
  The \<open>join\<close> that builds its text in a buffer of 4096 reserved bytes agrees with the \<open>join\<close> of
  strings on the formatted elements, at any length; otherwise it throws \<open>std::bad_alloc\<close>.
\<close>

theorem join_container_is_join:
  assumes "length (concat (map (\<lambda>x. separator @ formatter x) xs)) \<le> size_max"
  shows "join_container A xs separator formatter \<in> {Ret (join (map formatter xs) separator), Throw Bad_Alloc}"
proof -
  obtain r b where c: "buf_ctor_reserve A 4096 = (r, b)" by fastforce
  have g: "Grow \<noteq> Shrink" by simp
  from c have "throw_if_null 4096 (reserve_with Grow A 4096 empty_buffer) = (r, b)"
    by (simp add: buf_ctor_reserve_def buf_reserve_def buf_reserve_nothrow_def)
  from reserve_throwing [OF empty_buffer_wf g this]
  have b: "buffer_wf b" "contents b = []" "(\<exists>p. r = Ret p) \<or> r = Throw Bad_Alloc" by auto
  then have "m_size b = 0" by (metis length_contents list.size(3))
  moreover obtain q b' where l: "join_loop A separator formatter False xs b = (q, b')" by fastforce
  ultimately have "q = Throw Bad_Alloc \<or> q = Ret () \<and> contents b' = join (map formatter xs) separator"
    using join_loop_law [OF b(1) _ l] assms b(2) by auto
  with b(3) c l show ?thesis by (auto simp: join_container_def)
qed

theorem join_container_is_join_witness:
  "join_container ample [1, 2 :: nat] [44] (\<lambda>n. [word_of_nat (48 + n)]) \<in> {Ret [49, 44, 50], Throw Bad_Alloc}"
  using join_container_is_join [where A = ample and separator = "[44]" and formatter = "\<lambda>n. [word_of_nat (48 + n)]" and xs = "[1, 2]"]
  by (simp add: join_def size_max_def)

end
