(* ===== verification/Uri.thy ===== *)
theory Uri
  imports Strings
begin

text \<open>
  \<open>src/hlib_uri.cpp\<close>: parsing and printing of URIs, percent encoding, and the parts of a request
  target.

  \<open>uri_parse\<close> matches one regular expression,
  \<open>^(([^:\/?#]+):)?(//([^\/?#]*))?([^?#]*)(\?([^#]*))?(#(.*))?\<close> in POSIX syntax, where the backslash
  inside a bracket is an ordinary excluded character and \<open>.\<close> is any character but NUL.  Every group
  is delimited by characters that the groups before it exclude, so the greedy match of each group
  in turn is the match; the only way to fail is a NUL in the fragment.  \<open>uri_match\<close> is that match.
\<close>

section \<open>Data\<close>

record uri =
  scheme :: string
  user_info :: string
  host :: string
  port :: int
  path :: string
  query :: string
  fragment :: string

definition empty_uri :: uri where
  "empty_uri = \<lparr>scheme = [], user_info = [], host = [], port = 0, path = [], query = [], fragment = []\<rparr>"

section \<open>Parsing\<close>

definition scheme_char :: "char \<Rightarrow> bool" where
  "scheme_char c \<longleftrightarrow> c \<notin> set '':/?#'' \<and> c \<noteq> CHR 0x5C"

definition authority_char :: "char \<Rightarrow> bool" where
  "authority_char c \<longleftrightarrow> c \<notin> set ''/?#'' \<and> c \<noteq> CHR 0x5C"

definition path_char :: "char \<Rightarrow> bool" where
  "path_char c \<longleftrightarrow> c \<notin> set ''?#''"

definition match_scheme :: "string \<Rightarrow> string \<times> string" where
  "match_scheme s =
     (let r = takeWhile scheme_char s; t = dropWhile scheme_char s
      in if r \<noteq> [] \<and> t \<noteq> [] \<and> hd t = CHR '':'' then (r, tl t) else ([], s))"

definition match_authority :: "string \<Rightarrow> string \<times> string" where
  "match_authority s =
     (if take 2 s = ''//'' then (takeWhile authority_char (drop 2 s), dropWhile authority_char (drop 2 s))
      else ([], s))"

definition match_query :: "string \<Rightarrow> string \<times> string" where
  "match_query s =
     (if s \<noteq> [] \<and> hd s = CHR ''?'' then (takeWhile (\<lambda>c. c \<noteq> CHR ''#'') (tl s), dropWhile (\<lambda>c. c \<noteq> CHR ''#'') (tl s))
      else ([], s))"

definition match_fragment :: "string \<Rightarrow> string option" where
  "match_fragment s = (if s = [] then Some [] else if NUL \<in> set (tl s) then None else Some (tl s))"

text \<open>The groups 2, 4, 5, 7 and 9 of the match.\<close>

definition uri_match :: "string \<Rightarrow> (string \<times> string \<times> string \<times> string \<times> string) option" where
  "uri_match s =
     (let (m2, s1) = match_scheme s;
          (m4, s2) = match_authority s1;
          m5 = takeWhile path_char s2;
          (m7, s4) = match_query (dropWhile path_char s2)
      in map_option (\<lambda>m9. (m2, m4, m5, m7, m9)) (match_fragment s4))"

definition default_ports :: "(string \<times> int) list" where
  "default_ports =
     [(''ftp'', 22), (''gopher'', 70), (''http'', 80), (''https'', 443), (''imap'', 143), (''ldap'', 389),
      (''nfs'', 2049), (''nntp'', 119), (''pop'', 110), (''smtp'', 25), (''telnet'', 23), (''ws'', 80), (''wss'', 443)]"

definition uri_get_default_port_for_scheme :: "string \<Rightarrow> int" where
  "uri_get_default_port_for_scheme s = (case map_of default_ports s of None \<Rightarrow> 0 | Some p \<Rightarrow> p)"

definition parse_user_info :: "string \<Rightarrow> uri \<Rightarrow> string \<times> uri" where
  "parse_user_info authority u =
     (case view_find ''@'' 0 authority of
        None \<Rightarrow> (authority, u)
      | Some pos \<Rightarrow> (drop (pos + 1) authority, u\<lparr>user_info := take pos authority\<rparr>))"

definition parse_port :: "string \<Rightarrow> uri \<Rightarrow> string \<times> uri" where
  "parse_port authority u =
     (case rfind CHR '':'' authority of
        None \<Rightarrow> (authority, u)
      | Some pos \<Rightarrow>
          (case fst (stoui16_nothrow (drop (pos + 1) authority) 10 0) of
             None \<Rightarrow> (authority, u)
           | Some p \<Rightarrow> (take pos authority, u\<lparr>port := p\<rparr>)))"

definition uri_parse :: "string \<Rightarrow> uri res" where
  "uri_parse s =
     (case uri_match s of
        None \<Rightarrow> Throw (Invalid_Argument ''string argument not a valid URI'')
      | Some (m2, m4, m5, m7, m9) \<Rightarrow>
          let u = empty_uri\<lparr>scheme := m2\<rparr>;
              (authority, u) = parse_user_info m4 u;
              (authority, u) = parse_port authority u;
              u = u\<lparr>host := authority\<rparr>;
              u = (if 0 = port u then u\<lparr>port := uri_get_default_port_for_scheme (scheme u)\<rparr> else u);
              u = u\<lparr>path := (if m5 = [] then ''/'' else m5)\<rparr>
          in Ret (u\<lparr>query := m7, fragment := m9\<rparr>))"

section \<open>Printing\<close>

text \<open>A \<open>%s\<close> of the C string of a member prints it up to its first NUL.\<close>

definition uri_to_string :: "uri \<Rightarrow> string" where
  "uri_to_string u =
     (if scheme u \<noteq> [] then c_str (scheme u) @ '':'' else [])
     @ (if host u \<noteq> []
        then ''//''
          @ (if user_info u \<noteq> [] then c_str (user_info u) @ ''@'' else [])
          @ host u
          @ (if 0 \<noteq> port u \<and> uri_get_default_port_for_scheme (scheme u) \<noteq> port u
             then '':'' @ to_string_int (port u) else [])
        else [])
     @ (if path u \<noteq> [] then c_str (path u) else ''/'')
     @ (if query u \<noteq> [] then ''?'' @ c_str (query u) else [])
     @ (if fragment u \<noteq> [] then ''#'' @ c_str (fragment u) else [])"

definition uri_get_host_port :: "uri \<Rightarrow> string" where
  "uri_get_host_port u =
     host u @ (if port u \<noteq> 0 \<and> port u \<noteq> uri_get_default_port_for_scheme (scheme u)
               then '':'' @ to_string_int (port u) else [])"

definition uri_get_path_query_fragment :: "uri \<Rightarrow> string" where
  "uri_get_path_query_fragment u =
     path u
     @ (if query u \<noteq> [] then ''?'' @ c_str (query u) else [])
     @ (if fragment u \<noteq> [] then ''#'' @ c_str (fragment u) else [])"

section \<open>Percent encoding\<close>

definition is_alnum :: "char \<Rightarrow> bool" where
  "is_alnum c \<longleftrightarrow> 48 \<le> code c \<and> code c \<le> 57 \<or> 65 \<le> code c \<and> code c \<le> 90 \<or> 97 \<le> code c \<and> code c \<le> 122"

definition is_xdigit :: "char \<Rightarrow> bool" where
  "is_xdigit c \<longleftrightarrow> 48 \<le> code c \<and> code c \<le> 57 \<or> 65 \<le> code c \<and> code c \<le> 70 \<or> 97 \<le> code c \<and> code c \<le> 102"

definition needs_escaping :: "char \<Rightarrow> bool" where
  "needs_escaping c \<longleftrightarrow> \<not> (is_alnum c \<or> CHR ''-'' = c \<or> CHR ''.'' = c \<or> CHR ''_'' = c \<or> CHR ''~'' = c)"

definition hdigit :: string where
  "hdigit = ''0123456789ABCDEF''"

fun uri_encoding_escape :: "string \<Rightarrow> string" where
  "uri_encoding_escape [] = []"
| "uri_encoding_escape (c # s) =
     (if needs_escaping c then [CHR ''%'', hdigit ! (code c div 16), hdigit ! (code c mod 16)] else [c])
     @ uri_encoding_escape s"

text \<open>
  The loop of \<open>uri_encoding_unescape\<close> with its locals \<open>hex\<close> (as a C string) and \<open>unescaped\<close>.  The
  decoded character is assigned to \<open>c\<close>, and it is \<open>hex\<close> that is appended.
\<close>

fun unescape_loop :: "string \<Rightarrow> string \<Rightarrow> string \<Rightarrow> string" where
  "unescape_loop [] hex unescaped = unescaped"
| "unescape_loop (c # s) hex unescaped =
     (if c = CHR ''%''
      then (case s of
              h0 # h1 # s' \<Rightarrow>
                (if \<not> is_xdigit h0 \<or> \<not> is_xdigit h1 then unescaped
                 else unescape_loop s' [h0, h1] (unescaped @ [h0, h1]))
            | _ \<Rightarrow> unescaped)
      else unescape_loop s hex (unescaped @ hex))"

definition uri_encoding_unescape :: "string \<Rightarrow> string" where
  "uri_encoding_unescape s = unescape_loop s [] []"

section \<open>Request targets\<close>

definition target_get_path :: "string \<Rightarrow> string" where
  "target_get_path target = takeWhile (\<lambda>c. c \<notin> set ''?#'') target"

definition target_get_query :: "string \<Rightarrow> string" where
  "target_get_query target =
     (case view_find ''?'' 0 target of
        None \<Rightarrow> []
      | Some i \<Rightarrow>
          let start = i + 1;
              end = (case view_find ''#'' start target of None \<Rightarrow> length target | Some e \<Rightarrow> e)
          in take (end - start) (drop start target))"

definition target_get_fragment :: "string \<Rightarrow> string" where
  "target_get_fragment target =
     (case view_find ''#'' 0 target of None \<Rightarrow> [] | Some start \<Rightarrow> drop (start + 1) target)"

section \<open>Matching what was printed\<close>

text \<open>
  A URI in the form that printing and parsing keep: no part contains a character that delimits it,
  the path is not empty and is absolute after a host, and without a host there is no user
  information and no port but the default.
\<close>

definition uri_canonical :: "uri \<Rightarrow> bool" where
  "uri_canonical u \<longleftrightarrow>
     NUL \<notin> set (scheme u @ user_info u @ host u @ path u @ query u @ fragment u)
     \<and> list_all scheme_char (scheme u)
     \<and> list_all (\<lambda>c. authority_char c \<and> c \<noteq> CHR ''@'') (user_info u)
     \<and> list_all (\<lambda>c. authority_char c \<and> c \<noteq> CHR ''@'') (host u)
     \<and> (case rfind CHR '':'' (host u) of
          None \<Rightarrow> True | Some pos \<Rightarrow> fst (stoui16_nothrow (drop (pos + 1) (host u)) 10 0) = None)
     \<and> list_all path_char (path u) \<and> path u \<noteq> []
     \<and> list_all (\<lambda>c. c \<noteq> CHR ''#'') (query u)
     \<and> 0 \<le> port u \<and> port u < 2 ^ 16
     \<and> (port u = 0 \<longrightarrow> uri_get_default_port_for_scheme (scheme u) = 0)
     \<and> (if host u = []
        then user_info u = [] \<and> port u = uri_get_default_port_for_scheme (scheme u) \<and> take 2 (path u) \<noteq> ''//''
        else hd (path u) = CHR ''/'')
     \<and> (scheme u = [] \<longrightarrow> hd (path u) = CHR ''/'')"

lemma match_scheme_print:
  assumes "list_all scheme_char sc" and "sc = [] \<Longrightarrow> rest \<noteq> [] \<and> hd rest = CHR ''/''"
  shows "match_scheme ((if sc \<noteq> [] then sc @ '':'' else []) @ rest) = (sc, rest)"
proof (cases "sc = []")
  case True
  with assms(2) show ?thesis by (cases rest) (simp_all add: match_scheme_def scheme_char_def)
next
  case False
  from takeWhile_stop [OF assms(1), of "CHR '':'' # rest"] False show ?thesis
    by (simp add: match_scheme_def scheme_char_def)
qed

lemma match_authority_print:
  assumes "list_all authority_char au" and "hd rest = CHR ''/''"
  shows "match_authority (''//'' @ au @ rest) = (au, rest)"
  using takeWhile_stop [OF assms(1), of rest] assms(2) by (auto simp: match_authority_def authority_char_def)

lemma match_authority_none:
  assumes "take 2 p \<noteq> ''//''" and "p \<noteq> []" and "rest = [] \<or> hd rest \<noteq> CHR ''/''"
  shows "match_authority (p @ rest) = ([], p @ rest)"
  using assms by (cases p; cases "tl p"; cases rest) (auto simp: match_authority_def)

lemma match_tail_print:
  assumes "list_all path_char p" and "list_all (\<lambda>c. c \<noteq> CHR ''#'') q" and "NUL \<notin> set f"
  shows "takeWhile path_char (p @ (if q \<noteq> [] then ''?'' @ q else []) @ (if f \<noteq> [] then ''#'' @ f else [])) = p"
    and "match_query (dropWhile path_char (p @ (if q \<noteq> [] then ''?'' @ q else []) @ (if f \<noteq> [] then ''#'' @ f else [])))
       = (q, if f \<noteq> [] then ''#'' @ f else [])"
    and "match_fragment (if f \<noteq> [] then ''#'' @ f else []) = Some f"
proof -
  let ?F = "if f \<noteq> [] then ''#'' @ f else []"
  let ?R = "(if q \<noteq> [] then ''?'' @ q else []) @ ?F"
  have "?R = [] \<or> \<not> path_char (hd ?R)" by (simp add: path_char_def)
  from takeWhile_stop [OF assms(1) this]
  show "takeWhile path_char (p @ ?R) = p"
    and r: "match_query (dropWhile path_char (p @ ?R)) = (q, ?F)"
    using takeWhile_stop [OF assms(2), of ?F] by (auto simp: match_query_def)
  show "match_fragment ?F = Some f" using assms(3) by (simp add: match_fragment_def)
qed

definition authority_text :: "uri \<Rightarrow> string" where
  "authority_text u =
     (if user_info u \<noteq> [] then user_info u @ ''@'' else []) @ host u
     @ (if 0 \<noteq> port u \<and> uri_get_default_port_for_scheme (scheme u) \<noteq> port u then '':'' @ to_string_int (port u) else [])"

lemma uri_to_string_canonical:
  assumes "uri_canonical u"
  shows "uri_to_string u =
     (if scheme u \<noteq> [] then scheme u @ '':'' else [])
     @ (if host u \<noteq> [] then ''//'' @ authority_text u else [])
     @ path u @ (if query u \<noteq> [] then ''?'' @ query u else []) @ (if fragment u \<noteq> [] then ''#'' @ fragment u else [])"
proof -
  have "c_str (scheme u) = scheme u" "c_str (user_info u) = user_info u" "c_str (path u) = path u"
    "c_str (query u) = query u" "c_str (fragment u) = fragment u"
    using assms by (auto simp: uri_canonical_def intro: c_str_id)
  moreover have "path u \<noteq> []" using assms by (simp add: uri_canonical_def)
  ultimately show ?thesis by (simp add: uri_to_string_def authority_text_def)
qed

lemma to_string_int_chars: "0 \<le> v \<Longrightarrow> c \<in> set (to_string_int v) \<Longrightarrow> is_digit 10 c"
  using dec_nat_digits by (auto simp: to_string_int_def)

lemma digit_chars: "is_digit 10 c \<Longrightarrow> authority_char c \<and> c \<noteq> CHR ''@'' \<and> c \<noteq> CHR '':''"
  by (auto simp: is_digit_def digit_value_def authority_char_def split: if_splits)

lemma authority_text_chars:
  assumes "uri_canonical u"
  shows "list_all authority_char (authority_text u)"
  using assms to_string_int_chars [of "port u"] digit_chars
  by (auto simp: uri_canonical_def authority_text_def list_all_iff authority_char_def)

lemma uri_match_print:
  assumes "uri_canonical u"
  shows "uri_match (uri_to_string u) =
    Some (scheme u, if host u \<noteq> [] then authority_text u else [], path u, query u, fragment u)"
proof -
  let ?R = "(if query u \<noteq> [] then ''?'' @ query u else []) @ (if fragment u \<noteq> [] then ''#'' @ fragment u else [])"
  let ?rest = "(if host u \<noteq> [] then ''//'' @ authority_text u else []) @ path u @ ?R"
  have c: "list_all scheme_char (scheme u)" "list_all path_char (path u)" "path u \<noteq> []"
    "list_all (\<lambda>c. c \<noteq> CHR ''#'') (query u)" "NUL \<notin> set (fragment u)"
    "scheme u = [] \<Longrightarrow> hd (path u) = CHR ''/''"
    "host u = [] \<Longrightarrow> take 2 (path u) \<noteq> ''//''" "host u \<noteq> [] \<Longrightarrow> hd (path u) = CHR ''/''"
    using assms by (auto simp: uri_canonical_def)
  have "scheme u = [] \<Longrightarrow> ?rest \<noteq> [] \<and> hd ?rest = CHR ''/''"
    using c(3,6) by simp
  note 1 = match_scheme_print [OF c(1) this]
  have 2: "match_authority ?rest = (if host u \<noteq> [] then authority_text u else [], path u @ ?R)"
  proof (cases "host u = []")
    case True
    have "?R = [] \<or> hd ?R \<noteq> CHR ''/''" by simp
    from match_authority_none [OF c(7) [OF True] c(3) this] True show ?thesis by simp
  next
    case False
    have "hd (path u @ ?R) = CHR ''/''" using c(3,8) False by simp
    from match_authority_print [OF authority_text_chars [OF assms] this] False show ?thesis by simp
  qed
  note 3 = match_tail_print [OF c(2,4,5)]
  show ?thesis
    unfolding uri_match_def uri_to_string_canonical [OF assms] Let_def
    using 1 2 3 by simp
qed

lemma parse_port_print:
  assumes "uri_canonical u" and "host u \<noteq> []" and "port v = 0"
    and p: "p = (if 0 \<noteq> port u \<and> uri_get_default_port_for_scheme (scheme u) \<noteq> port u then port u else 0)"
  shows "parse_port (host u @ (if p \<noteq> 0 then '':'' @ to_string_int p else [])) v = (host u, v\<lparr>port := p\<rparr>)"
proof (cases "p = 0")
  case True
  with assms(1,3) show ?thesis
    by (auto simp: uri_canonical_def parse_port_def split: option.splits)
next
  case False
  have range: "0 \<le> p" "p < 2 ^ 16" using assms(1) p by (auto simp: uri_canonical_def)
  have "CHR '':'' \<notin> set (to_string_int p)"
    using to_string_int_chars [OF range(1)] digit_chars by blast
  from rfind_last [OF this, of "host u"] have r: "rfind CHR '':'' (host u @ '':'' @ to_string_int p) = Some (length (host u))"
    by simp
  have "fst (stoui16_nothrow (to_string_int p) 10 0) = Some p"
    using range by (simp add: stoui16_nothrow_def strtoul_to_string stopped_early_def ULONG_MAX_def)
  with r False show ?thesis by (simp add: parse_port_def)
qed




















section \<open>Properties\<close>

text \<open>
  C14.  Printing and parsing are inverse on canonical URIs: every part comes back, with the port
  printed only when it is not the default of the scheme and restored from the scheme otherwise.
\<close>

theorem uri_parse_to_string:
  assumes "uri_canonical u"
  shows "uri_parse (uri_to_string u) = Ret u"
proof -
  let ?p = "if 0 \<noteq> port u \<and> uri_get_default_port_for_scheme (scheme u) \<noteq> port u then port u else 0"
  let ?v = "empty_uri\<lparr>scheme := scheme u\<rparr>"
  have pu: "path u \<noteq> []" "port u = 0 \<longrightarrow> uri_get_default_port_for_scheme (scheme u) = 0"
    using assms by (auto simp: uri_canonical_def)
  have v: "port ?v = 0" "port (?v\<lparr>user_info := user_info u\<rparr>) = 0" by (simp_all add: empty_uri_def)
  show ?thesis
  proof (cases "host u = []")
    case True
    then have "user_info u = []" "port u = uri_get_default_port_for_scheme (scheme u)"
      using assms by (auto simp: uri_canonical_def)
    with True pu show ?thesis
      by (simp add: uri_parse_def uri_match_print [OF assms] parse_user_info_def parse_port_def view_find_def
          rfind_def empty_uri_def Let_def)
  next
    case False
    let ?hp = "host u @ (if ?p \<noteq> 0 then '':'' @ to_string_int ?p else [])"
    have at: "authority_text u = (if user_info u \<noteq> [] then user_info u @ ''@'' else []) @ ?hp"
      by (simp add: authority_text_def)
    have free: "CHR ''@'' \<notin> set (user_info u)" "CHR ''@'' \<notin> set ?hp"
      using assms to_string_int_chars [of "port u"] digit_chars by (auto simp: uri_canonical_def list_all_iff)
    have info: "parse_user_info (authority_text u) ?v = (?hp, ?v\<lparr>user_info := user_info u\<rparr>)"
    proof (cases "user_info u = []")
      case True
      with free(2) show ?thesis
        unfolding at by (simp add: parse_user_info_def find_char_None empty_uri_def)
    next
      case ne: False
      have "view_find ''@'' 0 (user_info u @ CHR ''@'' # ?hp) = Some (length (user_info u))"
        by (rule find_char [OF free(1)])
      with ne show ?thesis unfolding at by (simp add: parse_user_info_def)
    qed
    have prt: "parse_port ?hp (?v\<lparr>user_info := user_info u\<rparr>) = (host u, ?v\<lparr>user_info := user_info u, port := ?p\<rparr>)"
      using parse_port_print [OF assms False v(2) refl] by simp
    have "uri_parse (uri_to_string u) =
      (let u' = ?v\<lparr>user_info := user_info u, port := ?p, host := host u\<rparr>;
           u' = (if 0 = port u' then u'\<lparr>port := uri_get_default_port_for_scheme (scheme u')\<rparr> else u');
           u' = u'\<lparr>path := (if path u = [] then ''/'' else path u)\<rparr>
       in Ret (u'\<lparr>query := query u, fragment := fragment u\<rparr>))"
      by (simp only: uri_parse_def uri_match_print [OF assms] option.case prod.case Let_def if_P [OF False] info prt)
    then show ?thesis using pu by (auto simp: empty_uri_def Let_def)
  qed
qed

theorem uri_parse_to_string_witness:
  "uri_parse (uri_to_string
     \<lparr>scheme = ''http'', user_info = ''me'', host = ''h.org'', port = 8080, path = ''/p'', query = ''q'', fragment = ''f''\<rparr>) =
   Ret \<lparr>scheme = ''http'', user_info = ''me'', host = ''h.org'', port = 8080, path = ''/p'', query = ''q'', fragment = ''f''\<rparr>"
  by (rule uri_parse_to_string)
    (simp add: uri_canonical_def scheme_char_def authority_char_def path_char_def rfind_def
      uri_get_default_port_for_scheme_def default_ports_def)









text \<open>Every part of a text with all of them.\<close>

theorem uri_parse_total_example:
  "uri_parse ''http://me@h.org:x:81?q?#f#g'' =
     Ret \<lparr>scheme = ''http'', user_info = ''me'', host = ''h.org:x'', port = 81, path = ''/'', query = ''q?'', fragment = ''f#g''\<rparr>"
  by code_simp

fun percent_decode :: "string \<Rightarrow> string" where
  "percent_decode [] = []"
| "percent_decode (c # s) =
     (if c = CHR ''%'' then (case s of
         h0 # h1 # s' \<Rightarrow> char_of (16 * the (digit_value h0) + the (digit_value h1)) # percent_decode s'
       | _ \<Rightarrow> [])
      else c # percent_decode s)"

lemma hdigit_nth: "n < 16 \<Longrightarrow> digit_value (hdigit ! n) = Some n \<and> is_xdigit (hdigit ! n)"
proof -
  assume n: "n < 16"
  have "\<forall>n \<in> {0..<16}. digit_value (hdigit ! n) = Some n \<and> is_xdigit (hdigit ! n)" by code_simp
  with n show ?thesis by simp
qed

lemma needs_escaping_percent: "needs_escaping CHR ''%''"
  by (simp add: needs_escaping_def is_alnum_def)

text \<open>
  \<open>uri_encoding_escape\<close> is percent encoding: every character of its output is unreserved or
  part of an escape, and a percent decoder recovers the text.  \<open>uri_encoding_unescape\<close> is not the
  inverse: a text without a percent sign decodes to the empty text, and an escaped character
  decodes to the two hexadecimal digits of its code.
\<close>

theorem uri_escape_unescape:
  "percent_decode (uri_encoding_escape s) = s
   \<and> list_all (\<lambda>c. c = CHR ''%'' \<or> \<not> needs_escaping c) (uri_encoding_escape s)
   \<and> (list_all (\<lambda>c. \<not> needs_escaping c) s \<longrightarrow> uri_encoding_unescape (uri_encoding_escape s) = [])
   \<and> (needs_escaping c \<longrightarrow> uri_encoding_unescape (uri_encoding_escape [c]) = [hdigit ! (code c div 16), hdigit ! (code c mod 16)])"
proof -
  have lt: "code d div 16 < 16" "code d mod 16 < 16" for d :: char
  proof -
    have "code d mod 256 = code d" by simp
    then have "code d < 256" by (metis mod_less_divisor zero_less_numeral)
    then show "code d div 16 < 16" "code d mod 16 < 16" by (simp_all add: less_mult_imp_div_less)
  qed
  have 1: "percent_decode (uri_encoding_escape s) = s"
  proof (induction s)
    case (Cons d s)
    have "16 * (code d div 16) + code d mod 16 = code d" by simp
    with Cons hdigit_nth [OF lt(1) [of d]] hdigit_nth [OF lt(2) [of d]] needs_escaping_percent show ?case
      by auto
  qed simp
  have "\<not> needs_escaping (hdigit ! n)" if "n < 16" for n
    using hdigit_nth [OF that] by (auto simp: needs_escaping_def is_alnum_def is_xdigit_def)
  with lt have 2: "list_all (\<lambda>c. c = CHR ''%'' \<or> \<not> needs_escaping c) (uri_encoding_escape s)"
    by (induction s) auto
  have 3: "uri_encoding_unescape (uri_encoding_escape s) = []" if "list_all (\<lambda>c. \<not> needs_escaping c) s"
  proof -
    have "uri_encoding_escape s = s" using that by (induction s) auto
    moreover have "unescape_loop s [] [] = []"
      using that needs_escaping_percent by (induction s) auto
    ultimately show ?thesis by (simp add: uri_encoding_unescape_def)
  qed
  have 4: "uri_encoding_unescape (uri_encoding_escape [c]) = [hdigit ! (code c div 16), hdigit ! (code c mod 16)]"
    if "needs_escaping c"
    using that hdigit_nth [OF lt(1) [of c]] hdigit_nth [OF lt(2) [of c]] by (simp add: uri_encoding_unescape_def)
  from 1 2 3 4 show ?thesis by blast
qed

theorem uri_escape_unescape_witness:
  "uri_encoding_unescape (uri_encoding_escape ''ab'') = [] \<and> uri_encoding_unescape (uri_encoding_escape '' '') = ''20''
   \<and> percent_decode (uri_encoding_escape ''a b'') = ''a b''"
  using uri_escape_unescape [of "''ab''" "CHR '' ''"] uri_escape_unescape [of "''a b''" "CHR '' ''"]
  by (simp add: needs_escaping_def is_alnum_def hdigit_def)

text \<open>
  The parts of a request target: of a path, a query and a fragment without the characters that
  end them, each function returns its part; but the query is searched for in the whole target, so
  that without a query it is taken out of the fragment.
\<close>

theorem target_parts:
  assumes "list_all path_char p" and "CHR ''#'' \<notin> set q" and "CHR ''?'' \<notin> set e"
  shows "target_get_path (p @ ''?'' @ q @ ''#'' @ f) = p
    \<and> target_get_query (p @ ''?'' @ q @ ''#'' @ f) = q
    \<and> target_get_fragment (p @ ''?'' @ q @ ''#'' @ f) = f
    \<and> target_get_query (p @ ''#'' @ e @ ''?'' @ q) = q"
proof -
  have p: "CHR ''?'' \<notin> set p" "CHR ''#'' \<notin> set p" using assms(1) by (auto simp: list_all_iff path_char_def)
  have 1: "target_get_path (p @ ''?'' @ q @ ''#'' @ f) = p"
    using takeWhile_stop [OF assms(1), of "''?'' @ q @ ''#'' @ f"]
    by (simp add: target_get_path_def path_char_def [abs_def])
  have "view_find ''?'' 0 (p @ CHR ''?'' # q @ ''#'' @ f) = Some (length p)" by (rule find_char [OF p(1)])
  moreover have "view_find ''#'' (length p + 1) (p @ CHR ''?'' # q @ ''#'' @ f) = Some (length p + 1 + length q)"
    using find_char [OF assms(2), of f] by (simp add: view_find_def)
  ultimately have 2: "target_get_query (p @ ''?'' @ q @ ''#'' @ f) = q"
    by (simp add: target_get_query_def)
  have "CHR ''#'' \<notin> set (p @ ''?'' @ q)" using p assms(2) by simp
  from find_char [OF this, of f] have 3: "target_get_fragment (p @ ''?'' @ q @ ''#'' @ f) = f"
    by (simp add: target_get_fragment_def)
  have "CHR ''?'' \<notin> set (p @ ''#'' @ e)" using p assms(3) by simp
  from find_char [OF this, of q]
  have "view_find ''?'' 0 (p @ ''#'' @ e @ ''?'' @ q) = Some (length (p @ ''#'' @ e))" by simp
  moreover have "view_find ''#'' (length (p @ ''#'' @ e) + 1) (p @ ''#'' @ e @ ''?'' @ q) = None"
    using find_char_None [OF assms(2)] by (simp add: view_find_def)
  ultimately have 4: "target_get_query (p @ ''#'' @ e @ ''?'' @ q) = q"
    unfolding target_get_query_def by simp
  show ?thesis using 1 2 3 4 by blast
qed

theorem target_parts_witness:
  "target_get_query ''/p?q#f'' = ''q'' \<and> target_get_query ''/p#e?q'' = ''q''"
  using target_parts [of "''/p''" "''q''" "''e''" "''f''"] by (simp add: path_char_def)

end
