(* ===== verification/Usage.thy ===== *)
theory Usage
  imports Strings
begin

text \<open>
  The command line parser of \<open>src/hlib_usage.cpp\<close> and \<open>include/hlib/usage.hpp\<close>.

  A command line is the list of its words; \<open>argc\<close> is its length, and the program name is its
  head.  Reading \<open>argv\<close> past its end is a fault.  \<open>parse\<close> returns a \<open>Result\<close>, an error object or
  a count: \<open>Ret (Inl e)\<close> or \<open>Ret (Inr n)\<close>.  \<open>strtod\<close>, which converts the arguments of floating
  point options, is a parameter, and \<open>errno\<close> is passed along with the object because
  \<open>stof64\<close> reads it.
\<close>

section \<open>Data\<close>

datatype 'f opt_value = V_None | V_String string | V_Integer int | V_Float 'f | V_Boolean bool

record 'f opt =
  brief :: char
  extended :: string
  opt_description :: string
  arg_name :: string
  arg_value :: "'f opt_value"

record argument =
  arg_title :: string
  arg_description :: string
  is_optional :: bool

record 'f usage =
  m_description :: string
  m_options :: "'f opt list"
  m_arguments :: "argument list"
  m_varargs :: bool
  m_option_set :: "bool list"
  m_option_values :: "'f opt_value list"
  m_argument_values :: "string list"

definition make_usage :: "string \<Rightarrow> 'f opt list \<Rightarrow> argument list \<Rightarrow> bool \<Rightarrow> 'f usage" where
  "make_usage description options arguments varargs =
     \<lparr>m_description = description, m_options = options, m_arguments = arguments, m_varargs = varargs,
      m_option_set = [], m_option_values = [], m_argument_values = []\<rparr>"

section \<open>Queries\<close>

text \<open>The index of the first element that satisfies a predicate, as the loops over the options find it.\<close>

fun index_of :: "('a \<Rightarrow> bool) \<Rightarrow> 'a list \<Rightarrow> nat" where
  "index_of p [] = 0"
| "index_of p (x # xs) = (if p x then 0 else Suc (index_of p xs))"

definition usage_has_brief :: "char \<Rightarrow> 'f usage \<Rightarrow> bool" where
  "usage_has_brief c u =
     (if length (m_options u) \<noteq> length (m_option_values u) then False
      else list_ex (\<lambda>(o', s). c = brief o' \<and> s) (zip (m_options u) (m_option_set u)))"

definition usage_has_extended :: "string \<Rightarrow> 'f usage \<Rightarrow> bool" where
  "usage_has_extended name u =
     (if length (m_options u) \<noteq> length (m_option_values u) then False
      else list_ex (\<lambda>(o', s). name = extended o' \<and> s) (zip (m_options u) (m_option_set u)))"

definition usage_has_argument :: "nat \<Rightarrow> 'f usage \<Rightarrow> bool" where
  "usage_has_argument i u \<longleftrightarrow> i < length (m_argument_values u)"

definition usage_get_argument :: "nat \<Rightarrow> 'f usage \<Rightarrow> string" where
  "usage_get_argument i u =
     (if length (m_argument_values u) \<le> i then [] else m_argument_values u ! i)"

fun value_to_int :: "'f opt_value \<Rightarrow> int option" where
  "value_to_int (V_Integer v) = Some v"
| "value_to_int _ = None"

fun value_to_float :: "'f opt_value \<Rightarrow> 'f option" where
  "value_to_float (V_Float v) = Some v"
| "value_to_float _ = None"

fun value_to_string :: "'f opt_value \<Rightarrow> string option" where
  "value_to_string (V_String v) = Some v"
| "value_to_string _ = None"

fun value_to_bool :: "'f opt_value \<Rightarrow> bool option" where
  "value_to_bool (V_Boolean v) = Some v"
| "value_to_bool _ = None"

definition usage_get_brief :: "('f opt_value \<Rightarrow> 'a option) \<Rightarrow> char \<Rightarrow> 'f usage \<Rightarrow> 'a option" where
  "usage_get_brief to c u =
     (if length (m_options u) \<noteq> length (m_option_values u) then None
      else let i = index_of (\<lambda>o'. c = brief o') (m_options u)
           in if i < length (m_options u) then to (m_option_values u ! i) else None)"

definition usage_get_extended :: "('f opt_value \<Rightarrow> 'a option) \<Rightarrow> string \<Rightarrow> 'f usage \<Rightarrow> 'a option" where
  "usage_get_extended to name u =
     (if length (m_options u) \<noteq> length (m_option_values u) then None
      else let i = index_of (\<lambda>o'. name = extended o') (m_options u)
           in if i < length (m_options u) then to (m_option_values u ! i) else None)"

section \<open>Parsing\<close>

type_synonym 'f strtod = "string \<Rightarrow> errno \<Rightarrow> ('f \<times> nat option) \<times> errno"
type_synonym 'f parse_state = "'f usage \<times> errno"

definition invalid :: "string \<Rightarrow> (exn + 'a) res" where
  "invalid msg = Ret (Inl (Invalid_Argument msg))"

text \<open>The word and the value after its first \<open>=\<close>.\<close>

definition split_word :: "string \<Rightarrow> string \<times> string" where
  "split_word arg =
     (case view_find ''='' 0 arg of None \<Rightarrow> (arg, []) | Some i \<Rightarrow> (take i arg, drop (i + 1) arg))"

definition option_index :: "string \<Rightarrow> 'f usage \<Rightarrow> nat" where
  "option_index arg u =
     (if \<not> starts_with arg ''--''
      then if 2 = length arg then index_of (\<lambda>o'. brief o' = last arg) (m_options u) else length (m_options u)
      else index_of (\<lambda>o'. extended o' = drop 2 arg) (m_options u))"

text \<open>The switch over the type of the option; \<open>None\<close> in the second case is a failed conversion.\<close>

fun convert_value :: "'f strtod \<Rightarrow> 'f opt_value \<Rightarrow> string \<Rightarrow> errno \<Rightarrow> 'f opt_value option option \<times> errno" where
  "convert_value strtod V_None value err = (None, err)"
| "convert_value strtod (V_String _) value err = (Some (Some (V_String value)), err)"
| "convert_value strtod (V_Integer _) value err =
     (case stoi64_nothrow value 0 err of (r, err') \<Rightarrow> (Some (map_option V_Integer r), err'))"
| "convert_value strtod (V_Float _) value err =
     (case stof64_nothrow strtod value err of (r, err') \<Rightarrow> (Some (map_option V_Float r), err'))"
| "convert_value strtod (V_Boolean _) value err = (Some (map_option V_Boolean (stob_nothrow value)), err)"

definition set_option_value :: "'f strtod \<Rightarrow> nat \<Rightarrow> string \<Rightarrow> string \<Rightarrow> 'f parse_state \<Rightarrow> (exn + unit) res \<times> 'f parse_state" where
  "set_option_value strtod index arg value st =
     (let (u, err) = st
      in case convert_value strtod (arg_value (m_options u ! index)) value err of
           (None, err') \<Rightarrow> (invalid (''option '' @ [CHR 0x27] @ arg @ [CHR 0x27] @ '' does not take an argument''), (u, err'))
         | (Some None, err') \<Rightarrow>
             (invalid (''invalid '' @ [CHR 0x27] @ arg @ [CHR 0x27] @ '' argument '' @ [CHR 0x27] @ value @ [CHR 0x27]), (u, err'))
         | (Some (Some v), err') \<Rightarrow>
             (Ret (Inr ()), (u\<lparr>m_option_values := (m_option_values u)[index := v]\<rparr>, err')))"

text \<open>
  The loop over the options; it returns the words that are left.  The argument of an option that
  has none attached is the next word, and the check that there is one compares the index of the
  option with \<open>argc\<close>, as the code does.
\<close>

fun and_ok :: "(exn + 'a) res \<times> 's \<Rightarrow> ('a \<Rightarrow> 's \<Rightarrow> (exn + 'b) res \<times> 's) \<Rightarrow> (exn + 'b) res \<times> 's" where
  "and_ok (Ret (Inr a), s) k = k a s"
| "and_ok (Ret (Inl e), s) k = (Ret (Inl e), s)"
| "and_ok (Throw e, s) k = (Throw e, s)"
| "and_ok (Fault f, s) k = (Fault f, s)"

fun parse_options :: "'f strtod \<Rightarrow> nat \<Rightarrow> string list \<Rightarrow> 'f parse_state \<Rightarrow> (exn + string list) res \<times> 'f parse_state" where
  "parse_options strtod argc [] st = (Ret (Inr []), st)"
| "parse_options strtod argc (w # ws) st =
     (if \<not> starts_with_char w CHR ''-'' then (Ret (Inr (w # ws)), st)
      else
        let (arg, value) = split_word w;
            (u, err) = st;
            index = option_index arg u
        in if length (m_options u) \<le> index
           then (invalid (''invalid option '' @ [CHR 0x27] @ arg @ [CHR 0x27]), st)
           else
             let st1 = (u\<lparr>m_option_set := (m_option_set u)[index := True]\<rparr>, err)
             in if arg_name (m_options u ! index) = [] then parse_options strtod argc ws st1
                else if value \<noteq> []
                then and_ok (set_option_value strtod index arg value st1) (\<lambda>_ st'. parse_options strtod argc ws st')
                else if argc \<le> index + 1
                then (invalid (''option '' @ [CHR 0x27] @ arg @ [CHR 0x27] @ '' requires an argument''), st1)
                else case ws of
                       [] \<Rightarrow> (Fault Out_Of_Bounds, st1)
                     | v # ws' \<Rightarrow>
                         and_ok (set_option_value strtod index arg v st1) (\<lambda>_ st'. parse_options strtod argc ws' st'))"

text \<open>The loop over the declared arguments: the number taken, the flag, and the words left.\<close>

fun take_arguments :: "argument list \<Rightarrow> string list \<Rightarrow> nat \<Rightarrow> bool \<Rightarrow> string list \<Rightarrow> nat \<times> bool \<times> string list \<times> string list" where
  "take_arguments (a # as) (w # ws) index optional vs =
     take_arguments as ws (index + 1) (optional \<or> is_optional a) (vs @ [w])"
| "take_arguments as ws index optional vs = (index, optional, vs, ws)"

definition parse_arguments :: "string list \<Rightarrow> 'f usage \<Rightarrow> (exn + nat) res \<times> 'f usage" where
  "parse_arguments ws u =
     (case take_arguments (m_arguments u) ws 0 False (m_argument_values u) of
        (index, optional, vs, ws') \<Rightarrow>
          let u = u\<lparr>m_argument_values := vs\<rparr>
          in if index < length (m_arguments u) \<and> \<not> (optional \<or> is_optional (m_arguments u ! index))
             then (invalid (''missing argument '' @ [CHR 0x27] @ arg_title (m_arguments u ! index) @ [CHR 0x27]), u)
             else if ws' \<noteq> []
             then if \<not> m_varargs u then (invalid ''too many arguments'', u)
                  else (Ret (Inr (index + length ws')), u\<lparr>m_argument_values := vs @ ws'\<rparr>)
             else (Ret (Inr index), u))"

definition usage_parse :: "'f strtod \<Rightarrow> string list \<Rightarrow> 'f parse_state \<Rightarrow> (exn + nat) res \<times> 'f parse_state" where
  "usage_parse strtod argv st =
     (let (u, err) = st;
          u = u\<lparr>m_option_set := replicate (length (m_options u)) False,
                m_option_values := map arg_value (m_options u),
                m_argument_values := []\<rparr>
      in and_ok (parse_options strtod (length argv) (tl argv) (u, err))
           (\<lambda>ws (u', err'). case parse_arguments ws u' of (r, u'') \<Rightarrow> (r, (u'', err'))))"

section \<open>The help text\<close>

definition newline :: string where
  "newline = [CHR 0x0A]"

definition option_prefix :: "'f opt \<Rightarrow> string" where
  "option_prefix o' =
     (if brief o' \<noteq> NUL then CHR ''-'' # [brief o'] else ''  '')
     @ (if extended o' \<noteq> []
        then (if brief o' \<noteq> NUL then '', '' else ''  '') @ ''--'' @ c_str (extended o') else [])
     @ (if arg_name o' \<noteq> [] then ''='' @ c_str (arg_name o') else [])"

definition max_length :: "string list \<Rightarrow> nat" where
  "max_length xs = foldl (\<lambda>n x. max (length x) n) 0 xs"

definition usage_toString :: "string \<Rightarrow> 'f usage \<Rightarrow> string" where
  "usage_toString executable u =
     ''Usage: '' @ executable
     @ (if m_options u \<noteq> [] then '' [OPTIONS]'' else [])
     @ (if m_arguments u \<noteq> []
        then concat (map (\<lambda>a. (if is_optional a then '' ['' else '' '') @ arg_title a) (m_arguments u))
          @ (if m_varargs u then ''...'' else [])
          @ replicate (length (List.filter is_optional (m_arguments u))) CHR '']''
        else [])
     @ newline
     @ (if m_description u \<noteq> []
        then newline @ ''Description:'' @ newline @ ''    '' @ m_description u @ newline else [])
     @ (if m_options u \<noteq> []
        then newline @ ''Options:'' @ newline
          @ concat (map (\<lambda>o'. ''  '' @ fill_right (option_prefix o') (max_length (map option_prefix (m_options u)) + 1) CHR '' ''
                              @ opt_description o' @ newline) (m_options u))
        else [])
     @ (if m_arguments u \<noteq> []
        then newline @ ''Arguments:'' @ newline
          @ concat (map (\<lambda>a. ''  '' @ fill_right (arg_title a) (max_length (map arg_title (m_arguments u)) + 1) CHR '' ''
                             @ arg_description a @ newline) (m_arguments u))
        else [])"

section \<open>What parsing keeps and what it returns\<close>

lemma index_of_le: "index_of p xs \<le> length xs"
  by (induction xs) auto

definition parse_inv :: "'f usage \<Rightarrow> 'f usage \<Rightarrow> bool" where
  "parse_inv u u' \<longleftrightarrow> m_options u' = m_options u \<and> m_arguments u' = m_arguments u \<and> m_varargs u' = m_varargs u
     \<and> m_argument_values u' = m_argument_values u \<and> length (m_option_set u') = length (m_option_set u)
     \<and> length (m_option_values u') = length (m_option_values u)"

lemma parse_inv_refl [simp]: "parse_inv u u"
  by (simp add: parse_inv_def)

lemma parse_inv_trans: "parse_inv u v \<Longrightarrow> parse_inv v w \<Longrightarrow> parse_inv u w"
  by (simp add: parse_inv_def)

lemma set_option_value_inv:
  "set_option_value strtod i arg v (u, err) = (r, (u', err')) \<Longrightarrow>
     parse_inv u u' \<and> ((\<exists>e. r = Ret (Inl e)) \<or> r = Ret (Inr ()))"
  by (auto simp: set_option_value_def parse_inv_def invalid_def split: prod.splits option.splits)

declare parse_options.simps(2) [simp del]

lemma and_ok_inv:
  assumes "and_ok (set_option_value strtod i arg v (u, err)) (\<lambda>_ st. k st) = (r, (u', err'))"
    and "\<And>u1 e1. k (u1, e1) = (r, (u', err')) \<Longrightarrow> parse_inv u1 u'"
  shows "parse_inv u u'"
proof -
  obtain r1 u1 e1 where s: "set_option_value strtod i arg v (u, err) = (r1, (u1, e1))"
    by (cases "set_option_value strtod i arg v (u, err)") auto
  from set_option_value_inv [OF s] s assms show ?thesis by (auto intro: parse_inv_trans)
qed

lemma and_ok_Inr_iff:
  "and_ok x k = (Ret (Inr b), t) \<longleftrightarrow> (\<exists>a s. x = (Ret (Inr a), s) \<and> k a s = (Ret (Inr b), t))"
  by (cases "(x, k)" rule: and_ok.cases) auto

text \<open>One round of the option loop.\<close>

lemma parse_options_step:
  fixes u :: "'f usage" and w :: string
  defines "i \<equiv> option_index (fst (split_word w)) u"
  defines "u1 \<equiv> u\<lparr>m_option_set := (m_option_set u)[i := True]\<rparr>"
  obtains (stop) "parse_options strtod argc (w # vs) (u, err) = (Ret (Inr (w # vs)), (u, err))"
    | (fail) x v where "parse_options strtod argc (w # vs) (u, err) = (x, (v, err))" "v = u \<or> v = u1" "\<And>ws. x \<noteq> Ret (Inr ws)"
    | (flag) "parse_options strtod argc (w # vs) (u, err) = parse_options strtod argc vs (u1, err)"
    | (set) arg val ws where "parse_options strtod argc (w # vs) (u, err) =
          and_ok (set_option_value strtod i arg val (u1, err)) (\<lambda>_ st. parse_options strtod argc ws st)" "suffix ws vs"
proof -
  obtain arg val where w: "split_word w = (arg, val)" by fastforce
  show thesis
  proof (cases "starts_with_char w CHR ''-'' \<and> \<not> length (m_options u) \<le> i")
    case False
    then show thesis
      using stop fail [of _ u] w
      by (cases "starts_with_char w CHR ''-''") (auto simp: parse_options.simps(2) invalid_def i_def)
  next
    case True
    consider "arg_name (m_options u ! i) = []"
      | "arg_name (m_options u ! i) \<noteq> []" "val \<noteq> []"
      | "arg_name (m_options u ! i) \<noteq> []" "val = []" "argc \<le> i + 1"
      | "arg_name (m_options u ! i) \<noteq> []" "val = []" "\<not> argc \<le> i + 1" by linarith
    then show thesis
    proof cases
      case 1
      with True w flag show thesis by (simp add: parse_options.simps(2) i_def u1_def Let_def)
    next
      case 2
      with True w set [of arg val vs] show thesis by (simp add: parse_options.simps(2) i_def u1_def Let_def)
    next
      case 3
      with True w fail [of _ u1] show thesis by (simp add: parse_options.simps(2) i_def u1_def Let_def invalid_def)
    next
      case 4
      show thesis
      proof (cases vs)
        case Nil
        with 4 True w fail [of _ u1] show thesis by (simp add: parse_options.simps(2) i_def u1_def Let_def)
      next
        case (Cons v xs)
        with 4 True w set [of arg v xs] show thesis
          by (simp add: parse_options.simps(2) i_def u1_def Let_def suffix_Cons)
      qed
    qed
  qed
qed

lemma parse_options_inv:
  "parse_options strtod argc ws (u, err) = (r, (u', err')) \<Longrightarrow> parse_inv u u'"
proof (induction ws arbitrary: u err rule: length_induct)
  case (1 ws)
  have ih: "parse_options strtod argc xs (v, e) = (r, (u', err')) \<Longrightarrow> parse_inv v u'"
    if "length xs < length ws" for xs v e using 1(1) that by blast
  show ?case
  proof (cases ws)
    case Nil
    with 1(2) show ?thesis by simp
  next
    case (Cons w vs)
    let ?u = "u\<lparr>m_option_set := (m_option_set u)[option_index (fst (split_word w)) u := True]\<rparr>"
    have base: "parse_inv u ?u" by (simp add: parse_inv_def)
    show ?thesis
    proof (cases rule: parse_options_step [of strtod argc w vs u err])
      case flag
      with 1(2) Cons ih [of vs] base show ?thesis by (auto intro: parse_inv_trans)
    next
      case (set arg val xs)
      have "length xs < length ws" using set(2) Cons by (simp add: less_Suc_eq_le suffix_length_le)
      with and_ok_inv [OF set(1) [symmetric, THEN trans, OF 1(2) [unfolded Cons]]] ih base show ?thesis
        by (blast intro: parse_inv_trans)
    qed (use 1(2) Cons base in auto)
  qed
qed

lemma parse_options_suffix:
  "parse_options strtod argc ws (u, err) = (Ret (Inr tl'), st) \<Longrightarrow> suffix tl' ws"
proof (induction ws arbitrary: u err rule: length_induct)
  case (1 ws)
  have ih: "parse_options strtod argc xs (v, e) = (Ret (Inr tl'), st) \<Longrightarrow> suffix tl' xs"
    if "length xs < length ws" for xs v e using 1(1) that by blast
  show ?case
  proof (cases ws)
    case Nil
    with 1(2) show ?thesis by simp
  next
    case (Cons w vs)
    show ?thesis
    proof (cases rule: parse_options_step [of strtod argc w vs u err])
      case flag
      with 1(2) Cons ih [of vs] show ?thesis by (auto intro: suffix_ConsI)
    next
      case (set arg val xs)
      have len: "length xs < length ws" using set(2) Cons by (simp add: less_Suc_eq_le suffix_length_le)
      obtain s where "parse_options strtod argc xs s = (Ret (Inr tl'), st)"
        using set(1) 1(2) Cons by (auto simp: and_ok_Inr_iff)
      then have "suffix tl' xs" using ih [OF len] by (cases s) auto
      with set(2) Cons show ?thesis by (auto intro: suffix_ConsI dest: suffix_order.trans)
    qed (use 1(2) Cons in auto)
  qed
qed

lemma take_arguments_spec:
  "take_arguments as ws k opt vs =
     (k + min (length as) (length ws), opt \<or> list_ex is_optional (take (length ws) as), vs @ take (length as) ws,
      drop (length as) ws)"
  by (induction as ws k opt vs rule: take_arguments.induct) auto

section \<open>Properties\<close>

text \<open>
  C17.  What a successful parse guarantees, for every command line: the returned count is the number
  of argument values, at most the number of declared arguments unless the usage takes more; every
  declared argument before the first optional one has a value; and each option has its flag and
  its value, so that the queries apply.
\<close>

theorem usage_parse_sound:
  assumes "usage_parse strtod argv (u, err) = (Ret (Inr n), (u', err'))"
  shows "m_options u' = m_options u \<and> length (m_option_set u') = length (m_options u)
    \<and> length (m_option_values u') = length (m_options u)
    \<and> n = length (m_argument_values u') \<and> (m_varargs u \<or> n \<le> length (m_arguments u))
    \<and> length (takeWhile (\<lambda>a. \<not> is_optional a) (m_arguments u)) \<le> n
    \<and> suffix (m_argument_values u') (tl argv)"
proof -
  let ?u = "u\<lparr>m_option_set := replicate (length (m_options u)) False,
      m_option_values := map arg_value (m_options u), m_argument_values := []\<rparr>"
  have "and_ok (parse_options strtod (length argv) (tl argv) (?u, err))
      (\<lambda>ws st. case st of (v, e) \<Rightarrow> case parse_arguments ws v of (r, v') \<Rightarrow> (r, (v', e))) = (Ret (Inr n), (u', err'))"
    using assms by (simp add: usage_parse_def)
  then obtain ws st where 1: "parse_options strtod (length argv) (tl argv) (?u, err) = (Ret (Inr ws), st)"
    and 2: "(case st of (v, e) \<Rightarrow> case parse_arguments ws v of (r, v') \<Rightarrow> (r, (v', e))) = (Ret (Inr n), (u', err'))"
    unfolding and_ok_Inr_iff by blast
  obtain v e where st: "st = (v, e)" by fastforce
  note p = 1 [unfolded st]
  from 2 st have a: "parse_arguments ws v = (Ret (Inr n), u')" by (cases "parse_arguments ws v") auto
  note inv = parse_options_inv [OF p] and suf = parse_options_suffix [OF p]
  let ?as = "m_arguments u"
  let ?k = "min (length ?as) (length ws)"
  have fields: "m_arguments v = ?as" "m_argument_values v = []" "m_varargs v = m_varargs u" "m_options v = m_options u"
    "length (m_option_set v) = length (m_options u)" "length (m_option_values v) = length (m_options u)"
    using inv by (simp_all add: parse_inv_def)
  have args: "take_arguments ?as ws 0 False [] = (?k, list_ex is_optional (take (length ws) ?as), take (length ?as) ws, drop (length ?as) ws)"
    by (simp add: take_arguments_spec)
  have enough: "length (takeWhile (\<lambda>a. \<not> is_optional a) ?as) \<le> ?k"
    if ok: "\<not> (?k < length ?as \<and> \<not> (list_ex is_optional (take (length ws) ?as) \<or> is_optional (?as ! ?k)))"
  proof (rule ccontr)
    let ?t = "takeWhile (\<lambda>a. \<not> is_optional a) ?as"
    assume "\<not> ?thesis"
    moreover have "length ?t \<le> length ?as" by (rule length_takeWhile_le)
    ultimately have k: "?k = length ws" "length ws < length ?t" "length ws < length ?as" by auto
    have req: "\<not> is_optional (?as ! j)" if "j \<le> length ws" for j
      using that k(2) nth_mem [of j ?t] takeWhile_nth [of j "\<lambda>a. \<not> is_optional a" ?as]
      by (metis (no_types, lifting) le_less_trans set_takeWhileD)
    have "\<not> list_ex is_optional (take (length ws) ?as)"
      using req k(3) by (auto simp: list_ex_length)
    with ok req [of "length ws"] k show False by simp
  qed
  have sf: "suffix xs (tl argv)" if "suffix xs ws" for xs using that suf by (rule suffix_order.trans)
  from a fields args enough have res: "n = length (m_argument_values u')" "m_varargs u \<or> n \<le> length ?as"
    "length (takeWhile (\<lambda>a. \<not> is_optional a) ?as) \<le> n" "m_argument_values u' = ws"
    by (auto simp: parse_arguments_def invalid_def Let_def split: if_splits)
  moreover have "m_options u' = m_options v \<and> m_option_set u' = m_option_set v \<and> m_option_values u' = m_option_values v"
    using a by (auto simp: parse_arguments_def invalid_def Let_def split: if_splits prod.splits)
  ultimately show ?thesis using fields sf [of ws] by simp
qed

text \<open>The word that attaches a value to an option by its long name.\<close>

definition attached :: "'f usage \<Rightarrow> nat \<times> string \<Rightarrow> string" where
  "attached u iv = ''--'' @ extended (m_options u ! fst iv) @ ''='' @ snd iv"

definition assigns :: "'f strtod \<Rightarrow> 'f usage \<Rightarrow> nat \<times> string \<Rightarrow> 'f opt_value \<Rightarrow> bool" where
  "assigns strtod u iv w \<longleftrightarrow>
     fst iv < length (m_options u)
     \<and> CHR ''='' \<notin> set (extended (m_options u ! fst iv))
     \<and> index_of (\<lambda>o'. extended o' = extended (m_options u ! fst iv)) (m_options u) = fst iv
     \<and> arg_name (m_options u ! fst iv) \<noteq> [] \<and> snd iv \<noteq> []
     \<and> (\<forall>err. fst (convert_value strtod (arg_value (m_options u ! fst iv)) (snd iv) err) = Some (Some w))"

definition apply_assignment :: "nat \<times> 'f opt_value \<Rightarrow> 'f usage \<Rightarrow> 'f usage" where
  "apply_assignment iw u =
     u\<lparr>m_option_set := (m_option_set u)[fst iw := True], m_option_values := (m_option_values u)[fst iw := snd iw]\<rparr>"

lemma parse_attached:
  assumes "assigns strtod u iv w"
  shows "\<exists>err'. parse_options strtod argc (attached u iv # ws) (u, err) =
     parse_options strtod argc ws (apply_assignment (fst iv, w) u, err')"
proof -
  obtain i v where iv: "iv = (i, v)" by fastforce
  let ?ext = "extended (m_options u ! i)"
  have a: "i < length (m_options u)" "CHR ''='' \<notin> set ?ext"
    "index_of (\<lambda>o'. extended o' = ?ext) (m_options u) = i" "arg_name (m_options u ! i) \<noteq> []" "v \<noteq> []"
    "\<And>e. fst (convert_value strtod (arg_value (m_options u ! i)) v e) = Some (Some w)"
    using assms iv by (auto simp: assigns_def)
  have "CHR ''='' \<notin> set (''--'' @ ?ext)" using a(2) by simp
  from find_char [OF this, of v]
  have w: "split_word (attached u iv) = (''--'' @ ?ext, v)"
    by (simp add: split_word_def attached_def iv)
  have dash: "starts_with_char (attached u iv) CHR ''-''"
    by (simp add: starts_with_char_def attached_def)
  have idx: "option_index (''--'' @ ?ext) u = i" using a(3) by (simp add: option_index_def starts_with_def)
  let ?u = "u\<lparr>m_option_set := (m_option_set u)[i := True]\<rparr>"
  obtain err' where "convert_value strtod (arg_value (m_options u ! i)) v err = (Some (Some w), err')"
    using a(6) [of err] by (metis prod.collapse)
  then have "set_option_value strtod i (''--'' @ ?ext) v (?u, err) = (Ret (Inr ()), (apply_assignment (i, w) u, err'))"
    by (simp add: set_option_value_def apply_assignment_def)
  with w dash idx a show ?thesis
    by (intro exI [of _ err']) (simp add: parse_options.simps(2) Let_def iv)
qed

lemma apply_assignment_fields [simp]:
  "m_options (apply_assignment iw u) = m_options u" "m_arguments (apply_assignment iw u) = m_arguments u"
  "m_argument_values (apply_assignment iw u) = m_argument_values u" "m_varargs (apply_assignment iw u) = m_varargs u"
  by (simp_all add: apply_assignment_def)

lemma fold_assignment_fields [simp]:
  "m_options (fold apply_assignment iws u) = m_options u" "m_arguments (fold apply_assignment iws u) = m_arguments u"
  "m_argument_values (fold apply_assignment iws u) = m_argument_values u"
  "m_varargs (fold apply_assignment iws u) = m_varargs u"
  by (induction iws arbitrary: u) simp_all

lemma parse_attached_all:
  assumes "list_all2 (assigns strtod u) ivs ws"
  shows "\<exists>err'. parse_options strtod argc (map (attached u) ivs @ rest) (u, err) =
     parse_options strtod argc rest (fold apply_assignment (zip (map fst ivs) ws) u, err')"
proof -
  have "\<exists>err'. parse_options strtod argc (map (attached u) ivs @ rest) (v, err) =
     parse_options strtod argc rest (fold apply_assignment (zip (map fst ivs) ws) v, err')"
    if "m_options v = m_options u" for v
    using assms that
  proof (induction ivs ws arbitrary: v err rule: list_all2_induct)
    case (Cons iv ivs w ws)
    from Cons.hyps(1) Cons.prems have "assigns strtod v iv w" by (simp add: assigns_def)
    from parse_attached [OF this, of argc "map (attached u) ivs @ rest" err] obtain e where
      "parse_options strtod argc (attached v iv # map (attached u) ivs @ rest) (v, err) =
       parse_options strtod argc (map (attached u) ivs @ rest) (apply_assignment (fst iv, w) v, e)" by blast
    moreover have "attached v iv = attached u iv" using Cons.prems by (simp add: attached_def)
    moreover obtain e' where "parse_options strtod argc (map (attached u) ivs @ rest) (apply_assignment (fst iv, w) v, e) =
       parse_options strtod argc rest (fold apply_assignment (zip (map fst ivs) ws) (apply_assignment (fst iv, w) v), e')"
      using Cons.IH [of "apply_assignment (fst iv, w) v" e] Cons.prems by auto
    ultimately show ?case by auto
  qed auto
  then show ?thesis by blast
qed

text \<open>
  C16.  A command line that attaches values to options by their long names, followed by as many
  words as there are declared arguments, is parsed as written: the call returns the number of
  arguments, their values are the words, and the options hold the assigned values, a later
  assignment to an option replacing an earlier one.
\<close>

theorem usage_parse_attached:
  assumes "list_all2 (assigns strtod u) ivs ws"
    and "length args = length (m_arguments u)" and "args = [] \<or> \<not> starts_with_char (hd args) CHR ''-''"
  shows "\<exists>u' err'. usage_parse strtod (prog # map (attached u) ivs @ args) (u, err) = (Ret (Inr (length args)), (u', err'))
    \<and> m_argument_values u' = args
    \<and> m_option_values u' = fold (\<lambda>(i, w) vs. vs[i := w]) (zip (map fst ivs) ws) (map arg_value (m_options u))
    \<and> m_option_set u' = map (\<lambda>i. i \<in> set (map fst ivs)) [0..<length (m_options u)]"
proof -
  let ?u = "u\<lparr>m_option_set := replicate (length (m_options u)) False,
      m_option_values := map arg_value (m_options u), m_argument_values := []\<rparr>"
  let ?iws = "zip (map fst ivs) ws"
  let ?v = "fold apply_assignment ?iws ?u"
  have att: "attached ?u = attached u" by (simp add: attached_def fun_eq_iff)
  have "assigns strtod ?u = assigns strtod u" by (simp add: assigns_def fun_eq_iff)
  with assms(1) have all: "list_all2 (assigns strtod ?u) ivs ws" by simp
  have rest: "parse_options strtod argc args st = (Ret (Inr args), st)" for argc st
    using assms(3) by (cases args) (simp_all add: parse_options.simps(2))
  obtain e where p: "parse_options strtod (length (prog # map (attached u) ivs @ args)) (map (attached u) ivs @ args) (?u, err)
      = (Ret (Inr args), (?v, e))"
    using parse_attached_all [OF all, of _ args err] rest att by metis
  have pa: "parse_arguments args ?v = (Ret (Inr (length args)), ?v\<lparr>m_argument_values := args\<rparr>)"
    using assms(2) by (simp add: parse_arguments_def take_arguments_spec)
  have vals: "m_option_values (fold apply_assignment iws x) = fold (\<lambda>(i, w) vs. vs[i := w]) iws (m_option_values x)" for iws x
    by (induction iws arbitrary: x) (auto simp: apply_assignment_def)
  have flags: "m_option_set (fold apply_assignment iws x) = map (\<lambda>i. i \<in> fst ` set iws \<or> m_option_set x ! i) [0..<length (m_option_set x)]"
    for iws x
  proof (induction iws arbitrary: x)
    case Nil
    then show ?case by (simp add: map_nth)
  next
    case (Cons iw iws)
    have upd: "xs[k := True] ! j = (k = j \<or> xs ! j)" if "j < length xs" for xs :: "bool list" and k j
      using that by (cases "k = j") simp_all
    from Cons show ?case
      by (intro nth_equalityI) (auto simp: apply_assignment_def upd)
  qed
  have fsts: "fst ` set ?iws = set (map fst ivs)"
    using list_all2_lengthD [OF assms(1)] by (metis length_map map_fst_zip set_map)
  show ?thesis
    using p pa by (auto simp: usage_parse_def vals flags fsts)
qed

text \<open>A \<open>strtod\<close> that reads no number, as a concrete instance of the parameter.\<close>

definition int_strtod :: "int strtod" where
  "int_strtod s err = ((0, Some 0), err)"

theorem usage_parse_attached_witness:
  "\<exists>u' err'. usage_parse int_strtod [''prog'', ''--name=x'', ''file'']
      (make_usage [] [\<lparr>brief = CHR ''n'', extended = ''name'', opt_description = [], arg_name = ''<name>'', arg_value = V_String []\<rparr>]
        [\<lparr>arg_title = ''FILE'', arg_description = [], is_optional = False\<rparr>] False, 0) = (Ret (Inr 1), (u', err'))
    \<and> m_argument_values u' = [''file''] \<and> m_option_values u' = [V_String ''x'']"
proof -
  let ?u = "make_usage [] [\<lparr>brief = CHR ''n'', extended = ''name'', opt_description = [], arg_name = ''<name>'', arg_value = V_String []\<rparr>]
        [\<lparr>arg_title = ''FILE'', arg_description = [], is_optional = False\<rparr>] False"
  have "list_all2 (assigns int_strtod ?u) [(0, ''x'')] [V_String ''x'']"
    by (simp add: assigns_def make_usage_def)
  from usage_parse_attached [OF this, of "[''file'']" "''prog''" 0] show ?thesis
    by (simp add: make_usage_def attached_def starts_with_char_def) blast
qed

text \<open>
  The argument of an option in the next word: the check that there is one compares the index of
  the option, not of the word, with \<open>argc\<close>.  An option that is far enough down the list is rejected
  although its argument follows; and the first option of the list, given as the last word, makes the
  parser read past the end of \<open>argv\<close>.
\<close>

theorem usage_parse_detached:
  assumes "index_of (\<lambda>o'. extended o' = name) (m_options u) = i" and "i < length (m_options u)"
    and "arg_name (m_options u ! i) \<noteq> []" and "CHR ''='' \<notin> set name"
  shows "(2 \<le> i \<longrightarrow> fst (usage_parse strtod [prog, ''--'' @ name, val] (u, err)) =
      invalid (''option '' @ [CHR 0x27] @ ''--'' @ name @ [CHR 0x27] @ '' requires an argument''))
    \<and> (i = 0 \<longrightarrow> fst (usage_parse strtod [prog, ''--'' @ name] (u, err)) = Fault Out_Of_Bounds)"
proof -
  have "CHR ''='' \<notin> set (''--'' @ name)" using assms(4) by simp
  from find_char_None [OF this] have w: "split_word (''--'' @ name) = (''--'' @ name, [])"
    by (simp add: split_word_def)
  have dash: "starts_with_char (''--'' @ name) CHR ''-''" by (simp add: starts_with_char_def)
  have idx: "option_index (''--'' @ name) v = i" if "m_options v = m_options u" for v :: "'a usage"
    using assms(1) that by (simp add: option_index_def starts_with_def)
  note unfolds = usage_parse_def parse_options.simps(2) Let_def invalid_def
  have far: "fst (usage_parse strtod [prog, ''--'' @ name, val] (u, err)) =
      invalid (''option '' @ [CHR 0x27] @ ''--'' @ name @ [CHR 0x27] @ '' requires an argument'')" if "2 \<le> i"
    using w dash idx assms(2,3) that by (simp add: unfolds)
  have first: "fst (usage_parse strtod [prog, ''--'' @ name] (u, err)) = Fault Out_Of_Bounds" if "i = 0"
  proof -
    have "0 < length (m_options u)" "arg_name (m_options u ! 0) \<noteq> []" using assms(2,3) that by simp_all
    then show ?thesis using w dash idx that by (simp add: unfolds)
  qed
  from far first show ?thesis by blast
qed

theorem usage_parse_detached_witness:
  "fst (usage_parse int_strtod [''prog'', ''--x'']
     (make_usage [] [\<lparr>brief = NUL, extended = ''x'', opt_description = [], arg_name = ''<x>'', arg_value = V_String []\<rparr>] [] False, 0))
   = Fault Out_Of_Bounds"
  using usage_parse_detached [where i = 0 and name = "''x''" and prog = "''prog''" and strtod = int_strtod and err = 0
      and u = "make_usage [] [\<lparr>brief = NUL, extended = ''x'', opt_description = [], arg_name = ''<x>'', arg_value = V_String []\<rparr>] [] False"]
  by (simp add: make_usage_def)

theorem usage_parse_sound_witness:
  "\<exists>n u' err'. usage_parse int_strtod [''prog'', ''a''] (make_usage [] []
      [\<lparr>arg_title = ''A'', arg_description = [], is_optional = False\<rparr>] False, 0) = (Ret (Inr n), (u', err'))
    \<and> 1 \<le> n"
proof -
  let ?u = "make_usage [] [] [\<lparr>arg_title = ''A'', arg_description = [], is_optional = False\<rparr>] False"
  obtain n u' err' where p: "usage_parse int_strtod [''prog'', ''a''] (?u, 0) = (Ret (Inr n), (u', err'))"
    by (simp add: usage_parse_def make_usage_def parse_options.simps(2) starts_with_char_def parse_arguments_def)
  from usage_parse_sound [OF p] p show ?thesis by (auto simp: make_usage_def)
qed

end
