(* ===== verification/Fsm.thy ===== *)
theory Fsm
  imports Prelude
begin

text \<open>
  \<open>include/hlib/fsm.hpp\<close>: the state machine \<open>FSM<State, Event>\<close>.

  An enumerator is the integer of its underlying type.  The transition table is the map of the
  code, from the 64-bit key \<open>combine state event\<close>; only \<open>m_state\<close> changes after construction.
  A callback is a function on \<open>m_state\<close> and a world \<open>'w\<close>, so that it may itself call \<open>apply\<close> or
  \<open>reset\<close> on its machine: such a call is a function on the same pair.  \<open>std::any\<close> is a type
  parameter.  The lemmas of the section on the table show when the map is the table the user wrote.
\<close>

section \<open>The machine\<close>

definition combine :: "int \<Rightarrow> int \<Rightarrow> u64" where
  "combine state event = word_of_int state OR push_bit 32 (word_of_int event)"

type_synonym ('d, 'w) transition_callback = "int \<Rightarrow> int \<Rightarrow> int \<Rightarrow> 'd \<Rightarrow> int \<times> 'w \<Rightarrow> int \<times> 'w"
type_synonym 'w invalid_callback = "int \<Rightarrow> int \<Rightarrow> int \<times> 'w \<Rightarrow> int \<times> 'w"

record ('d, 'w) transition =
  tr_from :: int
  tr_event :: int
  tr_to :: int
  tr_callback :: "('d, 'w) transition_callback option"

record ('d, 'w) fsm =
  fsm_initial :: int
  fsm_transitions :: "u64 \<Rightarrow> (int \<times> ('d, 'w) transition_callback option) option"
  fsm_on_before :: "('d, 'w) transition_callback option"
  fsm_on_invalid :: "'w invalid_callback option"

text \<open>\<open>emplace\<close> inserts unless the key is present.\<close>

definition emplace :: "'k \<Rightarrow> 'v \<Rightarrow> ('k \<Rightarrow> 'v option) \<Rightarrow> 'k \<Rightarrow> 'v option" where
  "emplace k v m = (case m k of None \<Rightarrow> m(k \<mapsto> v) | Some _ \<Rightarrow> m)"

fun add_transitions ::
  "('d, 'w) transition list \<Rightarrow> (u64 \<Rightarrow> (int \<times> ('d, 'w) transition_callback option) option)
     \<Rightarrow> u64 \<Rightarrow> (int \<times> ('d, 'w) transition_callback option) option" where
  "add_transitions [] m = m"
| "add_transitions (t # ts) m =
     add_transitions ts (emplace (combine (tr_from t) (tr_event t)) (tr_to t, tr_callback t) m)"

text \<open>The constructors; the initial \<open>m_state\<close> is the initial state.\<close>

definition make_fsm ::
  "int \<Rightarrow> ('d, 'w) transition list \<Rightarrow> ('d, 'w) transition_callback option \<Rightarrow> 'w invalid_callback option
     \<Rightarrow> ('d, 'w) fsm \<times> int" where
  "make_fsm initial transitions on_before on_invalid =
     (\<lparr>fsm_initial = initial, fsm_transitions = add_transitions transitions Map.empty,
       fsm_on_before = on_before, fsm_on_invalid = on_invalid\<rparr>, initial)"

definition fsm_reset :: "('d, 'w) fsm \<Rightarrow> int \<times> 'w \<Rightarrow> int \<times> 'w" where
  "fsm_reset m = (\<lambda>(state, w). (fsm_initial m, w))"

definition fsm_apply :: "('d, 'w) fsm \<Rightarrow> int \<Rightarrow> 'd \<Rightarrow> int \<times> 'w \<Rightarrow> bool \<times> int \<times> 'w" where
  "fsm_apply m event data = (\<lambda>sw.
     case fsm_transitions m (combine (fst sw) event) of
       None \<Rightarrow>
         (False, case fsm_on_invalid m of None \<Rightarrow> sw | Some cb \<Rightarrow> cb (fst sw) event sw)
     | Some (to, callback) \<Rightarrow>
         let from = fst sw;
             sw1 = (case fsm_on_before m of None \<Rightarrow> sw | Some cb \<Rightarrow> cb from event to data sw);
             sw2 = (case callback of None \<Rightarrow> sw1 | Some cb \<Rightarrow> cb from event to data sw1)
         in (True, to, snd sw2))"

fun fsm_run :: "('d, 'w) fsm \<Rightarrow> (int \<times> 'd) list \<Rightarrow> int \<times> 'w \<Rightarrow> bool list \<times> int \<times> 'w" where
  "fsm_run m [] sw = ([], sw)"
| "fsm_run m ((e, d) # es) sw =
     (let (ok, sw1) = fsm_apply m e d sw; (oks, sw2) = fsm_run m es sw1 in (ok # oks, sw2))"

section \<open>The table the user wrote\<close>

text \<open>
  The reference machine looks a transition up by its state and its event, the first one of
  the list winning, and runs the same callbacks.
\<close>

definition table_lookup :: "('d, 'w) transition list \<Rightarrow> int \<Rightarrow> int \<Rightarrow> ('d, 'w) transition option" where
  "table_lookup ts s e = find (\<lambda>t. tr_from t = s \<and> tr_event t = e) ts"

definition callback_of :: "('d, 'w) transition_callback option \<Rightarrow> ('d, 'w) transition_callback" where
  "callback_of cb = (case cb of None \<Rightarrow> \<lambda>_ _ _ _ sw. sw | Some f \<Rightarrow> f)"

definition invalid_of :: "'w invalid_callback option \<Rightarrow> 'w invalid_callback" where
  "invalid_of cb = (case cb of None \<Rightarrow> \<lambda>_ _ sw. sw | Some f \<Rightarrow> f)"

definition table_step ::
  "('d, 'w) transition list \<Rightarrow> ('d, 'w) transition_callback \<Rightarrow> 'w invalid_callback \<Rightarrow> int \<Rightarrow> 'd
     \<Rightarrow> int \<times> 'w \<Rightarrow> bool \<times> int \<times> 'w" where
  "table_step ts before invalid e d sw =
     (case table_lookup ts (fst sw) e of
        None \<Rightarrow> (False, invalid (fst sw) e sw)
      | Some t \<Rightarrow>
          (True, tr_to t,
           snd (callback_of (tr_callback t) (fst sw) e (tr_to t) d (before (fst sw) e (tr_to t) d sw))))"

fun table_run ::
  "('d, 'w) transition list \<Rightarrow> ('d, 'w) transition_callback \<Rightarrow> 'w invalid_callback \<Rightarrow> (int \<times> 'd) list
     \<Rightarrow> int \<times> 'w \<Rightarrow> bool list \<times> int \<times> 'w" where
  "table_run ts before invalid [] sw = ([], sw)"
| "table_run ts before invalid ((e, d) # es) sw =
     (let (ok, sw1) = table_step ts before invalid e d sw;
          (oks, sw2) = table_run ts before invalid es sw1 in (ok # oks, sw2))"

text \<open>The enumerators of an unsigned or of a signed underlying type of at most 32 bits.\<close>

definition enumerator :: "bool \<Rightarrow> int \<Rightarrow> bool" where
  "enumerator sgnd v \<longleftrightarrow> (if sgnd then - (2 ^ 31) \<le> v \<and> v < 2 ^ 31 else 0 \<le> v \<and> v < 2 ^ 32)"

definition non_negative_state :: "int \<Rightarrow> bool" where
  "non_negative_state s \<longleftrightarrow> 0 \<le> s \<and> s < 2 ^ 32"

definition table_ok :: "bool \<Rightarrow> ('d, 'w) transition list \<Rightarrow> bool" where
  "table_ok sgnd ts \<longleftrightarrow>
     (\<forall>t \<in> set ts. non_negative_state (tr_from t) \<and> non_negative_state (tr_to t) \<and> enumerator sgnd (tr_event t))"

subsection \<open>Keys\<close>

lemma bit_combine: "bit (combine s e) n \<longleftrightarrow> n < 64 \<and> (bit s n \<or> 32 \<le> n \<and> bit e (n - 32))"
  by (auto simp: combine_def bit_simps)

lemma bit_non_negative_state: "non_negative_state s \<Longrightarrow> 32 \<le> n \<Longrightarrow> \<not> bit s n"
proof -
  assume "non_negative_state s" and n: "32 \<le> n"
  then have "take_bit 32 s = s" by (simp add: non_negative_state_def take_bit_int_eq_self)
  with n show ?thesis by (metis bit_take_bit_iff linorder_not_less)
qed

lemma enumerator_cong:
  assumes "enumerator sgnd a" and "enumerator sgnd b" and "take_bit 32 a = take_bit 32 b"
  shows "a = b"
proof (cases sgnd)
  case True
  have "signed_take_bit 31 a = signed_take_bit 31 b"
    using assms(3) by (simp add: signed_take_bit_eq_iff_take_bit_eq)
  with True assms(1,2) show ?thesis by (simp add: enumerator_def signed_take_bit_int_eq_self)
next
  case False
  with assms show ?thesis by (simp add: enumerator_def take_bit_int_eq_self)
qed

lemma combine_eq_iff:
  assumes s: "non_negative_state s" "non_negative_state s'"
    and e: "enumerator sgnd e" "enumerator sgnd e'"
  shows "combine s e = combine s' e' \<longleftrightarrow> s = s' \<and> e = e'"
proof
  assume eq: "combine s e = combine s' e'"
  have "bit s n = bit s' n" for n
  proof (cases "n < 32")
    case True
    then have "bit (combine s e) n = bit s n" "bit (combine s' e') n = bit s' n" by (auto simp: bit_combine)
    with eq show ?thesis by simp
  next
    case False
    with s bit_non_negative_state show ?thesis by auto
  qed
  moreover have "bit (take_bit 32 e) n = bit (take_bit 32 e') n" for n
  proof (cases "n < 32")
    case True
    then have "bit (combine s e) (n + 32) = bit e n" "bit (combine s' e') (n + 32) = bit e' n"
      using s bit_non_negative_state by (auto simp: bit_combine)
    with eq True show ?thesis by (simp add: bit_take_bit_iff)
  next
    case False
    then show ?thesis by (simp add: bit_take_bit_iff)
  qed
  ultimately show "s = s' \<and> e = e'" using enumerator_cong [OF e] by (simp add: bit_eq_iff)
qed simp

lemma combine_negative:
  assumes "- (2 ^ 31) \<le> s" and "s < 0"
  shows "combine s e = combine s e'"
proof (rule bit_word_eqI)
  fix n assume "n < LENGTH(64)"
  have "bit s n" if "32 \<le> n"
  proof -
    have s: "signed_take_bit 31 s = s" using assms by (simp add: signed_take_bit_int_eq_self)
    have "bit s 31"
      using s assms(2) by (metis bit_signed_take_bit_iff min.idem signed_take_bit_negative_iff)
    with that show ?thesis by (subst s [symmetric]) (simp add: bit_signed_take_bit_iff min_def)
  qed
  then show "bit (combine s e) n = bit (combine s e') n" by (auto simp: bit_combine)
qed

subsection \<open>The map of a table\<close>

lemma emplace_apply: "emplace k v m k' = (case m k' of Some x \<Rightarrow> Some x | None \<Rightarrow> if k' = k then Some v else None)"
  by (auto simp: emplace_def split: option.splits)

lemma add_transitions_apply:
  "add_transitions ts m k =
     (case m k of Some x \<Rightarrow> Some x
      | None \<Rightarrow> map_option (\<lambda>t. (tr_to t, tr_callback t)) (find (\<lambda>t. combine (tr_from t) (tr_event t) = k) ts))"
  by (induction ts arbitrary: m) (auto simp: emplace_apply split: option.splits)

lemma find_cong_on: "(\<And>x. x \<in> set xs \<Longrightarrow> P x = Q x) \<Longrightarrow> find P xs = find Q xs"
  by (induction xs) auto

lemma table_lookup_in: "table_lookup ts s e = Some t \<Longrightarrow> t \<in> set ts"
  by (auto simp: table_lookup_def find_Some_iff)

lemma transitions_are_table:
  assumes "table_ok sgnd ts" and "non_negative_state s" and "enumerator sgnd e"
  shows "add_transitions ts Map.empty (combine s e) =
    map_option (\<lambda>t. (tr_to t, tr_callback t)) (table_lookup ts s e)"
proof -
  have "find (\<lambda>t. combine (tr_from t) (tr_event t) = combine s e) ts = table_lookup ts s e"
    unfolding table_lookup_def
    using assms by (intro find_cong_on) (auto simp: table_ok_def combine_eq_iff)
  then show ?thesis by (simp add: add_transitions_apply)
qed

lemma fsm_apply_is_table_step:
  assumes "table_ok sgnd ts" and "non_negative_state (fst sw)" and "enumerator sgnd e"
  shows "fsm_apply (fst (make_fsm s0 ts before invalid)) e d sw = table_step ts (callback_of before) (invalid_of invalid) e d sw"
  using assms
  by (simp add: fsm_apply_def make_fsm_def table_step_def transitions_are_table Let_def
      callback_of_def invalid_of_def split: option.splits)

lemma table_step_state:
  assumes "table_ok sgnd ts" and "non_negative_state (fst sw)"
    and "\<And>s e sw. fst (invalid s e sw) = fst sw"
  shows "non_negative_state (fst (snd (table_step ts before invalid e d sw)))"
  using assms table_lookup_in [of ts "fst sw" e]
  by (auto simp: table_step_def table_ok_def split: option.splits)

section \<open>Properties\<close>

text \<open>
  C34.  A machine whose states are not negative runs the table it was given: on every sequence of
  events each \<open>apply\<close> takes the first transition listed for its state and event, and its result,
  the callbacks it runs and their order are those of the table; whatever a callback does to the
  machine during a transition, the state afterwards is the target.  An invalid event runs only
  the callback for it, which is assumed not to change the state.
\<close>

theorem fsm_runs_its_table:
  assumes "table_ok sgnd ts" and "non_negative_state s0" and "\<forall>(e, d) \<in> set es. enumerator sgnd e"
    and "\<And>s e sw. fst (invalid_of invalid s e sw) = fst sw"
  shows "fsm_run (fst (make_fsm s0 ts before invalid)) es (snd (make_fsm s0 ts before invalid), w)
    = table_run ts (callback_of before) (invalid_of invalid) es (s0, w)"
proof -
  have "fsm_run (fst (make_fsm s0 ts before invalid)) es sw = table_run ts (callback_of before) (invalid_of invalid) es sw"
    if "non_negative_state (fst sw)" for sw
    using assms(3) that
  proof (induction es arbitrary: sw)
    case (Cons p es)
    obtain e d where p: "p = (e, d)" by fastforce
    have st: "fsm_apply (fst (make_fsm s0 ts before invalid)) e d sw = table_step ts (callback_of before) (invalid_of invalid) e d sw"
      using Cons.prems p by (intro fsm_apply_is_table_step [OF assms(1)]) auto
    have "non_negative_state (fst (snd (table_step ts (callback_of before) (invalid_of invalid) e d sw)))"
      by (rule table_step_state [OF assms(1) Cons.prems(2) assms(4)])
    with Cons p st show ?case by (auto simp: case_prod_beta)
  qed simp
  with assms(2) show ?thesis by (simp add: make_fsm_def)
qed

definition door :: "(unit, string list) transition list" where
  "door = [\<lparr>tr_from = 0, tr_event = 7, tr_to = 1, tr_callback = Some (\<lambda>f e t d (s, w). (5, w @ [''open'']))\<rparr>,
           \<lparr>tr_from = 1, tr_event = - 2, tr_to = 0, tr_callback = None\<rparr>,
           \<lparr>tr_from = 0, tr_event = 7, tr_to = 2, tr_callback = None\<rparr>]"

theorem fsm_runs_its_table_witness:
  "fsm_run (fst (make_fsm 0 door (Some (\<lambda>f e t d (s, w). (s, w @ [''before'']))) (Some (\<lambda>s e (t, w). (t, w @ [''invalid''])))))
     [(7, ()), (7, ()), (- 2, ())] (0, [])
   = ([True, False, True], 0, [''before'', ''open'', ''invalid'', ''before''])"
proof -
  let ?b = "\<lambda>f e t d (s, w). (s, w @ [''before''])" and ?i = "\<lambda>s e (t, w). (t, w @ [''invalid''])"
  have "fsm_run (fst (make_fsm 0 door (Some ?b) (Some ?i))) [(7, ()), (7, ()), (- 2, ())]
      (snd (make_fsm 0 door (Some ?b) (Some ?i)), []) = table_run door (callback_of (Some ?b)) (invalid_of (Some ?i)) [(7, ()), (7, ()), (- 2, ())] (0, [])"
    by (rule fsm_runs_its_table [of True]) (auto simp: door_def table_ok_def enumerator_def non_negative_state_def invalid_of_def)
  then show ?thesis by (simp add: make_fsm_def door_def table_step_def table_lookup_def callback_of_def invalid_of_def)
qed

text \<open>
  A machine in a negative state cannot tell events apart: the sign extension of the state sets
  all the bits of the key that the event would, so that every event is valid there as soon as one
  is, and takes the first transition of that state.
\<close>

theorem negative_state_ignores_event:
  assumes "- (2 ^ 31) \<le> s" and "s < 0" and "t0 \<in> set ts" and "tr_from t0 = s"
  shows "\<exists>t \<in> set ts. \<forall>e d w. \<exists>w'. fsm_apply (fst (make_fsm s0 ts before invalid)) e d (s, w) = (True, tr_to t, w')"
proof -
  have "combine (tr_from t0) (tr_event t0) = combine s 0" using assms combine_negative by blast
  with assms(3) have "find (\<lambda>t. combine (tr_from t) (tr_event t) = combine s 0) ts \<noteq> None"
    by (auto simp: find_None_iff)
  then obtain t where f: "find (\<lambda>t. combine (tr_from t) (tr_event t) = combine s 0) ts = Some t" by blast
  have "add_transitions ts Map.empty (combine s e) = Some (tr_to t, tr_callback t)" for e
    using f combine_negative [OF assms(1,2), of e 0] by (simp add: add_transitions_apply)
  moreover have "t \<in> set ts" using f by (auto simp: find_Some_iff)
  ultimately show ?thesis by (intro bexI [of _ t]) (simp_all add: fsm_apply_def make_fsm_def Let_def)
qed

definition lamp :: "(nat, nat) transition list" where
  "lamp = [\<lparr>tr_from = - 1, tr_event = 4, tr_to = 3, tr_callback = None\<rparr>]"

theorem negative_state_ignores_event_witness:
  "\<exists>t \<in> set lamp. \<exists>w'. fsm_apply (fst (make_fsm 0 lamp None None)) 9 0 (- 1, 0) = (True, tr_to t, w')"
proof -
  have m: "hd lamp \<in> set lamp" "tr_from (hd lamp) = - 1" by (simp_all add: lamp_def)
  have "- (2 ^ 31) \<le> (- 1 :: int)" "(- 1 :: int) < 0" by simp_all
  from negative_state_ignores_event [OF this m, of 0 None None] show ?thesis by blast
qed

end
