(* ===== verification/Math.thy ===== *)
theory Math
  imports Prelude "HOL-Library.Signed_Division" Complex_Main
begin

text \<open>
  The integer part of \<open>include/hlib/math.hpp\<close>: \<open>clamp\<close>, \<open>Range\<close>, the comparisons of \<open>Fraction\<close> and
  the quantities \<open>RatioValue\<close> with their conversions.

  A \<open>RatioValue<R, T>\<close> is the integer it holds; its ratio \<open>R\<close> is a type argument in the code and an
  argument of the conversions here.  Integer division is the truncating \<open>sdiv\<close>, and the 64-bit
  products of a conversion are checked: outside the type they are a \<open>Signed_Overflow\<close>.  The
  floating-point functions are in \<open>Math_Double\<close>.
\<close>

section \<open>Clamping and ranges\<close>

definition clamp :: "'a::linorder \<Rightarrow> 'a \<Rightarrow> 'a \<Rightarrow> 'a" where
  "clamp val mn mx = max (min val mx) mn"

definition make_range :: "'a::linorder \<Rightarrow> 'a \<Rightarrow> ('a \<times> 'a) res" where
  "make_range a_min a_max = (if \<not> a_min \<le> a_max then Fault Assert_Failed else Ret (a_min, a_max))"

section \<open>Fractions\<close>

record fraction =
  fr_n :: int
  fr_d :: int

text \<open>The default is \<open>0 / 0\<close>.\<close>

definition fraction_default :: fraction where
  "fraction_default = \<lparr>fr_n = 0, fr_d = 0\<rparr>"

definition fraction_make :: "int \<Rightarrow> int \<Rightarrow> fraction" where
  "fraction_make numerator denominator = \<lparr>fr_n = numerator, fr_d = denominator\<rparr>"

definition fraction_not :: "fraction \<Rightarrow> bool" where
  "fraction_not f \<longleftrightarrow> 0 = fr_n f"

definition fraction_eq :: "fraction \<Rightarrow> fraction \<Rightarrow> bool" where
  "fraction_eq f g \<longleftrightarrow> fr_n f * fr_d g = fr_n g * fr_d f"

definition fraction_ne :: "fraction \<Rightarrow> fraction \<Rightarrow> bool" where
  "fraction_ne f g \<longleftrightarrow> fr_n f * fr_d g \<noteq> fr_n g * fr_d f"

definition fraction_lt :: "fraction \<Rightarrow> fraction \<Rightarrow> bool" where
  "fraction_lt f g \<longleftrightarrow> fr_n f * fr_d g < fr_n g * fr_d f"

definition fraction_le :: "fraction \<Rightarrow> fraction \<Rightarrow> bool" where
  "fraction_le f g \<longleftrightarrow> fr_n f * fr_d g \<le> fr_n g * fr_d f"

definition fraction_gt :: "fraction \<Rightarrow> fraction \<Rightarrow> bool" where
  "fraction_gt f g \<longleftrightarrow> fr_n f * fr_d g > fr_n g * fr_d f"

definition fraction_ge :: "fraction \<Rightarrow> fraction \<Rightarrow> bool" where
  "fraction_ge f g \<longleftrightarrow> fr_n f * fr_d g \<ge> fr_n g * fr_d f"

section \<open>Quantities with a ratio\<close>

text \<open>\<open>std::ratio<Num, Den>\<close>, in lowest terms with a positive denominator, and \<open>std::ratio_divide\<close>.\<close>

record ratio =
  num :: int
  den :: int

definition ratio_wf :: "ratio \<Rightarrow> bool" where
  "ratio_wf r \<longleftrightarrow> 0 < num r \<and> 0 < den r \<and> coprime (num r) (den r)"

definition ratio_divide :: "ratio \<Rightarrow> ratio \<Rightarrow> ratio" where
  "ratio_divide r s =
     (let n = num r * den s; d = den r * num s; g = gcd n d in \<lparr>num = n div g, den = d div g\<rparr>)"

definition i64 :: "int \<Rightarrow> int res" where
  "i64 x = (if - (2 ^ 63) \<le> x \<and> x < 2 ^ 63 then Ret x else Fault Signed_Overflow)"

definition rv_default :: int where
  "rv_default = 0"

text \<open>The number that a quantity holds, and the assignment through the reference to it.\<close>

definition rv_get :: "int \<Rightarrow> int" where
  "rv_get v = v"

definition rv_put :: "int \<Rightarrow> int \<Rightarrow> int" where
  "rv_put v x = x"

definition rv_not :: "int \<Rightarrow> bool" where
  "rv_not v \<longleftrightarrow> 0 \<noteq> v"

definition rv_eq :: "int \<Rightarrow> int \<Rightarrow> bool" where "rv_eq v w \<longleftrightarrow> w = v"
definition rv_ne :: "int \<Rightarrow> int \<Rightarrow> bool" where "rv_ne v w \<longleftrightarrow> w \<noteq> v"
definition rv_lt :: "int \<Rightarrow> int \<Rightarrow> bool" where "rv_lt v w \<longleftrightarrow> v < w"
definition rv_le :: "int \<Rightarrow> int \<Rightarrow> bool" where "rv_le v w \<longleftrightarrow> v \<le> w"
definition rv_gt :: "int \<Rightarrow> int \<Rightarrow> bool" where "rv_gt v w \<longleftrightarrow> v \<ge> w"
definition rv_ge :: "int \<Rightarrow> int \<Rightarrow> bool" where "rv_ge v w \<longleftrightarrow> v \<ge> w"

definition rv_add :: "int \<Rightarrow> int \<Rightarrow> int res" where "rv_add v w = i64 (v + w)"
definition rv_sub :: "int \<Rightarrow> int \<Rightarrow> int res" where "rv_sub v w = i64 (v - w)"

text \<open>A zero divisor is undefined for two quantities and fails an assertion for a number.\<close>

definition rv_div :: "int \<Rightarrow> int \<Rightarrow> int res" where
  "rv_div v w = (if w = 0 then Fault Signed_Overflow else i64 (v sdiv w))"

definition rv_mod :: "int \<Rightarrow> int \<Rightarrow> int res" where
  "rv_mod v w = (if w = 0 then Fault Signed_Overflow else map_res (\<lambda>_. v smod w) (i64 (v sdiv w)))"

definition rv_scale :: "int \<Rightarrow> int \<Rightarrow> int res" where "rv_scale v k = i64 (v * k)"

definition rv_unscale :: "int \<Rightarrow> int \<Rightarrow> int res" where
  "rv_unscale v k = (if \<not> 0 \<noteq> k then Fault Assert_Failed else i64 (v sdiv k))"

definition rv_scale_fraction :: "int \<Rightarrow> fraction \<Rightarrow> int res" where
  "rv_scale_fraction v f =
     (if \<not> 0 \<noteq> fr_d f then Fault Assert_Failed
      else case i64 (v * fr_n f) of Ret x \<Rightarrow> i64 (x sdiv fr_d f) | Throw e \<Rightarrow> Throw e | Fault g \<Rightarrow> Fault g)"

definition rv_unscale_fraction :: "int \<Rightarrow> fraction \<Rightarrow> int res" where
  "rv_unscale_fraction v f =
     (if \<not> 0 \<noteq> fr_n f then Fault Assert_Failed
      else case i64 (v * fr_d f) of Ret x \<Rightarrow> i64 (x sdiv fr_n f) | Throw e \<Rightarrow> Throw e | Fault g \<Rightarrow> Fault g)"

definition rv_to :: "ratio \<Rightarrow> ratio \<Rightarrow> int \<Rightarrow> int res" where
  "rv_to r s v =
     (let factor = ratio_divide r s
      in case i64 (v * num factor) of
           Ret x \<Rightarrow> i64 (x sdiv den factor) | Throw e \<Rightarrow> Throw e | Fault g \<Rightarrow> Fault g)"

text \<open>A conversion named by the quantity it gives, and the conversion operator.\<close>

definition rv_to_quantity :: "ratio \<Rightarrow> ratio \<Rightarrow> int \<Rightarrow> int res" where
  "rv_to_quantity r s v = rv_to r s v"

definition rv_convert :: "ratio \<Rightarrow> ratio \<Rightarrow> int \<Rightarrow> int res" where
  "rv_convert r s v = rv_to r s v"

text \<open>
  Signs, steps and assignments.  A step gives the quantity as it was and the one it has become; an
  assignment gives the one it has become.  The prefix steps and the assignments with a fraction
  are not definitions of the program: a use of them does not compile.
\<close>

definition rv_plus :: "int \<Rightarrow> int res" where "rv_plus v = Ret v"
definition rv_neg :: "int \<Rightarrow> int res" where "rv_neg v = i64 (- v)"

definition rv_post_inc :: "int \<Rightarrow> (int \<times> int) res" where "rv_post_inc v = map_res (Pair v) (i64 (v + 1))"
definition rv_post_dec :: "int \<Rightarrow> (int \<times> int) res" where "rv_post_dec v = map_res (Pair v) (i64 (v - 1))"

definition rv_add_assign :: "int \<Rightarrow> int \<Rightarrow> int res" where "rv_add_assign v w = i64 (v + w)"
definition rv_sub_assign :: "int \<Rightarrow> int \<Rightarrow> int res" where "rv_sub_assign v w = i64 (v - w)"

definition rv_mod_assign :: "int \<Rightarrow> int \<Rightarrow> int res" where
  "rv_mod_assign v w = (if w = 0 then Fault Signed_Overflow else map_res (\<lambda>_. v smod w) (i64 (v sdiv w)))"

definition rv_scale_assign :: "int \<Rightarrow> int \<Rightarrow> int res" where "rv_scale_assign v k = rv_scale v k"
definition rv_unscale_assign :: "int \<Rightarrow> int \<Rightarrow> int res" where "rv_unscale_assign v k = rv_unscale v k"

text \<open>The conversion of a \<open>double\<close> to an integer type drops the fraction.\<close>

definition trunc :: "rat \<Rightarrow> int" where
  "trunc x = (if x < 0 then - \<lfloor>- x\<rfloor> else \<lfloor>x\<rfloor>)"

section \<open>Facts\<close>

lemma i64_Ret_iff: "i64 x = Ret y \<longleftrightarrow> y = x \<and> - (2 ^ 63) \<le> x \<and> x < 2 ^ 63"
  by (auto simp: i64_def)

lemma div_gcd_cross: "g dvd n \<Longrightarrow> g dvd d \<Longrightarrow> n div g * d = d div g * (n :: int)"
  by (metis dvd_div_mult mult.commute)

lemma ratio_divide_wf:
  assumes "ratio_wf r" and "ratio_wf s"
  shows "ratio_wf (ratio_divide r s)"
    and "num (ratio_divide r s) * (den r * num s) = den (ratio_divide r s) * (num r * den s)"
proof -
  let ?n = "num r * den s" and ?d = "den r * num s"
  have pos: "0 < ?n" "0 < ?d" using assms by (simp_all add: ratio_wf_def)
  then have g: "0 < gcd ?n ?d" by (metis gcd_pos_int less_irrefl)
  show "ratio_wf (ratio_divide r s)"
    using pos g div_gcd_coprime [of ?n ?d]
    by (simp add: ratio_wf_def ratio_divide_def Let_def pos_imp_zdiv_pos_iff zdvd_imp_le)
  show "num (ratio_divide r s) * (den r * num s) = den (ratio_divide r s) * (num r * den s)"
    unfolding ratio_divide_def Let_def ratio.select_convs by (rule div_gcd_cross) simp_all
qed

lemma ratio_divide_swap: "num (ratio_divide s r) = den (ratio_divide r s) \<and> den (ratio_divide s r) = num (ratio_divide r s)"
  by (simp add: ratio_divide_def Let_def gcd.commute mult.commute)

lemma abs_sdiv: "0 < d \<Longrightarrow> \<bar>a sdiv d\<bar> = \<bar>a\<bar> div (d :: int)"
  by (auto simp: signed_divide_int_def abs_mult sgn_if pos_imp_zdiv_nonneg_iff)

lemma rv_to_Ret:
  assumes "ratio_wf r" and "ratio_wf s" and "rv_to r s v = Ret w"
  shows "w = v * num (ratio_divide r s) sdiv den (ratio_divide r s)"
  using assms(3) by (auto simp: rv_to_def Let_def i64_def split: if_splits)

section \<open>Properties\<close>

text \<open>
  On fractions with positive denominators the comparisons by cross multiplication are the order
  of the rational numbers; and with one negative denominator \<open>operator <\<close> is the reverse.
\<close>

theorem fraction_order:
  assumes "0 < fr_d f" and "0 < fr_d g"
  shows "fraction_lt f g = (Fract (fr_n f) (fr_d f) < Fract (fr_n g) (fr_d g))
    \<and> fraction_le f g = (Fract (fr_n f) (fr_d f) \<le> Fract (fr_n g) (fr_d g))
    \<and> fraction_eq f g = (Fract (fr_n f) (fr_d f) = Fract (fr_n g) (fr_d g))
    \<and> fraction_gt f g = fraction_lt g f \<and> fraction_ge f g = fraction_le g f \<and> fraction_ne f g = (\<not> fraction_eq f g)
    \<and> fraction_lt (f\<lparr>fr_n := - fr_n f, fr_d := - fr_d f\<rparr>) g
        = (Fract (fr_n f) (fr_d f) > Fract (fr_n g) (fr_d g))"
  using assms
  by (auto simp: fraction_lt_def fraction_le_def fraction_eq_def fraction_gt_def fraction_ge_def fraction_ne_def
      eq_rat mult.commute zero_less_mult_iff)

theorem fraction_order_witness:
  "fraction_lt \<lparr>fr_n = 1, fr_d = 2\<rparr> \<lparr>fr_n = 2, fr_d = 3\<rparr> = (Fract 1 2 < Fract 2 3)"
  using fraction_order [of "\<lparr>fr_n = 1, fr_d = 2\<rparr>" "\<lparr>fr_n = 2, fr_d = 3\<rparr>"] by simp

text \<open>
  The default fraction compares equal to every fraction, so that equality is not transitive.
\<close>

theorem default_fraction_equals_all:
  "fraction_eq fraction_default f \<and> fraction_eq f fraction_default
   \<and> (\<exists>f g. fraction_eq f fraction_default \<and> fraction_eq fraction_default g \<and> \<not> fraction_eq f g)"
  by (intro conjI exI [of _ "fraction_make 1 1"] exI [of _ "fraction_make 2 1"])
    (simp_all add: fraction_eq_def fraction_default_def fraction_make_def)

text \<open>
  Quotient and remainder give the quantity back, the remainder below the divisor in magnitude and
  with the sign of the quantity; the one division that overflows is that of the least number by \<open>-1\<close>.
\<close>

theorem quantity_division:
  assumes "- (2 ^ 63) \<le> v" and "v < 2 ^ 63" and "w \<noteq> 0"
  shows "(v = - (2 ^ 63) \<and> w = - 1 \<and> rv_div v w = Fault Signed_Overflow)
    \<or> (\<exists>q m. rv_div v w = Ret q \<and> rv_mod v w = Ret m \<and> v = q * w + m \<and> \<bar>m\<bar> < \<bar>w\<bar> \<and> 0 \<le> v * m)"
proof -
  have q: "\<bar>v sdiv w\<bar> = \<bar>v\<bar> div \<bar>w\<bar>"
    using assms(3) by (cases "v = 0") (simp_all add: signed_divide_int_def abs_mult abs_sgn_eq pos_imp_zdiv_nonneg_iff)
  have small: "\<bar>v sdiv w\<bar> \<le> \<bar>v\<bar>" and half: "1 < \<bar>w\<bar> \<Longrightarrow> v \<noteq> 0 \<Longrightarrow> \<bar>v sdiv w\<bar> < \<bar>v\<bar>"
    using assms(3) int_div_less_self [of "\<bar>v\<bar>" "\<bar>w\<bar>"] unfolding q
    by (cases "\<bar>w\<bar> = 1"; cases "v = 0"; force)+
  show ?thesis
  proof (cases "v sdiv w < 2 ^ 63")
    case True
    have "- (2 ^ 63) \<le> v sdiv w" using small assms(1,2) by linarith
    with True have "rv_div v w = Ret (v sdiv w)" "rv_mod v w = Ret (v smod w)"
      using assms(3) by (simp_all add: rv_div_def rv_mod_def i64_def)
    moreover have "v = v sdiv w * w + v smod w" by (simp only: sdiv_mult_smod_eq)
    moreover have "\<bar>v smod w\<bar> < \<bar>w\<bar>" "0 \<le> v * (v smod w)"
      using assms(3) by (simp_all add: signed_modulo_int_def abs_mult sgn_if zero_le_mult_iff)
    ultimately show ?thesis by blast
  next
    case False
    with small half assms have "v = - (2 ^ 63)" "\<not> 1 < \<bar>w\<bar>" by linarith+
    moreover have "w \<noteq> 1" using False assms(2) by auto
    ultimately have "v = - (2 ^ 63) \<and> w = - 1" using assms(3) by linarith
    then show ?thesis by (simp add: rv_div_def i64_def)
  qed
qed

theorem quantity_division_witness: "rv_div (- 7) 2 = Ret (- 3) \<and> rv_mod (- 7) 2 = Ret (- 1)"
proof -
  have "rv_div (- 7) 2 = Ret (- 3)" "rv_mod (- 7) 2 = Ret (- 1)" by code_simp+
  then show ?thesis using quantity_division [of "- 7" 2] by simp
qed

text \<open>
  C38.  Converting a quantity truncates towards zero: the result is within one unit of the exact
  value and never larger in magnitude; and converting to a unit of which the old unit is a multiple
  is exact, so that converting back gives the quantity.
\<close>

theorem ratio_conversion:
  assumes "ratio_wf r" and "ratio_wf s" and "rv_to r s v = Ret w"
  shows "\<bar>w\<bar> * (den r * num s) \<le> \<bar>v\<bar> * (num r * den s)
    \<and> \<bar>v\<bar> * (num r * den s) < (\<bar>w\<bar> + 1) * (den r * num s)
    \<and> (den (ratio_divide r s) = 1 \<longrightarrow> rv_to s r w = Ret v)"
proof -
  let ?f = "ratio_divide r s"
  have wf: "0 < num ?f" "0 < den ?f" using ratio_divide_wf(1) [OF assms(1,2)] by (simp_all add: ratio_wf_def)
  have pos: "0 < num r * den s" "0 < den r * num s" using assms(1,2) by (simp_all add: ratio_wf_def)
  have w: "\<bar>w\<bar> = \<bar>v\<bar> * num ?f div den ?f"
    using rv_to_Ret [OF assms] abs_sdiv [OF wf(2)] wf(1) by (simp add: abs_mult)
  have q: "\<bar>w\<bar> * den ?f \<le> \<bar>v\<bar> * num ?f" "\<bar>v\<bar> * num ?f < (\<bar>w\<bar> + 1) * den ?f"
  proof -
    have "\<bar>v\<bar> * num ?f = \<bar>w\<bar> * den ?f + \<bar>v\<bar> * num ?f mod den ?f" using w by simp
    moreover have "0 \<le> \<bar>v\<bar> * num ?f mod den ?f" "\<bar>v\<bar> * num ?f mod den ?f < den ?f"
      using wf(2) by simp_all
    ultimately show "\<bar>w\<bar> * den ?f \<le> \<bar>v\<bar> * num ?f" "\<bar>v\<bar> * num ?f < (\<bar>w\<bar> + 1) * den ?f"
      by (simp_all add: distrib_right)
  qed
  note eq = ratio_divide_wf(2) [OF assms(1,2)]
  have E: "(\<bar>v\<bar> * num ?f) * (den r * num s) = (\<bar>v\<bar> * (num r * den s)) * den ?f"
  proof -
    have "(\<bar>v\<bar> * num ?f) * (den r * num s) = \<bar>v\<bar> * (den ?f * (num r * den s))"
      by (simp only: mult.assoc eq)
    then show ?thesis by (simp only: ac_simps)
  qed
  have s1: "(\<bar>w\<bar> * (den r * num s)) * den ?f \<le> (\<bar>v\<bar> * (num r * den s)) * den ?f"
  proof -
    have "(\<bar>w\<bar> * den ?f) * (den r * num s) \<le> (\<bar>v\<bar> * num ?f) * (den r * num s)"
      using q(1) pos(2) by (intro mult_right_mono) simp_all
    then show ?thesis unfolding E by (simp only: ac_simps)
  qed
  have s2: "(\<bar>v\<bar> * (num r * den s)) * den ?f < ((\<bar>w\<bar> + 1) * (den r * num s)) * den ?f"
  proof -
    have "(\<bar>v\<bar> * num ?f) * (den r * num s) < ((\<bar>w\<bar> + 1) * den ?f) * (den r * num s)"
      using q(2) pos(2) by (intro mult_strict_right_mono) simp_all
    then show ?thesis unfolding E by (simp only: ac_simps)
  qed
  have 3: "rv_to s r w = Ret v" if d: "den ?f = 1"
  proof -
    have x: "w = v * num ?f" "- (2 ^ 63) \<le> w" "w < 2 ^ 63"
      using assms(3) d by (auto simp: rv_to_def Let_def i64_def split: if_splits)
    have abs: "\<bar>v\<bar> \<le> \<bar>w\<bar>"
    proof -
      have "\<bar>v\<bar> * 1 \<le> \<bar>v\<bar> * num ?f" using wf(1) by (intro mult_left_mono) simp_all
      then show ?thesis using x(1) wf(1) by (simp add: abs_mult)
    qed
    have neg: "- (v * num ?f) div num ?f = - v"
      using nonzero_mult_div_cancel_right [of "num ?f" "- v"] wf(1) by simp
    have "w sdiv num ?f = v"
      using x(1) wf(1) neg by (cases v "0 :: int" rule: linorder_cases) (simp_all add: signed_divide_int_def abs_mult sgn_mult)
    moreover have "- (2 ^ 63) \<le> v" "v < 2 ^ 63"
    proof -
      have "0 \<le> v \<longleftrightarrow> 0 \<le> w" using x(1) wf(1) by (simp add: zero_le_mult_iff)
      with abs x(2,3) show "- (2 ^ 63) \<le> v" "v < 2 ^ 63" by auto
    qed
    ultimately show ?thesis
      using d x ratio_divide_swap [of s r] by (simp add: rv_to_def Let_def i64_def)
  qed
  from s1 s2 wf(2) 3 show ?thesis by (simp add: mult_le_cancel_right mult_less_cancel_right)
qed

theorem ratio_conversion_witness:
  "rv_to \<lparr>num = 1, den = 1000\<rparr> \<lparr>num = 1, den = 1\<rparr> (- 1999) = Ret (- 1)
   \<and> \<bar>- 1\<bar> * (1000 * 1) \<le> \<bar>- 1999 :: int\<bar> * (1 * 1)"
proof -
  have "rv_to \<lparr>num = 1, den = 1000\<rparr> \<lparr>num = 1, den = 1\<rparr> (- 1999) = Ret (- 1)" by code_simp
  with ratio_conversion [OF _ _ this] show ?thesis by (simp add: ratio_wf_def)
qed

text \<open>\<open>clamp\<close> returns a value of the range, the value itself when it is in the range, and is idempotent.\<close>

theorem clamp_in_range:
  assumes "mn \<le> mx"
  shows "mn \<le> clamp val mn mx \<and> clamp val mn mx \<le> mx \<and> (clamp val mn mx = val) = (mn \<le> val \<and> val \<le> mx)
    \<and> clamp (clamp val mn mx) mn mx = clamp val mn mx"
  using assms by (auto simp: clamp_def max_def min_def)

theorem clamp_in_range_witness: "clamp (7 :: int) 0 5 \<le> 5 \<and> 0 \<le> clamp (7 :: int) 0 5"
  using clamp_in_range [of "0 :: int" 5 7] by simp

end
