(* ===== verification/Math_Double.thy ===== *)
theory Math_Double
  imports Math
begin

text \<open>
  The floating-point part of \<open>include/hlib/math.hpp\<close> and \<open>src/hlib_math.cpp\<close>: the comparisons with
  a relative error, the conversions of \<open>Fraction\<close> and \<open>RatioValue\<close> to and from \<open>double\<close>, and
  \<open>to_fraction\<close>.

  A finite \<open>double\<close> is a rational number, and an operation on two of them is the exact operation
  followed by a rounding \<open>rnd\<close>, a parameter.  A quotient by zero is no number: it is the value \<open>None\<close>
  where it is returned, an infinity where \<open>to_fraction\<close> goes on with it, and undefined where it is
  converted to an integer.  The loop of \<open>to_fraction\<close> has no bound, so it is a partial function: its
  value is \<open>None\<close> when it never returns.
\<close>

section \<open>Comparisons with a relative error\<close>

definition approximately_equal :: "(rat \<Rightarrow> rat) \<Rightarrow> rat \<Rightarrow> rat \<Rightarrow> rat \<Rightarrow> bool" where
  "approximately_equal rnd a b epsilon \<longleftrightarrow>
     \<bar>rnd (a - b)\<bar> \<le> rnd ((if \<bar>a\<bar> < \<bar>b\<bar> then \<bar>b\<bar> else \<bar>a\<bar>) * epsilon)"

definition essentially_equal :: "(rat \<Rightarrow> rat) \<Rightarrow> rat \<Rightarrow> rat \<Rightarrow> rat \<Rightarrow> bool" where
  "essentially_equal rnd a b epsilon \<longleftrightarrow>
     \<bar>rnd (a - b)\<bar> \<le> rnd ((if \<bar>a\<bar> > \<bar>b\<bar> then \<bar>b\<bar> else \<bar>a\<bar>) * epsilon)"

definition definitely_greate_than :: "(rat \<Rightarrow> rat) \<Rightarrow> rat \<Rightarrow> rat \<Rightarrow> rat \<Rightarrow> bool" where
  "definitely_greate_than rnd a b epsilon \<longleftrightarrow>
     rnd (a - b) > rnd ((if \<bar>a\<bar> < \<bar>b\<bar> then \<bar>b\<bar> else \<bar>a\<bar>) * epsilon)"

definition definitely_less_than :: "(rat \<Rightarrow> rat) \<Rightarrow> rat \<Rightarrow> rat \<Rightarrow> rat \<Rightarrow> bool" where
  "definitely_less_than rnd a b epsilon \<longleftrightarrow>
     rnd (b - a) > rnd ((if \<bar>a\<bar> < \<bar>b\<bar> then \<bar>b\<bar> else \<bar>a\<bar>) * epsilon)"

section \<open>Conversions\<close>

definition fraction_to_double :: "(rat \<Rightarrow> rat) \<Rightarrow> fraction \<Rightarrow> rat option" where
  "fraction_to_double rnd f =
     (if rnd (of_int (fr_d f)) = 0 then None else Some (rnd (rnd (of_int (fr_n f)) / rnd (of_int (fr_d f)))))"

text \<open>\<open>std::round\<close> rounds half away from zero; the conversion to an integer type has to fit it.\<close>

definition round_away :: "rat \<Rightarrow> int" where
  "round_away x = (if x < 0 then - \<lfloor>- x + 1 / 2\<rfloor> else \<lfloor>x + 1 / 2\<rfloor>)"

definition double_to_i64 :: "rat \<Rightarrow> int res" where
  "double_to_i64 x = i64 (trunc x)"

definition fraction_to_int :: "(rat \<Rightarrow> rat) \<Rightarrow> fraction \<Rightarrow> int res" where
  "fraction_to_int rnd f =
     (case fraction_to_double rnd f of
        None \<Rightarrow> Fault Signed_Overflow
      | Some x \<Rightarrow> double_to_i64 (of_int (round_away x)))"

definition rv_from_double :: "(rat \<Rightarrow> rat) \<Rightarrow> ratio \<Rightarrow> rat \<Rightarrow> int res" where
  "rv_from_double rnd r x = double_to_i64 (rnd (rnd (x * rnd (of_int (den r))) / rnd (of_int (num r))))"

definition rv_to_double :: "(rat \<Rightarrow> rat) \<Rightarrow> ratio \<Rightarrow> int \<Rightarrow> rat" where
  "rv_to_double rnd r v = rnd (rnd (rnd (of_int v) * rnd (of_int (num r))) / rnd (of_int (den r)))"

section \<open>Approximating a double by a fraction\<close>

text \<open>
  The variables of the loop are \<open>(a, h1, h2, k1, k2)\<close>.  One turn either returns the numerator and the
  denominator (\<open>Inl\<close>) or goes on (\<open>Inr\<close>).
\<close>

type_synonym fraction_state = "int \<times> int \<times> int \<times> int \<times> int"

definition mul_add :: "int \<Rightarrow> int \<Rightarrow> int \<Rightarrow> int res" where
  "mul_add x y z = res_bind (i64 (x * y)) (\<lambda>p. i64 (p + z))"

definition std_gcd :: "int \<Rightarrow> int \<Rightarrow> int res" where
  "std_gcd m n = res_bind (i64 \<bar>m\<bar>) (\<lambda>_. res_bind (i64 \<bar>n\<bar>) (\<lambda>_. Ret (gcd m n)))"

definition to_fraction_found :: "int \<Rightarrow> int \<Rightarrow> int \<Rightarrow> int \<Rightarrow> (int \<times> int) res" where
  "to_fraction_found sign integral h k =
     res_bind (mul_add integral k h) (\<lambda>s. res_bind (i64 (s * sign)) (\<lambda>n.
       res_bind (std_gcd n k) (\<lambda>common_factor.
         res_bind (i64 (n sdiv common_factor)) (\<lambda>num.
           res_bind (i64 (k sdiv common_factor)) (\<lambda>den. Ret (num, den))))))"

text \<open>
  With a denominator that is zero the quotient is an infinity, whose difference to the value is
  one and has the reciprocal zero; or it is not a number, and neither is the reciprocal.
\<close>

definition to_fraction_turn ::
    "(rat \<Rightarrow> rat) \<Rightarrow> rat \<Rightarrow> rat \<Rightarrow> int \<Rightarrow> int \<Rightarrow> fraction_state \<Rightarrow> (int \<times> int + fraction_state) res" where
  "to_fraction_turn rnd val tolerance sign integral S =
     (case S of (a, h1, h2, k1, k2) \<Rightarrow>
       res_bind (mul_add a h1 h2) (\<lambda>h. res_bind (mul_add a k1 k2) (\<lambda>k.
         let hd = rnd (of_int h); kd = rnd (of_int k); diff = rnd (val - rnd (hd / kd))
         in if kd = 0 then
              (if hd = 0 then Fault Signed_Overflow else Ret (Inr (0, h, h1, k, k1)))
            else if \<bar>diff\<bar> < tolerance then map_res Inl (to_fraction_found sign integral h k)
            else if diff = 0 then Fault Signed_Overflow
            else map_res (\<lambda>a'. Inr (a', h, h1, k, k1)) (double_to_i64 (rnd (1 / diff))))))"

partial_function (option) to_fraction_loop ::
    "(rat \<Rightarrow> rat) \<Rightarrow> rat \<Rightarrow> rat \<Rightarrow> int \<Rightarrow> int \<Rightarrow> fraction_state \<Rightarrow> (int \<times> int) res option" where
  "to_fraction_loop rnd val tolerance sign integral S =
     (case to_fraction_turn rnd val tolerance sign integral S of
        Throw e \<Rightarrow> Some (Throw e)
      | Fault f \<Rightarrow> Some (Fault f)
      | Ret R \<Rightarrow> (case R of
          Inl r \<Rightarrow> Some (Ret r)
        | Inr S' \<Rightarrow> to_fraction_loop rnd val tolerance sign integral S'))"

definition to_fraction_detail :: "(rat \<Rightarrow> rat) \<Rightarrow> rat \<Rightarrow> rat \<Rightarrow> (int \<times> int) res option" where
  "to_fraction_detail rnd val tolerance =
     (let sign = (if val < 0 then - 1 else 1)
      in case double_to_i64 \<bar>val\<bar> of
           Throw e \<Rightarrow> Some (Throw e)
         | Fault f \<Rightarrow> Some (Fault f)
         | Ret integral \<Rightarrow>
             let rest = rnd (\<bar>val\<bar> - rnd (of_int integral))
             in if rest < tolerance then Some (Ret (integral * sign, 1))
                else to_fraction_loop rnd rest tolerance sign integral (integral, 1, 0, 0, 1))"

text \<open>The template narrows both numbers to signed types of \<open>w\<close> bits.\<close>

definition to_fraction :: "nat \<Rightarrow> (rat \<Rightarrow> rat) \<Rightarrow> rat \<Rightarrow> rat \<Rightarrow> fraction res option" where
  "to_fraction w rnd val tolerance =
     map_option (map_res (\<lambda>(n, d). \<lparr>fr_n = signed_take_bit (w - 1) n, fr_d = signed_take_bit (w - 1) d\<rparr>))
       (to_fraction_detail rnd val tolerance)"


section \<open>Facts\<close>

lemma res_bind_Ret_iff: "res_bind r k = Ret y \<longleftrightarrow> (\<exists>x. r = Ret x \<and> k x = Ret y)"
  by (simp add: res_bind_def split: res.split)

lemma map_res_Ret_iff: "map_res f r = Ret y \<longleftrightarrow> (\<exists>x. r = Ret x \<and> y = f x)"
  by (cases r) auto

lemma mul_add_Ret: "mul_add x y z = Ret w \<Longrightarrow> w = x * y + z"
  by (auto simp: mul_add_def res_bind_Ret_iff i64_Ret_iff)

lemma mul_add_fits:
  "- (2 ^ 63) \<le> x * y \<Longrightarrow> x * y < 2 ^ 63 \<Longrightarrow> - (2 ^ 63) \<le> x * y + z \<Longrightarrow> x * y + z < 2 ^ 63
   \<Longrightarrow> mul_add x y z = Ret (x * y + z)"
  by (simp add: mul_add_def res_bind_def i64_def)

lemma trunc_of_int [simp]: "trunc (of_int n) = n"
  by (simp add: trunc_def)

lemma trunc_small: "\<bar>x\<bar> < 1 \<Longrightarrow> trunc x = 0"
  by (auto simp: trunc_def floor_eq_iff)

lemma trunc_nonneg: "0 \<le> x \<Longrightarrow> trunc x = \<lfloor>x\<rfloor>"
  by (simp add: trunc_def)

lemma sdiv_exact: "g dvd m \<Longrightarrow> 0 < g \<Longrightarrow> m sdiv g = m div (g :: int)"
  by (auto simp: signed_divide_int_def sgn_mult abs_mult sgn_mult_abs elim!: dvdE)

text \<open>The fraction that is found is in lowest terms and has the value of the quotient.\<close>

lemma to_fraction_found_Ret:
  assumes "to_fraction_found sign integral h k = Ret (n, d)" and "k \<noteq> 0"
  shows "d \<noteq> 0" and "coprime n d"
    and "(of_int n / of_int d :: rat) = of_int sign * (of_int integral + of_int h / of_int k)"
proof -
  define m where "m = (integral * k + h) * sign"
  define g where "g = gcd m k"
  have g: "0 < g" "g dvd m" "g dvd k" using assms(2) by (simp_all add: g_def)
  have "n = m sdiv g" "d = k sdiv g"
    using assms(1) by (auto simp: to_fraction_found_def res_bind_Ret_iff i64_Ret_iff std_gcd_def m_def g_def dest: mul_add_Ret)
  then have nd: "n = m div g" "d = k div g" using g by (simp_all add: sdiv_exact)
  then have mk: "m = n * g" "k = d * g" using g by simp_all
  show "d \<noteq> 0" using mk(2) assms(2) by auto
  show "coprime n d" unfolding nd g_def by (rule div_gcd_coprime) (use assms(2) in simp)
  have "(of_int n / of_int d :: rat) = of_int m / of_int k"
    using g(1) by (simp add: mk)
  also have "\<dots> = of_int sign * (of_int integral + of_int h / of_int k)"
    using assms(2) by (simp add: m_def field_simps)
  finally show "(of_int n / of_int d :: rat) = of_int sign * (of_int integral + of_int h / of_int k)" .
qed

text \<open>What the loop returns was found in a turn whose quotient is close to the value.\<close>

definition close_quotient :: "(rat \<Rightarrow> rat) \<Rightarrow> rat \<Rightarrow> rat \<Rightarrow> int \<Rightarrow> int \<Rightarrow> int \<times> int \<Rightarrow> bool" where
  "close_quotient rnd val tolerance sign integral r \<longleftrightarrow>
     (\<exists>h k. rnd (of_int k) \<noteq> 0 \<and> \<bar>rnd (val - rnd (rnd (of_int h) / rnd (of_int k)))\<bar> < tolerance
        \<and> to_fraction_found sign integral h k = Ret r)"

lemma close_quotientI:
  "to_fraction_found sign integral h k = Ret r \<Longrightarrow> rnd (of_int k) \<noteq> 0
   \<Longrightarrow> \<bar>rnd (val - rnd (rnd (of_int h) / rnd (of_int k)))\<bar> < tolerance \<Longrightarrow> close_quotient rnd val tolerance sign integral r"
  by (auto simp: close_quotient_def)

lemma to_fraction_turn_Inl:
  "to_fraction_turn rnd val tolerance sign integral S = Ret (Inl r) \<Longrightarrow> close_quotient rnd val tolerance sign integral r"
  by (cases S)
    (auto simp: to_fraction_turn_def res_bind_Ret_iff map_res_Ret_iff Let_def intro: close_quotientI split: if_splits)

lemma to_fraction_loop_close:
  assumes "to_fraction_loop rnd val tolerance sign integral S = Some R"
  shows "\<forall>r. R = Ret r \<longrightarrow> close_quotient rnd val tolerance sign integral r"
proof (rule to_fraction_loop.raw_induct
    [where P = "\<lambda>rnd val tolerance sign integral S R. \<forall>r. R = Ret r \<longrightarrow> close_quotient rnd val tolerance sign integral r", OF _ assms])
  fix loop :: "(rat \<Rightarrow> rat) \<Rightarrow> rat \<Rightarrow> rat \<Rightarrow> int \<Rightarrow> int \<Rightarrow> fraction_state \<Rightarrow> (int \<times> int) res option"
    and rnd :: "rat \<Rightarrow> rat" and val tolerance sign integral S R
  assume "\<And>rnd val tolerance sign integral S R. loop rnd val tolerance sign integral S = Some R
      \<Longrightarrow> \<forall>r. R = Ret r \<longrightarrow> close_quotient rnd val tolerance sign integral r"
    and "(case to_fraction_turn rnd val tolerance sign integral S of
            Ret (Inl r) \<Rightarrow> Some (Ret r) | Ret (Inr S') \<Rightarrow> loop rnd val tolerance sign integral S'
          | Throw e \<Rightarrow> Some (Throw e) | Fault f \<Rightarrow> Some (Fault f)) = Some R"
  then show "\<forall>r. R = Ret r \<longrightarrow> close_quotient rnd val tolerance sign integral r"
    by (auto split: res.splits sum.splits dest: to_fraction_turn_Inl)
qed

text \<open>A set of states that a turn does not leave is one from which the loop does not return.\<close>

lemma to_fraction_loop_diverges:
  assumes "S \<in> A" and "\<And>S. S \<in> A \<Longrightarrow> \<exists>S' \<in> A. to_fraction_turn rnd val tolerance sign integral S = Ret (Inr S')"
  shows "to_fraction_loop rnd val tolerance sign integral S = None"
proof (rule ccontr)
  assume "to_fraction_loop rnd val tolerance sign integral S \<noteq> None"
  then obtain R where "to_fraction_loop rnd val tolerance sign integral S = Some R" by blast
  then have "\<not> (rnd = rnd \<and> val = val \<and> tolerance = tolerance \<and> sign = sign \<and> integral = integral \<and> S \<in> A)"
  proof (rule to_fraction_loop.raw_induct
      [where P = "\<lambda>r v t s i S R. \<not> (r = rnd \<and> v = val \<and> t = tolerance \<and> s = sign \<and> i = integral \<and> S \<in> A)", rotated])
    fix loop :: "(rat \<Rightarrow> rat) \<Rightarrow> rat \<Rightarrow> rat \<Rightarrow> int \<Rightarrow> int \<Rightarrow> fraction_state \<Rightarrow> (int \<times> int) res option" and r v t s i S R
    assume IH: "\<And>r v t s i S R. loop r v t s i S = Some R
        \<Longrightarrow> \<not> (r = rnd \<and> v = val \<and> t = tolerance \<and> s = sign \<and> i = integral \<and> S \<in> A)"
      and step: "(case to_fraction_turn r v t s i S of
            Ret (Inl r) \<Rightarrow> Some (Ret r) | Ret (Inr S') \<Rightarrow> loop r v t s i S'
          | Throw e \<Rightarrow> Some (Throw e) | Fault f \<Rightarrow> Some (Fault f)) = Some R"
    show "\<not> (r = rnd \<and> v = val \<and> t = tolerance \<and> s = sign \<and> i = integral \<and> S \<in> A)"
    proof
      assume eq: "r = rnd \<and> v = val \<and> t = tolerance \<and> s = sign \<and> i = integral \<and> S \<in> A"
      then obtain S' where "S' \<in> A" "to_fraction_turn r v t s i S = Ret (Inr S')" using assms(2) by blast
      with step IH [of r v t s i S' R] eq show False by simp
    qed
  qed
  then show False using assms(1) by simp
qed

text \<open>
  With exact arithmetic, whenever \<open>to_fraction\<close> returns the fraction is in lowest terms, its
  denominator is not zero, and it is closer to the value than the tolerance.
\<close>

lemma to_fraction_sound:
  assumes "to_fraction_detail (\<lambda>x. x) val tolerance = Some (Ret (n, d))" and "0 < tolerance"
  shows "d \<noteq> 0 \<and> coprime n d \<and> \<bar>val - of_int n / of_int d\<bar> < tolerance"
proof -
  define sign :: int where "sign = (if val < 0 then - 1 else 1)"
  have val: "val = of_int sign * \<bar>val\<bar>" and one: "\<bar>of_int sign :: rat\<bar> = 1" by (simp_all add: sign_def)
  obtain integral where i: "integral = \<lfloor>\<bar>val\<bar>\<rfloor>"
    and r: "if \<bar>val\<bar> - of_int integral < tolerance then (n, d) = (integral * sign, 1)
      else to_fraction_loop (\<lambda>x. x) (\<bar>val\<bar> - of_int integral) tolerance sign integral (integral, 1, 0, 0, 1) = Some (Ret (n, d))"
    using assms(1)
    by (auto simp: to_fraction_detail_def sign_def double_to_i64_def trunc_nonneg i64_Ret_iff Let_def
        split: res.splits if_splits)
  have close: "\<bar>val - of_int sign * (of_int integral + q)\<bar> < tolerance"
    if "\<bar>\<bar>val\<bar> - of_int integral - q\<bar> < tolerance" for q
  proof -
    have "val - of_int sign * (of_int integral + q) = of_int sign * (\<bar>val\<bar> - of_int integral - q)"
      by (subst val) (simp add: algebra_simps)
    then show ?thesis using that one by (simp add: abs_mult)
  qed
  show ?thesis
  proof (cases "\<bar>val\<bar> - of_int integral < tolerance")
    case True
    have "\<bar>\<bar>val\<bar> - of_int integral - 0\<bar> < tolerance" using True i by (simp add: of_int_floor_le)
    from close [OF this] show ?thesis using True r by (simp add: mult.commute)
  next
    case False
    with r have "close_quotient (\<lambda>x. x) (\<bar>val\<bar> - of_int integral) tolerance sign integral (n, d)"
      by (simp add: to_fraction_loop_close)
    then obtain h k where hk: "k \<noteq> 0"
      "\<bar>\<bar>val\<bar> - of_int integral - of_int h / of_int k\<bar> < tolerance" "to_fraction_found sign integral h k = Ret (n, d)"
      unfolding close_quotient_def by auto
    from to_fraction_found_Ret [OF hk(3,1)] close [OF hk(2)] show ?thesis by simp
  qed
qed

text \<open>
  With exact arithmetic the reciprocal of a number is found in the second turn.
\<close>

lemma to_fraction_reciprocal:
  assumes "1 < m" and "m < 2 ^ 63" and "0 < tolerance" and "tolerance \<le> 1 / of_int m"
  shows "to_fraction_detail (\<lambda>x. x) (1 / of_int m) tolerance = Some (Ret (1, m))"
    and "to_fraction_detail (\<lambda>x. x) (- 1 / of_int m) tolerance = Some (Ret (- 1, m))"
proof -
  have m: "0 < (of_int m :: rat)" "1 / (of_int m :: rat) < 1" using assms(1) by (simp_all add: field_simps)
  have t: "trunc (1 / of_int m) = 0" using m by (intro trunc_small) simp
  have turns: "to_fraction_loop (\<lambda>x. x) (1 / of_int m) tolerance sign 0 (0, 1, 0, 0, 1) = Some (Ret (sign, m))"
    if "sign = 1 \<or> sign = - 1" for sign
  proof -
    have 1: "to_fraction_turn (\<lambda>x. x) (1 / of_int m) tolerance sign 0 (0, 1, 0, 0, 1) = Ret (Inr (m, 0, 1, 1, 0))"
      using assms m by (simp add: to_fraction_turn_def mul_add_def res_bind_def i64_def double_to_i64_def)
    have "gcd sign m = 1" using that by auto
    moreover have "sign sdiv 1 = sign" "m sdiv 1 = m" by (simp_all add: sdiv_exact)
    ultimately have "to_fraction_found sign 0 1 m = Ret (sign, m)"
      using that assms(1,2)
      by (auto simp: to_fraction_found_def mul_add_def std_gcd_def res_bind_def i64_def)
    then have "to_fraction_turn (\<lambda>x. x) (1 / of_int m) tolerance sign 0 (m, 0, 1, 1, 0) = Ret (Inl (sign, m))"
      using assms m by (simp add: to_fraction_turn_def mul_add_def res_bind_def i64_def)
    with 1 show ?thesis by (simp add: to_fraction_loop.simps)
  qed
  define x :: rat where "x = 1 / of_int m"
  have x: "0 < x" "\<not> x < tolerance" "double_to_i64 x = Ret 0"
    using m assms(4) t by (simp_all add: x_def double_to_i64_def i64_def)
  note turns' = turns [folded x_def]
  have "to_fraction_detail (\<lambda>x. x) x tolerance = Some (Ret (1, m))"
    using x turns' [of 1] by (simp add: to_fraction_detail_def)
  moreover have "to_fraction_detail (\<lambda>x. x) (- x) tolerance = Some (Ret (- 1, m))"
    using x turns' [of "- 1"] by (simp add: to_fraction_detail_def)
  ultimately show "to_fraction_detail (\<lambda>x. x) (1 / of_int m) tolerance = Some (Ret (1, m))"
    and "to_fraction_detail (\<lambda>x. x) (- 1 / of_int m) tolerance = Some (Ret (- 1, m))"
    by (simp_all add: x_def)
qed

text \<open>
  For a value of at least 3 whose fractional part is not below the tolerance \<open>to_fraction\<close> does
  not return: the first quotient is the integral part, which the value no longer holds, and the
  loop then alternates between it and an infinity.  Of the rounding this uses that it is
  monotone and keeps the integers up to \<open>2^31\<close> and the half.
\<close>

lemma to_fraction_never_returns:
  assumes "mono rnd" and keeps: "\<And>n. \<bar>n\<bar> \<le> 2 ^ 31 \<Longrightarrow> rnd (of_int n) = of_int n" "rnd (- 1 / 2) = - 1 / 2"
    and "3 \<le> \<bar>val\<bar>" and "\<bar>val\<bar> < 2 ^ 31" and "0 < tolerance" and "tolerance \<le> 2"
    and "tolerance \<le> rnd (\<bar>val\<bar> - of_int \<lfloor>\<bar>val\<bar>\<rfloor>)"
  shows "to_fraction_detail rnd val tolerance = None"
proof -
  define n where "n = \<lfloor>\<bar>val\<bar>\<rfloor>"
  define rest where "rest = rnd (\<bar>val\<bar> - of_int n)"
  have n: "3 \<le> n" "n < 2 ^ 31"
    using assms(4,5) by (simp_all add: n_def le_floor_iff floor_less_iff)
  note k = keeps(1) [of 0, simplified] keeps(1) [of 1, simplified] keeps(1) [of n] keeps(1) [of "- 2"]
  have rn: "rnd (of_int n) = of_int n" using n by (intro keeps(1)) simp
  have r01: "rnd 0 = 0" "rnd 1 = 1" "rnd (- 2) = - 2" using keeps(1) [of 0] keeps(1) [of 1] keeps(1) [of "- 2"] by simp_all
  have "\<bar>val\<bar> - of_int n \<le> 1" unfolding n_def by linarith
  then have rest: "rest \<le> 1" "tolerance \<le> rest"
    using monoD [OF assms(1)] r01 assms(8) by (fastforce simp: rest_def n_def)+
  define diff where "diff = rnd (rest - of_int n)"
  have "rest - of_int n \<le> - 2" using rest(1) n(1) by (simp add: algebra_simps flip: of_int_le_iff)
  then have d: "diff \<le> - 2" using monoD [OF assms(1)] r01(3) by (fastforce simp: diff_def)
  then have inv: "- 1 / 2 \<le> 1 / diff" "1 / diff \<le> 0" by (simp_all add: field_simps)
  have "- 1 / 2 \<le> rnd (1 / diff)" "rnd (1 / diff) \<le> 0"
    using monoD [OF assms(1) inv(1)] monoD [OF assms(1) inv(2)] keeps(2) r01(1) by simp_all
  then have t: "trunc (rnd (1 / diff)) = 0" by (intro trunc_small) simp
  let ?turn = "to_fraction_turn rnd rest tolerance"
  have far: "\<not> \<bar>diff\<bar> < tolerance" "diff \<noteq> 0" using d assms(7) by auto
  have small: "n < 2 ^ 63" "- (2 ^ 63) \<le> n" using n by simp_all
  have 1: "?turn sign n (n, 1, 0, 0, 1) = Ret (Inr (0, n, 1, 1, 0))"
    and 2: "?turn sign n (0, n, 1, 1, 0) = Ret (Inr (0, 1, n, 0, 1))"
    and 3: "?turn sign n (0, 1, n, 0, 1) = Ret (Inr (0, n, 1, 1, 0))" for sign
    using small far rn r01 t unfolding diff_def
    by (simp_all add: to_fraction_turn_def mul_add_def res_bind_def i64_def double_to_i64_def Let_def)
  have never: "to_fraction_loop rnd rest tolerance sign n (n, 1, 0, 0, 1) = None" for sign
    by (rule to_fraction_loop_diverges [where A = "{(n, 1, 0, 0, 1), (0, n, 1, 1, 0), (0, 1, n, 0, 1)}"])
      (auto simp: 1 2 3)
  have "double_to_i64 \<bar>val\<bar> = Ret n" using small by (simp add: double_to_i64_def trunc_nonneg n_def i64_def)
  then show ?thesis
    using never rest(2) by (simp add: to_fraction_detail_def rn flip: rest_def)
qed

section \<open>Properties\<close>

text \<open>
  For a rounding that is monotone and symmetric, exactly one of \<open>definitely_greate_than\<close>,
  \<open>definitely_less_than\<close> and \<open>approximately_equal\<close> holds of two numbers, the last is symmetric, and
  \<open>essentially_equal\<close> is stronger than it.
\<close>

theorem comparison_trichotomy:
  assumes "mono rnd" and odd: "\<And>x. rnd (- x) = - rnd x" and "0 \<le> epsilon"
  shows "(if definitely_greate_than rnd a b epsilon then \<not> definitely_less_than rnd a b epsilon \<and> \<not> approximately_equal rnd a b epsilon
      else definitely_less_than rnd a b epsilon \<noteq> approximately_equal rnd a b epsilon)
    \<and> approximately_equal rnd a b epsilon = approximately_equal rnd b a epsilon
    \<and> definitely_less_than rnd a b epsilon = definitely_greate_than rnd b a epsilon
    \<and> (essentially_equal rnd a b epsilon \<longrightarrow> approximately_equal rnd a b epsilon)"
proof -
  define M m where "M = rnd ((if \<bar>a\<bar> < \<bar>b\<bar> then \<bar>b\<bar> else \<bar>a\<bar>) * epsilon)"
    and "m = rnd ((if \<bar>a\<bar> > \<bar>b\<bar> then \<bar>b\<bar> else \<bar>a\<bar>) * epsilon)"
  have M': "M = rnd ((if \<bar>b\<bar> < \<bar>a\<bar> then \<bar>a\<bar> else \<bar>b\<bar>) * epsilon)"
    by (auto simp: M_def intro: arg_cong [where f = rnd])
  have sym: "rnd (b - a) = - rnd (a - b)" using odd [of "a - b"] by simp
  have "rnd 0 = 0" using odd [of 0] by simp
  then have M: "0 \<le> M" using monoD [OF assms(1), of 0] assms(3) by (force simp: M_def)
  have mM: "m \<le> M" unfolding m_def M_def
    by (rule monoD [OF assms(1)]) (use assms(3) in \<open>auto intro: mult_right_mono\<close>)
  show ?thesis
    unfolding definitely_greate_than_def definitely_less_than_def approximately_equal_def essentially_equal_def
      M_def [symmetric] m_def [symmetric] M' [symmetric] sym
    using M mM by (auto simp: abs_le_iff)
qed

theorem comparison_trichotomy_witness:
  "approximately_equal (\<lambda>x. x) 100 101 (1 / 50) \<and> \<not> definitely_less_than (\<lambda>x. x) 100 101 (1 / 50)"
  using comparison_trichotomy [of "\<lambda>x. x" "1 / 50" 100 101]
  by (auto simp: mono_def approximately_equal_def split: if_splits)

text \<open>One and a half becomes a fraction with a negative denominator, which is then less than one.\<close>

lemma to_fraction_negative_denominator:
  "to_fraction 32 (\<lambda>x. x) (3 / 2) (1 / 1000000) = Some (Ret \<lparr>fr_n = - 3, fr_d = - 2\<rparr>)
   \<and> fraction_lt \<lparr>fr_n = - 3, fr_d = - 2\<rparr> \<lparr>fr_n = 1, fr_d = 1\<rparr>"
proof -
  have 0: "double_to_i64 (3 / 2) = Ret 1" "double_to_i64 (- 2) = Ret (- 2)" by code_simp+
  have f: "to_fraction_found 1 1 (- 1) (- 2) = Ret (- 3, - 2)" by code_simp
  have 1: "to_fraction_turn (\<lambda>x. x) (1 / 2) (1 / 1000000) 1 1 (1, 1, 0, 0, 1) = Ret (Inr (- 2, 1, 1, 1, 0))"
    using 0(2) by (simp add: to_fraction_turn_def mul_add_def res_bind_def i64_def)
  have 2: "to_fraction_turn (\<lambda>x. x) (1 / 2) (1 / 1000000) 1 1 (- 2, 1, 1, 1, 0) = Ret (Inl (- 3, - 2))"
    using f by (simp add: to_fraction_turn_def mul_add_def res_bind_def i64_def)
  have "to_fraction_detail (\<lambda>x. x) (3 / 2) (1 / 1000000) = Some (Ret (- 3, - 2))"
    using 0(1) 1 2 by (simp add: to_fraction_detail_def to_fraction_loop.simps)
  then show ?thesis by (simp add: to_fraction_def fraction_lt_def)
qed

text \<open>
  C39.  What \<open>to_fraction\<close> does, for a positive tolerance.  With exact arithmetic, whenever it returns
  the fraction is in lowest terms, its denominator is not zero and it is closer to the value than
  the tolerance; and it returns the reciprocal of a number as such, with the sign in the numerator.
  But with any rounding that is monotone and keeps the integers up to \<open>2^31\<close> and the half, it never
  returns for a value of at least 3 whose fractional part is not below the tolerance.
\<close>

theorem to_fraction_outcome:
  assumes "0 < tolerance"
  shows "(\<forall>n d. to_fraction_detail (\<lambda>x. x) val tolerance = Some (Ret (n, d)) \<longrightarrow>
        d \<noteq> 0 \<and> coprime n d \<and> \<bar>val - of_int n / of_int d\<bar> < tolerance)
    \<and> (\<forall>m. 1 < m \<and> m < 2 ^ 63 \<and> tolerance \<le> 1 / of_int m \<longrightarrow>
        to_fraction_detail (\<lambda>x. x) (1 / of_int m) tolerance = Some (Ret (1, m))
        \<and> to_fraction_detail (\<lambda>x. x) (- 1 / of_int m) tolerance = Some (Ret (- 1, m)))
    \<and> (\<forall>rnd. mono rnd \<and> (\<forall>n. \<bar>n\<bar> \<le> 2 ^ 31 \<longrightarrow> rnd (of_int n) = of_int n) \<and> rnd (- 1 / 2) = - 1 / 2
        \<and> 3 \<le> \<bar>val\<bar> \<and> \<bar>val\<bar> < 2 ^ 31 \<and> tolerance \<le> 2 \<and> tolerance \<le> rnd (\<bar>val\<bar> - of_int \<lfloor>\<bar>val\<bar>\<rfloor>) \<longrightarrow>
        to_fraction_detail rnd val tolerance = None)"
proof (intro conjI allI impI)
  fix n d
  assume r: "to_fraction_detail (\<lambda>x. x) val tolerance = Some (Ret (n, d))"
  show "d \<noteq> 0" and "coprime n d" and "\<bar>val - of_int n / of_int d\<bar> < tolerance"
    using to_fraction_sound [OF r assms] by simp_all
next
  fix m :: int
  assume "1 < m \<and> m < 2 ^ 63 \<and> tolerance \<le> 1 / of_int m"
  then show "to_fraction_detail (\<lambda>x. x) (1 / of_int m) tolerance = Some (Ret (1, m))"
    and "to_fraction_detail (\<lambda>x. x) (- 1 / of_int m) tolerance = Some (Ret (- 1, m))"
    using assms to_fraction_reciprocal by blast+
next
  fix rnd :: "rat \<Rightarrow> rat"
  assume "mono rnd \<and> (\<forall>n. \<bar>n\<bar> \<le> 2 ^ 31 \<longrightarrow> rnd (of_int n) = of_int n) \<and> rnd (- 1 / 2) = - 1 / 2
    \<and> 3 \<le> \<bar>val\<bar> \<and> \<bar>val\<bar> < 2 ^ 31 \<and> tolerance \<le> 2 \<and> tolerance \<le> rnd (\<bar>val\<bar> - of_int \<lfloor>\<bar>val\<bar>\<rfloor>)"
  then show "to_fraction_detail rnd val tolerance = None"
    using assms by (intro to_fraction_never_returns) simp_all
qed

theorem to_fraction_outcome_witness:
  "to_fraction_detail (\<lambda>x. x) (7 / 2) (1 / 1000000) = None
   \<and> to_fraction_detail (\<lambda>x. x) (- 1 / 3) (1 / 1000000) = Some (Ret (- 1, 3))"
proof -
  have "\<lfloor>7 / 2 :: rat\<rfloor> = 3" by (simp add: floor_eq_iff)
  moreover have "mono (\<lambda>x :: rat. x)" by (simp add: mono_def)
  moreover note P = to_fraction_outcome [of "1 / 1000000" "7 / 2"]
  ultimately show ?thesis
    using conjunct1 [OF conjunct2 [OF P], rule_format, of 3] conjunct2 [OF conjunct2 [OF P], rule_format, of "\<lambda>x. x"]
    by simp
qed

end
