(* ===== verification/Time.thy ===== *)
theory Time
  imports Math_Double Strings
begin

text \<open>
  \<open>src/hlib_time.cpp\<close> and \<open>include/hlib/time.hpp\<close>: the arithmetic, the order and the conversions
  of \<open>Duration\<close> and \<open>Clock\<close>, and their texts.

  Both classes are a \<open>std::timespec\<close>.  The abstract value of a normal one, with its nanoseconds in
  \<open>[0, 10^9)\<close>, is the integer \<open>ns\<close>; addition and subtraction refine integer arithmetic on it.
  \<open>double\<close> arithmetic is exact rational arithmetic followed by a rounding \<open>rnd\<close>, a parameter.  The
  broken-down times of \<open>gmtime\<close> and \<open>localtime\<close> are parameters too, and \<open>strftime\<close> is written out
  for the formats used; it needs room for its text and a NUL, else the array is indeterminate.
  \<open>to_clock\<close>, which parses with \<open>strptime\<close>, is in \<open>Time_Parse\<close>.
\<close>

section \<open>Time values\<close>

datatype timespec = Timespec (tv_sec: int) (tv_nsec: int)

definition nsec_per_sec :: int where
  "nsec_per_sec = 1000000000"

definition timespec_add :: "timespec \<Rightarrow> timespec \<Rightarrow> timespec" where
  "timespec_add lhs that =
     (let sec = tv_sec lhs + tv_sec that; nsec = tv_nsec lhs + tv_nsec that
      in if nsec \<ge> nsec_per_sec then Timespec (sec + 1) (nsec - nsec_per_sec) else Timespec sec nsec)"

definition timespec_subtract :: "timespec \<Rightarrow> timespec \<Rightarrow> timespec" where
  "timespec_subtract lhs that =
     (let sec = tv_sec lhs - tv_sec that; nsec = tv_nsec lhs - tv_nsec that
      in if nsec < 0 then Timespec (sec - 1) (nsec + nsec_per_sec) else Timespec sec nsec)"

definition timespec_multiply :: "(rat \<Rightarrow> rat) \<Rightarrow> timespec \<Rightarrow> rat \<Rightarrow> timespec" where
  "timespec_multiply rnd lhs that =
     (let nsec = rnd (rnd (of_int (tv_nsec lhs)) * that);
          carry = of_int \<lfloor>rnd (nsec / of_int nsec_per_sec)\<rfloor>
      in Timespec (tv_sec lhs * trunc that + trunc carry)
           (trunc (rnd (nsec - rnd (carry * of_int nsec_per_sec)))))"

text \<open>The division of the nanoseconds is an integer division; a zero divisor has no value to convert.\<close>

definition timespec_divide :: "(rat \<Rightarrow> rat) \<Rightarrow> timespec \<Rightarrow> rat \<Rightarrow> timespec res" where
  "timespec_divide rnd lhs that =
     (if that = 0 then Fault Signed_Overflow
      else let total_secs = rnd (of_int (tv_sec lhs + tv_nsec lhs sdiv nsec_per_sec));
               divided_secs = rnd (total_secs / that);
               sec = trunc divided_secs
           in Ret (Timespec sec (trunc (rnd (rnd (divided_secs - of_int sec) * of_int nsec_per_sec)))))"

section \<open>Duration\<close>

definition duration_zero :: timespec where
  "duration_zero = Timespec 0 0"

definition duration_from_double :: "(rat \<Rightarrow> rat) \<Rightarrow> rat \<Rightarrow> timespec res" where
  "duration_from_double rnd secs =
     (if \<not> secs \<ge> 0 then Fault Assert_Failed
      else Ret (Timespec \<lfloor>secs\<rfloor> (trunc (rnd (frac secs * of_int nsec_per_sec)))))"

text \<open>The remainder by \<open>1000000000ULL\<close> is taken of the product converted to an unsigned 64-bit integer.\<close>

definition duration_from_ratio :: "ratio \<Rightarrow> int \<Rightarrow> timespec res" where
  "duration_from_ratio r ticks =
     res_bind (i64 (ticks * num r)) (\<lambda>s.
       let factor = (1000000000 * num r) sdiv den r
       in res_bind (i64 (ticks * factor)) (\<lambda>n.
            Ret (Timespec (s sdiv den r) (n mod 2 ^ 64 mod 1000000000))))"

definition nano :: ratio where
  "nano = \<lparr>num = 1, den = 1000000000\<rparr>"

definition duration_to_ratio :: "ratio \<Rightarrow> timespec \<Rightarrow> int res" where
  "duration_to_ratio r d =
     res_bind (i64 (tv_sec d * 1000000000)) (\<lambda>s. res_bind (i64 (s + tv_nsec d)) (rv_to nano r))"

definition duration_add :: "timespec \<Rightarrow> timespec \<Rightarrow> timespec" where
  "duration_add a b = timespec_add a b"

definition duration_sub :: "timespec \<Rightarrow> timespec \<Rightarrow> timespec" where
  "duration_sub a b = timespec_subtract a b"

definition duration_mul :: "(rat \<Rightarrow> rat) \<Rightarrow> timespec \<Rightarrow> rat \<Rightarrow> timespec" where
  "duration_mul rnd a x = timespec_multiply rnd a x"

definition duration_div :: "(rat \<Rightarrow> rat) \<Rightarrow> timespec \<Rightarrow> rat \<Rightarrow> timespec res" where
  "duration_div rnd a x = timespec_divide rnd a x"

text \<open>The objects made of a \<open>timespec\<close> and of its members, and the assignments: what the left operand becomes.\<close>

definition duration_from_timespec :: "timespec \<Rightarrow> timespec" where
  "duration_from_timespec ts = ts"

definition duration_make :: "int \<Rightarrow> int \<Rightarrow> timespec" where
  "duration_make secs nsecs = Timespec secs nsecs"

definition duration_add_assign :: "timespec \<Rightarrow> timespec \<Rightarrow> timespec" where
  "duration_add_assign a b = timespec_add a b"

definition duration_sub_assign :: "timespec \<Rightarrow> timespec \<Rightarrow> timespec" where
  "duration_sub_assign a b = timespec_subtract a b"

definition duration_mul_assign :: "(rat \<Rightarrow> rat) \<Rightarrow> timespec \<Rightarrow> rat \<Rightarrow> timespec" where
  "duration_mul_assign rnd a x = timespec_multiply rnd a x"

definition duration_div_assign :: "(rat \<Rightarrow> rat) \<Rightarrow> timespec \<Rightarrow> rat \<Rightarrow> timespec res" where
  "duration_div_assign rnd a x = timespec_divide rnd a x"

definition duration_to_double :: "(rat \<Rightarrow> rat) \<Rightarrow> timespec \<Rightarrow> rat" where
  "duration_to_double rnd d =
     rnd (rnd (of_int (tv_sec d)) + rnd (rnd (of_int (tv_nsec d)) / rnd (of_int 1000000000)))"

definition duration_not :: "timespec \<Rightarrow> bool" where
  "duration_not a \<longleftrightarrow> 0 = tv_sec a \<and> 0 = tv_nsec a"

definition duration_eq :: "timespec \<Rightarrow> timespec \<Rightarrow> bool" where
  "duration_eq a b \<longleftrightarrow> tv_sec a = tv_sec b \<and> tv_nsec a = tv_nsec b"

definition duration_ne :: "timespec \<Rightarrow> timespec \<Rightarrow> bool" where
  "duration_ne a b \<longleftrightarrow> \<not> duration_eq a b"

definition double_eq_duration :: "(rat \<Rightarrow> rat) \<Rightarrow> rat \<Rightarrow> timespec \<Rightarrow> bool res" where
  "double_eq_duration rnd lhs rhs = map_res (\<lambda>d. duration_eq d rhs) (duration_from_double rnd lhs)"

definition double_ne_duration :: "(rat \<Rightarrow> rat) \<Rightarrow> rat \<Rightarrow> timespec \<Rightarrow> bool res" where
  "double_ne_duration rnd lhs rhs = map_res (\<lambda>d. duration_ne d rhs) (duration_from_double rnd lhs)"

definition duration_lt :: "timespec \<Rightarrow> timespec \<Rightarrow> bool" where
  "duration_lt a b \<longleftrightarrow> tv_sec a < tv_sec b \<or> tv_sec a = tv_sec b \<and> tv_nsec a < tv_nsec b"

definition duration_gt :: "timespec \<Rightarrow> timespec \<Rightarrow> bool" where
  "duration_gt a b \<longleftrightarrow> tv_sec a > tv_sec b \<or> tv_sec a = tv_sec b \<and> tv_nsec a > tv_nsec b"

definition duration_le :: "timespec \<Rightarrow> timespec \<Rightarrow> bool" where
  "duration_le a b \<longleftrightarrow> \<not> duration_gt a b"

definition duration_ge :: "timespec \<Rightarrow> timespec \<Rightarrow> bool" where
  "duration_ge a b \<longleftrightarrow> \<not> duration_lt a b"

text \<open>The comparison operators are a linear order, which the instance shows.\<close>

instantiation timespec :: linorder
begin

definition less_timespec :: "timespec \<Rightarrow> timespec \<Rightarrow> bool" where
  "less_timespec a b = duration_lt a b"

definition less_eq_timespec :: "timespec \<Rightarrow> timespec \<Rightarrow> bool" where
  "less_eq_timespec a b = duration_le a b"

instance
  by standard
    (auto simp: less_timespec_def less_eq_timespec_def duration_le_def duration_lt_def duration_gt_def
      intro: timespec.expand)

end

section \<open>Clock\<close>

text \<open>\<open>clock_gettime\<close> fills the clock or fails with an error number.\<close>

definition clock_ctor_nothrow :: "(int \<Rightarrow> int + timespec) \<Rightarrow> int \<Rightarrow> timespec res" where
  "clock_ctor_nothrow gettime clock_id =
     (case gettime clock_id of Inl e \<Rightarrow> Fault Assert_Failed | Inr t \<Rightarrow> Ret t)"

definition clock_ctor :: "(int \<Rightarrow> int + timespec) \<Rightarrow> int \<Rightarrow> timespec res" where
  "clock_ctor gettime clock_id =
     (case gettime clock_id of
        Inl e \<Rightarrow> Throw (System_Error e ''clock_gettime() failed'') | Inr t \<Rightarrow> Ret t)"

definition clock_zero :: timespec where
  "clock_zero = Timespec 0 0"

definition clock_from_timespec :: "timespec \<Rightarrow> timespec" where
  "clock_from_timespec ts = Timespec (tv_sec ts) (tv_nsec ts)"

definition clock_make :: "int \<Rightarrow> int \<Rightarrow> timespec" where
  "clock_make sec nsec = Timespec sec nsec"

definition clock_infinity :: timespec where
  "clock_infinity = clock_make 0x7fffffff 0"

definition time_now :: "(int \<Rightarrow> int + timespec) \<Rightarrow> int \<Rightarrow> timespec res" where
  "time_now gettime clock_id = clock_ctor gettime clock_id"

text \<open>The clocks that \<open>now_utc\<close> asserts, by their Linux numbers.\<close>

definition CLOCK_REALTIME :: int where "CLOCK_REALTIME = 0"
definition CLOCK_REALTIME_COARSE :: int where "CLOCK_REALTIME_COARSE = 5"
definition CLOCK_REALTIME_ALARM :: int where "CLOCK_REALTIME_ALARM = 8"

definition now_utc :: "(int \<Rightarrow> int + timespec) \<Rightarrow> int \<Rightarrow> timespec res" where
  "now_utc gettime clock_id =
     (if \<not> (CLOCK_REALTIME = clock_id \<or> CLOCK_REALTIME_ALARM = clock_id \<or> CLOCK_REALTIME_COARSE = clock_id)
      then Fault Assert_Failed else clock_ctor gettime clock_id)"

definition clock_diff :: "timespec \<Rightarrow> timespec \<Rightarrow> timespec" where
  "clock_diff a b = timespec_subtract a b"

definition clock_add :: "timespec \<Rightarrow> timespec \<Rightarrow> timespec" where
  "clock_add a d = timespec_add a d"

definition clock_sub :: "timespec \<Rightarrow> timespec \<Rightarrow> timespec" where
  "clock_sub a d = timespec_subtract a d"

text \<open>The assignments go through a temporary clock.\<close>

definition clock_add_assign :: "timespec \<Rightarrow> timespec \<Rightarrow> timespec" where
  "clock_add_assign a d = (let r = clock_from_timespec (timespec_add a d) in Timespec (tv_sec r) (tv_nsec r))"

definition clock_sub_assign :: "timespec \<Rightarrow> timespec \<Rightarrow> timespec" where
  "clock_sub_assign a d = (let r = clock_from_timespec (timespec_subtract a d) in Timespec (tv_sec r) (tv_nsec r))"

definition clock_not :: "timespec \<Rightarrow> bool" where
  "clock_not a \<longleftrightarrow> 0 = tv_sec a \<and> 0 = tv_nsec a"

definition clock_eq :: "timespec \<Rightarrow> timespec \<Rightarrow> bool" where
  "clock_eq a b \<longleftrightarrow> tv_sec a = tv_sec b \<and> tv_nsec a = tv_nsec b"

definition clock_ne :: "timespec \<Rightarrow> timespec \<Rightarrow> bool" where
  "clock_ne a b \<longleftrightarrow> \<not> clock_eq a b"

definition clock_lt :: "timespec \<Rightarrow> timespec \<Rightarrow> bool" where
  "clock_lt a b \<longleftrightarrow> tv_sec a < tv_sec b \<or> tv_sec a = tv_sec b \<and> tv_nsec a < tv_nsec b"

definition clock_gt :: "timespec \<Rightarrow> timespec \<Rightarrow> bool" where
  "clock_gt a b \<longleftrightarrow> tv_sec a > tv_sec b \<or> tv_sec a = tv_sec b \<and> tv_nsec a > tv_nsec b"

definition clock_le :: "timespec \<Rightarrow> timespec \<Rightarrow> bool" where
  "clock_le a b \<longleftrightarrow> \<not> clock_gt a b"

definition clock_ge :: "timespec \<Rightarrow> timespec \<Rightarrow> bool" where
  "clock_ge a b \<longleftrightarrow> \<not> clock_lt a b"

section \<open>Texts\<close>

text \<open>The \<open>printf\<close> conversion \<open>%0wd\<close>.\<close>

definition printf_0 :: "nat \<Rightarrow> int \<Rightarrow> string" where
  "printf_0 w v =
     (if v < 0 then CHR ''-'' # fill_left (dec_nat (nat (- v))) (w - 1) CHR ''0''
      else fill_left (dec_nat (nat v)) w CHR ''0'')"

definition duration_to_string :: "timespec \<Rightarrow> bool \<Rightarrow> string" where
  "duration_to_string d milliseconds =
     printf_0 2 (tv_sec d sdiv 3600) @ '':'' @ printf_0 2 ((tv_sec d sdiv 60) smod 60) @ '':''
     @ printf_0 2 ((tv_sec d sdiv 1) smod 60)
     @ (if milliseconds then ''.'' @ printf_0 3 (tv_nsec d sdiv 1000000) else [])"

record tm =
  tm_year :: int
  tm_mon :: int
  tm_mday :: int
  tm_hour :: int
  tm_min :: int
  tm_sec :: int
  tm_gmtoff :: int

definition fmt_date :: "tm \<Rightarrow> string" where
  "fmt_date t = to_string_int (1900 + tm_year t) @ ''-'' @ printf_0 2 (tm_mon t + 1) @ ''-'' @ printf_0 2 (tm_mday t)"

definition fmt_time :: "tm \<Rightarrow> string" where
  "fmt_time t = printf_0 2 (tm_hour t) @ '':'' @ printf_0 2 (tm_min t) @ '':'' @ printf_0 2 (tm_sec t)"

text \<open>What an array of \<open>n\<close> characters holds after \<open>strftime\<close> has written a text into it.\<close>

definition strftime :: "nat \<Rightarrow> string \<Rightarrow> string res" where
  "strftime n s = (if length s < n then Ret s else Fault Out_Of_Bounds)"

text \<open>
  \<open>snprintf\<close> of the milliseconds at \<open>offset\<close> of an array of \<open>n\<close> characters: what does not fit is cut
  off, what followed before is gone, and a text that ended before \<open>offset\<close> still does.
\<close>

definition put_milliseconds :: "nat \<Rightarrow> nat \<Rightarrow> string \<Rightarrow> timespec \<Rightarrow> string \<Rightarrow> string" where
  "put_milliseconds n offset sfx c s =
     (if length s < offset then s
      else take offset s @ take (n - offset - 1) (''.'' @ printf_0 3 ((tv_nsec c sdiv 1000000) smod 1000) @ sfx))"

definition localtime_offset_string :: "(int \<Rightarrow> tm) \<Rightarrow> timespec \<Rightarrow> string" where
  "localtime_offset_string localtime c =
     (let off = tm_gmtoff (localtime (tv_sec c));
          (sign, offset) = (if off \<ge> 0 then (CHR ''+'', off sdiv 60) else (CHR ''-'', - (off sdiv 60)))
      in [sign] @ printf_0 2 (offset sdiv 60) @ '':'' @ printf_0 2 (offset smod 60))"

definition to_string_utc_date :: "(int \<Rightarrow> tm) \<Rightarrow> timespec \<Rightarrow> string res" where
  "to_string_utc_date gmtime c = strftime 12 (fmt_date (gmtime (tv_sec c)) @ ''Z'')"

definition to_string_utc_date_and_time :: "(int \<Rightarrow> tm) \<Rightarrow> timespec \<Rightarrow> string res" where
  "to_string_utc_date_and_time gmtime c =
     strftime 21 (fmt_date (gmtime (tv_sec c)) @ ''T'' @ fmt_time (gmtime (tv_sec c)) @ ''Z'')"

definition to_string_utc_time :: "(int \<Rightarrow> tm) \<Rightarrow> timespec \<Rightarrow> string res" where
  "to_string_utc_time gmtime c = strftime 10 (fmt_time (gmtime (tv_sec c)) @ ''Z'')"

definition to_string_utc_time_milliseconds :: "(int \<Rightarrow> tm) \<Rightarrow> timespec \<Rightarrow> string res" where
  "to_string_utc_time_milliseconds gmtime c =
     map_res (put_milliseconds 14 8 ''Z'' c) (strftime 14 (fmt_time (gmtime (tv_sec c))))"

definition to_string_utc :: "(int \<Rightarrow> tm) \<Rightarrow> timespec \<Rightarrow> bool \<Rightarrow> string res" where
  "to_string_utc gmtime c milliseconds =
     map_res (\<lambda>s. if milliseconds then put_milliseconds 25 19 ''Z'' c s else s)
       (strftime 25 (fmt_date (gmtime (tv_sec c)) @ ''T'' @ fmt_time (gmtime (tv_sec c)) @ ''Z''))"

definition to_string_local_date :: "(int \<Rightarrow> tm) \<Rightarrow> timespec \<Rightarrow> string res" where
  "to_string_local_date localtime c =
     map_res (\<lambda>s. s @ localtime_offset_string localtime c) (strftime 11 (fmt_date (localtime (tv_sec c))))"

definition to_string_local_date_and_time :: "(int \<Rightarrow> tm) \<Rightarrow> timespec \<Rightarrow> string res" where
  "to_string_local_date_and_time localtime c =
     map_res (\<lambda>s. s @ localtime_offset_string localtime c)
       (strftime 20 (fmt_date (localtime (tv_sec c)) @ ''T'' @ fmt_time (localtime (tv_sec c))))"

definition to_string_local_time :: "(int \<Rightarrow> tm) \<Rightarrow> timespec \<Rightarrow> string res" where
  "to_string_local_time localtime c =
     map_res (\<lambda>s. s @ localtime_offset_string localtime c) (strftime 9 (fmt_time (localtime (tv_sec c))))"

text \<open>These two take the broken-down time from \<open>gmtime\<close> and the offset from \<open>localtime\<close>.\<close>

definition to_string_local_time_milliseconds :: "(int \<Rightarrow> tm) \<Rightarrow> (int \<Rightarrow> tm) \<Rightarrow> timespec \<Rightarrow> string res" where
  "to_string_local_time_milliseconds gmtime localtime c =
     map_res (\<lambda>s. put_milliseconds 14 8 [] c s @ localtime_offset_string localtime c)
       (strftime 14 (fmt_time (gmtime (tv_sec c))))"

definition to_string_local :: "(int \<Rightarrow> tm) \<Rightarrow> (int \<Rightarrow> tm) \<Rightarrow> timespec \<Rightarrow> bool \<Rightarrow> string res" where
  "to_string_local gmtime localtime c milliseconds =
     map_res (\<lambda>s. (if milliseconds then put_milliseconds 24 19 [] c s else s) @ localtime_offset_string localtime c)
       (strftime 24 (fmt_date (gmtime (tv_sec c)) @ ''T'' @ fmt_time (gmtime (tv_sec c))))"

section \<open>The abstract value\<close>

definition normal :: "timespec \<Rightarrow> bool" where
  "normal t \<longleftrightarrow> 0 \<le> tv_nsec t \<and> tv_nsec t < nsec_per_sec"

definition ns :: "timespec \<Rightarrow> int" where
  "ns t = tv_sec t * nsec_per_sec + tv_nsec t"

lemma ns_eq_iff: "normal a \<Longrightarrow> normal b \<Longrightarrow> ns a = ns b \<longleftrightarrow> a = b"
proof -
  assume n: "normal a" "normal b"
  have "ns t div nsec_per_sec = tv_sec t" "ns t mod nsec_per_sec = tv_nsec t" if "normal t" for t
    using that by (simp_all add: ns_def normal_def nsec_per_sec_def)
  with n show ?thesis by (metis timespec.expand)
qed

lemma ns_less_iff:
  assumes "normal a" and "normal b"
  shows "ns a < ns b \<longleftrightarrow> duration_lt a b"
proof -
  consider "tv_sec a < tv_sec b" | "tv_sec a = tv_sec b" | "tv_sec b < tv_sec a" by linarith
  then show ?thesis
  proof cases
    case 1
    then have "(tv_sec a + 1) * nsec_per_sec \<le> tv_sec b * nsec_per_sec" by (intro mult_right_mono) (simp_all add: nsec_per_sec_def)
    with 1 assms show ?thesis by (simp add: ns_def duration_lt_def normal_def distrib_right)
  next
    case 2
    then show ?thesis by (simp add: ns_def duration_lt_def)
  next
    case 3
    then have "(tv_sec b + 1) * nsec_per_sec \<le> tv_sec a * nsec_per_sec" by (intro mult_right_mono) (simp_all add: nsec_per_sec_def)
    with 3 assms show ?thesis by (simp add: ns_def duration_lt_def normal_def distrib_right)
  qed
qed

lemma timespec_add_ns: "ns (timespec_add a b) = ns a + ns b"
  by (simp add: timespec_add_def ns_def nsec_per_sec_def Let_def)

lemma timespec_subtract_ns: "ns (timespec_subtract a b) = ns a - ns b"
  by (simp add: timespec_subtract_def ns_def nsec_per_sec_def Let_def)

lemma timespec_add_normal: "normal a \<Longrightarrow> normal b \<Longrightarrow> normal (timespec_add a b)"
  by (auto simp: timespec_add_def normal_def nsec_per_sec_def Let_def)

lemma timespec_subtract_normal: "normal a \<Longrightarrow> normal b \<Longrightarrow> normal (timespec_subtract a b)"
  by (auto simp: timespec_subtract_def normal_def nsec_per_sec_def Let_def)

lemma fill_zero_digits:
  assumes "0 \<le> v"
  shows "scan_number (printf_0 w v) 10 = Some (False, nat v, length (printf_0 w v))"
    and "c \<in> set (printf_0 w v) \<Longrightarrow> is_digit 10 c \<and> c \<noteq> NUL \<and> c \<noteq> CHR '':'' \<and> \<not> is_space c"
    and "printf_0 w v \<noteq> []"
proof -
  obtain k where p: "printf_0 w v = replicate k CHR ''0'' @ dec_nat (nat v)"
    using assms by (auto simp: printf_0_def fill_left_def)
  have chars: "is_digit 10 c \<and> c \<noteq> NUL \<and> c \<noteq> CHR '':'' \<and> \<not> is_space c \<and> c \<noteq> CHR ''-'' \<and> c \<noteq> CHR ''+''"
    if "c \<in> set (printf_0 w v)" for c
  proof -
    from that p consider "c = CHR ''0''" | "c \<in> set (dec_nat (nat v))" by (auto split: if_splits)
    then show ?thesis
    proof cases
      case 1
      then show ?thesis by (simp add: is_digit_def digit_value_def is_space_def)
    next
      case 2
      with dec_nat_digits [of "nat v"] have "is_digit 10 c" "c \<noteq> NUL" "\<not> is_space c" "c \<noteq> CHR ''-''" "c \<noteq> CHR ''+''" by auto
      moreover from this(1) have "c \<noteq> CHR '':''" by (auto simp: is_digit_def digit_value_def)
      ultimately show ?thesis by blast
    qed
  qed
  show "c \<in> set (printf_0 w v) \<Longrightarrow> is_digit 10 c \<and> c \<noteq> NUL \<and> c \<noteq> CHR '':'' \<and> \<not> is_space c"
    using chars by blast
  show ne: "printf_0 w v \<noteq> []" using p by simp
  have "foldl (\<lambda>a c. a * 10 + the (digit_value c)) 0 (replicate k CHR ''0'') = 0"
    by (induction k) (simp_all add: digit_value_def)
  then have val: "digits_value 10 (printf_0 w v) = nat v"
    using digits_value_dec [of "nat v"] by (simp add: p digits_value_def)
  have dw: "dropWhile is_space (printf_0 w v) = printf_0 w v"
    using chars ne by (cases "printf_0 w v") auto
  have sg: "scan_sign (printf_0 w v) = (False, printf_0 w v)"
    using chars ne by (cases "printf_0 w v") auto
  have tw: "takeWhile (is_digit 10) (printf_0 w v) = printf_0 w v"
    using chars by (auto simp: takeWhile_eq_all_conv)
  show "scan_number (printf_0 w v) 10 = Some (False, nat v, length (printf_0 w v))"
    using ne by (simp add: scan_number_def dw sg scan_prefix_def tw val)
qed

lemma stoi64_printf_0:
  assumes "0 \<le> v" and "v < 2 ^ 63"
  shows "fst (stoi64 (printf_0 w v) 10 err) = Ret v"
proof -
  have "c_str (printf_0 w v) = printf_0 w v"
    using fill_zero_digits(2) [OF assms(1)] by (auto simp: c_str_def takeWhile_eq_all_conv)
  moreover have "\<not> not_a_number (printf_0 w v)"
    using fill_zero_digits(2,3) [OF assms(1)] hd_in_set by (auto simp: not_a_number_def)
  ultimately show ?thesis
    using assms fill_zero_digits(1) [OF assms(1), of w]
    by (simp add: stoi64_def strtol_def stopped_early_def LONG_MIN_def LONG_MAX_def ERANGE_def)
qed

section \<open>Properties\<close>

text \<open>
  C40.  Duration and clock arithmetic refines integer arithmetic on nanoseconds: on normal values
  the sum and the difference are normal and exact, the operators compare the nanoseconds, adding
  and subtracting a duration are inverse, and seconds within half the range do not overflow.
\<close>

theorem time_arithmetic:
  assumes "normal a" and "normal b"
  shows "normal (duration_add a b) \<and> ns (duration_add a b) = ns a + ns b
    \<and> normal (duration_sub a b) \<and> ns (duration_sub a b) = ns a - ns b
    \<and> duration_eq a b = (ns a = ns b) \<and> duration_lt a b = (ns a < ns b) \<and> duration_gt a b = (ns a > ns b)
    \<and> duration_le a b = (ns a \<le> ns b) \<and> duration_ge a b = (ns a \<ge> ns b)
    \<and> clock_sub (clock_add a b) b = a \<and> clock_add b (clock_diff a b) = a
    \<and> (\<bar>tv_sec a\<bar> < 2 ^ 62 \<longrightarrow> \<bar>tv_sec b\<bar> < 2 ^ 62 \<longrightarrow>
        \<bar>tv_sec (duration_add a b)\<bar> < 2 ^ 63 \<and> \<bar>tv_sec (duration_sub a b)\<bar> < 2 ^ 63)"
proof -
  have eq: "duration_eq a b = (ns a = ns b)"
    using ns_eq_iff [OF assms] by (auto simp: duration_eq_def intro: timespec.expand)
  have gt: "duration_gt a b = (ns a > ns b)"
    using ns_less_iff [OF assms(2,1)] by (auto simp: duration_gt_def duration_lt_def)
  have inv1: "clock_sub (clock_add a b) b = a"
  proof -
    have "normal (clock_sub (clock_add a b) b)" "ns (clock_sub (clock_add a b) b) = ns a"
      using assms by (simp_all add: clock_sub_def clock_add_def timespec_add_normal timespec_subtract_normal
          timespec_add_ns timespec_subtract_ns)
    with ns_eq_iff assms(1) show ?thesis by blast
  qed
  have inv2: "clock_add b (clock_diff a b) = a"
  proof -
    have "normal (clock_add b (clock_diff a b))" "ns (clock_add b (clock_diff a b)) = ns a"
      using assms by (simp_all add: clock_diff_def clock_add_def timespec_add_normal timespec_subtract_normal
          timespec_add_ns timespec_subtract_ns)
    with ns_eq_iff assms(1) show ?thesis by blast
  qed
  have range: "\<bar>tv_sec (duration_add a b)\<bar> < 2 ^ 63 \<and> \<bar>tv_sec (duration_sub a b)\<bar> < 2 ^ 63"
    if "\<bar>tv_sec a\<bar> < 2 ^ 62" "\<bar>tv_sec b\<bar> < 2 ^ 62"
    using that by (auto simp: duration_add_def duration_sub_def timespec_add_def timespec_subtract_def Let_def)
  show ?thesis
    using assms eq gt inv1 inv2 range ns_less_iff [OF assms]
    by (auto simp: duration_add_def duration_sub_def timespec_add_normal timespec_subtract_normal
        timespec_add_ns timespec_subtract_ns duration_le_def duration_ge_def)
qed

theorem time_arithmetic_witness:
  "ns (duration_add (Timespec 1 600000000) (Timespec 2 500000000)) = 4100000000"
  using time_arithmetic [of "Timespec 1 600000000" "Timespec 2 500000000"]
  by (simp add: normal_def ns_def nsec_per_sec_def)

text \<open>
  A non-negative number of seconds, milliseconds, microseconds or nanoseconds, or of any unit
  that divides the second into a divisor of \<open>10^9\<close> parts, becomes a normal duration of exactly that
  length, and converts back to the same number.
\<close>

theorem duration_of_ratio:
  assumes "num r = 1" and "0 < den r" and "den r dvd 1000000000" and "0 \<le> ticks"
    and "duration_from_ratio r ticks = Ret d"
  shows "normal d \<and> ns d = ticks * (1000000000 div den r) \<and> duration_to_ratio r d = Ret ticks"
proof -
  obtain f where f: "1000000000 = den r * f" using assms(3) by (auto simp: dvd_def)
  then have fpos: "0 < f" using assms(2) by (metis zero_less_mult_pos zero_less_numeral)
  have fdiv: "1000000000 div den r = f" "1000000000 sdiv den r = f"
    using f assms(2) fpos by (simp_all add: f signed_divide_int_def abs_mult sgn_mult)
  let ?x = "ticks * f"
  from assms(5) have x: "?x < 2 ^ 63" "- (2 ^ 63) \<le> ?x"
    and d: "d = Timespec (ticks sdiv den r) (?x mod 2 ^ 64 mod 1000000000)"
    by (auto simp: duration_from_ratio_def res_bind_def i64_def assms(1) fdiv Let_def split: if_splits)
  have x0: "0 \<le> ?x" using assms(4) fpos by simp
  then have nsec: "tv_nsec d = ?x mod 1000000000" using x by (simp add: d)
  have sec: "tv_sec d = ?x div 1000000000"
  proof -
    have "ticks sdiv den r = ticks div den r"
      using assms(2,4) by (cases "ticks = 0") (simp_all add: signed_divide_int_def)
    moreover have "?x div 1000000000 = ticks div den r"
      using fpos by (simp add: f div_mult_mult2)
    ultimately show ?thesis by (simp add: d)
  qed
  have nsd: "ns d = ?x" using nsec sec by (simp add: ns_def nsec_per_sec_def)
  have norm: "normal d" using nsec by (simp add: normal_def nsec_per_sec_def)
  have bk: "duration_to_ratio r d = Ret ticks"
  proof -
    have "tv_sec d * 1000000000 \<le> ?x" using nsd norm by (simp add: ns_def normal_def nsec_per_sec_def)
    moreover have "0 \<le> tv_sec d" unfolding sec using x0 by (simp only: pos_imp_zdiv_nonneg_iff zero_less_numeral)
    ultimately have "i64 (tv_sec d * 1000000000) = Ret (tv_sec d * 1000000000)"
      using x by (simp add: i64_def)
    moreover have "i64 (tv_sec d * 1000000000 + tv_nsec d) = Ret ?x"
      using nsd x by (simp add: i64_def ns_def nsec_per_sec_def)
    moreover have "rv_to nano r ?x = Ret ticks"
    proof -
      have g: "gcd (den r) (1000000000) = den r" using assms(2,3) by simp
      have "ratio_divide nano r = \<lparr>num = 1, den = f\<rparr>"
        using assms(1,2) g fdiv(1) by (simp add: ratio_divide_def nano_def)
      moreover have "?x sdiv f = ticks"
        using fpos assms(4) by (cases "ticks = 0") (simp_all add: signed_divide_int_def)
      moreover have "ticks < 2 ^ 63" "- (2 ^ 63) \<le> ticks"
        using assms(4) fpos x mult_left_mono [of 1 f ticks] by simp_all
      ultimately show ?thesis using x by (simp add: rv_to_def i64_def)
    qed
    ultimately show ?thesis by (simp add: duration_to_ratio_def res_bind_def)
  qed
  from norm nsd bk fdiv show ?thesis by simp
qed

theorem duration_of_ratio_witness:
  "duration_from_ratio \<lparr>num = 1, den = 1000\<rparr> 1500 = Ret (Timespec 1 500000000)
   \<and> duration_to_ratio \<lparr>num = 1, den = 1000\<rparr> (Timespec 1 500000000) = Ret 1500"
proof -
  have e: "duration_from_ratio \<lparr>num = 1, den = 1000\<rparr> 1500 = Ret (Timespec 1 500000000)" by code_simp
  with duration_of_ratio [OF _ _ _ _ e] show ?thesis by simp
qed

text \<open>
  A negative quantity never becomes the duration it names: the remainder is taken of the
  unsigned 64-bit conversion of the product, so that the result is always longer than the exact
  value.
\<close>

theorem duration_of_negative:
  assumes "num r = 1" and "0 < den r" and "den r dvd 1000000000" and "ticks < 0"
    and "duration_from_ratio r ticks = Ret d"
  shows "ticks * (1000000000 div den r) < ns d"
proof -
  obtain f where f: "1000000000 = den r * f" using assms(3) by (auto simp: dvd_def)
  then have fpos: "0 < f" using assms(2) by (metis zero_less_mult_pos zero_less_numeral)
  have fdiv: "1000000000 div den r = f" "1000000000 sdiv den r = f"
    using f assms(2) fpos by (simp_all add: f signed_divide_int_def abs_mult sgn_mult)
  let ?x = "ticks * f"
  from assms(5) have x: "- (2 ^ 63) \<le> ?x"
    and d: "d = Timespec (ticks sdiv den r) (?x mod 2 ^ 64 mod 1000000000)"
    by (auto simp: duration_from_ratio_def res_bind_def i64_def assms(1) fdiv Let_def split: if_splits)
  let ?q = "- ticks div den r"
  have sec: "tv_sec d = - ?q" using assms(2,4) by (simp add: d signed_divide_int_def sgn_if)
  have "- ticks = ?q * den r + - ticks mod den r" by simp
  then have "- ticks * f = ?q * (den r * f) + (- ticks mod den r) * f"
    by (metis distrib_right mult.assoc)
  then have eq: "?x = tv_sec d * 1000000000 - (- ticks mod den r) * f"
    using sec f by simp
  have nsd: "ns d = tv_sec d * 1000000000 + ?x mod 2 ^ 64 mod 1000000000"
    by (simp add: d ns_def nsec_per_sec_def)
  have nn: "0 \<le> ?x mod 2 ^ 64 mod 1000000000" by simp
  show ?thesis
  proof (cases "- ticks mod den r = 0")
    case False
    then have "0 < - ticks mod den r" using assms(2) by (simp add: order_less_le)
    then have "0 < (- ticks mod den r) * f" using fpos by simp
    with eq nsd nn fdiv show ?thesis by simp
  next
    case True
    then have xe: "?x = tv_sec d * 1000000000" using eq by simp
    have "?x < 0" using assms(4) fpos by (simp add: mult_neg_pos)
    then have "?x mod 2 ^ 64 = ?x + 2 ^ 64"
    proof -
      have "(?x + 2 ^ 64) mod 2 ^ 64 = ?x + 2 ^ 64"
        using x \<open>?x < 0\<close> by (intro mod_pos_pos_trivial) simp_all
      then show ?thesis by (metis mod_add_self2)
    qed
    then have "?x mod 2 ^ 64 mod 1000000000 = (tv_sec d * 1000000000 + 2 ^ 64) mod 1000000000" using xe by simp
    also have "\<dots> = 709551616" by simp
    finally show ?thesis using nsd xe fdiv by simp
  qed
qed

theorem duration_of_negative_witness:
  "\<exists>d. duration_from_ratio \<lparr>num = 1, den = 1000\<rparr> (- 1) = Ret d \<and> - 1000000 < ns d"
proof -
  have e: "duration_from_ratio \<lparr>num = 1, den = 1000\<rparr> (- 1) = Ret (Timespec 0 708551616)" by code_simp
  with duration_of_negative [OF _ _ _ _ e] show ?thesis by simp
qed

text \<open>
  Scaling a duration loses what it should carry: dividing drops the nanoseconds, because they
  are divided as integers, so a duration below one second divided by anything is zero; and
  multiplying uses only the integer part of the factor for the seconds.
\<close>

theorem duration_scaling_truncates:
  assumes "rnd 0 = 0" and "normal (Timespec 0 n)" and "x \<noteq> 0"
  shows "duration_div rnd (Timespec 0 n) x = Ret duration_zero
    \<and> duration_mul rnd (Timespec s 0) x = Timespec (s * trunc x) 0"
proof -
  have "n sdiv nsec_per_sec = 0"
    using assms(2) by (cases "n = 0") (simp_all add: normal_def nsec_per_sec_def signed_divide_int_def)
  then show ?thesis
    using assms(1,3)
    by (simp add: duration_div_def timespec_divide_def duration_mul_def timespec_multiply_def duration_zero_def
        trunc_def Let_def)
qed

theorem duration_scaling_truncates_witness:
  "duration_div (\<lambda>x. x) (Timespec 0 500000000) 2 = Ret duration_zero
   \<and> duration_mul (\<lambda>x. x) (Timespec 2 0) (3 / 2) = Timespec 2 0"
proof -
  have "trunc (3 / 2) = 1" by (simp add: trunc_def floor_eq_iff)
  then show ?thesis
    using duration_scaling_truncates [of "\<lambda>x. x" 500000000 2 0] duration_scaling_truncates [of "\<lambda>x. x" 0 "3 / 2" 2]
    by (simp add: normal_def nsec_per_sec_def)
qed

text \<open>
  The text of a non-negative duration splits at its colons into the texts of three numbers, of
  which the minutes and the seconds are below 60, and which add up to its seconds.
\<close>

theorem duration_text:
  assumes "0 \<le> tv_sec d" and "tv_sec d < 2 ^ 63"
  shows "\<exists>h m s a b c. split_char (duration_to_string d False) CHR '':'' False = [a, b, c]
    \<and> fst (stoi64 a 10 err) = Ret h \<and> fst (stoi64 b 10 err) = Ret m \<and> fst (stoi64 c 10 err) = Ret s
    \<and> m < 60 \<and> s < 60 \<and> h * 3600 + m * 60 + s = tv_sec d"
proof -
  let ?t = "tv_sec d"
  let ?h = "?t div 3600" and ?m = "(?t div 60) mod 60" and ?s = "?t mod 60"
  have pos: "0 \<le> ?h" "0 \<le> ?m" "0 \<le> ?s" using assms(1) by (simp_all add: pos_imp_zdiv_nonneg_iff)
  have ops: "?t sdiv 3600 = ?h" "?t sdiv 60 smod 60 = ?m" "?t sdiv 1 smod 60 = ?s" "?t smod 60 = ?s"
    using assms(1) by (cases "?t = 0"; simp add: signed_divide_int_def signed_modulo_int_def sgn_if pos_imp_zdiv_nonneg_iff minus_div_mult_eq_mod)+
  let ?ts = "[printf_0 2 ?h, printf_0 2 ?m, printf_0 2 ?s]"
  have tx: "duration_to_string d False = join ?ts '':''"
    by (simp add: duration_to_string_def ops join_def)
  have free: "\<forall>t \<in> set ?ts. CHR '':'' \<notin> set t"
  proof -
    have "CHR '':'' \<notin> set (printf_0 2 v)" if "0 \<le> v" for v
      using fill_zero_digits(2) [OF that, of "CHR '':''" 2] by blast
    with pos show ?thesis by simp
  qed
  have ne: "join ?ts '':'' \<noteq> []" by (simp add: join_def)
  have sp: "split_char (duration_to_string d False) CHR '':'' False = ?ts"
    using tokens_join [of ?ts, OF _ free] ne by (simp add: tx split_char_def split_tokens)
  have lt: "?h < 2 ^ 63" "?m < 60" "?s < 60" using assms by (simp_all add: div_less_dividend)
  have sum: "?h * 3600 + ?m * 60 + ?s = ?t"
  proof -
    have "?t div 60 = (?t div 60) div 60 * 60 + ?m" by simp
    moreover have "(?t div 60) div 60 = ?h" by (simp add: zdiv_zmult2_eq flip: zdiv_zmult2_eq)
    moreover have "?t = ?t div 60 * 60 + ?s" by simp
    ultimately show ?thesis by linarith
  qed
  have "(60 :: int) < 2 ^ 63" by simp
  then have big: "?m < 2 ^ 63" "?s < 2 ^ 63" using lt(2,3) by (blast intro: order_less_trans)+
  have "split_char (duration_to_string d False) CHR '':'' False = ?ts
    \<and> fst (stoi64 (printf_0 2 ?h) 10 err) = Ret ?h \<and> fst (stoi64 (printf_0 2 ?m) 10 err) = Ret ?m
    \<and> fst (stoi64 (printf_0 2 ?s) 10 err) = Ret ?s \<and> ?m < 60 \<and> ?s < 60 \<and> ?h * 3600 + ?m * 60 + ?s = ?t"
    by (intro conjI sp lt sum stoi64_printf_0 pos big)
  then show ?thesis by blast
qed

theorem duration_text_witness: "\<exists>a b c. split_char (duration_to_string (Timespec 3725 0) False) CHR '':'' False = [a, b, c]"
  using duration_text [of "Timespec 3725 0" 0] by auto

text \<open>
  \<open>to_string_local\<close> prints the UTC time with the local offset: whenever the text fits its array
  the result is the text of \<open>gmtime\<close> followed by the offset of \<open>localtime\<close>, so that it agrees with
  \<open>to_string_local_date_and_time\<close> exactly when UTC and local time coincide.
\<close>

theorem local_time_is_utc:
  assumes "to_string_local_date_and_time localtime c = Ret l" and "to_string_utc_date_and_time gmtime c = Ret u"
  shows "to_string_local gmtime localtime c False = Ret (butlast u @ localtime_offset_string localtime c)
    \<and> (to_string_local gmtime localtime c False = Ret l) =
        (fmt_date (localtime (tv_sec c)) @ ''T'' @ fmt_time (localtime (tv_sec c))
         = fmt_date (gmtime (tv_sec c)) @ ''T'' @ fmt_time (gmtime (tv_sec c)))"
proof -
  let ?g = "fmt_date (gmtime (tv_sec c)) @ ''T'' @ fmt_time (gmtime (tv_sec c))"
  have u: "u = ?g @ ''Z''" "length (?g @ ''Z'') < 21"
    using assms(2) by (auto simp: to_string_utc_date_and_time_def strftime_def split: if_splits)
  have l: "l = (fmt_date (localtime (tv_sec c)) @ ''T'' @ fmt_time (localtime (tv_sec c))) @ localtime_offset_string localtime c"
    using assms(1) by (auto simp: to_string_local_date_and_time_def strftime_def split: if_splits)
  have "to_string_local gmtime localtime c False = Ret (?g @ localtime_offset_string localtime c)"
    using u(2) by (simp add: to_string_local_def strftime_def)
  moreover have "butlast u = ?g" using u(1) by (simp add: butlast_append)
  ultimately show ?thesis unfolding l by auto
qed

theorem local_time_is_utc_witness:
  "to_string_local (\<lambda>_. \<lparr>tm_year = 70, tm_mon = 0, tm_mday = 1, tm_hour = 0, tm_min = 0, tm_sec = 0, tm_gmtoff = 0\<rparr>)
     (\<lambda>_. \<lparr>tm_year = 70, tm_mon = 0, tm_mday = 1, tm_hour = 1, tm_min = 0, tm_sec = 0, tm_gmtoff = 3600\<rparr>)
     (Timespec 0 0) False = Ret ''1970-01-01T00:00:00+01:00''"
proof -
  let ?g = "\<lambda>_ :: int. \<lparr>tm_year = 70, tm_mon = 0, tm_mday = 1, tm_hour = 0, tm_min = 0, tm_sec = 0, tm_gmtoff = 0\<rparr>"
  let ?l = "\<lambda>_ :: int. \<lparr>tm_year = 70, tm_mon = 0, tm_mday = 1, tm_hour = 1, tm_min = 0, tm_sec = 0, tm_gmtoff = 3600\<rparr>"
  have l: "to_string_local_date_and_time ?l (Timespec 0 0) = Ret ''1970-01-01T01:00:00+01:00''" by code_simp
  have u: "to_string_utc_date_and_time ?g (Timespec 0 0) = Ret ''1970-01-01T00:00:00Z''" by code_simp
  have o: "localtime_offset_string ?l (Timespec 0 0) = ''+01:00''" by code_simp
  from local_time_is_utc [OF l u] o show ?thesis by simp
qed

end
