(* ===== verification/Time_Parse.thy ===== *)
theory Time_Parse
  imports Time
begin

text \<open>
  \<open>time::to_clock\<close> of \<open>src/hlib_time.cpp\<close>, which reads an ISO 8601 text.

  \<open>strptime\<close> and \<open>timegm\<close> are parameters.  The first takes a text, a format and a broken-down time,
  and gives what it has not read and the broken-down time with the fields it has read; the second
  gives the seconds.  The format of \<open>sscanf\<close> is written out: a point, white space, and a number with
  its sign in at most three characters.
\<close>

section \<open>Parsing\<close>

type_synonym strptime = "string \<Rightarrow> string \<Rightarrow> tm \<Rightarrow> (string \<times> tm) option"

definition tm_zero :: tm where
  "tm_zero = \<lparr>tm_year = 0, tm_mon = 0, tm_mday = 0, tm_hour = 0, tm_min = 0, tm_sec = 0, tm_gmtoff = 0\<rparr>"

definition invalid_iso8601 :: "'a res" where
  "invalid_iso8601 = Throw (Logic_Error ''Invalid ISO8601 string'')"

definition parse_all :: "strptime \<Rightarrow> string \<Rightarrow> string \<Rightarrow> tm res" where
  "parse_all strptime iso8601 format =
     (case strptime (c_str iso8601) format tm_zero of
        None \<Rightarrow> invalid_iso8601
      | Some (r, t) \<Rightarrow> if r \<noteq> [] then invalid_iso8601 else Ret t)"

definition sscanf_milliseconds :: "string \<Rightarrow> int option" where
  "sscanf_milliseconds r =
     (if r = [] \<or> hd r \<noteq> CHR ''.'' then None
      else map_option (\<lambda>(neg, v, _). if neg then - int v else int v)
        (scan_number (take 3 (dropWhile is_space (tl r))) 10))"

text \<open>The text from the fourth character of \<open>r\<close>; beyond its NUL there is none.\<close>

definition to_clock :: "strptime \<Rightarrow> (tm \<Rightarrow> int) \<Rightarrow> string \<Rightarrow> timespec res" where
  "to_clock strptime timegm iso8601 =
     (if False = contains_char iso8601 CHR ''T'' then
        map_res (\<lambda>t. Timespec (timegm t) 0) (parse_all strptime iso8601 ''%Y-%m-%d'')
      else if False = contains_char iso8601 CHR ''.'' then
        map_res (\<lambda>t. Timespec (timegm t) 0) (parse_all strptime iso8601 ''%Y-%m-%dT%H:%M:%S%z'')
      else case strptime (c_str iso8601) ''%Y-%m-%dT%H:%M:%S'' tm_zero of
          None \<Rightarrow> invalid_iso8601
        | Some (r, t) \<Rightarrow>
            if r = [] \<or> hd r \<noteq> CHR ''.'' then invalid_iso8601
            else case sscanf_milliseconds r of
                None \<Rightarrow> invalid_iso8601
              | Some milliseconds \<Rightarrow>
                  if length r < 4 then Fault Out_Of_Bounds
                  else case strptime (drop 4 r) ''%z'' t of
                      None \<Rightarrow> invalid_iso8601
                    | Some (r', t') \<Rightarrow>
                        if r' \<noteq> [] then invalid_iso8601
                        else Ret (clock_from_timespec (Timespec (timegm t') (milliseconds * 1000000))))"

section \<open>Facts\<close>

lemma contains_char_iff: "contains_char s c \<longleftrightarrow> c \<in> set s"
  by (simp add: contains_char_def view_find_0 find_at_None_iff)
    (metis append_Cons append_Nil in_set_conv_decomp sublist_def)

text \<open>The characters of a formatted date and time.\<close>

definition date_time :: "tm \<Rightarrow> string" where
  "date_time t = fmt_date t @ ''T'' @ fmt_time t"

definition plain_char :: "char \<Rightarrow> bool" where
  "plain_char c \<longleftrightarrow> c \<noteq> CHR ''.'' \<and> c \<noteq> NUL"

lemma digit_plain: "is_digit 10 c \<Longrightarrow> plain_char c"
  by (auto simp: plain_char_def is_digit_def digit_value_def)

lemma printf_0_plain: "\<forall>c \<in> set (printf_0 w v). plain_char c"
proof (cases "v < 0")
  case True
  then have "set (printf_0 w v) \<subseteq> {CHR ''-'', CHR ''0''} \<union> set (dec_nat (nat (- v)))"
    by (auto simp: printf_0_def fill_left_def)
  moreover have "\<forall>c \<in> {CHR ''-'', CHR ''0''} \<union> set (dec_nat (nat (- v))). plain_char c"
    using dec_nat_digits [of "nat (- v)"] digit_plain by (auto simp: plain_char_def)
  ultimately show ?thesis by blast
next
  case False
  then have "0 \<le> v" by simp
  from fill_zero_digits(2) [OF this] digit_plain show ?thesis by blast
qed

lemma to_string_int_plain: "\<forall>c \<in> set (to_string_int v). plain_char c"
  using dec_nat_digits digit_plain by (auto simp: to_string_int_def plain_char_def)

lemma date_time_plain: "\<forall>c \<in> set (date_time t). plain_char c"
proof -
  have "plain_char CHR ''-''" "plain_char CHR '':''" "plain_char CHR ''T''" by (simp_all add: plain_char_def)
  then show ?thesis
    using printf_0_plain to_string_int_plain by (auto simp: date_time_def fmt_date_def fmt_time_def)
qed

lemma date_time_T: "CHR ''T'' \<in> set (date_time t @ s)"
  by (simp add: date_time_def)

lemma printf_0_3:
  assumes "0 \<le> v" and "v < 1000"
  shows "length (printf_0 3 v) = 3"
proof -
  have "nat v < 1000" using assms by simp
  then have "length (dec_nat (nat v)) \<le> 3"
    by (subst dec_nat.simps, subst dec_nat.simps, subst dec_nat.simps) auto
  then show ?thesis using assms(1) by (simp add: printf_0_def fill_left_def)
qed

text \<open>Three digits after the point are read as the milliseconds they are.\<close>

lemma sscanf_three_digits:
  assumes "0 \<le> v" and "v < 1000"
  shows "sscanf_milliseconds (''.'' @ printf_0 3 v @ zone) = Some v"
proof -
  have "dropWhile is_space (printf_0 3 v @ zone) = printf_0 3 v @ zone"
    using fill_zero_digits(2) [OF assms(1), of "hd (printf_0 3 v)" 3] fill_zero_digits(3) [OF assms(1), of 3]
    by (cases "printf_0 3 v") auto
  then show ?thesis
    using printf_0_3 [OF assms] fill_zero_digits(1) [OF assms(1), of 3] assms(1)
    by (simp add: sscanf_milliseconds_def)
qed

text \<open>What \<open>to_clock\<close> makes of a date and a time with a zone, and of one with milliseconds.\<close>

lemma c_str_date_time: "NUL \<notin> set zone \<Longrightarrow> c_str (date_time t @ zone) = date_time t @ zone"
  using date_time_plain [of t] by (auto simp: c_str_def takeWhile_eq_all_conv plain_char_def)

lemma to_clock_seconds:
  assumes "CHR ''.'' \<notin> set zone" and "NUL \<notin> set zone"
    and "strptime (date_time t @ zone) ''%Y-%m-%dT%H:%M:%S%z'' tm_zero = Some ([], t')"
  shows "to_clock strptime timegm (date_time t @ zone) = Ret (Timespec (timegm t') 0)"
proof -
  have "CHR ''.'' \<notin> set (date_time t @ zone)" using assms(1) date_time_plain by (auto simp: plain_char_def)
  with assms(3) show ?thesis
    using date_time_T [of t zone] c_str_date_time [OF assms(2)]
    by (simp only: to_clock_def contains_char_iff parse_all_def) simp
qed

lemma to_clock_milliseconds:
  assumes "0 \<le> ms" and "ms < 1000" and "NUL \<notin> set zone"
    and "strptime (date_time t @ ''.'' @ printf_0 3 ms @ zone) ''%Y-%m-%dT%H:%M:%S'' tm_zero
        = Some (''.'' @ printf_0 3 ms @ zone, t1)"
    and "strptime zone ''%z'' t1 = Some ([], t2)"
  shows "to_clock strptime timegm (date_time t @ ''.'' @ printf_0 3 ms @ zone) = Ret (Timespec (timegm t2) (ms * 1000000))"
proof -
  let ?s = "''.'' @ printf_0 3 ms @ zone"
  have nul: "NUL \<notin> set ?s" using assms(3) printf_0_plain by (auto simp: plain_char_def)
  have in1: "contains_char (date_time t @ ?s) CHR ''T''" "contains_char (date_time t @ ?s) CHR ''.''"
    using date_time_T [of t ?s] by (simp_all add: contains_char_iff)
  have "drop 4 ?s = zone" "\<not> length ?s < 4" using printf_0_3 [OF assms(1,2)] by simp_all
  then show ?thesis
    using in1 assms(4,5) c_str_date_time [OF nul] sscanf_three_digits [OF assms(1,2), of zone]
    unfolding to_clock_def by (simp add: clock_from_timespec_def)
qed

lemma offset_string_plain: "\<forall>c \<in> set (localtime_offset_string localtime c'). plain_char c"
proof -
  have "plain_char CHR ''+''" "plain_char CHR ''-''" "plain_char CHR '':''" by (simp_all add: plain_char_def)
  then show ?thesis
    using printf_0_plain by (auto simp: localtime_offset_string_def Let_def split: prod.splits if_splits)
qed

lemma milliseconds_of_normal:
  assumes "normal c"
  shows "(tv_nsec c sdiv 1000000) smod 1000 = tv_nsec c div 1000000"
    and "0 \<le> tv_nsec c div 1000000" and "tv_nsec c div 1000000 < 1000"
proof -
  have n: "0 \<le> tv_nsec c" "tv_nsec c < 1000000000" using assms by (simp_all add: normal_def nsec_per_sec_def)
  then show b: "0 \<le> tv_nsec c div 1000000" "tv_nsec c div 1000000 < 1000" by (simp_all add: pos_imp_zdiv_nonneg_iff)
  have "tv_nsec c sdiv 1000000 = tv_nsec c div 1000000"
    using n by (cases "tv_nsec c = 0") (simp_all add: signed_divide_int_def)
  then show "(tv_nsec c sdiv 1000000) smod 1000 = tv_nsec c div 1000000"
    using b by (cases "tv_nsec c div 1000000 = 0") (simp_all add: signed_modulo_int_def sgn_if)
qed

section \<open>Properties\<close>

text \<open>
  The UTC text of a clock reads back as the same second, and with milliseconds as the same
  millisecond, for years of four digits.  Of \<open>strptime\<close> this uses that it reads the date, the time
  and the zone \<open>Z\<close> that were written, and of \<open>timegm\<close> that it is the inverse of \<open>gmtime\<close>.
\<close>

theorem utc_text_reads_back:
  assumes "normal c" and "length (date_time (gmtime (tv_sec c))) = 19"
    and seconds: "strptime (date_time (gmtime (tv_sec c)) @ ''Z'') ''%Y-%m-%dT%H:%M:%S%z'' tm_zero
        = Some ([], gmtime (tv_sec c))"
    and part: "\<And>r. strptime (date_time (gmtime (tv_sec c)) @ ''.'' @ r) ''%Y-%m-%dT%H:%M:%S'' tm_zero
        = Some (''.'' @ r, gmtime (tv_sec c))"
    and zone: "strptime ''Z'' ''%z'' (gmtime (tv_sec c)) = Some ([], gmtime (tv_sec c))"
    and inverse: "timegm (gmtime (tv_sec c)) = tv_sec c"
  shows "res_bind (to_string_utc gmtime c False) (to_clock strptime timegm) = Ret (Timespec (tv_sec c) 0)
    \<and> res_bind (to_string_utc gmtime c True) (to_clock strptime timegm)
        = Ret (Timespec (tv_sec c) (tv_nsec c div 1000000 * 1000000))"
proof -
  let ?d = "date_time (gmtime (tv_sec c))" and ?ms = "tv_nsec c div 1000000"
  note ms = milliseconds_of_normal [OF assms(1)]
  have w: "fmt_date (gmtime (tv_sec c)) @ ''T'' @ fmt_time (gmtime (tv_sec c)) @ ''Z'' = ?d @ ''Z''"
    by (simp add: date_time_def)
  have u: "to_string_utc gmtime c False = Ret (?d @ ''Z'')"
    using assms(2) unfolding to_string_utc_def w by (simp add: strftime_def)
  have m: "to_string_utc gmtime c True = Ret (?d @ ''.'' @ printf_0 3 ?ms @ ''Z'')"
    using assms(2) printf_0_3 [OF ms(2,3)] unfolding to_string_utc_def w
    by (simp add: strftime_def put_milliseconds_def ms(1))
  have 1: "to_clock strptime timegm (?d @ ''Z'') = Ret (Timespec (tv_sec c) 0)"
    using to_clock_seconds [of "''Z''" strptime "gmtime (tv_sec c)" "gmtime (tv_sec c)" timegm] seconds inverse by simp
  have no_nul: "NUL \<notin> set ''Z''" by simp
  have 2: "to_clock strptime timegm (?d @ ''.'' @ printf_0 3 ?ms @ ''Z'') = Ret (Timespec (tv_sec c) (?ms * 1000000))"
    using to_clock_milliseconds [where strptime = strptime and timegm = timegm and zone = "''Z''" and t = "gmtime (tv_sec c)"
        and ms = ?ms, OF ms(2,3) no_nul part zone]
    unfolding inverse .
  from 1 2 show ?thesis by (simp add: u m res_bind_def)
qed

theorem utc_text_reads_back_witness:
  "let t = \<lparr>tm_year = 124, tm_mon = 1, tm_mday = 29, tm_hour = 12, tm_min = 0, tm_sec = 0, tm_gmtoff = 0\<rparr>;
       strptime = (\<lambda>s f u. if f = ''%z'' then Some ([], u) else if f = ''%Y-%m-%dT%H:%M:%S'' then Some (drop 19 s, t) else Some ([], t))
   in res_bind (to_string_utc (\<lambda>_. t) (Timespec 1709208000 123456789) True) (to_clock strptime (\<lambda>_. 1709208000))
      = Ret (Timespec 1709208000 123000000)"
proof -
  let ?t = "\<lparr>tm_year = 124, tm_mon = 1, tm_mday = 29, tm_hour = 12, tm_min = 0, tm_sec = 0, tm_gmtoff = 0\<rparr>"
  let ?s = "\<lambda>s f u. if f = ''%z'' then Some ([], u) else if f = ''%Y-%m-%dT%H:%M:%S'' then Some (drop 19 s, ?t) else Some ([], ?t)"
  have l: "length (date_time ?t) = 19" by code_simp
  then show ?thesis
    using utc_text_reads_back [of "Timespec 1709208000 123456789" "\<lambda>_. ?t" ?s "\<lambda>_. 1709208000"]
    by (simp add: normal_def nsec_per_sec_def)
qed

text \<open>
  \<open>to_clock\<close> does not apply the offset it reads, as \<open>timegm\<close> does not use it.  So the text of
  \<open>to_string_local\<close>, which has the UTC time with the local offset, reads back as the clock, while that
  of \<open>to_string_local_date_and_time\<close>, which has the local time, reads as a clock off by the offset.
\<close>

theorem local_text_reads_back:
  assumes "length (date_time (gmtime (tv_sec c))) = 19" and "length (date_time (localtime (tv_sec c))) = 19"
    and reads: "\<And>t. t \<in> {gmtime (tv_sec c), localtime (tv_sec c)} \<Longrightarrow>
        strptime (date_time t @ localtime_offset_string localtime c) ''%Y-%m-%dT%H:%M:%S%z'' tm_zero
          = Some ([], t\<lparr>tm_gmtoff := tm_gmtoff (localtime (tv_sec c))\<rparr>)"
    and ignores: "\<And>t off. timegm (t\<lparr>tm_gmtoff := off\<rparr>) = timegm t"
    and inverse: "timegm (gmtime (tv_sec c)) = tv_sec c"
    and "timegm (localtime (tv_sec c)) = tv_sec c + tm_gmtoff (localtime (tv_sec c))"
  shows "res_bind (to_string_local gmtime localtime c False) (to_clock strptime timegm) = Ret (Timespec (tv_sec c) 0)
    \<and> res_bind (to_string_local_date_and_time localtime c) (to_clock strptime timegm)
        = Ret (Timespec (tv_sec c + tm_gmtoff (localtime (tv_sec c))) 0)"
proof -
  let ?z = "localtime_offset_string localtime c"
  have z: "CHR ''.'' \<notin> set ?z" "NUL \<notin> set ?z"
    using offset_string_plain by (auto simp: plain_char_def)
  have w: "fmt_date t @ ''T'' @ fmt_time t = date_time t" for t by (simp add: date_time_def)
  have "to_string_local gmtime localtime c False = Ret (date_time (gmtime (tv_sec c)) @ ?z)"
    using assms(1) unfolding to_string_local_def w by (simp add: strftime_def)
  moreover have "to_string_local_date_and_time localtime c = Ret (date_time (localtime (tv_sec c)) @ ?z)"
    using assms(2) unfolding to_string_local_date_and_time_def w by (simp add: strftime_def)
  moreover have "to_clock strptime timegm (date_time t @ ?z) = Ret (Timespec (timegm t) 0)"
    if "t \<in> {gmtime (tv_sec c), localtime (tv_sec c)}" for t
    using to_clock_seconds [of ?z strptime t "t\<lparr>tm_gmtoff := tm_gmtoff (localtime (tv_sec c))\<rparr>" timegm]
      z reads [OF that] ignores by simp
  ultimately show ?thesis using inverse assms(6) by (simp add: res_bind_def)
qed

text \<open>
  The number after the point is read with a sign, in at most three characters, and never scaled:
  the clock of a text may have negative nanoseconds, half a second is read as five milliseconds, and a
  text that ends too early is read beyond its end.
\<close>

theorem to_clock_milliseconds_not_checked:
  assumes "\<And>r. strptime (''2024-02-29T12:00:00'' @ r) ''%Y-%m-%dT%H:%M:%S'' tm_zero = Some (r, t)"
    and "\<And>u. strptime ''Z'' ''%z'' u = Some ([], u)"
  shows "to_clock strptime timegm ''2024-02-29T12:00:00.-50Z'' = Ret (Timespec (timegm t) (- 50000000))
    \<and> to_clock strptime timegm ''2024-02-29T12:00:00.5  Z'' = Ret (Timespec (timegm t) 5000000)
    \<and> to_clock strptime timegm ''2024-02-29T12:00:00.5Z'' = Fault Out_Of_Bounds"
proof -
  have r: "to_clock strptime timegm (''2024-02-29T12:00:00'' @ r)
      = (case sscanf_milliseconds r of None \<Rightarrow> invalid_iso8601
         | Some ms \<Rightarrow> if length r < 4 then Fault Out_Of_Bounds
             else case strptime (drop 4 r) ''%z'' t of None \<Rightarrow> invalid_iso8601
               | Some (r', t') \<Rightarrow> if r' \<noteq> [] then invalid_iso8601
                   else Ret (clock_from_timespec (Timespec (timegm t') (ms * 1000000))))"
    if "r \<noteq> []" "hd r = CHR ''.''" "NUL \<notin> set r" for r
  proof -
    have "CHR ''.'' \<in> set r" using that(1,2) hd_in_set by metis
    moreover have "c_str (''2024-02-29T12:00:00'' @ r) = ''2024-02-29T12:00:00'' @ r"
      using that(3) by (auto simp: c_str_def takeWhile_eq_all_conv)
    ultimately show ?thesis using that assms(1) [of r] by (simp add: to_clock_def contains_char_iff)
  qed
  have "sscanf_milliseconds ''.-50Z'' = Some (- 50)" "sscanf_milliseconds ''.5  Z'' = Some 5" "sscanf_milliseconds ''.5Z'' = Some 5"
    by code_simp+
  then show ?thesis
    using r [of "''.-50Z''"] r [of "''.5  Z''"] r [of "''.5Z''"] assms(2) by (simp add: clock_from_timespec_def)
qed

end
