(* ===== verification/Result.thy ===== *)
theory Result
  imports Prelude Strings
begin

text \<open>
  \<open>include/hlib/error.hpp\<close>, \<open>src/hlib_error.cpp\<close> and \<open>include/hlib/result.hpp\<close>: an \<open>Error\<close> holds
  an exception or none, a \<open>Result\<close> a value or an \<open>Error\<close>.

  A function object is a function of the state it may change, with a result that may be an
  exception.  The text of a standard exception is a parameter of \<open>error_what\<close>.
\<close>

section \<open>Errors\<close>

type_synonym error = "exn option"

text \<open>
  An error is made of a stored exception or none (\<open>std::exception_ptr\<close>), or of an exception, of
  which it stores a copy; and it is assigned in the same two ways.
\<close>

definition error_default :: error where
  "error_default = None"

definition error_of_ptr :: "exn option \<Rightarrow> error" where
  "error_of_ptr ptr = ptr"

definition error_of_exception :: "exn \<Rightarrow> error" where
  "error_of_exception x = Some x"

definition error_assign_ptr :: "error \<Rightarrow> exn option \<Rightarrow> error" where
  "error_assign_ptr e ptr = ptr"

definition error_assign_exception :: "error \<Rightarrow> exn \<Rightarrow> error" where
  "error_assign_exception e x = Some x"

definition error_empty :: "error \<Rightarrow> bool" where
  "error_empty e \<longleftrightarrow> Option.is_none e"

definition is_std_exception :: "exn \<Rightarrow> bool" where
  "is_std_exception x = (case x of Hlib_Error _ \<Rightarrow> False | _ \<Rightarrow> True)"

text \<open>\<open>None\<close> is the default error code, which is no error.\<close>

definition error_code :: "error \<Rightarrow> int option" where
  "error_code e =
     (case e of None \<Rightarrow> None | Some x \<Rightarrow> (case x of System_Error n _ \<Rightarrow> Some n | _ \<Rightarrow> None))"

definition error_what :: "(exn \<Rightarrow> string) \<Rightarrow> error \<Rightarrow> string" where
  "error_what what e = (case e of None \<Rightarrow> [] | Some x \<Rightarrow> if is_std_exception x then what x else [])"

definition error_toss :: "error \<Rightarrow> 'a res" where
  "error_toss e = (case e of Some x \<Rightarrow> Throw x | None \<Rightarrow> Throw (Logic_Error ''No exception stored''))"

definition make_system_error :: "int \<Rightarrow> string \<Rightarrow> exn" where
  "make_system_error posix_errno what = System_Error posix_errno what"

text \<open>Without a text of its own, a system error has an empty one before the message of its code.\<close>

definition make_error_code :: "int \<Rightarrow> int" where
  "make_error_code posix_errno = posix_errno"

definition make_system_error_code :: "int \<Rightarrow> exn" where
  "make_system_error_code posix_errno = System_Error (make_error_code posix_errno) []"

text \<open>\<open>strerror_r\<close> gives a text or a null pointer; the overload without a number takes \<open>errno\<close>.\<close>

definition get_error_string :: "(int \<Rightarrow> string option) \<Rightarrow> int \<Rightarrow> string" where
  "get_error_string strerror_r error_no =
     (case strerror_r error_no of Some s \<Rightarrow> c_str s | None \<Rightarrow> ''errno '' @ to_string_int error_no)"

definition get_errno_string :: "(int \<Rightarrow> string option) \<Rightarrow> int \<Rightarrow> string" where
  "get_errno_string strerror_r errno = get_error_string strerror_r errno"

text \<open>The comparison with a truth value: whether an error is set.\<close>

definition error_is_set :: "error \<Rightarrow> bool \<Rightarrow> bool" where
  "error_is_set e is_set \<longleftrightarrow> error_empty e \<noteq> is_set"

definition error_is_not_set :: "error \<Rightarrow> bool \<Rightarrow> bool" where
  "error_is_not_set e is_set \<longleftrightarrow> error_empty e = is_set"

definition is_set_error :: "bool \<Rightarrow> error \<Rightarrow> bool" where
  "is_set_error is_set e \<longleftrightarrow> error_empty e \<noteq> is_set"

definition is_not_set_error :: "bool \<Rightarrow> error \<Rightarrow> bool" where
  "is_not_set_error is_set e \<longleftrightarrow> error_empty e = is_set"

section \<open>Results\<close>

datatype 'a result = Success 'a | Failure error

text \<open>
  A result is made of a value, of an error, of a stored exception or of an exception; by default
  of the default value of its type.  It is assigned in the same ways, where the assignment of a
  value by reference is declared \<open>const\<close> and does not compile.
\<close>

definition result_default :: "'a \<Rightarrow> 'a result" where
  "result_default default_value = Success default_value"

definition result_of_value :: "'a \<Rightarrow> 'a result" where
  "result_of_value a = Success a"

definition result_of_error :: "error \<Rightarrow> 'a result" where
  "result_of_error e = Failure e"

definition result_of_ptr :: "exn option \<Rightarrow> 'a result" where
  "result_of_ptr ptr = Failure (error_of_ptr ptr)"

definition result_of_exception :: "exn \<Rightarrow> 'a result" where
  "result_of_exception x = Failure (error_of_exception x)"

definition result_assign_value :: "'a result \<Rightarrow> 'a \<Rightarrow> 'a result" where
  "result_assign_value r a = Success a"

definition result_assign_error :: "'a result \<Rightarrow> error \<Rightarrow> 'a result" where
  "result_assign_error r e = Failure e"

definition result_assign_ptr :: "'a result \<Rightarrow> exn option \<Rightarrow> 'a result" where
  "result_assign_ptr r ptr = Failure (error_of_ptr ptr)"

definition result_assign_exception :: "'a result \<Rightarrow> exn \<Rightarrow> 'a result" where
  "result_assign_exception r x = Failure (error_of_exception x)"

definition result_success :: "'a result \<Rightarrow> bool" where
  "result_success r = (case r of Success _ \<Rightarrow> True | Failure _ \<Rightarrow> False)"

definition result_failure :: "'a result \<Rightarrow> bool" where
  "result_failure r = (case r of Success _ \<Rightarrow> False | Failure _ \<Rightarrow> True)"

definition result_value :: "'a result \<Rightarrow> 'a res" where
  "result_value r = (case r of Success a \<Rightarrow> Ret a | Failure _ \<Rightarrow> Throw Bad_Variant_Access)"

definition result_error :: "'a result \<Rightarrow> error res" where
  "result_error r = (case r of Success _ \<Rightarrow> Throw Bad_Variant_Access | Failure e \<Rightarrow> Ret e)"

text \<open>The truth value, its negation, the two dereferences, and the comparisons with a truth value.\<close>

definition result_bool :: "'a result \<Rightarrow> bool" where
  "result_bool r \<longleftrightarrow> result_success r"

definition result_not :: "'a result \<Rightarrow> bool" where
  "result_not r \<longleftrightarrow> result_failure r"

definition result_deref :: "'a result \<Rightarrow> 'a res" where
  "result_deref r = (case r of Success a \<Rightarrow> Ret a | Failure _ \<Rightarrow> Throw Bad_Variant_Access)"

definition result_arrow :: "'a result \<Rightarrow> 'a res" where
  "result_arrow r = (case r of Success a \<Rightarrow> Ret a | Failure _ \<Rightarrow> Throw Bad_Variant_Access)"

definition bool_eq_result :: "bool \<Rightarrow> 'a result \<Rightarrow> bool" where
  "bool_eq_result success r \<longleftrightarrow> result_success r = success"

definition bool_ne_result :: "bool \<Rightarrow> 'a result \<Rightarrow> bool" where
  "bool_ne_result success r \<longleftrightarrow> result_success r \<noteq> success"

definition result_eq_bool :: "'a result \<Rightarrow> bool \<Rightarrow> bool" where
  "result_eq_bool r success \<longleftrightarrow> result_success r = success"

definition result_ne_bool :: "'a result \<Rightarrow> bool \<Rightarrow> bool" where
  "result_ne_bool r success \<longleftrightarrow> result_success r \<noteq> success"

definition result_then :: "'a result \<Rightarrow> ('a \<Rightarrow> 's \<Rightarrow> 'b result res \<times> 's) \<Rightarrow> 's \<Rightarrow> 'b result res \<times> 's" where
  "result_then r on_success s = (case r of Failure e \<Rightarrow> (Ret (Failure e), s) | Success a \<Rightarrow> on_success a s)"

text \<open>The overload for a result without a value.\<close>

definition result_then_unit :: "unit result \<Rightarrow> ('s \<Rightarrow> 'b result res \<times> 's) \<Rightarrow> 's \<Rightarrow> 'b result res \<times> 's" where
  "result_then_unit r on_success s = (case r of Failure e \<Rightarrow> (Ret (Failure e), s) | Success _ \<Rightarrow> on_success s)"

definition result_otherwise :: "'a result \<Rightarrow> (error \<Rightarrow> 's \<Rightarrow> unit res \<times> 's) \<Rightarrow> 's \<Rightarrow> 'a result res \<times> 's" where
  "result_otherwise r on_error s =
     (case r of Success a \<Rightarrow> (Ret r, s) | Failure e \<Rightarrow> and_then (on_error e s) (\<lambda>_ s. (Ret r, s)))"

text \<open>The two overloads of \<open>check\<close>: a handler that must not return, and one with a substitute.\<close>

definition check_or_terminate :: "'a result \<Rightarrow> (error \<Rightarrow> 's \<Rightarrow> unit res \<times> 's) \<Rightarrow> 's \<Rightarrow> 'a res \<times> 's" where
  "check_or_terminate r on_error s =
     (case r of Success a \<Rightarrow> (Ret a, s) | Failure e \<Rightarrow> and_then (on_error e s) (\<lambda>_ s. (Fault Terminated, s)))"

definition check_or_value :: "'a result \<Rightarrow> (error \<Rightarrow> 's \<Rightarrow> 'a res \<times> 's) \<Rightarrow> 's \<Rightarrow> 'a res \<times> 's" where
  "check_or_value r on_error s = (case r of Success a \<Rightarrow> (Ret a, s) | Failure e \<Rightarrow> on_error e s)"

text \<open>\<open>set_error\<close>, over the \<open>Error\<close> variable it refers to.\<close>

definition set_error :: "error \<Rightarrow> error \<Rightarrow> unit res \<times> error" where
  "set_error e variable = (Ret (), e)"

definition set_error_default :: "'a \<Rightarrow> error \<Rightarrow> error \<Rightarrow> 'a res \<times> error" where
  "set_error_default default_value e variable = (Ret default_value, e)"

text \<open>With \<open>T()\<close>, the value-initialised \<open>T\<close>, for the value.\<close>

definition set_error_init :: "'a \<Rightarrow> error \<Rightarrow> error \<Rightarrow> 'a res \<times> error" where
  "set_error_init init e variable = (Ret init, e)"

definition toss_error :: "error \<Rightarrow> 'a res" where
  "toss_error e = error_toss e"

text \<open>The handler of \<open>success_or_throw\<close> throws the \<open>Error\<close> object.\<close>

definition success_or_throw :: "'a result \<Rightarrow> 's \<Rightarrow> 'a res \<times> 's" where
  "success_or_throw r s = check_or_terminate r (\<lambda>e s. (Throw (Hlib_Error e), s)) s"

definition attempt :: "('s \<Rightarrow> 'a res \<times> 's) \<Rightarrow> 's \<Rightarrow> 'a result res \<times> 's" where
  "attempt func s =
     (case func s of
        (Ret a, s1) \<Rightarrow> (Ret (Success a), s1)
      | (Throw x, s1) \<Rightarrow> if is_std_exception x then (Ret (Failure (Some x)), s1) else (Throw x, s1)
      | (Fault f, s1) \<Rightarrow> (Fault f, s1))"

section \<open>Facts\<close>

lemma success_or_throw_simps [simp]:
  "success_or_throw (Success a) s = (Ret a, s)"
  "success_or_throw (Failure e) s = (Throw (Hlib_Error e), s)"
  by (simp_all add: success_or_throw_def check_or_terminate_def)

lemma success_or_throw_Ret_iff: "success_or_throw r s = (Ret a, t) \<longleftrightarrow> r = Success a \<and> t = s"
  by (cases r) auto

section \<open>Properties\<close>

text \<open>
  \<open>then\<close> composes results: it runs the functions in order, stops at the first failure and keeps
  that failure and the state of that moment; and it is associative with the value constructor as unit.
\<close>

theorem then_composes:
  "result_then (Success a) f s = f a s \<and> result_then (Failure e) f s = (Ret (Failure e), s)
   \<and> result_then r (\<lambda>a s. (Ret (Success a), s)) s = (Ret r, s)
   \<and> and_then (result_then r f s) (\<lambda>x. result_then x g)
       = result_then r (\<lambda>a s. and_then (f a s) (\<lambda>x. result_then x g)) s
   \<and> result_otherwise (Failure e) h s = and_then (h e s) (\<lambda>_ s. (Ret (Failure e), s))
   \<and> result_otherwise (Success a) h s = (Ret (Success a), s)"
  by (cases r) (simp_all add: result_then_def result_otherwise_def)

text \<open>
  A result made of a null exception pointer is a failure whose error is not set, and tossing that
  error throws a logic error.
\<close>

theorem failure_without_error:
  "result_not (result_of_ptr None) \<and> result_ne_bool (result_of_ptr None) True
   \<and> result_error (result_of_ptr None) = Ret error_default \<and> \<not> error_is_set error_default True
   \<and> toss_error error_default = Throw (Logic_Error ''No exception stored'')"
  by (simp add: result_not_def result_failure_def result_of_ptr_def result_ne_bool_def result_success_def result_error_def
      error_of_ptr_def error_default_def error_is_set_def error_empty_def toss_error_def error_toss_def)

text \<open>
  \<open>attempt\<close> keeps the outcome of a call: a value comes back as a success, a standard exception as
  an error that tosses the same exception again.  \<open>success_or_throw\<close> does not undo it: it throws the
  \<open>Error\<close> object, which \<open>attempt\<close> does not catch and of which \<open>code\<close> and \<open>what\<close> say nothing.
\<close>

theorem attempt_keeps_outcome:
  "(\<forall>a s1. func s = (Ret a, s1) \<longrightarrow>
      attempt func s = (Ret (Success a), s1) \<and> success_or_throw (Success a) s1 = func s)
   \<and> (\<forall>x s1. func s = (Throw x, s1) \<longrightarrow> is_std_exception x \<longrightarrow>
      attempt func s = (Ret (Failure (Some x)), s1)
      \<and> (error_toss (Some x) :: 'a res, s1) = func s
      \<and> attempt (success_or_throw (Failure (Some x) :: 'a result)) s1 = (Throw (Hlib_Error (Some x)), s1)
      \<and> error_code (Some (Hlib_Error (Some x))) = None \<and> error_what w (Some (Hlib_Error (Some x))) = [])"
  for func :: "'s \<Rightarrow> 'a res \<times> 's"
  by (simp add: attempt_def error_toss_def error_code_def error_what_def is_std_exception_def)

theorem attempt_keeps_outcome_witness:
  "attempt (\<lambda>s. (Throw (System_Error 2 ''open() failed'') :: nat res, s + 1)) (0 :: int)
     = (Ret (Failure (Some (System_Error 2 ''open() failed''))), 1)"
  using attempt_keeps_outcome [of "\<lambda>s. (Throw (System_Error 2 ''open() failed'') :: nat res, s + 1)" "0 :: int" "\<lambda>_. []"]
  by (simp add: is_std_exception_def)

end
