(* ===== verification/Event_Loop.thy ===== *)
theory Event_Loop
  imports Result Time
begin

text \<open>
  \<open>src/hlib_event_loop.cpp\<close>: the registration of descriptors, \<open>dispatch\<close> and \<open>interrupt\<close>.

  The state holds the members of the class, the bytes in its pipe, the kernel's interest list and
  whether \<open>m_mutex\<close> is held.  \<open>epoll_ctl\<close> is a parameter that gives an error number or succeeds, and
  \<open>dispatch\<close> runs over the list of what its calls of \<open>time::now\<close> and \<open>epoll_wait\<close> return, one pair per
  turn; when the list ends the loop is in \<open>epoll_wait\<close>.  What a callback does is the parameter \<open>call\<close>,
  on the whole state, so that a callback may use the loop; the callback on the pipe is modelled.
  An event for a descriptor without a callback is one that another thread has just removed.
\<close>

section \<open>The loop\<close>

definition EPOLLIN :: u32 where "EPOLLIN = 1"
definition EINTR :: int where "EINTR = 4"
definition EDEADLK :: int where "EDEADLK = 35"

datatype 'c handler = Interrupt_Handler | User_Handler 'c

text \<open>An empty \<open>std::function\<close> is \<open>None\<close>; the default thread id is \<open>None\<close>.\<close>

record ('c, 'w) event_loop =
  el_pipe_fd :: int
  el_pipe :: nat
  el_interrupt :: bool
  el_locked :: bool
  el_thread_id :: "nat option"
  el_callbacks :: "int \<Rightarrow> 'c handler option option"
  el_interest :: "int \<Rightarrow> u32 option"
  el_world :: 'w

datatype ctl_op = Ctl_Add | Ctl_Mod | Ctl_Del

type_synonym epoll_ctl = "ctl_op \<Rightarrow> int \<Rightarrow> u32 \<Rightarrow> int option"

definition event_loop_add ::
  "epoll_ctl \<Rightarrow> int \<Rightarrow> u32 \<Rightarrow> 'c handler option \<Rightarrow> ('c, 'w) event_loop \<Rightarrow> unit res \<times> ('c, 'w) event_loop" where
  "event_loop_add ctl fd events callback L =
     (if \<not> -1 \<noteq> fd then (Fault Assert_Failed, L)
      else if Option.is_none callback then (Fault Assert_Failed, L)
      else if el_locked L then (Fault Deadlock, L)
      else if \<not> Option.is_none (el_callbacks L fd) then (Fault Assert_Failed, L)
      else let L1 = L\<lparr>el_callbacks := (el_callbacks L)(fd := Some callback)\<rparr>
           in case ctl Ctl_Add fd events of
                Some e \<Rightarrow> (Throw (System_Error e ''epoll_ctl() failed''),
                          L1\<lparr>el_callbacks := (el_callbacks L1)(fd := None)\<rparr>)
              | None \<Rightarrow> (Ret (), L1\<lparr>el_interest := (el_interest L1)(fd := Some events)\<rparr>))"

definition event_loop_modify_nothrow ::
  "epoll_ctl \<Rightarrow> int \<Rightarrow> u32 \<Rightarrow> ('c, 'w) event_loop \<Rightarrow> unit result res \<times> ('c, 'w) event_loop" where
  "event_loop_modify_nothrow ctl fd events L =
     (if \<not> -1 \<noteq> fd then (Fault Assert_Failed, L)
      else case ctl Ctl_Mod fd events of
             Some e \<Rightarrow> (Ret (Failure (Some (make_system_error e []))), L)
           | None \<Rightarrow> (Ret (Success ()), L\<lparr>el_interest := (el_interest L)(fd := Some events)\<rparr>))"

definition event_loop_modify ::
  "epoll_ctl \<Rightarrow> int \<Rightarrow> u32 \<Rightarrow> ('c, 'w) event_loop \<Rightarrow> unit res \<times> ('c, 'w) event_loop" where
  "event_loop_modify ctl fd events L = and_then (event_loop_modify_nothrow ctl fd events L) success_or_throw"

definition event_loop_change ::
  "int \<Rightarrow> 'c handler option \<Rightarrow> ('c, 'w) event_loop \<Rightarrow> unit res \<times> ('c, 'w) event_loop" where
  "event_loop_change fd callback L =
     (if \<not> -1 \<noteq> fd then (Fault Assert_Failed, L)
      else if el_locked L then (Fault Deadlock, L)
      else if Option.is_none (el_callbacks L fd) then (Fault Assert_Failed, L)
      else (Ret (), L\<lparr>el_callbacks := (el_callbacks L)(fd := Some callback)\<rparr>))"

definition event_loop_remove ::
  "epoll_ctl \<Rightarrow> int \<Rightarrow> ('c, 'w) event_loop \<Rightarrow> unit res \<times> ('c, 'w) event_loop" where
  "event_loop_remove ctl fd L =
     (if -1 = fd then (Ret (), L)
      else if el_locked L then (Fault Deadlock, L)
      else if Option.is_none (el_callbacks L fd) then (Fault Assert_Failed, L)
      else case ctl Ctl_Del fd 0 of
             Some e \<Rightarrow> (Fault Assert_Failed, L)
           | None \<Rightarrow> (Ret (), L\<lparr>el_interest := (el_interest L)(fd := None), el_callbacks := (el_callbacks L)(fd := None)\<rparr>))"

subsection \<open>The pipe\<close>

text \<open>The read end does not block: \<open>None\<close> is a \<open>read\<close> that does not return 1.\<close>

definition pipe_read :: "('c, 'w) event_loop \<Rightarrow> ('c, 'w) event_loop option" where
  "pipe_read L = (case el_pipe L of 0 \<Rightarrow> None | Suc n \<Rightarrow> Some (L\<lparr>el_pipe := n\<rparr>))"

text \<open>\<open>write\<close> is a parameter, an error number or success.\<close>

definition event_loop_interrupt_nothrow ::
  "int option \<Rightarrow> ('c, 'w) event_loop \<Rightarrow> unit result res \<times> ('c, 'w) event_loop" where
  "event_loop_interrupt_nothrow write L =
     (case write of Some e \<Rightarrow> (Ret (Failure (Some (make_system_error e []))), L) | None \<Rightarrow> (Ret (Success ()), L\<lparr>el_pipe := el_pipe L + 1\<rparr>))"

definition event_loop_interrupt :: "int option \<Rightarrow> ('c, 'w) event_loop \<Rightarrow> unit res \<times> ('c, 'w) event_loop" where
  "event_loop_interrupt write L = and_then (event_loop_interrupt_nothrow write L) success_or_throw"

function event_loop_flush :: "('c, 'w) event_loop \<Rightarrow> ('c, 'w) event_loop" where
  "event_loop_flush L = (case pipe_read L of None \<Rightarrow> L | Some L1 \<Rightarrow> event_loop_flush L1)"
  by pat_completeness auto

termination event_loop_flush
  by (relation "measure el_pipe") (auto simp: pipe_read_def split: nat.splits)

declare event_loop_flush.simps [simp del]

subsection \<open>Construction\<close>

text \<open>
  \<open>epoll_create1\<close>, \<open>pipe\<close> and \<open>fcntl\<close> are parameters: an error number, or success, for \<open>pipe\<close> with
  its read end.
\<close>

definition make_event_loop ::
  "epoll_ctl \<Rightarrow> int option \<Rightarrow> int + int \<Rightarrow> int option \<Rightarrow> 'w \<Rightarrow> unit res \<times> ('c, 'w) event_loop" where
  "make_event_loop ctl create pipe fcntl w =
     (let L = \<lparr>el_pipe_fd = - 1, el_pipe = 0, el_interrupt = False, el_locked = False, el_thread_id = None,
               el_callbacks = Map.empty, el_interest = Map.empty, el_world = w\<rparr>
      in case create of
           Some e \<Rightarrow> (Throw (System_Error e ''epoll_create() failed''), L)
         | None \<Rightarrow>
             (case pipe of
                Inl e \<Rightarrow> (Throw (Hlib_Error (Some (make_system_error e []))), L)
              | Inr fd \<Rightarrow>
                  let L1 = L\<lparr>el_pipe_fd := fd\<rparr>
                  in case fcntl of
                       Some e \<Rightarrow> (Throw (System_Error e ''fcntl() failed''), L1)
                     | None \<Rightarrow> event_loop_add ctl fd EPOLLIN (Some Interrupt_Handler) L1))"

section \<open>Dispatching\<close>

datatype wait = Wait_Error int | Wait_Event int u32 | Wait_Timeout

datatype outcome = In_Epoll_Wait | Finished "unit res"

type_synonym ('c, 'w) call = "'c \<Rightarrow> int \<Rightarrow> u32 \<Rightarrow> ('c, 'w) event_loop \<Rightarrow> unit res \<times> ('c, 'w) event_loop"

definition call_handler ::
  "('c, 'w) call \<Rightarrow> 'c handler option \<Rightarrow> int \<Rightarrow> u32 \<Rightarrow> ('c, 'w) event_loop \<Rightarrow> unit res \<times> ('c, 'w) event_loop" where
  "call_handler call h fd events L =
     (case h of
        None \<Rightarrow> (Throw Bad_Function_Call, L)
      | Some Interrupt_Handler \<Rightarrow>
          if \<not> 0 \<noteq> EPOLLIN AND events then (Fault Assert_Failed, L)
          else (case pipe_read L of
                  None \<Rightarrow> (Fault Assert_Failed, L)
                | Some L1 \<Rightarrow> (Ret (), L1\<lparr>el_interrupt := True\<rparr>))
      | Some (User_Handler c) \<Rightarrow> call c fd events L)"

definition milli :: ratio where
  "milli = \<lparr>num = 1, den = 1000\<rparr>"

definition wait_milliseconds :: "timespec option \<Rightarrow> timespec \<Rightarrow> int res" where
  "wait_milliseconds expire current =
     (case expire of
        None \<Rightarrow> Ret (- 1)
      | Some e \<Rightarrow> if clock_lt current e then duration_to_ratio milli (clock_diff e current) else Ret 0)"

text \<open>The timeout that \<open>epoll_wait\<close> gets: its parameter is an \<open>int\<close>.\<close>

definition epoll_timeout :: "int \<Rightarrow> int" where
  "epoll_timeout ms = sint (word_of_int ms :: 32 word)"

fun dispatch_loop ::
  "('c, 'w) call \<Rightarrow> timespec option \<Rightarrow> (timespec \<times> wait) list \<Rightarrow> ('c, 'w) event_loop \<Rightarrow> outcome \<times> ('c, 'w) event_loop" where
  "dispatch_loop call expire [] L = (if el_interrupt L then (Finished (Ret ()), L) else (In_Epoll_Wait, L))"
| "dispatch_loop call expire ((current, w) # env) L =
     (if el_interrupt L then (Finished (Ret ()), L)
      else case wait_milliseconds expire current of
          Throw e \<Rightarrow> (Finished (Throw e), L)
        | Fault f \<Rightarrow> (Finished (Fault f), L)
        | Ret timeout_ms \<Rightarrow>
            (case w of
               Wait_Error e \<Rightarrow>
                 if EINTR \<noteq> e then (Finished (Throw (System_Error e ''epoll_wait() failed'')), L)
                 else dispatch_loop call expire env L
             | Wait_Event fd events \<Rightarrow>
                 if el_locked L then (Finished (Throw (System_Error EDEADLK ''Resource deadlock avoided'')), L)
                 else (case el_callbacks L fd of
                         None \<Rightarrow> dispatch_loop call expire env (L\<lparr>el_locked := True\<rparr>)
                       | Some callback \<Rightarrow>
                           (case call_handler call callback fd events L of
                              (Ret _, L1) \<Rightarrow> dispatch_loop call expire env L1
                            | (Throw e, L1) \<Rightarrow> (Finished (Throw e), L1)
                            | (Fault f, L1) \<Rightarrow> (Finished (Fault f), L1)))
             | Wait_Timeout \<Rightarrow>
                 (Finished (if \<not> timeout_ms \<ge> 0 then Fault Assert_Failed else Ret ()), L)))"

text \<open>
  The scope guard sets the thread id before the loop and clears it on every exit; the
  \<open>unique_lock\<close> is declared after it, so that it has been released by then.
\<close>

definition dispatch ::
  "('c, 'w) call \<Rightarrow> nat \<Rightarrow> timespec option \<Rightarrow> timespec \<Rightarrow> (timespec \<times> wait) list \<Rightarrow> ('c, 'w) event_loop
     \<Rightarrow> outcome \<times> ('c, 'w) event_loop" where
  "dispatch call self timeout start env L =
     (if el_locked L then (Finished (Fault Deadlock), L)
      else let expire = map_option (clock_add start) timeout;
               (x, L1) = dispatch_loop call expire env (L\<lparr>el_thread_id := Some self, el_interrupt := False\<rparr>)
           in case x of
                In_Epoll_Wait \<Rightarrow> (In_Epoll_Wait, L1)
              | Finished r \<Rightarrow> (Finished r, L1\<lparr>el_locked := False, el_thread_id := None\<rparr>))"

definition callback_from :: "nat \<Rightarrow> ('c, 'w) event_loop \<Rightarrow> bool" where
  "callback_from self L \<longleftrightarrow> Some self = el_thread_id L"

text \<open>Through an expired weak pointer the result is an uninitialised variable.\<close>

definition callback_from_weak :: "nat \<Rightarrow> ('c, 'w) event_loop option \<Rightarrow> bool res" where
  "callback_from_weak self loop =
     (case loop of None \<Rightarrow> Fault Out_Of_Bounds | Some L \<Rightarrow> Ret (callback_from self L))"

section \<open>Facts\<close>

lemmas loop_ops_defs =
  event_loop_add_def event_loop_change_def event_loop_remove_def event_loop_modify_def
  event_loop_modify_nothrow_def

lemma event_loop_flush_empties: "event_loop_flush L = L\<lparr>el_pipe := 0\<rparr>"
proof (induction L rule: event_loop_flush.induct)
  case (1 L)
  show ?case
  proof (cases "el_pipe L")
    case 0
    then show ?thesis by (subst event_loop_flush.simps) (simp add: pipe_read_def)
  next
    case (Suc n)
    then have "pipe_read L = Some (L\<lparr>el_pipe := n\<rparr>)" by (simp add: pipe_read_def)
    with 1 [OF this] show ?thesis by (subst event_loop_flush.simps) simp
  qed
qed

lemma epoll_timeout_eq: "epoll_timeout ms = signed_take_bit 31 ms"
  by (simp add: epoll_timeout_def sint_sbintrunc')

lemma dispatch_loop_interrupted [simp]: "el_interrupt L \<Longrightarrow> dispatch_loop call expire env L = (Finished (Ret ()), L)"
  by (cases "(call, expire, env, L)" rule: dispatch_loop.cases) simp_all

text \<open>What a callback may not do to the loop it is called from.\<close>

definition keeps_loop :: "('c, 'w) call \<Rightarrow> bool" where
  "keeps_loop call \<longleftrightarrow>
     (\<forall>c fd events L. el_locked (snd (call c fd events L)) = el_locked L
        \<and> el_thread_id (snd (call c fd events L)) = el_thread_id L)"

definition guarded :: "nat \<Rightarrow> ('c, 'w) call \<Rightarrow> ('c, 'w) call" where
  "guarded self call c fd events L =
     (if el_locked L \<or> \<not> callback_from self L then (Fault Deadlock, L) else call c fd events L)"

lemma call_handler_keeps:
  assumes "keeps_loop call"
  shows "el_locked (snd (call_handler call h fd events L)) = el_locked L"
    and "el_thread_id (snd (call_handler call h fd events L)) = el_thread_id L"
  using assms by (auto simp: call_handler_def keeps_loop_def pipe_read_def split: option.splits handler.splits nat.splits)

lemma call_handler_guarded:
  "\<not> el_locked L \<Longrightarrow> el_thread_id L = Some self \<Longrightarrow>
     call_handler (guarded self call) h fd events L = call_handler call h fd events L"
  by (simp add: call_handler_def guarded_def callback_from_def split: option.splits handler.splits)

lemma dispatch_loop_guarded:
  assumes "keeps_loop call" and "el_thread_id L = Some self"
  shows "dispatch_loop (guarded self call) expire env L = dispatch_loop call expire env L"
  using assms(2)
proof (induction env arbitrary: L)
  case (Cons cw env)
  obtain current w where cw: "cw = (current, w)" by fastforce
  have IH: "dispatch_loop (guarded self call) expire env M = dispatch_loop call expire env M"
    if "el_thread_id M = Some self" for M
    using Cons.IH that by blast
  show ?case
  proof (cases w)
    case (Wait_Event fd events)
    show ?thesis
    proof (cases "el_locked L \<or> el_interrupt L")
      case False
      have "el_thread_id (snd (call_handler call h fd events L)) = Some self" for h
        using call_handler_keeps(2) [OF assms(1)] Cons.prems by simp
      then have "el_thread_id L1 = Some self" if "call_handler call h fd events L = (r, L1)" for h r L1
        using that by (metis snd_conv)
      with False Wait_Event cw IH Cons.prems show ?thesis
        by (auto simp: call_handler_guarded split: res.splits option.splits prod.splits)
    qed (auto simp: cw Wait_Event split: res.splits)
  qed (auto simp: cw IH Cons.prems split: res.splits)
qed simp

subsection \<open>Interrupting\<close>

text \<open>What \<open>interrupt\<close> relies on: no callback empties the pipe or takes its descriptor over.\<close>

definition interrupt_pending :: "('c, 'w) event_loop \<Rightarrow> bool" where
  "interrupt_pending L \<longleftrightarrow> 0 < el_pipe L \<and> el_callbacks L (el_pipe_fd L) = Some (Some Interrupt_Handler)"

locale pipe_respecting =
  fixes call :: "('c, 'w) call"
  assumes call_pipe_fd: "el_pipe_fd (snd (call c fd events L)) = el_pipe_fd L"
    and call_pipe: "el_pipe L \<le> el_pipe (snd (call c fd events L))"
    and call_pipe_handler: "el_callbacks (snd (call c fd events L)) (el_pipe_fd L) = el_callbacks L (el_pipe_fd L)"
begin

lemma pending_kept:
  assumes "interrupt_pending L" and "call_handler call h fd events L = (Ret u, L1)"
  shows "el_interrupt L1 \<or> interrupt_pending L1 \<and> el_pipe_fd L1 = el_pipe_fd L"
proof (cases h)
  case None
  with assms(2) show ?thesis by (simp add: call_handler_def)
next
  case (Some hd)
  show ?thesis
  proof (cases hd)
    case Interrupt_Handler
    with Some assms(2) show ?thesis by (auto simp: call_handler_def pipe_read_def split: if_splits nat.splits)
  next
    case (User_Handler c)
    with Some assms(2) have "L1 = snd (call c fd events L)" by (simp add: call_handler_def)
    with call_pipe_fd [of c fd events L] call_pipe [of L c fd events] call_pipe_handler [of c fd events L] assms(1)
    show ?thesis by (simp add: interrupt_pending_def)
  qed
qed

lemma dispatch_loop_interrupted_by_pipe:
  assumes "interrupt_pending L" and "(c, Wait_Event (el_pipe_fd L) ev) \<in> set env"
  shows "\<exists>r. fst (dispatch_loop call expire env L) = Finished r"
  using assms
proof (induction env arbitrary: L)
  case (Cons cw env)
  obtain current w where cw: "cw = (current, w)" by fastforce
  show ?case
  proof (cases "\<exists>fd events h. w = Wait_Event fd events \<and> \<not> el_locked L \<and> \<not> el_interrupt L \<and> el_callbacks L fd = Some h
      \<and> (\<exists>t. wait_milliseconds expire current = Ret t)")
    case True
    then obtain fd events h t where w: "w = Wait_Event fd events" "\<not> el_locked L" "\<not> el_interrupt L"
        "el_callbacks L fd = Some h" "wait_milliseconds expire current = Ret t" by blast
    obtain x L1 where r: "call_handler call h fd events L = (x, L1)" by fastforce
    show ?thesis
    proof (cases x)
      case (Ret u)
      with pending_kept [OF Cons.prems(1)] r have k: "el_interrupt L1 \<or> interrupt_pending L1 \<and> el_pipe_fd L1 = el_pipe_fd L"
        by blast
      have "\<exists>r. fst (dispatch_loop call expire env L1) = Finished r"
      proof (cases "el_interrupt L1")
        case False
        have "fd \<noteq> el_pipe_fd L"
        proof
          assume "fd = el_pipe_fd L"
          with w Cons.prems(1) r Ret False show False
            by (auto simp: interrupt_pending_def call_handler_def pipe_read_def split: if_splits nat.splits)
        qed
        with Cons.prems(2) cw w have "(c, Wait_Event (el_pipe_fd L1) ev) \<in> set env" using k False by auto
        with Cons.IH k False show ?thesis by blast
      qed simp
      with cw w r Ret show ?thesis by simp
    qed (simp_all add: cw w r)
  next
    case False
    show ?thesis
    proof (cases "el_interrupt L")
      case False
      have IH: "\<exists>r. fst (dispatch_loop call expire env M) = Finished r"
        if "M = L \<or> M = L\<lparr>el_locked := True\<rparr>" "w \<noteq> Wait_Event (el_pipe_fd L) ev" for M
        using that Cons.prems Cons.IH [of M] cw by (auto simp: interrupt_pending_def)
      show ?thesis
      proof (cases w)
        case (Wait_Event fd events)
        have "w \<noteq> Wait_Event (el_pipe_fd L) ev" if "el_callbacks L fd = None"
          using that Wait_Event Cons.prems(1) by (auto simp: interrupt_pending_def)
        with IH False \<open>\<not> (\<exists>fd events h. _ fd events h)\<close> show ?thesis
          by (auto simp: cw Wait_Event split: res.splits option.splits)
      qed (use IH in \<open>auto simp: cw split: res.splits\<close>)
    qed (simp add: cw)
  qed
qed simp

end

section \<open>Properties\<close>

text \<open>
  C4.  Whatever the events and the callbacks are, no callback runs while the loop holds its mutex, and
  every callback runs in the thread of \<open>dispatch\<close> as \<open>callback_from\<close> says; and when \<open>dispatch\<close>
  returns or throws the mutex is free and the thread id is cleared.
\<close>

theorem dispatch_callbacks_unlocked:
  assumes "keeps_loop call" and "\<not> el_locked L"
  shows "dispatch (guarded self call) self timeout start env L = dispatch call self timeout start env L
    \<and> (\<forall>r. fst (dispatch call self timeout start env L) = Finished r \<longrightarrow>
         \<not> el_locked (snd (dispatch call self timeout start env L))
         \<and> el_thread_id (snd (dispatch call self timeout start env L)) = None)"
proof -
  let ?L = "L\<lparr>el_thread_id := Some self, el_interrupt := False\<rparr>"
  have "dispatch_loop (guarded self call) expire env ?L = dispatch_loop call expire env ?L" for expire
    by (rule dispatch_loop_guarded [OF assms(1)]) simp
  with assms(2) show ?thesis by (auto simp: dispatch_def Let_def split: prod.splits outcome.splits)
qed

definition counter_call :: "(unit, nat) call" where
  "counter_call c fd events L = (Ret (), L\<lparr>el_world := el_world L + nat fd\<rparr>)"

definition sample_loop :: "(unit, nat) event_loop" where
  "sample_loop =
     snd (event_loop_add (\<lambda>_ _ _. None) 5 EPOLLIN (Some (User_Handler ()))
       (snd (make_event_loop (\<lambda>_ _ _. None) None (Inr 3) None 0)))"

theorem dispatch_callbacks_unlocked_witness:
  "fst (dispatch counter_call 1 None (Timespec 0 0) [(Timespec 0 0, Wait_Event 5 1), (Timespec 0 0, Wait_Error 9)] sample_loop)
     = Finished (Throw (System_Error 9 ''epoll_wait() failed''))
   \<and> el_thread_id (snd (dispatch counter_call 1 None (Timespec 0 0) [(Timespec 0 0, Wait_Event 5 1), (Timespec 0 0, Wait_Error 9)] sample_loop)) = None"
proof -
  have "keeps_loop counter_call" by (simp add: keeps_loop_def counter_call_def)
  moreover have "\<not> el_locked sample_loop"
    by (simp add: sample_loop_def make_event_loop_def event_loop_add_def Let_def)
  moreover have "fst (dispatch counter_call 1 None (Timespec 0 0) [(Timespec 0 0, Wait_Event 5 1), (Timespec 0 0, Wait_Error 9)] sample_loop)
     = Finished (Throw (System_Error 9 ''epoll_wait() failed''))"
    by code_simp
  ultimately show ?thesis using dispatch_callbacks_unlocked by blast
qed

text \<open>
  An event for a descriptor whose callback another thread has just removed leaves the mutex
  locked: until the loop returns every thread that registers or removes a descriptor waits for it,
  and the next event, of whatever descriptor, makes \<open>dispatch\<close> throw.
\<close>

theorem stale_event_keeps_mutex:
  assumes "\<not> el_locked L" and "el_callbacks L fd = None" and "fd' \<noteq> - 1"
  shows "(\<exists>L1. dispatch call self None start [(c1, Wait_Event fd events)] L = (In_Epoll_Wait, L1)
        \<and> event_loop_add ctl fd' events' (Some h) L1 = (Fault Deadlock, L1)
        \<and> event_loop_remove ctl fd' L1 = (Fault Deadlock, L1)
        \<and> event_loop_change fd' (Some h) L1 = (Fault Deadlock, L1))
    \<and> fst (dispatch call self None start ((c1, Wait_Event fd events) # (c2, Wait_Event fd2 events2) # env) L)
       = Finished (Throw (System_Error EDEADLK ''Resource deadlock avoided''))"
  using assms by (simp_all add: dispatch_def wait_milliseconds_def loop_ops_defs Let_def)

theorem stale_event_keeps_mutex_witness:
  "fst (dispatch counter_call 1 None (Timespec 0 0) [(Timespec 0 0, Wait_Event 8 1), (Timespec 0 0, Wait_Event 5 1)] sample_loop)
     = Finished (Throw (System_Error EDEADLK ''Resource deadlock avoided''))"
proof -
  have l: "\<not> el_locked sample_loop" "el_callbacks sample_loop 8 = None" "7 \<noteq> (- 1 :: int)"
    by (simp_all add: sample_loop_def make_event_loop_def event_loop_add_def Let_def)
  from stale_event_keeps_mutex [OF l] show ?thesis by blast
qed

text \<open>
  C5.  An interrupt ends \<open>dispatch\<close>: with a byte in the pipe and callbacks that leave the pipe alone,
  \<open>dispatch\<close> is finished by the time the kernel has reported the pipe, whatever else it reports
  before; and when the pipe is the first report it returns at once, runs no callback and leaves
  the pipe as it was before the interrupt.
\<close>

theorem interrupt_ends_dispatch:
  assumes "pipe_respecting call" and "el_callbacks L (el_pipe_fd L) = Some (Some Interrupt_Handler)" and "\<not> el_locked L"
    and "(c, Wait_Event (el_pipe_fd L) ev) \<in> set env"
  shows "\<exists>L1. event_loop_interrupt None L = (Ret (), L1)
    \<and> (\<exists>r. fst (dispatch call self timeout start env L1) = Finished r)
    \<and> dispatch call self None start ((c, Wait_Event (el_pipe_fd L) EPOLLIN) # env') L1
        = (Finished (Ret ()), L\<lparr>el_interrupt := True, el_thread_id := None\<rparr>)"
proof -
  let ?L1 = "L\<lparr>el_pipe := el_pipe L + 1\<rparr>"
  have "event_loop_interrupt None L = (Ret (), ?L1)"
    by (simp add: event_loop_interrupt_def event_loop_interrupt_nothrow_def)
  moreover have "\<exists>r. fst (dispatch call self timeout start env ?L1) = Finished r"
  proof -
    let ?M = "?L1\<lparr>el_thread_id := Some self, el_interrupt := False\<rparr>"
    have "interrupt_pending ?M" "(c, Wait_Event (el_pipe_fd ?M) ev) \<in> set env"
      using assms(2,4) by (simp_all add: interrupt_pending_def)
    from pipe_respecting.dispatch_loop_interrupted_by_pipe [OF assms(1) this]
    obtain r where "fst (dispatch_loop call (map_option (clock_add start) timeout) env ?M) = Finished r" by blast
    with assms(3) show ?thesis by (auto simp: dispatch_def Let_def split: prod.splits)
  qed
  moreover have "dispatch call self None start ((c, Wait_Event (el_pipe_fd L) EPOLLIN) # env') ?L1
      = (Finished (Ret ()), L\<lparr>el_interrupt := True, el_thread_id := None\<rparr>)"
    using assms(2,3)
    by (simp add: dispatch_def Let_def wait_milliseconds_def call_handler_def pipe_read_def EPOLLIN_def)
  ultimately show ?thesis by blast
qed

theorem interrupt_ends_dispatch_witness:
  "\<exists>L1. event_loop_interrupt None sample_loop = (Ret (), L1)
     \<and> (\<exists>r. fst (dispatch counter_call 1 None (Timespec 0 0) [(Timespec 0 0, Wait_Event 5 1), (Timespec 0 0, Wait_Event 3 1)] L1) = Finished r)"
proof -
  have p: "pipe_respecting counter_call" by standard (simp_all add: counter_call_def)
  have l: "el_callbacks sample_loop (el_pipe_fd sample_loop) = Some (Some Interrupt_Handler)" "\<not> el_locked sample_loop"
    "(Timespec 0 0, Wait_Event (el_pipe_fd sample_loop) 1) \<in> set [(Timespec 0 0, Wait_Event 5 1), (Timespec 0 0, Wait_Event 3 1)]"
    by (simp_all add: sample_loop_def make_event_loop_def event_loop_add_def Let_def)
  from interrupt_ends_dispatch [OF p l] show ?thesis by blast
qed

text \<open>
  The timeout given to \<open>epoll_wait\<close> is the time left, in whole milliseconds and never more; but it
  is passed as an \<open>int\<close>, so that with between \<open>2^31\<close> and \<open>2^32\<close> milliseconds left it is negative and
  \<open>epoll_wait\<close> waits for ever.
\<close>

theorem dispatch_timeout_bounds:
  assumes "normal e" and "normal current" and "wait_milliseconds (Some e) current = Ret ms"
  shows "ms = max 0 (ns e - ns current) div 1000000
    \<and> (ms < 2 ^ 31 \<longrightarrow> epoll_timeout ms = ms) \<and> (2 ^ 31 \<le> ms \<and> ms < 2 ^ 32 \<longrightarrow> epoll_timeout ms < 0)"
proof (cases "clock_lt current e")
  case False
  have "clock_lt current e = duration_lt current e" by (simp add: clock_lt_def duration_lt_def)
  with False ns_less_iff [OF assms(2,1)] assms(3) show ?thesis
    by (simp add: wait_milliseconds_def epoll_timeout_def)
next
  case True
  let ?d = "clock_diff e current"
  have n: "ns ?d = ns e - ns current" by (simp add: clock_diff_def timespec_subtract_ns)
  have "clock_lt current e = duration_lt current e" by (simp add: clock_lt_def duration_lt_def)
  with True ns_less_iff [OF assms(2,1)] have pos: "0 < ns ?d" by (simp add: n)
  have m: "ms = ns ?d div 1000000"
  proof -
    have "duration_to_ratio milli ?d = Ret ms" using True assms(3) by (simp add: wait_milliseconds_def)
    moreover have "tv_sec ?d * 1000000000 + tv_nsec ?d = ns ?d" by (simp add: ns_def nsec_per_sec_def)
    ultimately have "rv_to nano milli (ns ?d) = Ret ms"
      by (auto simp: duration_to_ratio_def res_bind_def i64_def split: if_splits)
    moreover have "ratio_divide nano milli = \<lparr>num = 1, den = 1000000\<rparr>" by code_simp
    ultimately have "ms = ns ?d sdiv 1000000" by (auto simp: rv_to_def i64_def Let_def split: if_splits)
    with pos show ?thesis by (simp add: signed_divide_int_def)
  qed
  have 1: "epoll_timeout ms = ms" if "ms < 2 ^ 31"
  proof -
    have "0 \<le> ms" using m pos by (simp add: pos_imp_zdiv_nonneg_iff)
    with that show ?thesis by (simp add: epoll_timeout_eq signed_take_bit_int_eq_self)
  qed
  have 2: "epoll_timeout ms < 0" if "2 ^ 31 \<le> ms \<and> ms < 2 ^ 32"
  proof -
    have "signed_take_bit 31 ms = ms - 2 ^ 32"
    proof -
      have "signed_take_bit 31 ms = signed_take_bit 31 (ms - 2 ^ 32)"
        by (simp add: signed_take_bit_eq_iff_take_bit_eq take_bit_eq_mod)
      also have "\<dots> = ms - 2 ^ 32" using that by (intro signed_take_bit_int_eq_self) simp_all
      finally show ?thesis .
    qed
    with that show ?thesis by (simp add: epoll_timeout_eq)
  qed
  from m n pos 1 2 show ?thesis by simp
qed

theorem dispatch_timeout_bounds_witness:
  "wait_milliseconds (Some (Timespec 2147483 648000000)) (Timespec 0 0) = Ret 2147483648 \<and> epoll_timeout 2147483648 < 0"
proof -
  have e: "wait_milliseconds (Some (Timespec 2147483 648000000)) (Timespec 0 0) = Ret 2147483648" by code_simp
  from dispatch_timeout_bounds [OF _ _ e] show ?thesis using e by (simp add: normal_def nsec_per_sec_def)
qed

end
