(* ===== verification/Timer.thy ===== *)
theory Timer
  imports Event_Loop
begin

text \<open>
  \<open>src/hlib_timer.cpp\<close>: a \<open>timerfd\<close> that is registered with an event loop.

  The kernel's timer is the \<open>itimerspec\<close> it was last set to: armed when its value is not zero and,
  with an interval, until it is cleared.  \<open>timerfd_settime\<close> is the parameter \<open>settime\<close>, whether it
  accepts a setting; what the code relies on is \<open>accepts_normal\<close>, the documented condition.  The
  descriptors the process has open are a set, so that a descriptor that is never closed is visible.
\<close>

section \<open>Setting and clearing\<close>

record itimerspec =
  it_value :: timespec
  it_interval :: timespec

type_synonym settime = "itimerspec \<Rightarrow> bool"

definition normal_itimerspec :: "itimerspec \<Rightarrow> bool" where
  "normal_itimerspec ts \<longleftrightarrow>
     normal (it_value ts) \<and> normal (it_interval ts) \<and> 0 \<le> tv_sec (it_value ts) \<and> 0 \<le> tv_sec (it_interval ts)"

definition accepts_normal :: "settime \<Rightarrow> bool" where
  "accepts_normal settime \<longleftrightarrow> (\<forall>ts. normal_itimerspec ts \<longrightarrow> settime ts)"

definition immediate_nsec :: int where
  "immediate_nsec = 1000"

definition timer_clear :: "settime \<Rightarrow> itimerspec \<Rightarrow> bool \<times> itimerspec" where
  "timer_clear settime timer =
     (let ts = \<lparr>it_value = Timespec 0 0, it_interval = Timespec 0 0\<rparr>
      in if \<not> settime ts then (False, timer) else (True, ts))"

definition timer_set :: "settime \<Rightarrow> timespec \<Rightarrow> timespec \<Rightarrow> itimerspec \<Rightarrow> bool \<times> itimerspec" where
  "timer_set settime expire interval timer =
     (let ts = \<lparr>it_value = expire, it_interval = interval\<rparr>;
          ts1 = (if 0 = tv_sec (it_value ts) \<and> 0 = tv_nsec (it_value ts)
                 then ts\<lparr>it_value := Timespec (tv_sec (it_value ts)) immediate_nsec\<rparr> else ts)
      in if \<not> settime ts1 then (False, timer) else (True, ts1))"

definition timer_armed :: "itimerspec \<Rightarrow> bool" where
  "timer_armed timer \<longleftrightarrow> it_value timer \<noteq> Timespec 0 0"

section \<open>Construction, expiry and destruction\<close>

text \<open>
  \<open>timerfd_create\<close> is the parameter \<open>fd\<close>, the descriptor it returns, and the event loop is \<open>None\<close> when
  its weak pointer has expired.
\<close>

type_synonym ('c, 'w) loop_and_fds = "('c, 'w) event_loop option \<times> int set"

definition with_weak_ptr_locked ::
  "(('c, 'w) event_loop \<Rightarrow> unit res \<times> ('c, 'w) event_loop) \<Rightarrow> ('c, 'w) loop_and_fds \<Rightarrow> unit res \<times> ('c, 'w) loop_and_fds" where
  "with_weak_ptr_locked f = (\<lambda>(loop, fds).
     case loop of None \<Rightarrow> (Ret (), (None, fds)) | Some L \<Rightarrow> (case f L of (r, L1) \<Rightarrow> (r, (Some L1, fds))))"

definition timer_construct ::
  "epoll_ctl \<Rightarrow> int \<Rightarrow> 'c handler \<Rightarrow> ('c, 'w) loop_and_fds \<Rightarrow> unit res \<times> ('c, 'w) loop_and_fds" where
  "timer_construct ctl fd on_expire = (\<lambda>(loop, fds).
     if \<not> - 1 \<noteq> fd then (Fault Assert_Failed, (loop, fds))
     else with_weak_ptr_locked (event_loop_add ctl fd EPOLLIN (Some on_expire)) (loop, insert fd fds))"

definition timer_destroy :: "epoll_ctl \<Rightarrow> int \<Rightarrow> ('c, 'w) loop_and_fds \<Rightarrow> unit res \<times> ('c, 'w) loop_and_fds" where
  "timer_destroy ctl fd s =
     (if - 1 = fd then (Ret (), s)
      else and_then (with_weak_ptr_locked (event_loop_remove ctl fd) s)
             (\<lambda>_ (loop, fds). (Ret (), (loop, if - 1 = fd then fds - {fd} else fds))))"

text \<open>\<open>read\<close> is a parameter: an error number or the number of bytes read.\<close>

definition timer_on_expire :: "int + nat \<Rightarrow> ('s \<Rightarrow> unit res \<times> 's) \<Rightarrow> 's \<Rightarrow> unit res \<times> 's" where
  "timer_on_expire rd callback s =
     (case rd of
        Inl e \<Rightarrow> (Throw (make_system_error e ''read() failed''), s)
      | Inr r \<Rightarrow> if \<not> 8 = r then (Fault Assert_Failed, s) else callback s)"

section \<open>Facts\<close>

lemma timer_set_armed:
  assumes "accepts_normal settime" and "normal expire" and "normal interval" and "0 \<le> tv_sec expire" and "0 \<le> tv_sec interval"
  shows "fst (timer_set settime expire interval timer) \<and> timer_armed (snd (timer_set settime expire interval timer))"
proof (cases "expire = Timespec 0 0")
  case True
  have "normal_itimerspec \<lparr>it_value = Timespec 0 immediate_nsec, it_interval = interval\<rparr>"
    using assms by (simp add: normal_itimerspec_def normal_def immediate_nsec_def nsec_per_sec_def)
  with True assms(1) show ?thesis
    by (simp add: timer_set_def accepts_normal_def timer_armed_def Let_def immediate_nsec_def)
next
  case False
  then have "\<not> (0 = tv_sec expire \<and> 0 = tv_nsec expire)" by (cases expire) simp
  moreover have "normal_itimerspec \<lparr>it_value = expire, it_interval = interval\<rparr>"
    using assms by (simp add: normal_itimerspec_def)
  ultimately show ?thesis
    using False assms(1) by (auto simp: timer_set_def accepts_normal_def timer_armed_def Let_def)
qed

lemma timer_clear_disarms:
  assumes "accepts_normal settime"
  shows "fst (timer_clear settime timer) \<and> \<not> timer_armed (snd (timer_clear settime timer))"
proof -
  have "normal_itimerspec \<lparr>it_value = Timespec 0 0, it_interval = Timespec 0 0\<rparr>"
    by (simp add: normal_itimerspec_def normal_def nsec_per_sec_def)
  with assms show ?thesis by (simp add: timer_clear_def accepts_normal_def timer_armed_def Let_def)
qed

section \<open>Properties\<close>

text \<open>
  Constructing and destroying a timer leaves the loop as it was, but the descriptor of the timer
  stays open: the destructor closes it only when it is -1.
\<close>

theorem timer_leaks_descriptor:
  assumes "fd \<noteq> - 1" and "\<not> el_locked L" and "el_callbacks L fd = None" and "el_interest L fd = None"
    and "ctl Ctl_Add fd EPOLLIN = None" and "ctl Ctl_Del fd 0 = None"
  shows "and_then (timer_construct ctl fd h (Some L, fds)) (\<lambda>_. timer_destroy ctl fd) = (Ret (), (Some L, insert fd fds))"
proof -
  have "(el_callbacks L)(fd := None) = el_callbacks L" "(el_interest L)(fd := None) = el_interest L"
    using assms(3,4) by auto
  with assms show ?thesis
    by (simp add: timer_construct_def timer_destroy_def with_weak_ptr_locked_def event_loop_add_def
        event_loop_remove_def Let_def)
qed

theorem timer_leaks_descriptor_witness:
  "and_then (timer_construct (\<lambda>_ _ _. None) 7 (User_Handler ()) (Some sample_loop, {3, 5})) (\<lambda>_. timer_destroy (\<lambda>_ _ _. None) 7)
     = (Ret (), (Some sample_loop, {7, 3, 5}))"
proof -
  have l: "\<not> el_locked sample_loop" "el_callbacks sample_loop 7 = None" "el_interest sample_loop 7 = None"
    by (simp_all add: sample_loop_def make_event_loop_def event_loop_add_def Let_def)
  show ?thesis by (rule timer_leaks_descriptor [OF _ l]) simp_all
qed

end
