(* ===== verification/Event_Queue.thy ===== *)
theory Event_Queue
  imports Timer
begin

text \<open>
  \<open>src/hlib_event_queue.cpp\<close>: callbacks that other threads push and the thread of the event loop runs.

  The queue is the list of the callbacks not yet taken and the setting of its timer.  \<open>onTimer\<close> holds
  the mutex twice, before and after the callback; \<open>queue_pop\<close> and \<open>queue_finish\<close> are the two sections
  and \<open>queue_on_timer\<close> their composition.  Between them any thread, the callback too, may push: the
  step relation \<open>queue_step\<close> has one rule per section and interleaves them.  Jobs are a type parameter.

  The locale \<open>timerfd\<close> is what the queue relies on of the kernel, the locale \<open>job_queue\<close> what the
  event bus relies on of the queue.
\<close>

section \<open>The queue\<close>

record 'j event_queue =
  eq_queue :: "'j list"
  eq_timer :: itimerspec

definition make_event_queue :: "'j event_queue" where
  "make_event_queue = \<lparr>eq_queue = [], eq_timer = \<lparr>it_value = Timespec 0 0, it_interval = Timespec 0 0\<rparr>\<rparr>"

definition queue_push :: "settime \<Rightarrow> 'j \<Rightarrow> 'j event_queue \<Rightarrow> 'j event_queue" where
  "queue_push settime callback q =
     q\<lparr>eq_queue := eq_queue q @ [callback],
       eq_timer := snd (timer_set settime (Timespec 0 1) (Timespec 0 1) (eq_timer q))\<rparr>"

text \<open>\<open>front\<close> of an empty deque is undefined: \<open>None\<close>.\<close>

definition queue_pop :: "'j event_queue \<Rightarrow> ('j \<times> 'j event_queue) option" where
  "queue_pop q = (case eq_queue q of [] \<Rightarrow> None | callback # rest \<Rightarrow> Some (callback, q\<lparr>eq_queue := rest\<rparr>))"

definition queue_finish :: "settime \<Rightarrow> 'j event_queue \<Rightarrow> 'j event_queue" where
  "queue_finish settime q =
     (if eq_queue q = [] then q\<lparr>eq_timer := snd (timer_clear settime (eq_timer q))\<rparr> else q)"

text \<open>A callback is run by \<open>run\<close>, on the queue, which it may push to, and on a world.\<close>

type_synonym ('j, 'w) run = "'j \<Rightarrow> 'j event_queue \<times> 'w \<Rightarrow> unit res \<times> 'j event_queue \<times> 'w"

definition queue_on_timer ::
  "settime \<Rightarrow> ('j, 'w) run \<Rightarrow> 'j event_queue \<times> 'w \<Rightarrow> unit res \<times> 'j event_queue \<times> 'w" where
  "queue_on_timer settime run = (\<lambda>(q, w).
     case queue_pop q of
       None \<Rightarrow> (Fault Out_Of_Bounds, (q, w))
     | Some (callback, q1) \<Rightarrow> and_then (run callback (q1, w)) (\<lambda>_ (q2, w2). (Ret (), (queue_finish settime q2, w2))))"

text \<open>What the event loop calls when the descriptor of the timer is readable.\<close>

definition queue_call :: "settime \<Rightarrow> int + nat \<Rightarrow> ('j, 'w) run \<Rightarrow> (unit, 'j event_queue \<times> 'w) call" where
  "queue_call settime rd run c fd events L =
     (case timer_on_expire rd (queue_on_timer settime run) (el_world L) of
        (r, world) \<Rightarrow> (r, L\<lparr>el_world := world\<rparr>))"

section \<open>Interleavings\<close>

record 'j queue_system =
  qs_queue :: "'j event_queue"
  qs_running :: "'j option"
  qs_pushed :: "'j list"
  qs_done :: "'j list"

definition queue_system_init :: "'j queue_system" where
  "queue_system_init = \<lparr>qs_queue = make_event_queue, qs_running = None, qs_pushed = [], qs_done = []\<rparr>"

text \<open>The flag says whether callbacks may throw; the second section is skipped then.\<close>

inductive queue_step :: "settime \<Rightarrow> bool \<Rightarrow> 'j queue_system \<Rightarrow> 'j queue_system \<Rightarrow> bool"
  for settime :: settime and throwing :: bool where
  push: "queue_step settime throwing s
      (s\<lparr>qs_queue := queue_push settime callback (qs_queue s), qs_pushed := qs_pushed s @ [callback]\<rparr>)"
| fire: "qs_running s = None \<Longrightarrow> timer_armed (eq_timer (qs_queue s)) \<Longrightarrow> queue_pop (qs_queue s) = Some (callback, q) \<Longrightarrow>
    queue_step settime throwing s (s\<lparr>qs_queue := q, qs_running := Some callback\<rparr>)"
| finish: "qs_running s = Some callback \<Longrightarrow>
    queue_step settime throwing s
      (s\<lparr>qs_queue := queue_finish settime (qs_queue s), qs_running := None, qs_done := qs_done s @ [callback]\<rparr>)"
| throw: "throwing \<Longrightarrow> qs_running s = Some callback \<Longrightarrow>
    queue_step settime throwing s (s\<lparr>qs_running := None, qs_done := qs_done s @ [callback]\<rparr>)"

inductive queue_reachable :: "settime \<Rightarrow> bool \<Rightarrow> 'j queue_system \<Rightarrow> bool"
  for settime :: settime and throwing :: bool where
  start: "queue_reachable settime throwing queue_system_init"
| step: "queue_reachable settime throwing s \<Longrightarrow> queue_step settime throwing s t \<Longrightarrow> queue_reachable settime throwing t"

inductive_cases queue_stepE: "queue_step settime throwing s t"

text \<open>A wake-up of the loop thread that would take the front of an empty deque.\<close>

definition queue_front_of_empty :: "'j queue_system \<Rightarrow> bool" where
  "queue_front_of_empty s \<longleftrightarrow>
     qs_running s = None \<and> timer_armed (eq_timer (qs_queue s)) \<and> queue_pop (qs_queue s) = None"

definition in_order :: "'j queue_system \<Rightarrow> bool" where
  "in_order s \<longleftrightarrow> qs_pushed s = qs_done s @ (case qs_running s of None \<Rightarrow> [] | Some c \<Rightarrow> [c]) @ eq_queue (qs_queue s)"

definition timer_in_step :: "'j queue_system \<Rightarrow> bool" where
  "timer_in_step s \<longleftrightarrow>
     timer_armed (eq_timer (qs_queue s)) = (qs_running s \<noteq> None \<or> eq_queue (qs_queue s) \<noteq> [])"

section \<open>What the queue relies on, and what it promises\<close>

locale job_queue =
  fixes push :: "'j \<Rightarrow> 'q \<Rightarrow> 'q" and pending :: "'q \<Rightarrow> 'j list" and scheduled :: "'q \<Rightarrow> bool"
  assumes pending_push: "pending (push j q) = pending q @ [j]"
    and scheduled_push: "scheduled (push j q)"
begin

lemma pending_fold_push: "pending (fold push js q) = pending q @ js"
  by (induction js arbitrary: q) (simp_all add: pending_push)

lemma scheduled_fold_push: "js \<noteq> [] \<or> scheduled q \<Longrightarrow> scheduled (fold push js q)"
  by (induction js arbitrary: q) (simp_all add: scheduled_push)

end

locale timerfd =
  fixes settime :: settime
  assumes accepts: "accepts_normal settime"
begin

lemma push_arms: "timer_armed (eq_timer (queue_push settime j q))"
proof -
  have "normal (Timespec 0 1)" by (simp add: normal_def nsec_per_sec_def)
  with timer_set_armed [OF accepts] show ?thesis by (simp add: queue_push_def)
qed

lemma finish_timer: "timer_armed (eq_timer q) \<Longrightarrow> timer_armed (eq_timer (queue_finish settime q)) = (eq_queue q \<noteq> [])"
  using timer_clear_disarms [OF accepts] by (simp add: queue_finish_def)

lemma step_timer:
  assumes "queue_step settime False s t" and "timer_in_step s"
  shows "timer_in_step t"
  using assms(1)
proof (cases rule: queue_step.cases)
  case (push callback)
  then show ?thesis using push_arms by (simp add: timer_in_step_def queue_push_def)
next
  case (fire callback q)
  then show ?thesis by (auto simp: timer_in_step_def queue_pop_def split: list.splits)
next
  case (finish callback)
  with assms(2) finish_timer [of "qs_queue s"] show ?thesis
    by (simp add: timer_in_step_def) (simp add: queue_finish_def)
qed simp

lemma reachable_timer: "queue_reachable settime False s \<Longrightarrow> timer_in_step s"
  by (induction rule: queue_reachable.induct)
    (simp add: timer_in_step_def queue_system_init_def make_event_queue_def timer_armed_def, rule step_timer)

end

sublocale timerfd \<subseteq> jobs: job_queue "queue_push settime" eq_queue "\<lambda>q. timer_armed (eq_timer q)"
  by unfold_locales (simp_all add: push_arms, simp add: queue_push_def)

context timerfd
begin

lemma pending_pushes: "eq_queue (fold (queue_push settime) js q) = eq_queue q @ js"
  by (rule jobs.pending_fold_push)

lemma armed_pushes: "js \<noteq> [] \<Longrightarrow> timer_armed (eq_timer (fold (queue_push settime) js q))"
  by (rule jobs.scheduled_fold_push) blast

end

text \<open>A kernel that accepts exactly the normal settings.\<close>

interpretation checked: timerfd normal_itimerspec
  by unfold_locales (simp add: accepts_normal_def)

lemma step_in_order: "queue_step settime throwing s t \<Longrightarrow> in_order s \<Longrightarrow> in_order t"
  by (erule queue_stepE)
    (auto simp: in_order_def queue_push_def queue_pop_def queue_finish_def split: list.splits option.splits)

lemma reachable_in_order: "queue_reachable settime throwing s \<Longrightarrow> in_order s"
  by (induction rule: queue_reachable.induct)
    (simp add: in_order_def queue_system_init_def make_event_queue_def, rule step_in_order)

section \<open>Running what is pending\<close>

text \<open>
  A callback returns, throws or faults, may push callbacks, and changes the world.  It does not use the
  loop that runs it.
\<close>

type_synonym ('j, 'w) job = "'j \<Rightarrow> 'w \<Rightarrow> unit res \<times> 'j list \<times> 'w"

definition job_run :: "settime \<Rightarrow> ('j, 'w) job \<Rightarrow> ('j, 'w) run" where
  "job_run settime f j = (\<lambda>(q, w). case f j w of (r, pushed, w1) \<Rightarrow> (r, (fold (queue_push settime) pushed q, w1)))"

text \<open>
  What a queue is for: \<open>n\<close> callbacks one after the other, first in first out, up to one that does not
  return; with what is left and the world then.  There is no callback to run when none is left.
\<close>

fun fifo :: "('j, 'w) job \<Rightarrow> nat \<Rightarrow> 'j list \<Rightarrow> 'w \<Rightarrow> unit res \<times> 'j list \<times> 'w" where
  "fifo f 0 js w = (Ret (), js, w)"
| "fifo f (Suc n) [] w = (Fault Out_Of_Bounds, [], w)"
| "fifo f (Suc n) (j # js) w =
     (case f j w of
        (Ret _, pushed, w1) \<Rightarrow> fifo f n (js @ pushed) w1
      | (r, pushed, w1) \<Rightarrow> (r, js @ pushed, w1))"

text \<open>Callbacks that return and push nothing are all run by as many turns.\<close>

lemma fifo_returning:
  assumes "\<And>j w. f j w = (Ret (), [], g j w)"
  shows "fifo f (length js) js w = (Ret (), [], fold g js w)"
  by (induction js arbitrary: w) (simp_all add: assms)

lemma queue_call_respects_pipe: "pipe_respecting (queue_call settime rd run)"
  by standard (simp_all add: queue_call_def split: prod.splits)

lemma queue_call_keeps_loop: "keeps_loop (queue_call settime rd run)"
  by (simp add: keeps_loop_def queue_call_def split: prod.splits)

text \<open>The timer is armed exactly while something is pending.\<close>

definition queue_in_step :: "'j event_queue \<Rightarrow> bool" where
  "queue_in_step q \<longleftrightarrow> timer_armed (eq_timer q) = (eq_queue q \<noteq> [])"

definition loop_outcome :: "unit res \<Rightarrow> outcome" where
  "loop_outcome r = (case r of Ret _ \<Rightarrow> In_Epoll_Wait | _ \<Rightarrow> Finished r)"

context timerfd
begin

lemma pushes_in_step:
  "queue_in_step q \<Longrightarrow> queue_in_step (fold (queue_push settime) js q)"
  using armed_pushes [of js q] pending_pushes [of js q] by (cases "js = []") (simp_all add: queue_in_step_def)

text \<open>One report of the timer's descriptor runs the callback in front.\<close>

lemma report_runs_front:
  assumes "el_world L = (q, w)" and "eq_queue q = j # js" and "timer_armed (eq_timer q)" and "f j w = (r, pushed, w1)"
  shows "\<exists>q1. queue_call settime (Inr 8) (job_run settime f) c fd ev L = (r, L\<lparr>el_world := (q1, w1)\<rparr>)
    \<and> eq_queue q1 = js @ pushed \<and> (case r of Ret _ \<Rightarrow> queue_in_step q1 | _ \<Rightarrow> timer_armed (eq_timer q1))"
proof -
  let ?p = "fold (queue_push settime) pushed (q\<lparr>eq_queue := js\<rparr>)"
  have pend: "eq_queue ?p = js @ pushed" by (simp add: pending_pushes)
  have armed: "timer_armed (eq_timer ?p)"
    using jobs.scheduled_fold_push [of pushed "q\<lparr>eq_queue := js\<rparr>"] assms(3) by simp
  have fin: "eq_queue (queue_finish settime ?p) = eq_queue ?p" by (simp add: queue_finish_def)
  show ?thesis
  proof (cases r)
    case (Ret u)
    have "queue_in_step (queue_finish settime ?p)" using finish_timer [OF armed] fin by (simp add: queue_in_step_def)
    with Ret assms pend fin show ?thesis
      by (intro exI [of _ "queue_finish settime ?p"])
        (simp add: queue_call_def timer_on_expire_def queue_on_timer_def queue_pop_def job_run_def)
  qed (use assms pend armed in \<open>intro exI [of _ ?p],
        simp add: queue_call_def timer_on_expire_def queue_on_timer_def queue_pop_def job_run_def\<close>)+
qed

text \<open>As many reports run as many callbacks.\<close>

lemma dispatch_loop_is_fifo:
  assumes "\<not> el_locked L" and "\<not> el_interrupt L" and "el_callbacks L fd = Some (Some (User_Handler ()))"
    and "el_world L = (q, w)" and "queue_in_step q" and "fifo f n (eq_queue q) w = (r, left, w1)"
  shows "\<exists>q1. dispatch_loop (queue_call settime (Inr 8) (job_run settime f)) None (replicate n (c, Wait_Event fd EPOLLIN)) L
      = (loop_outcome r, L\<lparr>el_world := (q1, w1)\<rparr>)
    \<and> eq_queue q1 = left \<and> (case r of Ret _ \<Rightarrow> queue_in_step q1 | Throw _ \<Rightarrow> timer_armed (eq_timer q1) | Fault _ \<Rightarrow> True)"
  using assms
proof (induction n arbitrary: L q w)
  case 0
  then have "L\<lparr>el_world := (q, w1)\<rparr> = L" by (cases L) simp
  with 0 show ?case by (intro exI [of _ q]) (auto simp: loop_outcome_def)
next
  case (Suc n)
  let ?call = "queue_call settime (Inr 8) (job_run settime f)"
  show ?case
  proof (cases "eq_queue q")
    case Nil
    with Suc.prems show ?thesis
      by (auto simp: loop_outcome_def wait_milliseconds_def call_handler_def queue_call_def timer_on_expire_def
          queue_on_timer_def queue_pop_def)
  next
    case (Cons j js)
    obtain r2 pushed w2 where f: "f j w = (r2, pushed, w2)" by (metis surj_pair)
    have "timer_armed (eq_timer q)" using Suc.prems(5) Cons by (simp add: queue_in_step_def)
    from report_runs_front [where f = f and c = "()" and fd = fd and ev = EPOLLIN, OF Suc.prems(4) Cons this f]
    obtain q2 where c: "?call () fd EPOLLIN L = (r2, L\<lparr>el_world := (q2, w2)\<rparr>)" and q2: "eq_queue q2 = js @ pushed"
      "case r2 of Ret _ \<Rightarrow> queue_in_step q2 | _ \<Rightarrow> timer_armed (eq_timer q2)" by blast
    show ?thesis
    proof (cases r2)
      case (Ret u)
      with Suc.prems(6) Cons f q2 have "fifo f n (eq_queue q2) w2 = (r, left, w1)" by simp
      with Suc.IH [of "L\<lparr>el_world := (q2, w2)\<rparr>" q2 w2] Suc.prems c q2(2) Ret show ?thesis
        by (simp add: wait_milliseconds_def call_handler_def)
    qed (use Suc.prems c q2 Cons f in \<open>auto simp: loop_outcome_def wait_milliseconds_def call_handler_def\<close>)
  qed
qed

lemma dispatch_is_fifo:
  assumes "\<not> el_locked L" and "el_callbacks L fd = Some (Some (User_Handler ()))"
    and "el_world L = (q, w)" and "queue_in_step q" and "fifo f n (eq_queue q) w = (r, left, w1)"
  shows "\<exists>q1. dispatch (queue_call settime (Inr 8) (job_run settime f)) self None start (replicate n (c, Wait_Event fd EPOLLIN)) L
      = (loop_outcome r, L\<lparr>el_thread_id := (case r of Ret _ \<Rightarrow> Some self | _ \<Rightarrow> None), el_interrupt := False, el_world := (q1, w1)\<rparr>)
    \<and> eq_queue q1 = left \<and> (case r of Ret _ \<Rightarrow> queue_in_step q1 | Throw _ \<Rightarrow> timer_armed (eq_timer q1) | Fault _ \<Rightarrow> True)"
proof -
  let ?L = "L\<lparr>el_thread_id := Some self, el_interrupt := False\<rparr>"
  obtain q1 where d: "dispatch_loop (queue_call settime (Inr 8) (job_run settime f)) None (replicate n (c, Wait_Event fd EPOLLIN)) ?L
      = (loop_outcome r, ?L\<lparr>el_world := (q1, w1)\<rparr>)"
    and q1: "eq_queue q1 = left" "case r of Ret _ \<Rightarrow> queue_in_step q1 | Throw _ \<Rightarrow> timer_armed (eq_timer q1) | Fault _ \<Rightarrow> True"
    using dispatch_loop_is_fifo [of ?L fd q w f n r left w1 c] assms by auto
  have "L\<lparr>el_locked := False\<rparr> = L" using assms(1) by simp
  with d q1 assms(1) show ?thesis
    by (intro exI [of _ q1]) (cases r; simp add: dispatch_def loop_outcome_def)
qed

end

lemma event_loop_runs_queue:
  assumes "accepts_normal settime" and "\<not> el_locked L" and "el_callbacks L fd = Some (Some (User_Handler ()))"
    and "el_world L = (q, w)" and "queue_in_step q"
  shows "(\<forall>n left w1. fifo f n (eq_queue q) w = (Ret (), left, w1) \<longrightarrow>
        (\<exists>q1. dispatch (queue_call settime (Inr 8) (job_run settime f)) self None start (replicate n (c, Wait_Event fd EPOLLIN)) L
            = (In_Epoll_Wait, L\<lparr>el_thread_id := Some self, el_interrupt := False, el_world := (q1, w1)\<rparr>)
          \<and> eq_queue q1 = left \<and> timer_armed (eq_timer q1) = (left \<noteq> [])))
    \<and> (\<forall>n e left w1. fifo f n (eq_queue q) w = (Throw e, left, w1) \<longrightarrow>
        (\<exists>q1. dispatch (queue_call settime (Inr 8) (job_run settime f)) self None start (replicate n (c, Wait_Event fd EPOLLIN)) L
            = (Finished (Throw e), L\<lparr>el_thread_id := None, el_interrupt := False, el_world := (q1, w1)\<rparr>)
          \<and> eq_queue q1 = left \<and> timer_armed (eq_timer q1)))
    \<and> (\<forall>g. (\<forall>j w. f j w = (Ret (), [], g j w)) \<longrightarrow>
        fifo f (length (eq_queue q)) (eq_queue q) w = (Ret (), [], fold g (eq_queue q) w))"
proof -
  note d = timerfd.dispatch_is_fifo [OF timerfd.intro [OF assms(1)] assms(2-5), of f]
  show ?thesis
  proof (intro conjI allI impI)
    fix n left w1
    assume "fifo f n (eq_queue q) w = (Ret (), left, w1)"
    from d [OF this, of self start c]
    show "\<exists>q1. dispatch (queue_call settime (Inr 8) (job_run settime f)) self None start (replicate n (c, Wait_Event fd EPOLLIN)) L
            = (In_Epoll_Wait, L\<lparr>el_thread_id := Some self, el_interrupt := False, el_world := (q1, w1)\<rparr>)
          \<and> eq_queue q1 = left \<and> timer_armed (eq_timer q1) = (left \<noteq> [])"
      by (auto simp: loop_outcome_def queue_in_step_def)
  next
    fix n e left w1
    assume "fifo f n (eq_queue q) w = (Throw e, left, w1)"
    from d [OF this, of self start c]
    show "\<exists>q1. dispatch (queue_call settime (Inr 8) (job_run settime f)) self None start (replicate n (c, Wait_Event fd EPOLLIN)) L
            = (Finished (Throw e), L\<lparr>el_thread_id := None, el_interrupt := False, el_world := (q1, w1)\<rparr>)
          \<and> eq_queue q1 = left \<and> timer_armed (eq_timer q1)"
      by (simp add: loop_outcome_def)
  next
    fix g
    assume "\<forall>j w. f j w = (Ret (), [], g j w)"
    then show "fifo f (length (eq_queue q)) (eq_queue q) w = (Ret (), [], fold g (eq_queue q) w)"
      by (intro fifo_returning) simp
  qed
qed

section \<open>Properties\<close>

text \<open>
  C6.  However the threads interleave, callbacks run one at a time and in the order they were pushed,
  none lost and none run twice; and unless a callback throws, the timer is armed exactly while there is
  something to run, so that no callback waits for ever, an idle queue causes no wake-up and the front
  of an empty deque is never taken.
\<close>

theorem queue_runs_in_order:
  assumes "accepts_normal settime" and "queue_reachable settime throwing s"
  shows "qs_pushed s = qs_done s @ (case qs_running s of None \<Rightarrow> [] | Some c \<Rightarrow> [c]) @ eq_queue (qs_queue s)
    \<and> (\<not> throwing \<longrightarrow> timer_armed (eq_timer (qs_queue s)) = (qs_done s \<noteq> qs_pushed s) \<and> \<not> queue_front_of_empty s)"
proof -
  have o: "in_order s" by (rule reachable_in_order [OF assms(2)])
  have "timer_armed (eq_timer (qs_queue s)) = (qs_done s \<noteq> qs_pushed s) \<and> \<not> queue_front_of_empty s" if "\<not> throwing"
  proof -
    have "timer_in_step s"
      using timerfd.reachable_timer [OF timerfd.intro [OF assms(1)]] assms(2) that by simp
    with o show ?thesis
      by (auto simp: timer_in_step_def in_order_def queue_front_of_empty_def queue_pop_def split: option.splits list.splits)
  qed
  with o show ?thesis by (simp add: in_order_def)
qed

definition after_push :: "nat queue_system" where
  "after_push = queue_system_init\<lparr>qs_queue := queue_push normal_itimerspec 7 make_event_queue, qs_pushed := [7]\<rparr>"

lemma reachable_after_push: "queue_reachable normal_itimerspec throwing after_push"
proof -
  have "queue_step normal_itimerspec throwing queue_system_init after_push"
    using queue_step.push [of normal_itimerspec throwing queue_system_init 7]
    by (simp add: after_push_def queue_system_init_def)
  then show ?thesis by (rule queue_reachable.step [OF queue_reachable.start])
qed

theorem queue_runs_in_order_witness: "timer_armed (eq_timer (qs_queue after_push)) \<and> \<not> queue_front_of_empty after_push"
proof -
  have "qs_done after_push \<noteq> qs_pushed after_push" by (simp add: after_push_def queue_system_init_def)
  with queue_runs_in_order [OF checked.accepts reachable_after_push [of False]] show ?thesis by blast
qed

text \<open>
  A callback that throws when it is the last one leaves the timer armed: the next wake-up takes
  the front of an empty deque.
\<close>

theorem throwing_callback_empties_front:
  assumes "accepts_normal settime"
  shows "\<exists>s. queue_reachable settime True s \<and> qs_pushed s = [j] \<and> queue_front_of_empty s
    \<and> queue_on_timer settime run (qs_queue s, w) = (Fault Out_Of_Bounds, (qs_queue s, w))"
proof -
  let ?q = "queue_push settime j make_event_queue"
  let ?q1 = "?q\<lparr>eq_queue := []\<rparr>"
  let ?s1 = "queue_system_init\<lparr>qs_queue := ?q, qs_pushed := [j]\<rparr>"
  let ?s2 = "?s1\<lparr>qs_queue := ?q1, qs_running := Some j\<rparr>"
  let ?s3 = "?s2\<lparr>qs_running := None, qs_done := [j]\<rparr>"
  have armed: "timer_armed (eq_timer ?q)" by (rule timerfd.push_arms [OF timerfd.intro [OF assms]])
  have pop: "queue_pop ?q = Some (j, ?q1)"
    by (simp add: queue_pop_def queue_push_def make_event_queue_def)
  have s1: "queue_step settime True queue_system_init ?s1"
    using queue_step.push [of settime True queue_system_init j] by (simp add: queue_system_init_def)
  have s2: "queue_step settime True ?s1 ?s2"
    using queue_step.fire [of ?s1 j ?q1 settime True] armed pop by (simp add: queue_system_init_def)
  have s3: "queue_step settime True ?s2 ?s3"
    using queue_step.throw [of True ?s2 j settime] by (simp add: queue_system_init_def)
  have "queue_reachable settime True ?s3"
    by (rule queue_reachable.step [OF queue_reachable.step [OF queue_reachable.step [OF queue_reachable.start s1] s2] s3])
  moreover have "qs_pushed ?s3 = [j]" by simp
  moreover have "queue_front_of_empty ?s3" using armed by (simp add: queue_front_of_empty_def queue_pop_def)
  moreover have "queue_on_timer settime run (qs_queue ?s3, w) = (Fault Out_Of_Bounds, (qs_queue ?s3, w))"
    by (simp add: queue_on_timer_def queue_pop_def)
  ultimately show ?thesis by blast
qed

theorem throwing_callback_empties_front_witness:
  "\<exists>s. queue_reachable normal_itimerspec True s \<and> qs_pushed s = [3 :: nat] \<and> queue_front_of_empty s"
  using throwing_callback_empties_front [OF checked.accepts, of 3 _ "()"] by blast

text \<open>
  C7.  Reports of the timer's descriptor make the event loop run the callbacks of the queue first in
  first out, whether they return, throw or push more.  While they return, the loop goes on waiting, what
  is left is what \<open>fifo\<close> leaves, and the timer is armed exactly if that is not nothing.  An exception of a
  callback ends \<open>dispatch\<close> with it and leaves the timer armed, also when nothing is left.  Callbacks that
  return and push nothing are all run by as many reports as there are callbacks.
\<close>

theorem event_loop_drains_queue:
  assumes "accepts_normal settime" and "\<not> el_locked L" and "el_callbacks L fd = Some (Some (User_Handler ()))"
    and "el_world L = (q, w)" and "queue_in_step q"
  shows "(\<forall>n left w1. fifo f n (eq_queue q) w = (Ret (), left, w1) \<longrightarrow>
        (\<exists>q1. dispatch (queue_call settime (Inr 8) (job_run settime f)) self None start (replicate n (c, Wait_Event fd EPOLLIN)) L
            = (In_Epoll_Wait, L\<lparr>el_thread_id := Some self, el_interrupt := False, el_world := (q1, w1)\<rparr>)
          \<and> eq_queue q1 = left \<and> timer_armed (eq_timer q1) = (left \<noteq> [])))
    \<and> (\<forall>n e left w1. fifo f n (eq_queue q) w = (Throw e, left, w1) \<longrightarrow>
        (\<exists>q1. dispatch (queue_call settime (Inr 8) (job_run settime f)) self None start (replicate n (c, Wait_Event fd EPOLLIN)) L
            = (Finished (Throw e), L\<lparr>el_thread_id := None, el_interrupt := False, el_world := (q1, w1)\<rparr>)
          \<and> eq_queue q1 = left \<and> timer_armed (eq_timer q1)))
    \<and> (\<forall>g. (\<forall>j w. f j w = (Ret (), [], g j w)) \<longrightarrow>
        fifo f (length (eq_queue q)) (eq_queue q) w = (Ret (), [], fold g (eq_queue q) w))"
  using event_loop_runs_queue [OF assms, of f self start c] .

definition queue_of_jobs :: "nat event_queue" where
  "queue_of_jobs = fold (queue_push normal_itimerspec) [4, 2, 9] make_event_queue"

definition loop_with_jobs :: "(unit, nat event_queue \<times> nat list) event_loop" where
  "loop_with_jobs =
     snd (event_loop_add (\<lambda>_ _ _. None) 5 EPOLLIN (Some (User_Handler ()))
       (snd (make_event_loop (\<lambda>_ _ _. None) None (Inr 3) None (queue_of_jobs, []))))"

text \<open>A callback that pushes one more, and one that throws.\<close>

definition sample_job :: "(nat, nat list) job" where
  "sample_job j w = (if j = 9 then Throw Bad_Function_Call else Ret (), if j = 4 then [7] else [], w @ [j])"

theorem event_loop_drains_queue_witness:
  "(\<exists>q. dispatch (queue_call normal_itimerspec (Inr 8) (job_run normal_itimerspec sample_job)) 1 None (Timespec 0 0)
      (replicate 2 (Timespec 0 0, Wait_Event 5 EPOLLIN)) loop_with_jobs
    = (In_Epoll_Wait, loop_with_jobs\<lparr>el_thread_id := Some 1, el_interrupt := False, el_world := (q, [4, 2])\<rparr>) \<and> eq_queue q = [9, 7])
   \<and> (\<exists>q. dispatch (queue_call normal_itimerspec (Inr 8) (job_run normal_itimerspec sample_job)) 1 None (Timespec 0 0)
      (replicate 3 (Timespec 0 0, Wait_Event 5 EPOLLIN)) loop_with_jobs
    = (Finished (Throw Bad_Function_Call),
       loop_with_jobs\<lparr>el_thread_id := None, el_interrupt := False, el_world := (q, [4, 2, 9])\<rparr>) \<and> eq_queue q = [7])"
proof -
  have l: "\<not> el_locked loop_with_jobs" "el_callbacks loop_with_jobs 5 = Some (Some (User_Handler ()))"
    "el_world loop_with_jobs = (queue_of_jobs, [])"
    by (simp_all add: loop_with_jobs_def make_event_loop_def event_loop_add_def Let_def)
  have s: "queue_in_step queue_of_jobs"
    unfolding queue_of_jobs_def
    by (rule checked.pushes_in_step) (simp add: queue_in_step_def make_event_queue_def timer_armed_def)
  have q: "eq_queue queue_of_jobs = [4, 2, 9]"
    by (simp add: queue_of_jobs_def queue_push_def make_event_queue_def)
  have "fifo sample_job 2 (eq_queue queue_of_jobs) [] = (Ret (), [9, 7], [4, 2])"
    "fifo sample_job 3 (eq_queue queue_of_jobs) [] = (Throw Bad_Function_Call, [7], [4, 2, 9])"
    unfolding q by (simp_all add: sample_job_def numeral_2_eq_2 numeral_3_eq_3)
  with event_loop_drains_queue [OF checked.accepts l s, of sample_job 1 "Timespec 0 0" "Timespec 0 0"]
  show ?thesis by blast
qed

end
