(* ===== verification/Event_Bus.thy ===== *)
theory Event_Bus
  imports Event_Queue "HOL-Library.AList" "HOL-Library.Multiset"
begin

text \<open>
  \<open>src/hlib_event_bus.cpp\<close>: named subscriptions to actions, notification of one subscriber and
  broadcast to all.

  The two levels of hash maps are association lists; their order is the order of iteration, which the
  language leaves open and no property depends on.  Queues are named by numbers, a weak pointer to a
  queue is a number or none, and the queues that are alive are a map \<open>'q\<close> of them.  The bus uses a queue
  only by \<open>push\<close>, which is an argument of its operations; what it relies on is the locale \<open>job_queue\<close>, which the
  event queue gives.  A job is a callback bound to its data.
\<close>

section \<open>The bus\<close>

record 'c subscription =
  sub_queue :: "nat option"
  sub_callback :: "'c option"

type_synonym 'c event_bus = "(string \<times> (string \<times> 'c subscription) list) list"
type_synonym 'q queues = "nat \<Rightarrow> 'q option"
type_synonym ('j, 'q) push = "'j \<Rightarrow> 'q \<Rightarrow> 'q"

definition lock_queue :: "'q queues \<Rightarrow> 'c subscription \<Rightarrow> (nat \<times> 'q) option" where
  "lock_queue qs s = (case sub_queue s of None \<Rightarrow> None | Some i \<Rightarrow> map_option (Pair i) (qs i))"

definition queue_expired :: "'q queues \<Rightarrow> 'c subscription \<Rightarrow> bool" where
  "queue_expired qs s \<longleftrightarrow> Option.is_none (lock_queue qs s)"

definition bus_get :: "string \<Rightarrow> string \<Rightarrow> 'c event_bus \<Rightarrow> 'c subscription" where
  "bus_get name action bus =
     (case map_of bus action of
        None \<Rightarrow> \<lparr>sub_queue = None, sub_callback = None\<rparr>
      | Some subscriptions \<Rightarrow>
          (case map_of subscriptions name of
             None \<Rightarrow> \<lparr>sub_queue = None, sub_callback = None\<rparr>
           | Some s \<Rightarrow> s))"

definition bus_subscribe :: "'q queues \<Rightarrow> string \<Rightarrow> string \<Rightarrow> 'c subscription \<Rightarrow> 'c event_bus \<Rightarrow> bool \<times> 'c event_bus" where
  "bus_subscribe qs name action s bus =
     (if queue_expired qs s \<or> Option.is_none (sub_callback s) then (False, bus)
      else let subscriptions = (case map_of bus action of None \<Rightarrow> [] | Some m \<Rightarrow> m)
           in (True, AList.update action (AList.update name s subscriptions) bus))"

definition bus_subscribe_callback ::
  "'q queues \<Rightarrow> string \<Rightarrow> string \<Rightarrow> nat option \<Rightarrow> 'c option \<Rightarrow> 'c event_bus \<Rightarrow> bool \<times> 'c event_bus" where
  "bus_subscribe_callback qs name action queue callback bus =
     bus_subscribe qs name action \<lparr>sub_queue = queue, sub_callback = callback\<rparr> bus"

definition bus_unsubscribe :: "string \<Rightarrow> string \<Rightarrow> 'c event_bus \<Rightarrow> 'c event_bus" where
  "bus_unsubscribe name action bus =
     (case map_of bus action of
        None \<Rightarrow> bus
      | Some subscriptions \<Rightarrow>
          (case map_of subscriptions name of
             None \<Rightarrow> bus
           | Some _ \<Rightarrow>
               filter (\<lambda>(_, m). m \<noteq> []) (AList.update action (AList.delete name subscriptions) bus)))"

definition bus_notify ::
  "('c option \<times> 'd, 'q) push \<Rightarrow> string \<Rightarrow> string \<Rightarrow> 'd \<Rightarrow> 'c event_bus \<times> 'q queues \<Rightarrow> 'c event_bus \<times> 'q queues" where
  "bus_notify push name action data = (\<lambda>(bus, qs).
     case map_of bus action of
       None \<Rightarrow> (bus, qs)
     | Some subscriptions \<Rightarrow>
         (case map_of subscriptions name of
            None \<Rightarrow> (bus, qs)
          | Some s \<Rightarrow>
              (case lock_queue qs s of
                 None \<Rightarrow> (AList.update action (AList.delete name subscriptions) bus, qs)
               | Some (i, q) \<Rightarrow> (bus, qs(i \<mapsto> push (sub_callback s, data) q)))))"

fun broadcast_loop ::
  "('c option \<times> 'd, 'q) push \<Rightarrow> 'd \<Rightarrow> (string \<times> 'c subscription) list \<Rightarrow> 'q queues
     \<Rightarrow> (string \<times> 'c subscription) list \<times> 'q queues" where
  "broadcast_loop push data [] qs = ([], qs)"
| "broadcast_loop push data ((name, s) # rest) qs =
     (case lock_queue qs s of
        None \<Rightarrow> broadcast_loop push data rest qs
      | Some (i, q) \<Rightarrow>
          (case broadcast_loop push data rest (qs(i \<mapsto> push (sub_callback s, data) q)) of
             (rest1, qs1) \<Rightarrow> ((name, s) # rest1, qs1)))"

definition bus_broadcast ::
  "('c option \<times> 'd, 'q) push \<Rightarrow> string \<Rightarrow> 'd \<Rightarrow> 'c event_bus \<times> 'q queues \<Rightarrow> 'c event_bus \<times> 'q queues" where
  "bus_broadcast push action data = (\<lambda>(bus, qs).
     case map_of bus action of
       None \<Rightarrow> (bus, qs)
     | Some subscriptions \<Rightarrow>
         (case broadcast_loop push data subscriptions qs of
            (subscriptions1, qs1) \<Rightarrow> (AList.update action subscriptions1 bus, qs1)))"

section \<open>The subscriptions as one map\<close>

definition subs :: "'c event_bus \<Rightarrow> string \<times> string \<Rightarrow> 'c subscription option" where
  "subs bus = (\<lambda>(action, name). case map_of bus action of None \<Rightarrow> None | Some m \<Rightarrow> map_of m name)"

definition bus_wf :: "'c event_bus \<Rightarrow> bool" where
  "bus_wf bus \<longleftrightarrow> distinct (map fst bus) \<and> (\<forall>(action, m) \<in> set bus. distinct (map fst m))"

lemma bus_wf_inner: "bus_wf bus \<Longrightarrow> map_of bus action = Some m \<Longrightarrow> distinct (map fst m)"
  by (auto simp: bus_wf_def dest: map_of_SomeD)

lemma bus_wf_update:
  assumes "bus_wf bus" and "distinct (map fst m)"
  shows "bus_wf (AList.update action m bus)"
proof -
  have "(a, m') \<in> set (AList.update action m bus) \<Longrightarrow> (a, m') \<in> set bus \<or> m' = m" for a m'
    by (induction bus) (auto split: if_splits)
  with assms have "\<forall>(a, m') \<in> set (AList.update action m bus). distinct (map fst m')"
    by (fastforce simp: bus_wf_def)
  with assms show ?thesis by (simp add: bus_wf_def distinct_update)
qed

lemma subs_update:
  "subs (AList.update action m bus) =
     (\<lambda>(a, n). if a = action then map_of m n else subs bus (a, n))"
  by (auto simp: subs_def update_conv' fun_eq_iff)

lemma map_of_filter_nonempty:
  assumes "distinct (map fst bus)"
  shows "subs (filter (\<lambda>(_, m). m \<noteq> []) bus) = subs bus"
proof -
  have "map_of (filter (\<lambda>(_, m). m \<noteq> []) bus) a = (case map_of bus a of Some m \<Rightarrow> if m = [] then None else Some m | None \<Rightarrow> None)" for a
    using assms
  proof (induction bus)
    case (Cons p bus)
    then have "map_of bus (fst p) = None" by (simp add: map_of_eq_None_iff)
    with Cons show ?case by (cases p) (auto split: option.splits)
  qed simp
  then show ?thesis by (auto simp: subs_def fun_eq_iff split: option.splits)
qed

lemma subs_subscribe:
  assumes "bus_wf bus"
  shows "bus_subscribe qs name action s bus = (ok, bus') \<Longrightarrow>
    bus_wf bus' \<and> ok = (\<not> queue_expired qs s \<and> sub_callback s \<noteq> None)
    \<and> subs bus' = (if ok then (subs bus)((action, name) \<mapsto> s) else subs bus)"
proof -
  let ?m = "case map_of bus action of None \<Rightarrow> [] | Some m \<Rightarrow> m"
  have d: "distinct (map fst ?m)" using bus_wf_inner [OF assms] by (auto split: option.splits)
  have "subs (AList.update action (AList.update name s ?m) bus) = (subs bus)((action, name) \<mapsto> s)"
    by (auto simp: subs_update update_conv' subs_def fun_eq_iff split: option.splits)
  moreover have "bus_wf (AList.update action (AList.update name s ?m) bus)"
    by (rule bus_wf_update [OF assms distinct_update [OF d]])
  ultimately show "bus_subscribe qs name action s bus = (ok, bus') \<Longrightarrow> ?thesis"
    using assms by (auto simp: bus_subscribe_def Let_def Option.is_none_def split: if_splits)
qed

lemma subs_delete:
  assumes "bus_wf bus" and "map_of bus action = Some m"
  shows "bus_wf (AList.update action (AList.delete name m) bus)
    \<and> subs (AList.update action (AList.delete name m) bus) = (subs bus)((action, name) := None)"
proof
  show "bus_wf (AList.update action (AList.delete name m) bus)"
    by (rule bus_wf_update [OF assms(1) distinct_delete [OF bus_wf_inner [OF assms]]])
  show "subs (AList.update action (AList.delete name m) bus) = (subs bus)((action, name) := None)"
    unfolding subs_update by (auto simp: delete_conv' subs_def assms(2) fun_eq_iff)
qed

lemma subs_unsubscribe:
  assumes "bus_wf bus"
  shows "bus_wf (bus_unsubscribe name action bus)
    \<and> subs (bus_unsubscribe name action bus) = (subs bus)((action, name) := None)"
proof (cases "subs bus (action, name)")
  case None
  then have "bus_unsubscribe name action bus = bus" by (simp add: bus_unsubscribe_def subs_def split: option.splits)
  with None assms show ?thesis by (simp add: fun_upd_idem)
next
  case (Some s)
  then obtain m where m: "map_of bus action = Some m" "map_of m name = Some s" by (auto simp: subs_def split: option.splits)
  let ?b = "AList.update action (AList.delete name m) bus"
  have b: "bus_wf ?b" "subs ?b = (subs bus)((action, name) := None)" using subs_delete [OF assms m(1)] by auto
  have e: "bus_unsubscribe name action bus = filter (\<lambda>(_, m). m \<noteq> []) ?b" using m by (simp add: bus_unsubscribe_def)
  have "distinct (map fst ?b)" using b(1) by (simp add: bus_wf_def)
  then have "subs (filter (\<lambda>(_, m). m \<noteq> []) ?b) = subs ?b" by (rule map_of_filter_nonempty)
  moreover have "bus_wf (filter (\<lambda>(_, m). m \<noteq> []) ?b)" using b(1) by (auto simp: bus_wf_def distinct_map_filter)
  ultimately show ?thesis using b(2) e by simp
qed

lemma bus_get_subs:
  "bus_get name action bus =
     (case subs bus (action, name) of None \<Rightarrow> \<lparr>sub_queue = None, sub_callback = None\<rparr> | Some s \<Rightarrow> s)"
  by (simp add: bus_get_def subs_def split: option.splits)

lemma queue_expired_iff: "queue_expired qs s \<longleftrightarrow> lock_queue qs s = None"
  by (simp add: queue_expired_def Option.is_none_def)

lemma queue_expired_cong:
  assumes "\<And>i. (qs' i = None) = (qs i = None)"
  shows "queue_expired qs' s = queue_expired qs s"
  using assms by (simp add: queue_expired_iff lock_queue_def split: option.splits)

lemma lock_queue_Some: "lock_queue qs s = Some (i, q) \<longleftrightarrow> sub_queue s = Some i \<and> qs i = Some q"
  by (auto simp: lock_queue_def split: option.splits)

section \<open>Delivery\<close>

text \<open>The jobs that a broadcast to these subscriptions hands to queue \<open>i\<close>, in the order of iteration.\<close>

definition jobs_for :: "nat \<Rightarrow> 'd \<Rightarrow> (string \<times> 'c subscription) list \<Rightarrow> ('c option \<times> 'd) list" where
  "jobs_for i data m = map (\<lambda>(_, s). (sub_callback s, data)) (filter (\<lambda>(_, s). sub_queue s = Some i) m)"

lemma broadcast_loop_result:
  "broadcast_loop push data m qs =
     (filter (\<lambda>(_, s). \<not> queue_expired qs s) m,
      \<lambda>i. map_option (fold push (jobs_for i data m)) (qs i))"
proof (induction m arbitrary: qs)
  case Nil
  then show ?case by (simp add: jobs_for_def option.map_ident option.map_id fun_eq_iff)
next
  case (Cons p m)
  obtain name s where p: "p = (name, s)" by fastforce
  show ?case
  proof (cases "lock_queue qs s")
    case None
    then have "queue_expired qs s" by (simp add: queue_expired_iff)
    moreover have "map_option (fold push (jobs_for i data (p # m))) (qs i) = map_option (fold push (jobs_for i data m)) (qs i)" for i
      using None by (auto simp: p jobs_for_def lock_queue_def split: option.splits)
    ultimately show ?thesis using Cons.IH None p by simp
  next
    case (Some iq)
    obtain i q where iq: "iq = (i, q)" by fastforce
    with Some have l: "sub_queue s = Some i" "qs i = Some q" by (simp_all add: lock_queue_Some)
    let ?qs = "qs(i \<mapsto> push (sub_callback s, data) q)"
    have eq1: "queue_expired ?qs = queue_expired qs" using l(2) by (intro ext queue_expired_cong) simp
    have ne: "\<not> queue_expired qs s" using Some by (simp add: queue_expired_iff)
    have eq2: "map_option (fold push (jobs_for k data m)) (?qs k) = map_option (fold push (jobs_for k data (p # m))) (qs k)" for k
      using l by (auto simp: p jobs_for_def)
    have "broadcast_loop push data m ?qs
        = (filter (\<lambda>(_, s). \<not> queue_expired qs s) m, \<lambda>k. map_option (fold push (jobs_for k data (p # m))) (qs k))"
      by (simp only: Cons.IH eq1 eq2)
    with ne Some iq p show ?thesis by simp
  qed
qed

lemma map_of_filter_snd:
  "distinct (map fst m) \<Longrightarrow>
     map_of (filter (\<lambda>(_, s). P s) m) n = (case map_of m n of None \<Rightarrow> None | Some s \<Rightarrow> if P s then Some s else None)"
proof (induction m)
  case (Cons p m)
  then have "map_of m (fst p) = None" by (simp add: map_of_eq_None_iff)
  with Cons show ?case by (cases p) (auto split: option.splits)
qed simp

lemma subs_broadcast:
  assumes "bus_wf bus" and "bus_broadcast push action data (bus, qs) = (bus', qs')"
  shows "bus_wf bus'"
    and "subs bus' = (\<lambda>(a, n). case subs bus (a, n) of None \<Rightarrow> None
           | Some s \<Rightarrow> if a = action \<and> queue_expired qs s then None else Some s)"
    and "qs' i = map_option (fold push (jobs_for i data (case map_of bus action of None \<Rightarrow> [] | Some m \<Rightarrow> m))) (qs i)"
proof -
  have "bus_wf bus' \<and> subs bus' = (\<lambda>(a, n). case subs bus (a, n) of None \<Rightarrow> None
           | Some s \<Rightarrow> if a = action \<and> queue_expired qs s then None else Some s)
    \<and> qs' i = map_option (fold push (jobs_for i data (case map_of bus action of None \<Rightarrow> [] | Some m \<Rightarrow> m))) (qs i)"
  proof (cases "map_of bus action")
    case None
    with assms show ?thesis
      by (auto simp: bus_broadcast_def subs_def jobs_for_def option.map_ident option.map_id fun_eq_iff split: option.splits)
  next
    case (Some m)
    let ?m = "filter (\<lambda>(_, s). \<not> queue_expired qs s) m"
    have d: "distinct (map fst m)" by (rule bus_wf_inner [OF assms(1) Some])
    have bus': "bus' = AList.update action ?m bus" and qs': "qs' i = map_option (fold push (jobs_for i data m)) (qs i)"
      using assms(2) Some by (auto simp: bus_broadcast_def broadcast_loop_result)
    have "bus_wf bus'" unfolding bus' by (rule bus_wf_update [OF assms(1)]) (simp add: d distinct_map_filter)
    moreover have "subs bus' = (\<lambda>(a, n). case subs bus (a, n) of None \<Rightarrow> None
           | Some s \<Rightarrow> if a = action \<and> queue_expired qs s then None else Some s)"
      unfolding bus' subs_update map_of_filter_snd [OF d] using Some by (auto simp: fun_eq_iff subs_def split: option.splits)
    ultimately show ?thesis using qs' Some by simp
  qed
  then show "bus_wf bus'"
    and "subs bus' = (\<lambda>(a, n). case subs bus (a, n) of None \<Rightarrow> None
           | Some s \<Rightarrow> if a = action \<and> queue_expired qs s then None else Some s)"
    and "qs' i = map_option (fold push (jobs_for i data (case map_of bus action of None \<Rightarrow> [] | Some m \<Rightarrow> m))) (qs i)"
    by blast+
qed

lemma subs_notify:
  assumes "bus_wf bus"
  shows "bus_notify push name action data (bus, qs) = (bus', qs') \<Longrightarrow>
    bus_wf bus' \<and>
    (case subs bus (action, name) of
       None \<Rightarrow> subs bus' = subs bus \<and> qs' = qs
     | Some s \<Rightarrow> (case lock_queue qs s of
                  None \<Rightarrow> subs bus' = (subs bus)((action, name) := None) \<and> qs' = qs
                | Some (i, q) \<Rightarrow> subs bus' = subs bus \<and> qs' = qs(i \<mapsto> push (sub_callback s, data) q)))"
proof (cases "map_of bus action")
  case None
  with assms show "bus_notify push name action data (bus, qs) = (bus', qs') \<Longrightarrow> ?thesis"
    by (simp add: bus_notify_def subs_def)
next
  case (Some m)
  then have s: "subs bus (action, name) = map_of m name" by (simp add: subs_def)
  from assms Some subs_delete [OF assms Some, of name]
  show "bus_notify push name action data (bus, qs) = (bus', qs') \<Longrightarrow> ?thesis"
    unfolding s by (auto simp: bus_notify_def split: option.splits)
qed

lemma jobs_for_mset:
  assumes "distinct (map fst m)"
  shows "mset (jobs_for i data m) =
    image_mset (\<lambda>n. (sub_callback (the (map_of m n)), data)) (mset_set {n. \<exists>s. map_of m n = Some s \<and> sub_queue s = Some i})"
  using assms
proof (induction m)
  case Nil
  then show ?case by (simp add: jobs_for_def)
next
  case (Cons p m)
  obtain n s where p: "p = (n, s)" by fastforce
  let ?N = "{k. \<exists>s. map_of m k = Some s \<and> sub_queue s = Some i}"
  have new: "map_of m n = None" using Cons.prems p by (simp add: map_of_eq_None_iff)
  have "?N \<subseteq> dom (map_of m)" by auto
  then have fin: "finite ?N" using finite_dom_map_of finite_subset by blast
  have rest: "image_mset (\<lambda>k. (sub_callback (the (map_of (p # m) k)), data)) (mset_set ?N)
      = image_mset (\<lambda>k. (sub_callback (the (map_of m k)), data)) (mset_set ?N)"
    using new fin by (intro image_mset_cong) (auto simp: p)
  have N: "{k. \<exists>s. map_of (p # m) k = Some s \<and> sub_queue s = Some i} = (if sub_queue s = Some i then insert n ?N else ?N)"
    using new by (auto simp: p split: if_splits)
  have IH: "mset (jobs_for i data m) = image_mset (\<lambda>k. (sub_callback (the (map_of m k)), data)) (mset_set ?N)"
    using Cons by simp
  show ?case
  proof (cases "sub_queue s = Some i")
    case True
    then have "mset (jobs_for i data (p # m)) = add_mset (sub_callback s, data) (mset (jobs_for i data m))"
      by (simp add: p jobs_for_def)
    moreover have "n \<notin> ?N" using new by simp
    ultimately show ?thesis using True N fin rest IH by (simp add: p)
  next
    case False
    then have "jobs_for i data (p # m) = jobs_for i data m" by (simp add: p jobs_for_def)
    with False N rest IH show ?thesis by simp
  qed
qed

section \<open>Properties\<close>

text \<open>
  C8.  The bus is a map from actions and names to subscriptions: subscribing with a live queue and a
  callback updates it and otherwise changes nothing and says so; unsubscribing removes one entry;
  \<open>get\<close> looks one up; and a notification reaches exactly the named subscriber, once, or forgets it when
  its queue has gone away.
\<close>

theorem bus_is_subscription_map:
  assumes "bus_wf bus"
  shows "bus_wf [] \<and> subs [] = Map.empty
    \<and> (\<forall>ok bus'. bus_subscribe qs name action s bus = (ok, bus') \<longrightarrow>
         bus_wf bus' \<and> ok = (\<not> queue_expired qs s \<and> sub_callback s \<noteq> None)
         \<and> subs bus' = (if ok then (subs bus)((action, name) \<mapsto> s) else subs bus))
    \<and> bus_wf (bus_unsubscribe name action bus)
    \<and> subs (bus_unsubscribe name action bus) = (subs bus)((action, name) := None)
    \<and> bus_get name action bus =
        (case subs bus (action, name) of None \<Rightarrow> \<lparr>sub_queue = None, sub_callback = None\<rparr> | Some s \<Rightarrow> s)
    \<and> (\<forall>bus' qs'. bus_notify push name action data (bus, qs) = (bus', qs') \<longrightarrow>
         bus_wf bus' \<and>
         (case subs bus (action, name) of
            None \<Rightarrow> subs bus' = subs bus \<and> qs' = qs
          | Some s \<Rightarrow> (case lock_queue qs s of
                       None \<Rightarrow> subs bus' = (subs bus)((action, name) := None) \<and> qs' = qs
                     | Some (i, q) \<Rightarrow> subs bus' = subs bus \<and> qs' = qs(i \<mapsto> push (sub_callback s, data) q))))"
proof -
  have e: "bus_wf []" "subs [] = Map.empty" by (auto simp: bus_wf_def subs_def fun_eq_iff)
  have sub: "\<forall>ok bus'. bus_subscribe qs name action s bus = (ok, bus') \<longrightarrow>
         bus_wf bus' \<and> ok = (\<not> queue_expired qs s \<and> sub_callback s \<noteq> None)
         \<and> subs bus' = (if ok then (subs bus)((action, name) \<mapsto> s) else subs bus)"
    by (intro allI impI) (rule subs_subscribe [OF assms])
  have nt: "\<forall>bus' qs'. bus_notify push name action data (bus, qs) = (bus', qs') \<longrightarrow>
         bus_wf bus' \<and>
         (case subs bus (action, name) of
            None \<Rightarrow> subs bus' = subs bus \<and> qs' = qs
          | Some s \<Rightarrow> (case lock_queue qs s of
                       None \<Rightarrow> subs bus' = (subs bus)((action, name) := None) \<and> qs' = qs
                     | Some (i, q) \<Rightarrow> subs bus' = subs bus \<and> qs' = qs(i \<mapsto> push (sub_callback s, data) q)))"
    by (intro allI impI) (rule subs_notify [OF assms])
  have un: "bus_wf (bus_unsubscribe name action bus)"
    "subs (bus_unsubscribe name action bus) = (subs bus)((action, name) := None)"
    using subs_unsubscribe [OF assms] by blast+
  show ?thesis by (intro conjI e sub un bus_get_subs nt)
qed

definition sample_bus :: "nat event_bus" where
  "sample_bus = [(''send'', [(''ipc'', \<lparr>sub_queue = Some 0, sub_callback = Some 5\<rparr>),
                             (''log'', \<lparr>sub_queue = Some 1, sub_callback = Some 6\<rparr>)])]"

theorem bus_is_subscription_map_witness:
  "subs (bus_unsubscribe ''ipc'' ''send'' sample_bus) (''send'', ''ipc'') = None
   \<and> bus_get ''ipc'' ''send'' sample_bus = \<lparr>sub_queue = Some 0, sub_callback = Some 5\<rparr>"
proof -
  have wf: "bus_wf sample_bus" by (simp add: bus_wf_def sample_bus_def)
  note p = bus_is_subscription_map [OF wf, where name = "''ipc''" and action = "''send''" and data = "()"
      and push = "\<lambda>_ q. q" and qs = "Map.empty :: unit queues" and s = "\<lparr>sub_queue = None, sub_callback = None\<rparr>"]
  have "subs (bus_unsubscribe ''ipc'' ''send'' sample_bus) = (subs sample_bus)((''send'', ''ipc'') := None)"
    using p by (elim conjE)
  moreover have "bus_get ''ipc'' ''send'' sample_bus =
       (case subs sample_bus (''send'', ''ipc'') of None \<Rightarrow> \<lparr>sub_queue = None, sub_callback = None\<rparr> | Some s \<Rightarrow> s)"
    using p by (elim conjE)
  ultimately show ?thesis by (simp add: subs_def sample_bus_def)
qed

text \<open>
  A broadcast hands each live queue one job for every subscription of the action on it, with the
  subscription's callback and the data, after what the queue already held, and wakes its thread; no
  other queue changes, and exactly the subscriptions of the action whose queue has gone are forgotten.
\<close>

theorem broadcast_delivers:
  assumes "accepts_normal settime" and "bus_wf bus"
    and "bus_broadcast (queue_push settime) action data (bus, qs) = (bus', qs')"
  shows "(\<forall>i. qs i = None \<longrightarrow> qs' i = None)
    \<and> (\<forall>i q. qs i = Some q \<longrightarrow>
         (\<exists>q' js. qs' i = Some q' \<and> eq_queue q' = eq_queue q @ js
            \<and> mset js = image_mset (\<lambda>n. (sub_callback (the (subs bus (action, n))), data))
                 (mset_set {n. \<exists>s. subs bus (action, n) = Some s \<and> sub_queue s = Some i})
            \<and> (js = [] \<longrightarrow> q' = q) \<and> (js \<noteq> [] \<longrightarrow> timer_armed (eq_timer q'))))
    \<and> bus_wf bus'
    \<and> (\<forall>a n. subs bus' (a, n) =
          (if a = action \<and> (\<exists>s. subs bus (a, n) = Some s \<and> queue_expired qs s) then None else subs bus (a, n)))"
proof -
  let ?m = "case map_of bus action of None \<Rightarrow> [] | Some m \<Rightarrow> m"
  note fd = timerfd.intro [OF assms(1)]
  have qs': "qs' i = map_option (fold (queue_push settime) (jobs_for i data ?m)) (qs i)" for i
    by (rule subs_broadcast(3) [OF assms(2,3)])
  have d: "distinct (map fst ?m)" using bus_wf_inner [OF assms(2)] by (auto split: option.splits)
  have sm: "map_of ?m n = subs bus (action, n)" for n by (simp add: subs_def split: option.splits)
  have live: "\<exists>q' js. qs' i = Some q' \<and> eq_queue q' = eq_queue q @ js
            \<and> mset js = image_mset (\<lambda>n. (sub_callback (the (subs bus (action, n))), data))
                 (mset_set {n. \<exists>s. subs bus (action, n) = Some s \<and> sub_queue s = Some i})
            \<and> (js = [] \<longrightarrow> q' = q) \<and> (js \<noteq> [] \<longrightarrow> timer_armed (eq_timer q'))"
    if "qs i = Some q" for i q
    using qs' [of i] that timerfd.pending_pushes [OF fd, of "jobs_for i data ?m" q]
      timerfd.armed_pushes [OF fd, of "jobs_for i data ?m" q] jobs_for_mset [OF d, of i data, unfolded sm]
    by (intro exI [of _ "fold (queue_push settime) (jobs_for i data ?m) q"] exI [of _ "jobs_for i data ?m"]) simp
  have "subs bus' (a, n) =
      (if a = action \<and> (\<exists>s. subs bus (a, n) = Some s \<and> queue_expired qs s) then None else subs bus (a, n))" for a n
    using subs_broadcast(2) [OF assms(2,3)] by (auto split: option.splits)
  with qs' live subs_broadcast(1) [OF assms(2,3)] show ?thesis by simp
qed

theorem broadcast_delivers_witness:
  "\<exists>q' js. snd (bus_broadcast (queue_push normal_itimerspec) ''send'' True (sample_bus, [0 \<mapsto> make_event_queue])) 0 = Some q'
     \<and> eq_queue q' = js \<and> mset js = {#(Some 5, True)#}"
proof -
  have wf: "bus_wf sample_bus" by (simp add: bus_wf_def sample_bus_def)
  obtain bus' qs' where b: "bus_broadcast (queue_push normal_itimerspec) ''send'' True (sample_bus, [0 \<mapsto> make_event_queue]) = (bus', qs')"
    by fastforce
  have N: "{n. \<exists>s. subs sample_bus (''send'', n) = Some s \<and> sub_queue s = Some 0} = {''ipc''}"
    by (auto simp: subs_def sample_bus_def split: if_splits)
  have s: "subs sample_bus (''send'', ''ipc'') = Some \<lparr>sub_queue = Some 0, sub_callback = Some 5\<rparr>"
    by (simp add: subs_def sample_bus_def)
  note r = broadcast_delivers [OF checked.accepts wf b, THEN conjunct2, THEN conjunct1, rule_format, of 0 make_event_queue]
  then obtain q' js where "qs' 0 = Some q'" "eq_queue q' = eq_queue make_event_queue @ js"
    "mset js = image_mset (\<lambda>n. (sub_callback (the (subs sample_bus (''send'', n))), True))
       (mset_set {n. \<exists>s. subs sample_bus (''send'', n) = Some s \<and> sub_queue s = Some 0})"
    by auto
  then show ?thesis unfolding b by (simp add: make_event_queue_def N s)
qed

end
