(* ===== verification/Memory.thy ===== *)
theory Memory
  imports Prelude "HOL-Library.Multiset"
begin

text \<open>
  \<open>include/hlib/memory.hpp\<close>: \<open>Handle\<close>, the owner of an operating system handle, and \<open>Box\<close>.

  A destructor is a name \<open>'d\<close>, an empty \<open>std::function\<close> is \<open>None\<close>; calling a destructor appends the
  call to a log.  Every member function is \<open>noexcept\<close>, so that calling an empty function ends the
  program.  A program is a list of commands on numbered variables, and \<open>owned\<close> is what it may have
  to give back.
\<close>

section \<open>Handle\<close>

record ('h, 'd) handle =
  h_handle :: 'h
  h_destructor :: "'d option"

type_synonym ('h, 'd) log = "('d \<times> 'h) list"

definition make_handle_empty :: "'h \<Rightarrow> 'd option \<Rightarrow> ('h, 'd) handle res" where
  "make_handle_empty invalid_handle destructor =
     (if Option.is_none destructor then Fault Assert_Failed
      else Ret \<lparr>h_handle = invalid_handle, h_destructor = destructor\<rparr>)"

definition make_handle :: "'h \<Rightarrow> 'd option \<Rightarrow> ('h, 'd) handle" where
  "make_handle h destructor = \<lparr>h_handle = h, h_destructor = destructor\<rparr>"

definition handle_reset_to ::
  "'h \<Rightarrow> 'h \<Rightarrow> ('h, 'd) handle \<times> ('h, 'd) log \<Rightarrow> unit res \<times> ('h, 'd) handle \<times> ('h, 'd) log" where
  "handle_reset_to invalid_handle h = (\<lambda>(this, log).
     if invalid_handle \<noteq> h_handle this
     then (case h_destructor this of
             None \<Rightarrow> (Fault Terminated, (this, log))
           | Some d \<Rightarrow> (Ret (), (this\<lparr>h_handle := h\<rparr>, log @ [(d, h_handle this)])))
     else (Ret (), (this\<lparr>h_handle := h\<rparr>, log)))"

definition handle_reset ::
  "'h \<Rightarrow> ('h, 'd) handle \<times> ('h, 'd) log \<Rightarrow> unit res \<times> ('h, 'd) handle \<times> ('h, 'd) log" where
  "handle_reset invalid_handle = handle_reset_to invalid_handle invalid_handle"

text \<open>The new object and what is left of the old one.\<close>

definition handle_move :: "'h \<Rightarrow> ('h, 'd) handle \<Rightarrow> ('h, 'd) handle \<times> ('h, 'd) handle" where
  "handle_move invalid_handle that =
     (\<lparr>h_handle = h_handle that, h_destructor = h_destructor that\<rparr>,
      \<lparr>h_handle = invalid_handle, h_destructor = None\<rparr>)"

definition handle_move_assign ::
  "'h \<Rightarrow> ('h, 'd) handle \<times> ('h, 'd) handle \<times> ('h, 'd) log
     \<Rightarrow> unit res \<times> ('h, 'd) handle \<times> ('h, 'd) handle \<times> ('h, 'd) log" where
  "handle_move_assign invalid_handle = (\<lambda>(this, that, log).
     case handle_reset invalid_handle (this, log) of
       (Ret _, (this1, log1)) \<Rightarrow>
         (Ret (), (\<lparr>h_handle = h_handle that, h_destructor = h_destructor that\<rparr>,
                   \<lparr>h_handle = h_handle this1, h_destructor = None\<rparr>, log1))
     | (Throw e, (this1, log1)) \<Rightarrow> (Throw e, (this1, that, log1))
     | (Fault f, (this1, log1)) \<Rightarrow> (Fault f, (this1, that, log1)))"

definition handle_swap :: "('h, 'd) handle \<Rightarrow> ('h, 'd) handle \<Rightarrow> ('h, 'd) handle \<times> ('h, 'd) handle" where
  "handle_swap this that =
     (\<lparr>h_handle = h_handle that, h_destructor = h_destructor that\<rparr>,
      \<lparr>h_handle = h_handle this, h_destructor = h_destructor this\<rparr>)"

definition handle_release :: "'h \<Rightarrow> ('h, 'd) handle \<Rightarrow> 'h \<times> ('h, 'd) handle" where
  "handle_release invalid_handle this = (h_handle this, this\<lparr>h_handle := invalid_handle\<rparr>)"

definition handle_is_empty :: "'h \<Rightarrow> ('h, 'd) handle \<Rightarrow> bool" where
  "handle_is_empty invalid_handle this \<longleftrightarrow> invalid_handle = h_handle this"

section \<open>Box\<close>

record ('t, 'd) box =
  b_value :: 't
  b_destructor :: "'d option"

definition box_destroy :: "('t, 'd) box \<Rightarrow> ('t, 'd) log \<Rightarrow> unit res \<times> ('t, 'd) log" where
  "box_destroy b log =
     (case b_destructor b of None \<Rightarrow> (Fault Terminated, log) | Some d \<Rightarrow> (Ret (), log @ [(d, b_value b)]))"

section \<open>Programs\<close>

datatype ('h, 'd) handle_cmd =
    Construct nat 'h 'd
  | Move_Construct nat nat
  | Move_Assign nat nat
  | Reset_To nat 'h
  | Swap nat nat
  | Release nat
  | Destroy nat

text \<open>The variables that are alive, the log of destructor calls, and what was acquired and released.\<close>

record ('h, 'd) handle_state =
  hs_vars :: "('h, 'd) handle option list"
  hs_log :: "('h, 'd) log"
  hs_acquired :: "'h multiset"
  hs_released :: "'h multiset"

definition mset_of :: "'h \<Rightarrow> 'h \<Rightarrow> 'h multiset" where
  "mset_of invalid_handle h = (if h = invalid_handle then {#} else {#h#})"

fun var_owns :: "'h \<Rightarrow> ('h, 'd) handle option \<Rightarrow> 'h multiset" where
  "var_owns invalid_handle None = {#}"
| "var_owns invalid_handle (Some v) = mset_of invalid_handle (h_handle v)"

definition owned :: "'h \<Rightarrow> ('h, 'd) handle option list \<Rightarrow> 'h multiset" where
  "owned invalid_handle vs = sum_list (map (var_owns invalid_handle) vs)"

text \<open>
  One command; \<open>None\<close> when it uses a variable that is not alive, constructs one that is, or moves a
  variable to itself.
\<close>

fun handle_exec ::
  "'h \<Rightarrow> ('h, 'd) handle_cmd \<Rightarrow> ('h, 'd) handle_state \<Rightarrow> (unit res \<times> ('h, 'd) handle_state) option" where
  "handle_exec iv (Construct i h d) s =
     (if i < length (hs_vars s) \<and> hs_vars s ! i = None
      then Some (Ret (), s\<lparr>hs_vars := (hs_vars s)[i := Some (make_handle h (Some d))],
                           hs_acquired := hs_acquired s + mset_of iv h\<rparr>)
      else None)"
| "handle_exec iv (Move_Construct i j) s =
     (if i < length (hs_vars s) \<and> j < length (hs_vars s) \<and> hs_vars s ! i = None
      then map_option (\<lambda>that. case handle_move iv that of (new, old) \<Rightarrow>
             (Ret (), s\<lparr>hs_vars := (hs_vars s)[i := Some new, j := Some old]\<rparr>)) (hs_vars s ! j)
      else None)"
| "handle_exec iv (Move_Assign i j) s =
     (if i < length (hs_vars s) \<and> j < length (hs_vars s) \<and> i \<noteq> j
      then (case (hs_vars s ! i, hs_vars s ! j) of
              (Some this, Some that) \<Rightarrow>
                (case handle_move_assign iv (this, that, hs_log s) of
                   (r, (this1, that1, log)) \<Rightarrow>
                     Some (r, s\<lparr>hs_vars := (hs_vars s)[i := Some this1, j := Some that1], hs_log := log\<rparr>))
            | _ \<Rightarrow> None)
      else None)"
| "handle_exec iv (Reset_To i h) s =
     (if i < length (hs_vars s)
      then map_option (\<lambda>this. case handle_reset_to iv h (this, hs_log s) of
             (r, (this1, log)) \<Rightarrow>
               (r, s\<lparr>hs_vars := (hs_vars s)[i := Some this1], hs_log := log,
                     hs_acquired := hs_acquired s + (if r = Ret () then mset_of iv h else {#})\<rparr>)) (hs_vars s ! i)
      else None)"
| "handle_exec iv (Swap i j) s =
     (if i < length (hs_vars s) \<and> j < length (hs_vars s) \<and> i \<noteq> j
      then (case (hs_vars s ! i, hs_vars s ! j) of
              (Some this, Some that) \<Rightarrow>
                (case handle_swap this that of (this1, that1) \<Rightarrow>
                   Some (Ret (), s\<lparr>hs_vars := (hs_vars s)[i := Some this1, j := Some that1]\<rparr>))
            | _ \<Rightarrow> None)
      else None)"
| "handle_exec iv (Release i) s =
     (if i < length (hs_vars s)
      then map_option (\<lambda>this. case handle_release iv this of (h, this1) \<Rightarrow>
             (Ret (), s\<lparr>hs_vars := (hs_vars s)[i := Some this1], hs_released := hs_released s + mset_of iv h\<rparr>))
           (hs_vars s ! i)
      else None)"
| "handle_exec iv (Destroy i) s =
     (if i < length (hs_vars s)
      then map_option (\<lambda>this. case handle_reset iv (this, hs_log s) of
             (r, (this1, log)) \<Rightarrow> (r, s\<lparr>hs_vars := (hs_vars s)[i := (if r = Ret () then None else Some this1)], hs_log := log\<rparr>))
           (hs_vars s ! i)
      else None)"

text \<open>A run of commands; it ends at the first fault.\<close>

fun handle_run ::
  "'h \<Rightarrow> ('h, 'd) handle_cmd list \<Rightarrow> ('h, 'd) handle_state \<Rightarrow> (unit res \<times> ('h, 'd) handle_state) option" where
  "handle_run iv [] s = Some (Ret (), s)"
| "handle_run iv (c # cs) s =
     (case handle_exec iv c s of
        None \<Rightarrow> None
      | Some (Ret _, s1) \<Rightarrow> handle_run iv cs s1
      | Some (r, s1) \<Rightarrow> Some (r, s1))"

definition handle_start :: "nat \<Rightarrow> ('h, 'd) handle_state" where
  "handle_start n = \<lparr>hs_vars = replicate n None, hs_log = [], hs_acquired = {#}, hs_released = {#}\<rparr>"

section \<open>Ownership\<close>

definition conserved :: "'h \<Rightarrow> ('h, 'd) handle_state \<Rightarrow> bool" where
  "conserved iv s \<longleftrightarrow>
     hs_acquired s = owned iv (hs_vars s) + mset (map snd (hs_log s)) + hs_released s"

text \<open>Only a variable with a destructor holds a handle.\<close>

fun var_ok :: "'h \<Rightarrow> ('h, 'd) handle option \<Rightarrow> bool" where
  "var_ok iv None = True"
| "var_ok iv (Some v) = (h_handle v = iv \<or> h_destructor v \<noteq> None)"

definition vars_ok :: "'h \<Rightarrow> ('h, 'd) handle_state \<Rightarrow> bool" where
  "vars_ok iv s \<longleftrightarrow> (\<forall>v \<in> set (hs_vars s). var_ok iv v)"

lemma owned_update:
  "i < length vs \<Longrightarrow> owned iv (vs[i := v]) + var_owns iv (vs ! i) = owned iv vs + var_owns iv v"
  by (induction vs arbitrary: i) (auto simp: owned_def nth_Cons ac_simps split: nat.splits)

lemma owned_update_None:
  "i < length vs \<Longrightarrow> vs ! i = None \<Longrightarrow> owned iv (vs[i := v]) = owned iv vs + var_owns iv v"
  using owned_update [of i vs iv v] by simp

lemma owned_None: "set vs \<subseteq> {None} \<Longrightarrow> owned iv vs = {#}"
  by (induction vs) (auto simp: owned_def)

lemma count_owned_update:
  assumes "i < length vs"
  shows "count (owned iv (vs[i := v])) x + count (var_owns iv (vs ! i)) x = count (owned iv vs) x + count (var_owns iv v) x"
  by (metis owned_update [OF assms] count_union)

lemma count_owned_update2:
  assumes "i < length vs" and "j < length vs" and "i \<noteq> j"
  shows "count (owned iv (vs[i := v, j := w])) x + count (var_owns iv (vs ! i)) x + count (var_owns iv (vs ! j)) x
    = count (owned iv vs) x + count (var_owns iv v) x + count (var_owns iv w) x"
  using count_owned_update [OF assms(1), of iv v x] count_owned_update [of j "vs[i := v]" iv w x] assms by simp

lemma owned_update1:
  assumes "i < length vs" and "var_owns iv v + M = var_owns iv (vs ! i) + N"
  shows "owned iv (vs[i := v]) + M = owned iv vs + N"
proof (rule multiset_eqI)
  fix x
  show "count (owned iv (vs[i := v]) + M) x = count (owned iv vs + N) x"
    using count_owned_update [OF assms(1), of iv v x] arg_cong [OF assms(2), of "\<lambda>M. count M x"] by simp
qed

lemma owned_update2:
  assumes "i < length vs" and "j < length vs" and "i \<noteq> j"
    and "var_owns iv v + var_owns iv w + M = var_owns iv (vs ! i) + var_owns iv (vs ! j)"
  shows "owned iv vs = owned iv (vs[i := v, j := w]) + M"
proof (rule multiset_eqI)
  fix x
  show "count (owned iv vs) x = count (owned iv (vs[i := v, j := w]) + M) x"
    using count_owned_update2 [OF assms(1-3), of iv v w x] arg_cong [OF assms(4), of "\<lambda>M. count M x"] by simp
qed

text \<open>Resetting: what the variable held goes to the log, unless the program ends.\<close>

lemma handle_reset_to_cases:
  assumes "handle_reset_to iv h (this, log) = (r, (this1, log1))"
  shows "r = Ret () \<and> h_handle this1 = h \<and> h_destructor this1 = h_destructor this
      \<and> mset (map snd log1) = mset (map snd log) + mset_of iv (h_handle this)
    \<or> r = Fault Terminated \<and> this1 = this \<and> log1 = log \<and> h_handle this \<noteq> iv \<and> h_destructor this = None"
  using assms by (auto simp: handle_reset_to_def mset_of_def split: if_splits option.splits)

lemma handle_move_assign_cases:
  assumes "handle_move_assign iv (this, that, log) = (r, (this1, that1, log1))"
  shows "r = Ret () \<and> h_handle this1 = h_handle that \<and> h_destructor this1 = h_destructor that
      \<and> h_handle that1 = iv \<and> mset (map snd log1) = mset (map snd log) + mset_of iv (h_handle this)
    \<or> r = Fault Terminated \<and> this1 = this \<and> that1 = that \<and> log1 = log \<and> h_handle this \<noteq> iv \<and> h_destructor this = None"
proof -
  obtain r0 this0 log0 where r: "handle_reset iv (this, log) = (r0, (this0, log0))" by (metis prod.exhaust_sel)
  from handle_reset_to_cases [OF r [unfolded handle_reset_def]] r assms show ?thesis
    by (auto simp: handle_move_assign_def)
qed

lemma exec_conserved:
  assumes "handle_exec iv c s = Some (r, t)" and "conserved iv s"
  shows "conserved iv t"
proof (cases c)
  case (Construct i h d)
  with assms show ?thesis
    by (auto simp: conserved_def make_handle_def owned_update_None ac_simps split: if_splits)
next
  case (Move_Construct i j)
  with assms(1) obtain that where c: "i < length (hs_vars s)" "j < length (hs_vars s)" "hs_vars s ! i = None"
      "hs_vars s ! j = Some that"
      "t = s\<lparr>hs_vars := (hs_vars s)[i := Some \<lparr>h_handle = h_handle that, h_destructor = h_destructor that\<rparr>,
                                  j := Some \<lparr>h_handle = iv, h_destructor = None\<rparr>]\<rparr>"
    by (auto simp: handle_move_def split: if_splits)
  then have ij: "i \<noteq> j" by auto
  have "owned iv (hs_vars s) = owned iv (hs_vars t) + {#}"
    unfolding arg_cong [OF c(5), of hs_vars, simplified] by (rule owned_update2 [OF c(1,2) ij]) (simp add: c mset_of_def)
  with assms(2) c(5) show ?thesis by (simp add: conserved_def)
next
  case (Move_Assign i j)
  with assms(1) obtain this that this1 that1 log1 where c: "i < length (hs_vars s)" "j < length (hs_vars s)" "i \<noteq> j"
      "hs_vars s ! i = Some this" "hs_vars s ! j = Some that"
      "handle_move_assign iv (this, that, hs_log s) = (r, (this1, that1, log1))"
      "t = s\<lparr>hs_vars := (hs_vars s)[i := Some this1, j := Some that1], hs_log := log1\<rparr>"
    by (auto split: if_splits option.splits prod.splits)
  let ?M = "if r = Ret () then mset_of iv (h_handle this) else {#}"
  note mc = handle_move_assign_cases [OF c(6)]
  have "owned iv (hs_vars s) = owned iv (hs_vars t) + ?M"
    unfolding arg_cong [OF c(7), of hs_vars, simplified] using mc by (intro owned_update2 [OF c(1-3)]) (auto simp: c mset_of_def)
  moreover have "mset (map snd log1) = mset (map snd (hs_log s)) + ?M" using mc by auto
  ultimately show ?thesis using assms(2) c(7) by (simp add: conserved_def ac_simps)
next
  case (Reset_To i h)
  with assms(1) obtain this where lk: "i < length (hs_vars s)" "hs_vars s ! i = Some this"
    by (auto split: if_splits)
  obtain r1 this1 log1 where "handle_reset_to iv h (this, hs_log s) = (r1, (this1, log1))" by (metis prod.exhaust_sel)
  with assms(1) lk Reset_To have c: "i < length (hs_vars s)" "hs_vars s ! i = Some this"
      "handle_reset_to iv h (this, hs_log s) = (r, (this1, log1))"
      "t = s\<lparr>hs_vars := (hs_vars s)[i := Some this1], hs_log := log1,
            hs_acquired := hs_acquired s + (if r = Ret () then mset_of iv h else {#})\<rparr>"
    by auto
  let ?M = "if r = Ret () then mset_of iv (h_handle this) else {#}"
  let ?N = "if r = Ret () then mset_of iv h else {#}"
  note rc = handle_reset_to_cases [OF c(3)]
  have e: "owned iv (hs_vars t) + ?M = owned iv (hs_vars s) + ?N"
    unfolding arg_cong [OF c(4), of hs_vars, simplified] using rc by (intro owned_update1 [OF c(1)]) (auto simp: c)
  have l: "mset (map snd log1) = mset (map snd (hs_log s)) + ?M" using rc by auto
  have "hs_acquired t = owned iv (hs_vars s) + ?N + mset (map snd (hs_log s)) + hs_released s"
    using assms(2) c(4) by (simp add: conserved_def ac_simps)
  also have "\<dots> = owned iv (hs_vars t) + (mset (map snd (hs_log s)) + ?M) + hs_released s"
    unfolding e [symmetric] by (simp only: ac_simps)
  finally show ?thesis using l c(4) by (simp add: conserved_def)
next
  case (Swap i j)
  with assms(1) obtain this that where c: "i < length (hs_vars s)" "j < length (hs_vars s)" "i \<noteq> j"
      "hs_vars s ! i = Some this" "hs_vars s ! j = Some that"
      "t = s\<lparr>hs_vars := (hs_vars s)[i := Some \<lparr>h_handle = h_handle that, h_destructor = h_destructor that\<rparr>,
                                  j := Some \<lparr>h_handle = h_handle this, h_destructor = h_destructor this\<rparr>]\<rparr>"
    by (auto simp: handle_swap_def split: if_splits option.splits)
  have "owned iv (hs_vars s) = owned iv (hs_vars t) + {#}"
    unfolding arg_cong [OF c(6), of hs_vars, simplified] by (rule owned_update2 [OF c(1-3)]) (simp add: c ac_simps)
  with assms(2) c(6) show ?thesis by (simp add: conserved_def)
next
  case (Release i)
  with assms(1) obtain this where c: "i < length (hs_vars s)" "hs_vars s ! i = Some this"
      "t = s\<lparr>hs_vars := (hs_vars s)[i := Some (this\<lparr>h_handle := iv\<rparr>)],
            hs_released := hs_released s + mset_of iv (h_handle this)\<rparr>"
    by (auto simp: handle_release_def split: if_splits)
  have "owned iv (hs_vars t) + mset_of iv (h_handle this) = owned iv (hs_vars s) + {#}"
    unfolding arg_cong [OF c(3), of hs_vars, simplified] by (rule owned_update1 [OF c(1)]) (simp add: c mset_of_def)
  then have "owned iv (hs_vars s) = owned iv (hs_vars t) + mset_of iv (h_handle this)" by simp
  with assms(2) c(3) show ?thesis by (simp add: conserved_def ac_simps)
next
  case (Destroy i)
  with assms(1) obtain this where lk: "i < length (hs_vars s)" "hs_vars s ! i = Some this"
    by (auto split: if_splits)
  obtain r1 this1 log1 where "handle_reset_to iv iv (this, hs_log s) = (r1, (this1, log1))" by (metis prod.exhaust_sel)
  with assms(1) lk Destroy have c: "i < length (hs_vars s)" "hs_vars s ! i = Some this"
      "handle_reset_to iv iv (this, hs_log s) = (r, (this1, log1))"
      "t = s\<lparr>hs_vars := (hs_vars s)[i := (if r = Ret () then None else Some this1)], hs_log := log1\<rparr>"
    by (auto simp: handle_reset_def)
  let ?M = "if r = Ret () then mset_of iv (h_handle this) else {#}"
  note rc = handle_reset_to_cases [OF c(3)]
  have "owned iv (hs_vars t) + ?M = owned iv (hs_vars s) + {#}"
    unfolding arg_cong [OF c(4), of hs_vars, simplified] using rc by (intro owned_update1 [OF c(1)]) (auto simp: c)
  then have "owned iv (hs_vars s) = owned iv (hs_vars t) + ?M" by simp
  moreover have "mset (map snd log1) = mset (map snd (hs_log s)) + ?M" using rc by auto
  ultimately show ?thesis using assms(2) c(4) by (simp add: conserved_def ac_simps)
qed

lemma vars_ok_update:
  "\<forall>v \<in> set vs. var_ok iv v \<Longrightarrow> var_ok iv v \<Longrightarrow> \<forall>v \<in> set (vs[i := v]). var_ok iv v"
  using set_update_subset_insert [of vs i v] by blast

text \<open>\<open>reset\<close> to a handle needs a destructor: a moved-from handle has none.\<close>

fun reset_ok :: "'h \<Rightarrow> ('h, 'd) handle_cmd \<Rightarrow> ('h, 'd) handle_state \<Rightarrow> bool" where
  "reset_ok iv (Reset_To i h) s = (h = iv \<or> (\<exists>v. hs_vars s ! i = Some v \<and> h_destructor v \<noteq> None))"
| "reset_ok iv _ s = True"

fun resets_ok :: "'h \<Rightarrow> ('h, 'd) handle_cmd list \<Rightarrow> ('h, 'd) handle_state \<Rightarrow> bool" where
  "resets_ok iv [] s = True"
| "resets_ok iv (c # cs) s =
     (reset_ok iv c s \<and> (case handle_exec iv c s of Some (_, s1) \<Rightarrow> resets_ok iv cs s1 | None \<Rightarrow> True))"

lemma handle_reset_to_ok:
  assumes "var_ok iv (Some this)"
  shows "\<exists>log1. handle_reset_to iv h (this, log) = (Ret (), (this\<lparr>h_handle := h\<rparr>, log1))"
  using assms by (auto simp: handle_reset_to_def split: option.splits)

lemma exec_safe:
  assumes "handle_exec iv c s = Some (r, t)" and "vars_ok iv s" and "reset_ok iv c s"
  shows "r = Ret () \<and> vars_ok iv t"
proof -
  have ok: "var_ok iv (hs_vars s ! i)" if "i < length (hs_vars s)" for i
    using assms(2) that by (simp add: vars_ok_def)
  note up = vars_ok_update [of _ iv]
  show ?thesis
  proof (cases c)
    case (Construct i h d)
    with assms(1) have c: "r = Ret ()" "hs_vars t = (hs_vars s)[i := Some (make_handle h (Some d))]"
      by (auto split: if_splits)
    have "\<forall>v \<in> set (hs_vars t). var_ok iv v"
      unfolding c(2) using assms(2) by (intro up) (auto simp: vars_ok_def make_handle_def)
    with c(1) show ?thesis by (simp add: vars_ok_def)
  next
    case (Move_Construct i j)
    with assms(1) obtain that where c: "j < length (hs_vars s)" "hs_vars s ! j = Some that" "r = Ret ()"
      "hs_vars t = (hs_vars s)[i := Some \<lparr>h_handle = h_handle that, h_destructor = h_destructor that\<rparr>,
                              j := Some \<lparr>h_handle = iv, h_destructor = None\<rparr>]"
      by (auto simp: handle_move_def split: if_splits)
    have "\<forall>v \<in> set (hs_vars t). var_ok iv v"
      unfolding c(4) using ok [OF c(1)] assms(2) c(2) by (intro up) (auto simp: vars_ok_def)
    with c(3) show ?thesis by (simp add: vars_ok_def)
  next
    case (Move_Assign i j)
    with assms(1) obtain this that where lk: "i < length (hs_vars s)" "j < length (hs_vars s)"
        "hs_vars s ! i = Some this" "hs_vars s ! j = Some that"
      by (auto split: if_splits option.splits)
    from handle_reset_to_ok [of iv this iv "hs_log s"] ok [OF lk(1)] lk(3)
    obtain log1 where "handle_reset_to iv iv (this, hs_log s) = (Ret (), (this\<lparr>h_handle := iv\<rparr>, log1))" by auto
    with assms(1) lk Move_Assign have c: "r = Ret ()"
      "hs_vars t = (hs_vars s)[i := Some \<lparr>h_handle = h_handle that, h_destructor = h_destructor that\<rparr>,
                              j := Some \<lparr>h_handle = iv, h_destructor = None\<rparr>]"
      by (auto simp: handle_move_assign_def handle_reset_def split: if_splits)
    have "\<forall>v \<in> set (hs_vars t). var_ok iv v"
      unfolding c(2) using ok [OF lk(2)] assms(2) lk(4) by (intro up) (auto simp: vars_ok_def)
    with c(1) show ?thesis by (simp add: vars_ok_def)
  next
    case (Reset_To i h)
    with assms(1) obtain this where lk: "i < length (hs_vars s)" "hs_vars s ! i = Some this" by (auto split: if_splits)
    from handle_reset_to_ok [of iv this h "hs_log s"] ok [OF lk(1)] lk(2)
    obtain log1 where "handle_reset_to iv h (this, hs_log s) = (Ret (), (this\<lparr>h_handle := h\<rparr>, log1))" by auto
    with assms(1) lk Reset_To have c: "r = Ret ()" "hs_vars t = (hs_vars s)[i := Some (this\<lparr>h_handle := h\<rparr>)]" by auto
    have "\<forall>v \<in> set (hs_vars t). var_ok iv v"
      unfolding c(2) using assms(2,3) Reset_To lk(2) by (intro up) (auto simp: vars_ok_def)
    with c(1) show ?thesis by (simp add: vars_ok_def)
  next
    case (Swap i j)
    with assms(1) obtain this that where c: "i < length (hs_vars s)" "j < length (hs_vars s)"
        "hs_vars s ! i = Some this" "hs_vars s ! j = Some that" "r = Ret ()"
        "hs_vars t = (hs_vars s)[i := Some \<lparr>h_handle = h_handle that, h_destructor = h_destructor that\<rparr>,
                                j := Some \<lparr>h_handle = h_handle this, h_destructor = h_destructor this\<rparr>]"
      by (auto simp: handle_swap_def split: if_splits option.splits)
    have "\<forall>v \<in> set (hs_vars t). var_ok iv v"
      unfolding c(6) using ok [OF c(1)] ok [OF c(2)] assms(2) c(3,4) by (intro up) (auto simp: vars_ok_def)
    with c(5) show ?thesis by (simp add: vars_ok_def)
  next
    case (Release i)
    with assms(1) obtain this where c: "i < length (hs_vars s)" "r = Ret ()"
        "hs_vars t = (hs_vars s)[i := Some (this\<lparr>h_handle := iv\<rparr>)]"
      by (auto simp: handle_release_def split: if_splits)
    have "\<forall>v \<in> set (hs_vars t). var_ok iv v"
      unfolding c(3) using assms(2) by (intro up) (auto simp: vars_ok_def)
    with c(2) show ?thesis by (simp add: vars_ok_def)
  next
    case (Destroy i)
    with assms(1) obtain this where lk: "i < length (hs_vars s)" "hs_vars s ! i = Some this" by (auto split: if_splits)
    from handle_reset_to_ok [of iv this iv "hs_log s"] ok [OF lk(1)] lk(2)
    obtain log1 where "handle_reset_to iv iv (this, hs_log s) = (Ret (), (this\<lparr>h_handle := iv\<rparr>, log1))" by auto
    with assms(1) lk Destroy have c: "r = Ret ()" "hs_vars t = (hs_vars s)[i := None]" by (auto simp: handle_reset_def)
    have "\<forall>v \<in> set (hs_vars t). var_ok iv v"
      unfolding c(2) using assms(2) by (intro up) (auto simp: vars_ok_def)
    with c(1) show ?thesis by (simp add: vars_ok_def)
  qed
qed

lemma run_conserved:
  assumes "handle_run iv cs s = Some (r, t)" and "conserved iv s"
  shows "conserved iv t"
  using assms
proof (induction cs arbitrary: s)
  case (Cons c cs)
  then obtain r1 s1 where e: "handle_exec iv c s = Some (r1, s1)" by (auto split: option.splits)
  have "conserved iv s1" by (rule exec_conserved [OF e Cons.prems(2)])
  with Cons e show ?case by (auto split: res.splits)
qed simp

lemma run_safe:
  assumes "handle_run iv cs s = Some (r, t)" and "vars_ok iv s" and "resets_ok iv cs s"
  shows "r = Ret ()"
  using assms
proof (induction cs arbitrary: s)
  case (Cons c cs)
  then obtain r1 s1 where e: "handle_exec iv c s = Some (r1, s1)" by (auto split: option.splits)
  with Cons.prems have s1: "r1 = Ret ()" "vars_ok iv s1" using exec_safe [OF e Cons.prems(2)] by simp_all
  with Cons.prems e have "handle_run iv cs s1 = Some (r, t)" "resets_ok iv cs s1" by simp_all
  with Cons.IH s1(2) show ?case by blast
qed simp

lemma handle_reset_to_result: "fst (handle_reset_to iv h x) \<in> {Ret (), Fault Terminated}"
  by (cases x) (simp add: handle_reset_to_def split: option.splits)

lemma exec_result:
  assumes "handle_exec iv c s = Some (r, t)"
  shows "r \<in> {Ret (), Fault Terminated}"
proof (cases c)
  case (Move_Assign i j)
  with assms obtain this that this1 that1 log1 where m: "handle_move_assign iv (this, that, hs_log s) = (r, this1, that1, log1)"
    by (auto split: if_splits option.splits prod.splits)
  obtain q x log where q: "handle_reset iv (this, hs_log s) = (q, (x, log))" by (cases "handle_reset iv (this, hs_log s)") auto
  with handle_reset_to_result [of iv iv "(this, hs_log s)"] have "q \<in> {Ret (), Fault Terminated}" by (simp add: handle_reset_def)
  with m q show ?thesis by (auto simp: handle_move_assign_def)
next
  case (Reset_To i h)
  with assms obtain z where z: "i < length (hs_vars s)" "hs_vars s ! i = Some z" by (auto split: if_splits)
  obtain q y log where q: "handle_reset_to iv h (z, hs_log s) = (q, y, log)" by (metis surj_pair)
  with assms z Reset_To have "q = r" by simp
  with q handle_reset_to_result [of iv h "(z, hs_log s)"] show ?thesis by simp
next
  case (Destroy i)
  with assms obtain z where z: "i < length (hs_vars s)" "hs_vars s ! i = Some z" by (auto split: if_splits)
  obtain q y log where q: "handle_reset iv (z, hs_log s) = (q, y, log)" by (metis surj_pair)
  with assms z Destroy have "q = r" by simp
  with q handle_reset_to_result [of iv iv "(z, hs_log s)"] show ?thesis by (simp add: handle_reset_def)
qed (use assms in \<open>auto simp: handle_move_def handle_swap_def handle_release_def split: if_splits option.splits\<close>)

lemma run_result:
  assumes "handle_run iv cs s = Some (r, t)"
  shows "r \<in> {Ret (), Fault Terminated}"
  using assms
proof (induction cs arbitrary: s)
  case (Cons c cs)
  then obtain r1 s1 where e: "handle_exec iv c s = Some (r1, s1)" by (auto split: option.splits)
  with Cons exec_result [OF e] show ?case by auto
qed simp

text \<open>
  A moved-from variable has no destructor.  Reset to a new handle it holds one that it cannot give back, and
  calls the empty function when it is destroyed.
\<close>

lemma reset_of_moved_from_terminates:
  "\<exists>t. handle_run (- 1) [Construct 0 5 ''close'', Move_Construct 1 0, Reset_To 0 (7 :: int), Destroy 0] (handle_start 2)
     = Some (Fault Terminated, t) \<and> hs_log t = [] \<and> owned (- 1) (hs_vars t) = {#5, 7#}"
  by (simp add: handle_start_def make_handle_def handle_move_def handle_reset_to_def handle_reset_def mset_of_def owned_def
      numeral_2_eq_2 add_mset_commute)

section \<open>Properties\<close>

text \<open>
  C35.  Handles own what they hold: whatever a program does with handles that it constructs with a
  destructor, by moving one to another, swapping, resetting and releasing, every handle it acquired is held by
  exactly one variable, has been destroyed exactly once or has been released, so that nothing is left once all
  variables are destroyed.  Either no command fails, or the program ends as an empty destructor is called,
  and that only after it has reset a moved-from variable to a new handle.
\<close>

theorem handle_ownership:
  assumes "handle_run iv cs (handle_start n) = Some (r, t)"
  shows "hs_acquired t = owned iv (hs_vars t) + mset (map snd (hs_log t)) + hs_released t
    \<and> (set (hs_vars t) \<subseteq> {None} \<longrightarrow> hs_acquired t = mset (map snd (hs_log t)) + hs_released t)
    \<and> (resets_ok iv cs (handle_start n) \<longrightarrow> r = Ret ())
    \<and> (r = Ret () \<or> r = Fault Terminated \<and> \<not> resets_ok iv cs (handle_start n))"
proof -
  have "conserved iv (handle_start n)" by (simp add: conserved_def handle_start_def owned_None set_replicate_conv_if)
  with run_conserved [OF assms] have c: "conserved iv t" by blast
  have "vars_ok iv (handle_start n)" by (simp add: vars_ok_def handle_start_def)
  with run_safe [OF assms] run_result [OF assms] c owned_None [of "hs_vars t" iv] show ?thesis by (auto simp: conserved_def)
qed

theorem handle_ownership_witness:
  "\<exists>t. handle_run (- 1) [Construct 0 5 ''close'', Move_Construct 1 0, Destroy 0, Construct 0 7 ''close'', Move_Assign 0 1,
       Reset_To 0 9, Destroy 0, Destroy 1] (handle_start 2) = Some (Ret (), t)
     \<and> hs_acquired t = {#5, 7, 9 :: int#} \<and> hs_acquired t = mset (map snd (hs_log t)) + hs_released t"
proof -
  let ?cs = "[Construct 0 5 ''close'', Move_Construct 1 0, Destroy 0, Construct 0 7 ''close'', Move_Assign 0 1,
       Reset_To 0 9, Destroy 0, Destroy 1]"
  obtain t where t: "handle_run (- 1 :: int) ?cs (handle_start 2) = Some (Ret (), t)" "set (hs_vars t) \<subseteq> {None}"
    "hs_acquired t = {#5, 7, 9#}"
    by (simp add: handle_start_def make_handle_def handle_move_def handle_reset_def handle_reset_to_def
        handle_move_assign_def mset_of_def numeral_2_eq_2)
  from handle_ownership [OF t(1)] t show ?thesis by blast
qed

end
