(* ===== verification/Pool.thy ===== *)
theory Pool
  imports Prelude "HOL-Library.Multiset"
begin

text \<open>
  \<open>include/hlib/pool.hpp\<close>: a pool of elements that a factory creates on demand.

  \<open>pool_add\<close>, \<open>pool_put\<close> and \<open>pool_get\<close> are the operations of one thread.  \<open>get\<close> gives up the mutex to
  call the factory and does not take it again before it moves the front element out and removes it;
  \<open>pool_step\<close> has a rule for each of its parts, so that the steps of several threads interleave wherever
  the mutex does not keep them apart.  An element is a value of a type parameter, \<open>moved\<close> is what its move
  constructor leaves behind, and the result of the factory is any value.
\<close>

section \<open>The pool\<close>

record 'e pool =
  p_maximum :: nat
  p_count :: nat
  p_pool :: "'e list"

definition pool_add :: "'e \<Rightarrow> 'e pool \<Rightarrow> unit res \<times> 'e pool" where
  "pool_add element p =
     (if 0 \<noteq> p_maximum p \<and> p_count p \<ge> p_maximum p
      then (Throw (Overflow_Error ''Maximum pool capacity reached''), p)
      else (Ret (), p\<lparr>p_pool := p_pool p @ [element]\<rparr>))"

text \<open>The constructor, over what the factory returns for the initial elements.\<close>

fun pool_add_all :: "'e list \<Rightarrow> 'e pool \<Rightarrow> unit res \<times> 'e pool" where
  "pool_add_all [] p = (Ret (), p)"
| "pool_add_all (e # es) p = and_then (pool_add e p) (\<lambda>_. pool_add_all es)"

definition make_pool :: "nat \<Rightarrow> 'e list \<Rightarrow> unit res \<times> 'e pool" where
  "make_pool maximum initial = pool_add_all initial \<lparr>p_maximum = maximum, p_count = 0, p_pool = []\<rparr>"

text \<open>\<open>front\<close>, from which the element is moved, and \<open>pop_front\<close>; both undefined for an empty deque.\<close>

definition pool_front :: "('e \<Rightarrow> 'e) \<Rightarrow> 'e pool \<Rightarrow> 'e res \<times> 'e pool" where
  "pool_front moved p =
     (case p_pool p of [] \<Rightarrow> (Fault Out_Of_Bounds, p) | e # es \<Rightarrow> (Ret e, p\<lparr>p_pool := moved e # es\<rparr>))"

definition pool_pop :: "'e pool \<Rightarrow> unit res \<times> 'e pool" where
  "pool_pop p = (case p_pool p of [] \<Rightarrow> (Fault Out_Of_Bounds, p) | e # es \<Rightarrow> (Ret (), p\<lparr>p_pool := es\<rparr>))"

definition pool_take :: "('e \<Rightarrow> 'e) \<Rightarrow> 'e pool \<Rightarrow> 'e res \<times> 'e pool" where
  "pool_take moved p = and_then (pool_front moved p) (\<lambda>e p. and_then (pool_pop p) (\<lambda>_ p. (Ret e, p)))"

definition pool_get :: "('e \<Rightarrow> 'e) \<Rightarrow> 'e \<Rightarrow> 'e pool \<Rightarrow> 'e res \<times> 'e pool" where
  "pool_get moved made p =
     (if p_pool p = [] then and_then (pool_add made p) (\<lambda>_. pool_take moved) else pool_take moved p)"

definition pool_put :: "'e \<Rightarrow> 'e pool \<Rightarrow> unit res \<times> 'e pool" where
  "pool_put element p =
     (let p1 = p\<lparr>p_pool := p_pool p @ [element]\<rparr>
      in (if \<not> (0 = p_maximum p1 \<or> length (p_pool p1) \<le> p_maximum p1) then Fault Assert_Failed else Ret (), p1))"

section \<open>Interleavings\<close>

text \<open>
  Where a thread is in \<open>get\<close>: not in it; with the mutex, before it moves the front out; without the mutex,
  before it adds the element of the factory; after that, still without the mutex; and with an element that
  it has moved out of the front but not yet removed.  \<open>ps_owner\<close> has the mutex, \<open>ps_out\<close> is what the
  program holds and \<open>ps_created\<close> all elements there have been.
\<close>

datatype 'e pool_pc = Outside | Locked | Creating | Unlocked | Moved 'e

record 'e pool_system =
  ps_pool :: "'e pool"
  ps_owner :: "nat option"
  ps_pc :: "nat \<Rightarrow> 'e pool_pc"
  ps_out :: "'e multiset"
  ps_created :: "'e multiset"

inductive pool_step :: "('e \<Rightarrow> 'e) \<Rightarrow> nat set \<Rightarrow> 'e pool_system \<Rightarrow> 'e pool_system \<Rightarrow> bool"
  for moved :: "'e \<Rightarrow> 'e" and T :: "nat set" where
  get_lock: "t \<in> T \<Longrightarrow> ps_pc s t = Outside \<Longrightarrow> ps_owner s = None \<Longrightarrow> p_pool (ps_pool s) \<noteq> [] \<Longrightarrow>
    pool_step moved T s (s\<lparr>ps_owner := Some t, ps_pc := (ps_pc s)(t := Locked)\<rparr>)"
| get_unlock: "t \<in> T \<Longrightarrow> ps_pc s t = Outside \<Longrightarrow> ps_owner s = None \<Longrightarrow> p_pool (ps_pool s) = [] \<Longrightarrow>
    pool_step moved T s (s\<lparr>ps_pc := (ps_pc s)(t := Creating)\<rparr>)"
| get_add: "t \<in> T \<Longrightarrow> ps_pc s t = Creating \<Longrightarrow> ps_owner s = None \<Longrightarrow> pool_add made (ps_pool s) = (Ret (), p) \<Longrightarrow>
    pool_step moved T s (s\<lparr>ps_pool := p, ps_pc := (ps_pc s)(t := Unlocked), ps_created := add_mset made (ps_created s)\<rparr>)"
| get_front: "t \<in> T \<Longrightarrow> ps_pc s t = Locked \<or> ps_pc s t = Unlocked \<Longrightarrow> pool_front moved (ps_pool s) = (Ret e, p) \<Longrightarrow>
    pool_step moved T s (s\<lparr>ps_pool := p, ps_pc := (ps_pc s)(t := Moved e)\<rparr>)"
| get_pop: "t \<in> T \<Longrightarrow> ps_pc s t = Moved e \<Longrightarrow> pool_pop (ps_pool s) = (Ret (), p) \<Longrightarrow>
    pool_step moved T s (s\<lparr>ps_pool := p, ps_owner := (if ps_owner s = Some t then None else ps_owner s),
      ps_pc := (ps_pc s)(t := Outside), ps_out := add_mset e (ps_out s)\<rparr>)"
| put: "t \<in> T \<Longrightarrow> ps_pc s t = Outside \<Longrightarrow> ps_owner s = None \<Longrightarrow> e \<in># ps_out s \<Longrightarrow> pool_put e (ps_pool s) = (Ret (), p) \<Longrightarrow>
    pool_step moved T s (s\<lparr>ps_pool := p, ps_out := ps_out s - {#e#}\<rparr>)"
| add: "t \<in> T \<Longrightarrow> ps_pc s t = Outside \<Longrightarrow> ps_owner s = None \<Longrightarrow> pool_add e (ps_pool s) = (Ret (), p) \<Longrightarrow>
    pool_step moved T s (s\<lparr>ps_pool := p, ps_created := add_mset e (ps_created s)\<rparr>)"

text \<open>What threads \<open>T\<close> reach in runs all of whose states are in \<open>P\<close>.\<close>

inductive pool_reachable ::
  "('e pool_system \<Rightarrow> bool) \<Rightarrow> ('e \<Rightarrow> 'e) \<Rightarrow> nat set \<Rightarrow> nat \<Rightarrow> 'e list \<Rightarrow> 'e pool_system \<Rightarrow> bool"
  for P :: "'e pool_system \<Rightarrow> bool" and moved :: "'e \<Rightarrow> 'e" and T :: "nat set" and maximum :: nat and initial :: "'e list" where
  start: "make_pool maximum initial = (Ret (), p) \<Longrightarrow>
    s = \<lparr>ps_pool = p, ps_owner = None, ps_pc = (\<lambda>_. Outside), ps_out = {#}, ps_created = mset initial\<rparr> \<Longrightarrow> P s \<Longrightarrow>
    pool_reachable P moved T maximum initial s"
| step: "pool_reachable P moved T maximum initial s \<Longrightarrow> pool_step moved T s s' \<Longrightarrow> P s' \<Longrightarrow> pool_reachable P moved T maximum initial s'"

text \<open>
  Two threads between \<open>front\<close> and \<open>pop_front\<close>; a thread in the part of \<open>get\<close> for an empty pool; and a
  thread about to take or remove the front of an empty deque.
\<close>

definition overlapping :: "'e pool_system \<Rightarrow> bool" where
  "overlapping s \<longleftrightarrow> (\<exists>t u d e. t \<noteq> u \<and> ps_pc s t = Moved d \<and> ps_pc s u = Moved e)"

definition found_empty :: "'e pool_system \<Rightarrow> bool" where
  "found_empty s \<longleftrightarrow> (\<exists>t. ps_pc s t = Creating \<or> ps_pc s t = Unlocked)"

definition pool_fault :: "'e pool_system \<Rightarrow> bool" where
  "pool_fault s \<longleftrightarrow> p_pool (ps_pool s) = [] \<and> (\<exists>t e. ps_pc s t = Locked \<or> ps_pc s t = Unlocked \<or> ps_pc s t = Moved e)"

text \<open>What was created is in the pool, in the hands of a thread in \<open>get\<close>, or out.\<close>

definition pool_conserves :: "'e pool_system \<Rightarrow> bool" where
  "pool_conserves s \<longleftrightarrow>
     (\<forall>t e. ps_pc s t = Moved e \<longrightarrow> ps_created s = mset (tl (p_pool (ps_pool s))) + {#e#} + ps_out s)
     \<and> ((\<nexists>t e. ps_pc s t = Moved e) \<longrightarrow> ps_created s = mset (p_pool (ps_pool s)) + ps_out s)"

definition pool_inv :: "nat \<Rightarrow> 'e pool_system \<Rightarrow> bool" where
  "pool_inv maximum s \<longleftrightarrow>
     p_maximum (ps_pool s) = maximum \<and> p_count (ps_pool s) = 0
     \<and> size (ps_created s) = length (p_pool (ps_pool s)) + size (ps_out s)"

lemmas pool_defs = pool_front_def pool_pop_def pool_add_def pool_put_def Let_def

inductive_cases pool_stepE: "pool_step moved T s s'"

lemma pool_add_uncounted: "p_count p = 0 \<Longrightarrow> pool_add e p = (Ret (), p\<lparr>p_pool := p_pool p @ [e]\<rparr>)"
  by (auto simp: pool_add_def)

lemma pool_add_all_result:
  "p_count p = 0 \<Longrightarrow> pool_add_all es p = (Ret (), p\<lparr>p_pool := p_pool p @ es\<rparr>)"
  by (induction es arbitrary: p) (simp_all add: pool_add_uncounted)

lemma make_pool_result: "make_pool maximum initial = (Ret (), \<lparr>p_maximum = maximum, p_count = 0, p_pool = initial\<rparr>)"
  by (simp add: make_pool_def pool_add_all_result)

lemma pool_take_result: "p_pool p = e # es \<Longrightarrow> pool_take moved p = (Ret e, p\<lparr>p_pool := es\<rparr>)"
  by (simp add: pool_take_def pool_front_def pool_pop_def)

lemma pool_get_result:
  "p_count p = 0 \<Longrightarrow> pool_get moved made p =
     (case p_pool p of [] \<Rightarrow> (Ret made, p) | e # es \<Rightarrow> (Ret e, p\<lparr>p_pool := es\<rparr>))"
  by (cases "p_pool p") (simp_all add: pool_get_def pool_add_uncounted pool_take_result)

lemma step_pool_inv: "pool_step moved T s s' \<Longrightarrow> pool_inv maximum s \<Longrightarrow> pool_inv maximum s'"
  by (erule pool_stepE) (auto simp: pool_inv_def pool_defs size_Diff_singleton Suc_leI split: list.splits if_splits
      dest: size_Suc_Diff1)

lemma reachable_pool_inv: "pool_reachable P moved T maximum initial s \<Longrightarrow> pool_inv maximum s"
proof (induction rule: pool_reachable.induct)
  case (start p s)
  then show ?case by (auto simp: make_pool_result pool_inv_def)
next
  case (step s s')
  then show ?case by (blast intro: step_pool_inv)
qed

text \<open>
  The deque of a thread that has moved its front out is not empty, as long as no other thread is there too;
  then every step conserves the elements.
\<close>

definition front_there :: "'e pool_system \<Rightarrow> bool" where
  "front_there s \<longleftrightarrow> (\<forall>t e. ps_pc s t = Moved e \<longrightarrow> p_pool (ps_pool s) \<noteq> [])"

lemma not_overlapping: "\<not> overlapping s \<Longrightarrow> ps_pc s t = Moved d \<Longrightarrow> ps_pc s u = Moved e \<Longrightarrow> u = t"
  by (auto simp: overlapping_def)

lemma step_conserves:
  assumes "pool_step moved T s s'" and "pool_conserves s \<and> front_there s" and "\<not> overlapping s" and "\<not> overlapping s'"
    and "p_count (ps_pool s) = 0"
  shows "pool_conserves s' \<and> front_there s'"
  using assms(1)
proof (cases rule: pool_step.cases)
  case (get_front t e p)
  have "ps_pc s u \<noteq> Moved d" for u d
  proof
    assume u: "ps_pc s u = Moved d"
    then have "u \<noteq> t" using get_front(3) by auto
    with u get_front(1) have "overlapping s'" unfolding overlapping_def by (intro exI [of _ u] exI [of _ t] exI [of _ d] exI [of _ e]) simp
    with assms(4) show False by simp
  qed
  moreover obtain es where es: "p_pool (ps_pool s) = e # es" "p = (ps_pool s)\<lparr>p_pool := moved e # es\<rparr>"
    using get_front(4) by (auto simp: pool_front_def split: list.splits)
  ultimately show ?thesis
    using assms(2) get_front(1) by (auto simp: pool_conserves_def front_there_def)
next
  case (get_pop t e p)
  have only: "ps_pc s u \<noteq> Moved d" if "u \<noteq> t" for u d
    using not_overlapping [OF assms(3) get_pop(3)] that by blast
  obtain x es where es: "p_pool (ps_pool s) = x # es" "p = (ps_pool s)\<lparr>p_pool := es\<rparr>"
    using get_pop(4) by (auto simp: pool_pop_def split: list.splits)
  have "ps_created s = mset es + {#e#} + ps_out s" using assms(2) get_pop(3) es(1) by (auto simp: pool_conserves_def)
  with only es(2) get_pop(1) show ?thesis by (auto simp: pool_conserves_def front_there_def)
next
  case (put t e p)
  have p: "p = (ps_pool s)\<lparr>p_pool := p_pool (ps_pool s) @ [e]\<rparr>"
    using put(6) by (auto simp: pool_put_def Let_def split: if_splits)
  obtain out where out: "ps_out s = add_mset e out" using put(5) by (metis insert_DiffM)
  show ?thesis
    using assms(2) unfolding put(1) p by (auto simp: pool_conserves_def front_there_def out)
next
  case (get_lock t)
  have "((ps_pc s)(t := Locked)) u = Moved e \<longleftrightarrow> ps_pc s u = Moved e" for u e using get_lock(3) by auto
  with assms(2) get_lock(1) show ?thesis by (simp add: pool_conserves_def front_there_def del: fun_upd_apply)
next
  case (get_unlock t)
  have "((ps_pc s)(t := Creating)) u = Moved e \<longleftrightarrow> ps_pc s u = Moved e" for u e using get_unlock(3) by auto
  with assms(2) get_unlock(1) show ?thesis by (simp add: pool_conserves_def front_there_def del: fun_upd_apply)
next
  case (get_add t made p)
  have "((ps_pc s)(t := Unlocked)) u = Moved e \<longleftrightarrow> ps_pc s u = Moved e" for u e using get_add(3) by auto
  with assms(2,5) get_add(1,5) show ?thesis
    by (auto simp: pool_conserves_def front_there_def pool_add_uncounted simp del: fun_upd_apply)
qed (use assms(2,5) in \<open>auto simp: pool_conserves_def front_there_def pool_add_uncounted\<close>)

lemma reachable_conserves:
  assumes "pool_reachable P moved T maximum initial s" and "\<And>s. P s \<Longrightarrow> \<not> overlapping s"
  shows "pool_conserves s \<and> front_there s \<and> P s"
  using assms(1)
proof (induction rule: pool_reachable.induct)
  case (start p s)
  then show ?case by (auto simp: make_pool_result pool_conserves_def front_there_def)
next
  case (step s s')
  have "p_count (ps_pool s) = 0" using reachable_pool_inv [OF step.hyps(1)] by (simp add: pool_inv_def)
  with step_conserves [OF step.hyps(2)] step.IH step.hyps(3) assms(2) show ?case by blast
qed

text \<open>One thread, or threads that never find the pool empty, do not meet between \<open>front\<close> and \<open>pop_front\<close>.\<close>

definition single_inv :: "nat \<Rightarrow> 'e pool_system \<Rightarrow> bool" where
  "single_inv t s \<longleftrightarrow> (\<forall>u. u \<noteq> t \<longrightarrow> ps_pc s u = Outside)
     \<and> (\<forall>e. ps_pc s t = Locked \<or> ps_pc s t = Unlocked \<or> ps_pc s t = Moved e \<longrightarrow> p_pool (ps_pool s) \<noteq> [])"

lemma step_single:
  assumes "pool_step moved {t} s s'" and "single_inv t s"
  shows "single_inv t s'"
  using assms by (elim pool_stepE) (auto simp: single_inv_def pool_defs split: if_splits list.splits)

lemma single_safe: "single_inv t s \<Longrightarrow> \<not> overlapping s \<and> \<not> pool_fault s"
proof -
  assume s: "single_inv t s"
  then have "u = t" if "ps_pc s u \<noteq> Outside" for u using that by (auto simp: single_inv_def)
  then have only: "ps_pc s u = Locked \<or> ps_pc s u = Unlocked \<or> ps_pc s u = Moved e \<Longrightarrow> u = t" for u e by auto
  with s show ?thesis unfolding single_inv_def overlapping_def pool_fault_def by blast
qed

lemma reachable_single: "pool_reachable P moved {t} maximum initial s \<Longrightarrow> single_inv t s"
proof (induction rule: pool_reachable.induct)
  case (start p s)
  then show ?case by (simp add: single_inv_def)
qed (blast intro: step_single)

definition locked_inv :: "'e pool_system \<Rightarrow> bool" where
  "locked_inv s \<longleftrightarrow>
     (\<forall>t e. ps_pc s t = Locked \<or> ps_pc s t = Moved e \<longrightarrow> ps_owner s = Some t \<and> p_pool (ps_pool s) \<noteq> [])"

lemma step_locked:
  assumes "pool_step moved T s s'" and "locked_inv s" and "\<not> found_empty s"
  shows "locked_inv s'"
  using assms(1)
proof (cases rule: pool_step.cases)
  case (get_front t e p)
  have t: "ps_pc s t = Locked" using get_front(3) assms(3) by (auto simp: found_empty_def)
  then have o: "ps_owner s = Some t" using assms(2) by (simp add: locked_inv_def)
  have "ps_pc s u \<noteq> Locked \<and> ps_pc s u \<noteq> Moved d" if "u \<noteq> t" for u d
    using assms(2) o that by (auto simp: locked_inv_def)
  with o get_front(1,4) show ?thesis by (auto simp: locked_inv_def pool_front_def split: list.splits)
next
  case (get_pop t e p)
  then have o: "ps_owner s = Some t" using assms(2) by (simp add: locked_inv_def)
  have "ps_pc s u \<noteq> Locked \<and> ps_pc s u \<noteq> Moved d" if "u \<noteq> t" for u d
    using assms(2) o that by (auto simp: locked_inv_def)
  with o get_pop(1,4) show ?thesis by (auto simp: locked_inv_def)
qed (use assms(2) in \<open>auto simp: locked_inv_def pool_add_def pool_put_def Let_def split: if_splits\<close>)

lemma locked_safe: "locked_inv s \<Longrightarrow> \<not> found_empty s \<Longrightarrow> \<not> overlapping s \<and> \<not> pool_fault s"
  unfolding locked_inv_def found_empty_def overlapping_def pool_fault_def by (metis option.inject)

lemma reachable_locked:
  assumes "pool_reachable P moved T maximum initial s" and "\<And>s. P s \<Longrightarrow> \<not> found_empty s"
  shows "locked_inv s \<and> P s"
  using assms(1)
proof (induction rule: pool_reachable.induct)
  case (start p s)
  then show ?case by (simp add: locked_inv_def)
next
  case (step s s')
  with step_locked [OF step.hyps(2)] assms(2) show ?case by blast
qed

text \<open>A run under \<open>P\<close> all of whose states are in \<open>Q\<close> is one under both.\<close>

lemma reachable_restrict:
  assumes "pool_reachable P moved T maximum initial s" and "\<And>s. pool_reachable P moved T maximum initial s \<Longrightarrow> Q s"
  shows "pool_reachable Q moved T maximum initial s"
  using assms(1)
proof (induction rule: pool_reachable.induct)
  case (start p s)
  then show ?case using assms(2) by (blast intro: pool_reachable.start)
next
  case (step s s')
  then have "Q s'" using assms(2) by (blast intro: pool_reachable.step)
  with step show ?case by (blast intro: pool_reachable.step)
qed

section \<open>Properties\<close>

text \<open>
  C36.  What a pool does with its elements in every interleaving of the threads that use it.  As many as
  were created are in the deque and out, and adding never fails, whatever the maximum, as the counter
  stays zero.  As long as no two threads are between \<open>front\<close> and \<open>pop_front\<close> at the same time, no element is
  lost or handed out twice: each is in the deque, with the thread that has moved it out, or out.  That holds,
  and no thread touches the front of an empty deque, for one thread and for threads that never call \<open>get\<close>
  on an empty pool; for others it does not (\<open>pool_get_race\<close>).
\<close>

theorem pool_conserves_elements:
  assumes "pool_reachable P moved T maximum initial s"
  shows "size (ps_created s) = length (p_pool (ps_pool s)) + size (ps_out s)
    \<and> fst (pool_add e (ps_pool s)) = Ret ()
    \<and> ((\<forall>s. P s \<longrightarrow> \<not> overlapping s) \<longrightarrow> pool_conserves s)
    \<and> (T = {t} \<or> (\<forall>s. P s \<longrightarrow> \<not> found_empty s) \<longrightarrow> pool_conserves s \<and> \<not> overlapping s \<and> \<not> pool_fault s)"
proof -
  have i: "pool_inv maximum s" by (rule reachable_pool_inv [OF assms])
  have safe: "\<not> overlapping s \<and> \<not> pool_fault s"
    if "T = {t} \<or> (\<forall>s. P s \<longrightarrow> \<not> found_empty s)" and "pool_reachable P moved T maximum initial s" for s
    using that reachable_single [of P moved t maximum initial s] single_safe reachable_locked [OF that(2)] locked_safe by blast
  have "pool_conserves s" if "T = {t} \<or> (\<forall>s. P s \<longrightarrow> \<not> found_empty s)"
    using reachable_conserves [OF reachable_restrict [OF assms, of "\<lambda>s. \<not> overlapping s"]] safe [OF that] by blast
  with i safe assms reachable_conserves [OF assms] show ?thesis by (simp add: pool_inv_def pool_add_uncounted)
qed

text \<open>Two threads take the two elements that a pool starts with, and one of them brings its element back.\<close>

definition pool_state ::
  "nat \<Rightarrow> 'e list \<Rightarrow> nat option \<Rightarrow> 'e pool_pc \<Rightarrow> 'e pool_pc \<Rightarrow> 'e multiset \<Rightarrow> 'e multiset \<Rightarrow> 'e pool_system" where
  "pool_state n es owner pc0 pc1 out created =
     \<lparr>ps_pool = \<lparr>p_maximum = n, p_count = 0, p_pool = es\<rparr>, ps_owner = owner,
      ps_pc = (\<lambda>_. Outside)(0 := pc0, 1 := pc1), ps_out = out, ps_created = created\<rparr>"

lemma pool_step_to: "pool_step moved T s s1 \<Longrightarrow> s1 = s' \<Longrightarrow> pool_step moved T s s'"
  by simp

lemmas pool_state_defs = pool_state_def pool_front_def pool_pop_def pool_add_def pool_put_def fun_eq_iff

lemma thread0_steps:
  "pool_step moved {0, 1} (pool_state n (x # es) None Outside q m c) (pool_state n (x # es) (Some 0) Locked q m c)"
  "pool_step moved {0, 1} (pool_state n [] None Outside q m c) (pool_state n [] None Creating q m c)"
  "pool_step moved {0, 1} (pool_state n es None Creating q m c) (pool_state n (es @ [x]) None Unlocked q m (add_mset x c))"
  "pool_step moved {0, 1} (pool_state n (x # es) owner Locked q m c) (pool_state n (moved x # es) owner (Moved x) q m c)"
  "pool_step moved {0, 1} (pool_state n (x # es) owner Unlocked q m c) (pool_state n (moved x # es) owner (Moved x) q m c)"
  "pool_step moved {0, 1} (pool_state n (y # es) (Some 0) (Moved x) q m c) (pool_state n es None Outside q (add_mset x m) c)"
  "pool_step moved {0, 1} (pool_state n (y # es) None (Moved x) q m c) (pool_state n es None Outside q (add_mset x m) c)"
proof goal_cases
  case 1 show ?case by (rule pool_step_to [OF pool_step.get_lock [of 0]]) (auto simp: pool_state_defs)
next
  case 2 show ?case by (rule pool_step_to [OF pool_step.get_unlock [of 0]]) (auto simp: pool_state_defs)
next
  case 3 show ?case by (rule pool_step_to [OF pool_step.get_add [of 0 _ _ x]]) (auto simp: pool_state_defs)
next
  case 4 show ?case by (rule pool_step_to [OF pool_step.get_front [of 0]]) (auto simp: pool_state_defs)
next
  case 5 show ?case by (rule pool_step_to [OF pool_step.get_front [of 0]]) (auto simp: pool_state_defs)
next
  case 6 show ?case by (rule pool_step_to [OF pool_step.get_pop [of 0]]) (auto simp: pool_state_defs)
next
  case 7 show ?case by (rule pool_step_to [OF pool_step.get_pop [of 0]]) (auto simp: pool_state_defs)
qed

lemma thread1_steps:
  "pool_step moved {0, 1} (pool_state n (x # es) None q Outside m c) (pool_state n (x # es) (Some 1) q Locked m c)"
  "pool_step moved {0, 1} (pool_state n [] None q Outside m c) (pool_state n [] None q Creating m c)"
  "pool_step moved {0, 1} (pool_state n es None q Creating m c) (pool_state n (es @ [x]) None q Unlocked m (add_mset x c))"
  "pool_step moved {0, 1} (pool_state n (x # es) owner q Locked m c) (pool_state n (moved x # es) owner q (Moved x) m c)"
  "pool_step moved {0, 1} (pool_state n (x # es) owner q Unlocked m c) (pool_state n (moved x # es) owner q (Moved x) m c)"
  "pool_step moved {0, 1} (pool_state n (y # es) (Some 1) q (Moved x) m c) (pool_state n es None q Outside (add_mset x m) c)"
  "pool_step moved {0, 1} (pool_state n (y # es) None q (Moved x) m c) (pool_state n es None q Outside (add_mset x m) c)"
proof goal_cases
  case 1 show ?case by (rule pool_step_to [OF pool_step.get_lock [of 1]]) (auto simp: pool_state_defs)
next
  case 2 show ?case by (rule pool_step_to [OF pool_step.get_unlock [of 1]]) (auto simp: pool_state_defs)
next
  case 3 show ?case by (rule pool_step_to [OF pool_step.get_add [of 1 _ _ x]]) (auto simp: pool_state_defs)
next
  case 4 show ?case by (rule pool_step_to [OF pool_step.get_front [of 1]]) (auto simp: pool_state_defs)
next
  case 5 show ?case by (rule pool_step_to [OF pool_step.get_front [of 1]]) (auto simp: pool_state_defs)
next
  case 6 show ?case by (rule pool_step_to [OF pool_step.get_pop [of 1]]) (auto simp: pool_state_defs)
next
  case 7 show ?case by (rule pool_step_to [OF pool_step.get_pop [of 1]]) (auto simp: pool_state_defs)
qed

lemma pool_state_start:
  "P (pool_state n es None Outside Outside {#} (mset es)) \<Longrightarrow>
     pool_reachable P moved {0, 1} n es (pool_state n es None Outside Outside {#} (mset es))"
  by (rule pool_reachable.start) (auto simp: make_pool_result pool_state_def fun_eq_iff)

lemma found_empty_pool_state:
  "found_empty (pool_state n es owner pc0 pc1 m c) \<longleftrightarrow> pc0 \<in> {Creating, Unlocked} \<or> pc1 \<in> {Creating, Unlocked}"
  by (auto simp: found_empty_def pool_state_def intro: exI [of _ 0] exI [of _ 1])

theorem pool_conserves_elements_witness:
  "\<exists>s. pool_reachable (\<lambda>s. \<not> found_empty s) id {0, 1} 2 [7, 8 :: nat] s \<and> p_pool (ps_pool s) = [7] \<and> ps_out s = {#8#}
    \<and> pool_conserves s \<and> \<not> overlapping s \<and> \<not> pool_fault s"
proof -
  let ?R = "pool_reachable (\<lambda>s. \<not> found_empty s) id {0, 1} 2 [7, 8 :: nat]"
  let ?S = "\<lambda>es owner pc0 pc1 m. pool_state 2 es owner pc0 pc1 m {#7, 8 :: nat#}"
  note step = pool_reachable.step [where P = "\<lambda>s. \<not> found_empty s", unfolded found_empty_pool_state]
  have "?R (?S [7, 8] None Outside Outside {#})"
    using pool_state_start [of "\<lambda>s. \<not> found_empty s" 2 "[7, 8 :: nat]" id] by (simp add: found_empty_pool_state add_mset_commute)
  from step [OF this thread0_steps(1)] have "?R (?S [7, 8] (Some 0) Locked Outside {#})" by (simp add: found_empty_pool_state)
  from step [OF this thread0_steps(4)] have "?R (?S [7, 8] (Some 0) (Moved 7) Outside {#})" by (simp add: found_empty_pool_state)
  from step [OF this thread0_steps(6)] have "?R (?S [8] None Outside Outside {#7#})" by (simp add: found_empty_pool_state)
  from step [OF this thread1_steps(1)] have "?R (?S [8] (Some 1) Outside Locked {#7#})" by (simp add: found_empty_pool_state)
  from step [OF this thread1_steps(4)] have "?R (?S [8] (Some 1) Outside (Moved 8) {#7#})" by (simp add: found_empty_pool_state)
  from step [OF this thread1_steps(6)] have r: "?R (?S [] None Outside Outside {#8, 7#})" by (simp add: found_empty_pool_state)
  have "pool_step id {0, 1} (?S [] None Outside Outside {#8, 7#}) (?S [7] None Outside Outside {#8#})"
    by (rule pool_step_to [OF pool_step.put [of 0 _ _ 7]]) (auto simp: pool_state_defs Let_def)
  from step [OF r this] have s: "?R (?S [7] None Outside Outside {#8#})" by (simp add: found_empty_pool_state)
  from pool_conserves_elements [OF this] show ?thesis
    by (intro exI [of _ "?S [7] None Outside Outside {#8#}"] conjI s) (simp_all add: pool_state_def)
qed

text \<open>
  Two threads that call \<open>get\<close> on an empty pool can both move the first element out and then remove one each:
  the second gets what the move of the first has left, for a number the same one, and the second element
  is lost.  Or one takes the element that the other has added, which then takes the front of an empty
  deque.
\<close>

theorem pool_get_race:
  "(\<exists>s. pool_reachable (\<lambda>_. True) moved {0, 1} n [] s \<and> (\<forall>t. ps_pc s t = Outside)
      \<and> ps_created s = {#a, b#} \<and> p_pool (ps_pool s) = [] \<and> ps_out s = {#a, moved a#})
   \<and> (\<exists>s. pool_reachable (\<lambda>_. True) moved {0, 1} n [] s \<and> ps_created s = {#a#} \<and> ps_out s = {#a#} \<and> pool_fault s)"
proof (rule conjI)
  let ?R = "pool_reachable (\<lambda>_. True) moved {0, 1} n []"
  let ?S = "\<lambda>es pc0 pc1 m c. pool_state n es None pc0 pc1 m c"
  have start: "?R (?S [] Outside Outside {#} {#})" using pool_state_start [of "\<lambda>_. True" n "[]"] by simp
  note step = pool_reachable.step [where P = "\<lambda>_. True", OF _ _ TrueI]
  from step [OF start thread0_steps(2)] have r1: "?R (?S [] Creating Outside {#} {#})" .
  from step [OF this thread1_steps(2)] have "?R (?S [] Creating Creating {#} {#})" .
  from step [OF this thread0_steps(3) [where x = a]] have "?R (?S [a] Unlocked Creating {#} {#a#})" by simp
  from step [OF this thread1_steps(3) [where x = b]] have "?R (?S [a, b] Unlocked Unlocked {#} {#b, a#})" by simp
  from step [OF this thread0_steps(5)] have "?R (?S [moved a, b] (Moved a) Unlocked {#} {#b, a#})" .
  from step [OF this thread1_steps(5)] have "?R (?S [moved (moved a), b] (Moved a) (Moved (moved a)) {#} {#b, a#})" .
  from step [OF this thread0_steps(7)] have "?R (?S [b] Outside (Moved (moved a)) {#a#} {#b, a#})" .
  from step [OF this thread1_steps(7)] have "?R (?S [] Outside Outside {#moved a, a#} {#b, a#})" .
  then show "\<exists>s. ?R s \<and> (\<forall>t. ps_pc s t = Outside) \<and> ps_created s = {#a, b#} \<and> p_pool (ps_pool s) = [] \<and> ps_out s = {#a, moved a#}"
    by (intro exI conjI) (assumption, auto simp: pool_state_def add_mset_commute)
  from step [OF r1 thread0_steps(3) [where x = a]] have "?R (?S [a] Unlocked Outside {#} {#a#})" by simp
  from step [OF this thread1_steps(1)] have "?R (pool_state n [a] (Some 1) Unlocked Locked {#} {#a#})" .
  from step [OF this thread1_steps(4)] have "?R (pool_state n [moved a] (Some 1) Unlocked (Moved a) {#} {#a#})" .
  from step [OF this thread1_steps(6)] have "?R (?S [] Unlocked Outside {#a#} {#a#})" .
  then show "\<exists>s. ?R s \<and> ps_created s = {#a#} \<and> ps_out s = {#a#} \<and> pool_fault s"
    by (intro exI conjI) (assumption, auto simp: pool_state_def pool_fault_def)
qed

end
