(* ===== verification/Latch.thy ===== *)
theory Latch
  imports Prelude
begin

text \<open>
  \<open>src/hlib_latch.cpp\<close>: a counter that threads count down and wait for; and \<open>src/hlib_scope_guard.cpp\<close>,
  a function that runs when a scope is left.

  A call of \<open>countDown\<close> changes the counter under the mutex and notifies after it has released it; a
  waiting thread is asleep in the condition variable until a notification wakes it, and then looks at
  the counter again.  \<open>latch_step\<close> has a rule for each of these sections.
\<close>

section \<open>The latch\<close>

text \<open>The section of \<open>countDown\<close> under the mutex: the new counter and whether to notify.\<close>

definition latch_count_down :: "int \<Rightarrow> int \<Rightarrow> bool res \<times> int" where
  "latch_count_down n count =
     (if count \<le> 0 then (Ret False, count)
      else if \<not> n \<le> count then (Fault Assert_Failed, count)
      else let count1 = count - n
           in if count1 > 0 then (Ret False, count1) else (Ret True, count1))"

definition latch_try_wait :: "int \<Rightarrow> bool" where
  "latch_try_wait count \<longleftrightarrow> 0 = count"

datatype latch_pc = Working | Asleep | Awake | Passed

record latch_system =
  ls_count :: int
  ls_pc :: "nat \<Rightarrow> latch_pc"
  ls_notifications :: nat
  ls_counted :: int

text \<open>A thread whose predicate holds passes, another goes to sleep.\<close>

definition latch_wait :: "int \<Rightarrow> latch_pc" where
  "latch_wait count = (if latch_try_wait count then Passed else Asleep)"

definition latch_notify_all :: "(nat \<Rightarrow> latch_pc) \<Rightarrow> nat \<Rightarrow> latch_pc" where
  "latch_notify_all pc t = (if pc t = Asleep then Awake else pc t)"

definition latch_init :: "int \<Rightarrow> latch_system" where
  "latch_init expected = \<lparr>ls_count = expected, ls_pc = (\<lambda>_. Working), ls_notifications = 0, ls_counted = 0\<rparr>"

inductive latch_step :: "latch_system \<Rightarrow> latch_system \<Rightarrow> bool" where
  count_down: "0 \<le> n \<Longrightarrow> latch_count_down n (ls_count s) = (Ret notify, count) \<Longrightarrow>
    latch_step s (s\<lparr>ls_count := count, ls_counted := ls_counted s + (if ls_count s \<le> 0 then 0 else n),
                    ls_notifications := ls_notifications s + (if notify then 1 else 0)\<rparr>)"
| notify: "0 < ls_notifications s \<Longrightarrow>
    latch_step s (s\<lparr>ls_notifications := ls_notifications s - 1, ls_pc := latch_notify_all (ls_pc s)\<rparr>)"
| wait: "ls_pc s t = Working \<or> ls_pc s t = Awake \<Longrightarrow>
    latch_step s (s\<lparr>ls_pc := (ls_pc s)(t := latch_wait (ls_count s))\<rparr>)"

inductive latch_reachable :: "int \<Rightarrow> latch_system \<Rightarrow> bool" for expected :: int where
  start: "latch_reachable expected (latch_init expected)"
| step: "latch_reachable expected s \<Longrightarrow> latch_step s t \<Longrightarrow> latch_reachable expected t"

inductive_cases latch_stepE: "latch_step s t"

definition latch_inv :: "int \<Rightarrow> latch_system \<Rightarrow> bool" where
  "latch_inv expected s \<longleftrightarrow>
     0 \<le> ls_count s \<and> ls_count s = expected - ls_counted s
     \<and> (\<forall>t. ls_pc s t = Passed \<longrightarrow> ls_count s = 0)
     \<and> ((\<exists>t. ls_pc s t = Asleep) \<and> ls_count s = 0 \<longrightarrow> 0 < ls_notifications s)"

lemma latch_count_down_cases:
  assumes "latch_count_down n count = (Ret notify, count')" and "0 \<le> n" and "0 \<le> count"
  shows "0 \<le> count' \<and> count' = count - (if count \<le> 0 then 0 else n) \<and> (count = 0 \<longrightarrow> count' = 0)
    \<and> (count \<noteq> 0 \<and> count' = 0 \<longrightarrow> notify)"
  using assms by (auto simp: latch_count_down_def Let_def split: if_splits)

lemma step_latch_inv:
  assumes "latch_step s t" and "latch_inv expected s"
  shows "latch_inv expected t"
  using assms(1)
proof (cases rule: latch_step.cases)
  case (count_down n notify count)
  with assms(2) latch_count_down_cases [OF count_down(3,2)] show ?thesis
    by (cases "ls_count s = 0") (auto simp: latch_inv_def)
next
  case notify
  with assms(2) show ?thesis by (auto simp: latch_inv_def latch_notify_all_def)
next
  case (wait u)
  with assms(2) show ?thesis by (auto simp: latch_inv_def latch_wait_def latch_try_wait_def)
qed

lemma reachable_latch_inv: "0 \<le> expected \<Longrightarrow> latch_reachable expected s \<Longrightarrow> latch_inv expected s"
proof (erule latch_reachable.induct)
  show "0 \<le> expected \<Longrightarrow> latch_inv expected (latch_init expected)"
    by (simp add: latch_inv_def latch_init_def)
qed (blast intro: step_latch_inv)

text \<open>Once the counter is zero it stays zero, so that a woken thread passes.\<close>

lemma latch_stays_zero: "latch_step s t \<Longrightarrow> ls_count s = 0 \<Longrightarrow> ls_count t = 0"
  by (erule latch_stepE) (auto simp: latch_count_down_def)

section \<open>The scope guard\<close>

text \<open>The state is \<open>m_on_exit\<close> and a world that the function changes; an empty function is \<open>None\<close>.\<close>

type_synonym 'w on_exit = "'w \<Rightarrow> unit res \<times> 'w"

definition make_scope_guard :: "'w on_exit option \<Rightarrow> 'w on_exit option res" where
  "make_scope_guard f = (if Option.is_none f then Fault Assert_Failed else Ret f)"

definition make_scope_guard_enter :: "'w on_exit option \<Rightarrow> 'w on_exit option \<Rightarrow> 'w \<Rightarrow> 'w on_exit option res \<times> 'w" where
  "make_scope_guard_enter on_enter on_exit w =
     (case make_scope_guard on_exit of
        Ret g \<Rightarrow> (case on_enter of None \<Rightarrow> (Fault Assert_Failed, w) | Some f \<Rightarrow> and_then (f w) (\<lambda>_ w1. (Ret g, w1)))
      | Throw e \<Rightarrow> (Throw e, w)
      | Fault x \<Rightarrow> (Fault x, w))"

definition scope_guard_clear :: "'w on_exit option \<Rightarrow> 'w on_exit option" where
  "scope_guard_clear g = None"

definition scope_guard_exit :: "'w on_exit option \<times> 'w \<Rightarrow> unit res \<times> 'w on_exit option \<times> 'w" where
  "scope_guard_exit = (\<lambda>(g, w).
     case g of
       None \<Rightarrow> (Ret (), (g, w))
     | Some f \<Rightarrow> (case f w of
                   (Ret _, w1) \<Rightarrow> (Ret (), (None, w1))
                 | (Throw e, w1) \<Rightarrow> (Throw e, (g, w1))
                 | (Fault x, w1) \<Rightarrow> (Fault x, (g, w1))))"

text \<open>The destructor is \<open>noexcept\<close>.\<close>

definition scope_guard_destroy :: "'w on_exit option \<times> 'w \<Rightarrow> unit res \<times> 'w on_exit option \<times> 'w" where
  "scope_guard_destroy s = noexcept (scope_guard_exit s)"

lemma scope_guard_runs_once:
  assumes "f w = (Ret (), w1)"
  shows "and_then (scope_guard_exit (Some f, w)) (\<lambda>_. scope_guard_destroy) = (Ret (), (None, w1))"
    and "scope_guard_destroy (Some f, w) = (Ret (), (None, w1))"
    and "scope_guard_destroy (scope_guard_clear (Some f), w) = (Ret (), (None, w))"
  using assms by (simp_all add: scope_guard_exit_def scope_guard_destroy_def scope_guard_clear_def)

text \<open>A function that throws out of \<open>exit\<close> is run again by the destructor, which then ends the program.\<close>

lemma scope_guard_runs_throwing_twice:
  assumes "\<And>w. f w = (Throw e, g w)"
  shows "scope_guard_exit (Some f, w) = (Throw e, (Some f, g w))
    \<and> scope_guard_destroy (Some f, g w) = (Fault Terminated, (Some f, g (g w)))"
  using assms by (simp add: scope_guard_exit_def scope_guard_destroy_def)

section \<open>Properties\<close>

text \<open>
  C37.  A latch is counted down by exactly what its threads count, never below zero; a thread passes only
  when the counter is zero, and it stays zero; and no wake-up is lost: while a thread sleeps at zero a
  notification is still to come, after which no thread sleeps and each that was woken passes.
\<close>

theorem latch_no_lost_wakeup:
  assumes "0 \<le> expected" and "latch_reachable expected s"
  shows "0 \<le> ls_count s \<and> ls_count s = expected - ls_counted s
    \<and> (ls_pc s t = Passed \<longrightarrow> ls_count s = 0)
    \<and> (ls_pc s t = Asleep \<and> ls_count s = 0 \<longrightarrow>
        (\<exists>s1 s2. latch_step s s1 \<and> (\<forall>u. ls_pc s1 u \<noteq> Asleep) \<and> latch_step s1 s2 \<and> ls_pc s2 t = Passed))"
proof -
  have i: "latch_inv expected s" by (rule reachable_latch_inv [OF assms])
  have "\<exists>s1 s2. latch_step s s1 \<and> (\<forall>u. ls_pc s1 u \<noteq> Asleep) \<and> latch_step s1 s2 \<and> ls_pc s2 t = Passed"
    if "ls_pc s t = Asleep" "ls_count s = 0"
  proof -
    let ?s1 = "s\<lparr>ls_notifications := ls_notifications s - 1, ls_pc := latch_notify_all (ls_pc s)\<rparr>"
    let ?s2 = "?s1\<lparr>ls_pc := (ls_pc ?s1)(t := latch_wait (ls_count ?s1))\<rparr>"
    have "latch_step s ?s1" using i that by (intro latch_step.notify) (auto simp: latch_inv_def)
    moreover have "latch_step ?s1 ?s2"
      by (rule latch_step.wait) (simp add: latch_notify_all_def that)
    moreover have "ls_pc ?s2 t = Passed" by (simp add: latch_wait_def latch_try_wait_def that)
    moreover have "\<forall>u. ls_pc ?s1 u \<noteq> Asleep" by (simp add: latch_notify_all_def)
    ultimately show ?thesis by blast
  qed
  with i show ?thesis by (auto simp: latch_inv_def)
qed

theorem latch_no_lost_wakeup_witness:
  "\<exists>s. latch_reachable 1 s \<and> ls_pc s 4 = Asleep \<and> ls_count s = 0
     \<and> (\<exists>s1 s2. latch_step s s1 \<and> latch_step s1 s2 \<and> ls_pc s2 4 = Passed)"
proof -
  let ?s1 = "(latch_init 1)\<lparr>ls_pc := (ls_pc (latch_init 1))(4 := latch_wait (ls_count (latch_init 1)))\<rparr>"
  let ?s2 = "?s1\<lparr>ls_count := 0, ls_counted := 1, ls_notifications := 1\<rparr>"
  have s1: "latch_step (latch_init 1) ?s1" by (rule latch_step.wait) (simp add: latch_init_def)
  have s2: "latch_step ?s1 ?s2"
    using latch_step.count_down [of 1 ?s1 True 0] by (simp add: latch_init_def latch_count_down_def)
  have r: "latch_reachable 1 ?s2"
    by (rule latch_reachable.step [OF latch_reachable.step [OF latch_reachable.start s1] s2])
  have a: "ls_pc ?s2 4 = Asleep" "ls_count ?s2 = 0"
    by (simp_all add: latch_init_def latch_wait_def latch_try_wait_def)
  from latch_no_lost_wakeup [OF _ r, of 4] a r show ?thesis by (intro exI [of _ ?s2]) auto
qed

end
