(* ===== verification/Container.thy ===== *)
theory Container
  imports Prelude "HOL-Library.AList"
begin

text \<open>
  \<open>include/hlib/container.hpp\<close>: helpers over any standard container.

  A sequence is the list of its elements and a map the list of its pairs, in the order of iteration; a
  \<open>std::set\<close> is iterated in ascending order.  The choice of the member function that inserts into the
  result of \<open>make_intersection\<close> is an argument.
\<close>

section \<open>Lookup\<close>

definition container_get_size :: "'a list \<Rightarrow> nat" where
  "container_get_size c = length c"

definition container_contains :: "'a list \<Rightarrow> 'a \<Rightarrow> bool" where
  "container_contains c value \<longleftrightarrow> \<not> Option.is_none (find (\<lambda>x. x = value) c)"

text \<open>In a map, the pairs with the key of the value are looked through.\<close>

definition map_contains_value :: "('k \<times> 'v) list \<Rightarrow> 'k \<times> 'v \<Rightarrow> bool" where
  "map_contains_value c value \<longleftrightarrow>
     \<not> Option.is_none (find (\<lambda>x. x = value) (filter (\<lambda>x. fst x = fst value) c))"

definition map_contains_key :: "('k \<times> 'v) list \<Rightarrow> 'k \<Rightarrow> bool" where
  "map_contains_key c key \<longleftrightarrow> \<not> Option.is_none (map_of c key)"

text \<open>
  For an absent key the pair is inserted, but the iterator that is then dereferenced is still the end.
\<close>

definition map_replace :: "('k \<times> 'v) list \<Rightarrow> 'k \<Rightarrow> 'v \<Rightarrow> 'v res \<times> ('k \<times> 'v) list" where
  "map_replace c key value =
     (case map_of c key of
        None \<Rightarrow> (Fault Out_Of_Bounds, AList.update key value c)
      | Some _ \<Rightarrow> (Ret value, AList.update key value c))"

definition map_find_or_default :: "('k \<times> 'v) list \<Rightarrow> 'k \<Rightarrow> 'v \<Rightarrow> 'v" where
  "map_find_or_default c key default_value = (case map_of c key of Some v \<Rightarrow> v | None \<Rightarrow> default_value)"

text \<open>The function may change the element and a world.\<close>

fun container_for_each :: "('a \<Rightarrow> 'w \<Rightarrow> 'a \<times> 'w) \<Rightarrow> 'a list \<Rightarrow> 'w \<Rightarrow> 'a list \<times> 'w" where
  "container_for_each f [] w = ([], w)"
| "container_for_each f (x # xs) w =
     (let (y, w1) = f x w; (ys, w2) = container_for_each f xs w1 in (y # ys, w2))"

section \<open>Set operations\<close>

definition make_union :: "'a::linorder list \<Rightarrow> 'a list \<Rightarrow> 'a list" where
  "make_union lhs rhs = sorted_list_of_set (set lhs \<union> set rhs)"

fun intersection_loop :: "('a \<Rightarrow> 'a list \<Rightarrow> 'a list) \<Rightarrow> 'a list \<Rightarrow> 'a set \<Rightarrow> 'a list \<Rightarrow> 'a list" where
  "intersection_loop insert_value [] s result = result"
| "intersection_loop insert_value (value # rhs) s result =
     (if value \<in> s then intersection_loop insert_value rhs (s - {value}) (insert_value value result)
      else intersection_loop insert_value rhs s result)"

definition make_intersection :: "('a \<Rightarrow> 'a list \<Rightarrow> 'a list) \<Rightarrow> 'a list \<Rightarrow> 'a list \<Rightarrow> 'a list" where
  "make_intersection insert_value lhs rhs = intersection_loop insert_value rhs (set lhs) []"

definition push_back :: "'a \<Rightarrow> 'a list \<Rightarrow> 'a list" where "push_back x xs = xs @ [x]"
definition push_front :: "'a \<Rightarrow> 'a list \<Rightarrow> 'a list" where "push_front x xs = x # xs"

definition make_complement :: "'a::linorder list \<Rightarrow> 'a list \<Rightarrow> 'a list" where
  "make_complement lhs rhs =
     (let lhs_set = set lhs; rhs_set = set rhs;
          result = {};
          result1 = fold (\<lambda>value r. if value \<notin> rhs_set then insert value r else r) lhs result;
          result2 = fold (\<lambda>value r. if value \<notin> lhs_set then insert value r else r) rhs result1
      in sorted_list_of_set result2)"

section \<open>Facts\<close>

lemma find_is_member: "(find (\<lambda>x. x = v) xs \<noteq> None) = (v \<in> set xs)"
  by (auto simp: find_None_iff)

lemma fold_insert_if: "fold (\<lambda>v r. if P v then insert v r else r) xs A = A \<union> {v \<in> set xs. P v}"
  by (induction xs arbitrary: A) auto

text \<open>What either insertion does to a list, as a set and as a list without duplicates.\<close>

locale insertion =
  fixes ins :: "'a \<Rightarrow> 'a list \<Rightarrow> 'a list"
  assumes set_ins: "set (ins x xs) = insert x (set xs)"
    and distinct_ins: "x \<notin> set xs \<Longrightarrow> distinct xs \<Longrightarrow> distinct (ins x xs)"
begin

lemma intersection_loop_set:
  "set (intersection_loop ins rhs s result) = set result \<union> (set rhs \<inter> s)"
  by (induction rhs arbitrary: s result) (auto simp: set_ins)

lemma intersection_loop_distinct:
  "distinct result \<Longrightarrow> set result \<inter> s = {} \<Longrightarrow> distinct (intersection_loop ins rhs s result)"
proof (induction rhs arbitrary: s result)
  case (Cons v rhs)
  then show ?case by (auto simp: set_ins intro!: Cons.IH distinct_ins)
qed simp

end

interpretation push_back: insertion push_back
  by unfold_locales (auto simp: push_back_def)

interpretation push_front: insertion push_front
  by unfold_locales (auto simp: push_front_def)


section \<open>Properties\<close>

text \<open>
  The set operations are the operations on sets, without duplicates: the union and, despite its
  name, the symmetric difference \<open>make_complement\<close> in ascending order, the intersection in the order
  of the right operand, or its reverse for a container that only inserts in front.
\<close>

theorem container_set_operations:
  "set (make_union xs ys) = set xs \<union> set ys \<and> sorted (make_union xs ys) \<and> distinct (make_union xs ys)
   \<and> set (make_intersection push_back xs ys) = set xs \<inter> set ys \<and> distinct (make_intersection push_back xs ys)
   \<and> make_intersection push_front xs ys = rev (make_intersection push_back xs ys)
   \<and> set (make_complement xs ys) = (set xs - set ys) \<union> (set ys - set xs)
   \<and> sorted (make_complement xs ys) \<and> distinct (make_complement xs ys)"
proof -
  have rv: "intersection_loop push_front ys s (rev r) = rev (intersection_loop push_back ys s r)" for s r
  proof (induction ys arbitrary: s r)
    case (Cons y ys)
    from Cons [of "s - {y}" "r @ [y]"] Cons [of s r] show ?case by (simp add: push_back_def push_front_def)
  qed simp
  have c: "make_complement xs ys = sorted_list_of_set ((set xs - set ys) \<union> (set ys - set xs))"
    unfolding make_complement_def Let_def fold_insert_if by (rule arg_cong [of _ _ sorted_list_of_set]) auto
  show ?thesis
    unfolding c make_union_def make_intersection_def
    using rv [of "set xs" "[]"] push_back.intersection_loop_set [of ys "set xs" "[]"]
      push_back.intersection_loop_distinct [of "[]" "set xs" ys]
    by auto
qed

text \<open>Replacing the value of an absent key inserts it and then reads through the end iterator.\<close>

lemma map_replace_absent:
  "map_of c key = None \<Longrightarrow> map_replace c key value = (Fault Out_Of_Bounds, AList.update key value c)
     \<and> map_of (AList.update key value c) key = Some value"
  by (simp add: map_replace_def update_conv')

end
