(* ===== verification/File_Read.thy ===== *)
theory File_Read
  imports Buffer Result
begin

text \<open>
  \<open>src/hlib_file.cpp\<close>, the functions \<open>file::read\<close>: from a \<open>std::istream\<close>, a C \<open>FILE\<close> and a
  descriptor, into memory of the caller, into a \<open>Buffer\<close>, and all that there is into a new \<open>Buffer\<close>.

  A stream and a \<open>FILE\<close> are the bytes still to come with their status flags; a descriptor is the list of
  what the system calls on it will see, chunks of bytes or an error, and the end of the file after the
  last.  Memory of the caller is the block that starts at the pointer.  \<open>errno\<close>, where the code reads it
  after a call that need not have set it, is an argument.
\<close>

section \<open>Streams, files and descriptors\<close>

record istream =
  is_rest :: "u8 list"
  is_eof :: bool
  is_fail :: bool
  is_gcount :: nat

definition stream_read :: "nat \<Rightarrow> istream \<Rightarrow> u8 list \<times> istream" where
  "stream_read n s =
     (if is_eof s \<or> is_fail s then ([], s\<lparr>is_fail := True, is_gcount := 0\<rparr>)
      else let got = take n (is_rest s); short = length got < n
           in (got, s\<lparr>is_rest := drop n (is_rest s), is_eof := short, is_fail := short, is_gcount := length got\<rparr>))"

text \<open>A device may break after the bytes that are to come.\<close>

record c_file =
  cf_rest :: "u8 list"
  cf_broken :: bool
  cf_eof :: bool
  cf_error :: bool

definition c_fread :: "nat \<Rightarrow> c_file \<Rightarrow> u8 list \<times> c_file" where
  "c_fread n f =
     (let got = take n (cf_rest f); short = length got < n
      in (got, f\<lparr>cf_rest := drop n (cf_rest f), cf_eof := cf_eof f \<or> short \<and> \<not> cf_broken f,
                 cf_error := cf_error f \<or> short \<and> cf_broken f\<rparr>))"

datatype fd_event = Fd_Data "u8 list" | Fd_Error int

fun fd_read :: "nat \<Rightarrow> fd_event list \<Rightarrow> (int + u8 list) \<times> fd_event list" where
  "fd_read n [] = (Inr [], [])"
| "fd_read n (Fd_Error e # es) = (Inl e, es)"
| "fd_read n (Fd_Data bs # es) =
     (Inr (take n bs), if length bs \<le> n then es else Fd_Data (drop n bs) # es)"

definition system_failure :: "int \<Rightarrow> 'a result" where
  "system_failure errno = Failure (Some (make_system_error errno []))"

text \<open>Memory of the caller: the block after the bytes were stored at its start.\<close>

definition store_at :: "u8 list \<Rightarrow> 's \<Rightarrow> u8 list \<Rightarrow> unit res \<times> 's \<times> u8 list" where
  "store_at got s mem = (case mem_write 0 got mem of Some m \<Rightarrow> (Ret (), (s, m)) | None \<Rightarrow> (Fault Out_Of_Bounds, (s, mem)))"

section \<open>Reading into memory\<close>

definition file_read_stream_data_nothrow :: "int \<Rightarrow> nat \<Rightarrow> istream \<times> u8 list \<Rightarrow> nat result res \<times> istream \<times> u8 list" where
  "file_read_stream_data_nothrow errno n = (\<lambda>(s, mem).
     let (got, s1) = stream_read n s in
     and_then (store_at got s1 mem) (\<lambda>_ t.
       (Ret (if is_fail s1 then system_failure errno else Success (is_gcount s1)), t)))"

text \<open>The throwing overload returns the stream and sets its argument to the count.\<close>

definition file_read_stream_data :: "int \<Rightarrow> nat \<Rightarrow> istream \<times> u8 list \<Rightarrow> nat res \<times> istream \<times> u8 list" where
  "file_read_stream_data errno n t = and_then (file_read_stream_data_nothrow errno n t) success_or_throw"

definition file_read_file_data_nothrow :: "int \<Rightarrow> nat \<Rightarrow> c_file \<times> u8 list \<Rightarrow> nat result res \<times> c_file \<times> u8 list" where
  "file_read_file_data_nothrow errno n = (\<lambda>(f, mem).
     let (got, f1) = c_fread n f in
     and_then (store_at got f1 mem) (\<lambda>_ t.
       (Ret (if cf_error f1 then system_failure errno else Success (length got)), t)))"

definition file_read_file_data :: "int \<Rightarrow> nat \<Rightarrow> c_file \<times> u8 list \<Rightarrow> nat res \<times> c_file \<times> u8 list" where
  "file_read_file_data errno n t = and_then (file_read_file_data_nothrow errno n t) success_or_throw"

definition file_read_fd_data_nothrow :: "nat \<Rightarrow> fd_event list \<times> u8 list \<Rightarrow> nat result res \<times> fd_event list \<times> u8 list" where
  "file_read_fd_data_nothrow n = (\<lambda>(es, mem).
     case fd_read n es of
       (Inl e, es1) \<Rightarrow> (Ret (system_failure e), (es1, mem))
     | (Inr got, es1) \<Rightarrow> and_then (store_at got es1 mem) (\<lambda>_ t. (Ret (Success (length got)), t)))"

definition file_read_fd_data :: "nat \<Rightarrow> fd_event list \<times> u8 list \<Rightarrow> nat res \<times> fd_event list \<times> u8 list" where
  "file_read_fd_data n t = and_then (file_read_fd_data_nothrow n t) success_or_throw"

section \<open>Reading into a buffer\<close>

text \<open>A call that has nothing to store does not touch the memory at the pointer it was given.\<close>

definition store_bytes :: "ptr \<Rightarrow> nat \<Rightarrow> u8 list \<Rightarrow> buffer \<Rightarrow> unit res \<times> buffer" where
  "store_bytes ptr n bs b = (if bs = [] then (Ret (), b) else buf_store (map_option (\<lambda>off. off + n) ptr) bs b)"

text \<open>An operation on the buffer of a pair.\<close>

definition on_buffer :: "(buffer \<Rightarrow> 'a res \<times> buffer) \<Rightarrow> 's \<times> buffer \<Rightarrow> 'a res \<times> 's \<times> buffer" where
  "on_buffer op = (\<lambda>(s, b). let (r, b1) = op b in (r, (s, b1)))"

definition file_read_stream_nothrow :: "allocator \<Rightarrow> int \<Rightarrow> nat \<Rightarrow> istream \<times> buffer \<Rightarrow> unit result res \<times> istream \<times> buffer" where
  "file_read_stream_nothrow A errno n t =
     and_then (on_buffer (buf_extend_nothrow A n) t) (\<lambda>ptr (s, b).
       if Option.is_none ptr then (Ret (system_failure errno), (s, b))
       else let (got, s1) = stream_read n s in
            and_then (on_buffer (store_bytes ptr (m_size b) got) (s1, b)) (\<lambda>_ (s, b).
              if is_fail s then (Ret (system_failure errno), (s, b))
              else and_then (on_buffer (buf_resize_nothrow A (size_add (m_size b) (is_gcount s))) (s, b)) (\<lambda>p t.
                if Option.is_none p then (Ret (system_failure errno), t) else (Ret (Success ()), t))))"

definition file_read_stream :: "allocator \<Rightarrow> int \<Rightarrow> nat \<Rightarrow> istream \<times> buffer \<Rightarrow> unit res \<times> istream \<times> buffer" where
  "file_read_stream A errno n t = and_then (file_read_stream_nothrow A errno n t) success_or_throw"

definition file_read_file_nothrow :: "allocator \<Rightarrow> int \<Rightarrow> nat \<Rightarrow> c_file \<times> buffer \<Rightarrow> nat result res \<times> c_file \<times> buffer" where
  "file_read_file_nothrow A errno n t =
     and_then (on_buffer (buf_extend_nothrow A n) t) (\<lambda>ptr (f, b).
       if Option.is_none ptr then (Ret (system_failure errno), (f, b))
       else let (got, f1) = c_fread n f in
            and_then (on_buffer (store_bytes ptr (m_size b) got) (f1, b)) (\<lambda>_ (f, b).
              and_then (on_buffer (buf_resize_nothrow A (size_add (m_size b) (length got))) (f, b)) (\<lambda>p t.
                if Option.is_none p then (Ret (system_failure errno), t)
                else if cf_error f then (Ret (system_failure errno), t)
                else (Ret (Success (length got)), t))))"

definition file_read_file :: "allocator \<Rightarrow> int \<Rightarrow> nat \<Rightarrow> c_file \<times> buffer \<Rightarrow> nat res \<times> c_file \<times> buffer" where
  "file_read_file A errno n t = and_then (file_read_file_nothrow A errno n t) success_or_throw"

definition file_read_fd_nothrow :: "allocator \<Rightarrow> int \<Rightarrow> nat \<Rightarrow> fd_event list \<times> buffer \<Rightarrow> nat result res \<times> fd_event list \<times> buffer" where
  "file_read_fd_nothrow A errno n t =
     and_then (on_buffer (buf_extend_nothrow A n) t) (\<lambda>ptr (es, b).
       if Option.is_none ptr then (Ret (system_failure errno), (es, b))
       else case fd_read n es of
              (Inl e, es1) \<Rightarrow> (Ret (system_failure e), (es1, b))
            | (Inr got, es1) \<Rightarrow>
                and_then (on_buffer (store_bytes ptr (m_size b) got) (es1, b)) (\<lambda>_ (es, b).
                  and_then (on_buffer (buf_resize_nothrow A (size_add (m_size b) (length got))) (es, b)) (\<lambda>p t.
                    if Option.is_none p then (Ret (system_failure errno), t)
                    else (Ret (Success (length got)), t))))"

definition file_read_fd :: "allocator \<Rightarrow> int \<Rightarrow> nat \<Rightarrow> fd_event list \<times> buffer \<Rightarrow> nat res \<times> fd_event list \<times> buffer" where
  "file_read_fd A errno n t = and_then (file_read_fd_nothrow A errno n t) success_or_throw"

section \<open>Reading all there is\<close>

text \<open>The assertion on the batch size is followed by its correction, for programs without assertions.\<close>

definition positive_batch :: "nat \<Rightarrow> nat" where
  "positive_batch batch_size = batch_size + of_bool (0 = batch_size)"

fun fd_weight :: "fd_event list \<Rightarrow> nat" where
  "fd_weight [] = 0"
| "fd_weight (Fd_Error e # es) = Suc (fd_weight es)"
| "fd_weight (Fd_Data bs # es) = Suc (length bs + fd_weight es)"

lemma positive_batch_pos: "0 < positive_batch n"
  by (cases n) (simp_all add: positive_batch_def)

lemma positive_batch_id: "0 < n \<Longrightarrow> positive_batch n = n"
  by (simp add: positive_batch_def)

lemma fd_read_weight: "fd_read n es = (Inr got, es1) \<Longrightarrow> 0 < length got \<Longrightarrow> fd_weight es1 < fd_weight es"
  by (cases "(n, es)" rule: fd_read.cases) (auto split: if_splits)

lemma on_buffer_Ret_iff: "on_buffer op t = (Ret a, u) \<longleftrightarrow> (\<exists>b. op (snd t) = (Ret a, b) \<and> u = (fst t, b))"
  by (auto simp: on_buffer_def split: prod.splits)

lemma file_read_fd_progress:
  assumes "file_read_fd_nothrow A errno n (es, b) = (Ret (Success count), (es1, b1))" and "0 < count"
  shows "fd_weight es1 < fd_weight es"
  using assms unfolding file_read_fd_nothrow_def
  by (auto simp: and_then_Ret_iff on_buffer_Ret_iff system_failure_def fd_read_weight
      split: if_splits prod.splits sum.splits)

lemma file_read_stream_progress:
  assumes "file_read_stream_nothrow A errno n (s, b) = (Ret (Success u), (s1, b1))" and "0 < n"
  shows "length (is_rest s1) < length (is_rest s)"
  using assms unfolding file_read_stream_nothrow_def
  by (auto simp: and_then_Ret_iff on_buffer_Ret_iff system_failure_def stream_read_def Let_def
      split: if_splits prod.splits)

lemma file_read_file_progress:
  assumes "file_read_file_nothrow A errno n (f, b) = (Ret (Success count), (f1, b1))" and "0 < n" and "\<not> cf_eof f1"
  shows "length (cf_rest f1) < length (cf_rest f)"
  using assms unfolding file_read_file_nothrow_def
  by (auto simp: and_then_Ret_iff on_buffer_Ret_iff system_failure_def c_fread_def Let_def
      split: if_splits prod.splits)

function file_read_stream_loop :: "allocator \<Rightarrow> int \<Rightarrow> nat \<Rightarrow> istream \<times> buffer \<Rightarrow> buffer result res \<times> istream" where
  "file_read_stream_loop A errno batch_size (s, b) =
     (case file_read_stream_nothrow A errno (positive_batch batch_size) (s, b) of
        (Ret (Success _), (s1, b1)) \<Rightarrow>
          if \<not> is_fail s1 \<and> \<not> is_eof s1 then file_read_stream_loop A errno batch_size (s1, b1)
          else (Ret (Success b1), s1)
      | (Ret (Failure e), (s1, b1)) \<Rightarrow> (Ret (Failure e), s1)
      | (Throw x, (s1, b1)) \<Rightarrow> (Throw x, s1)
      | (Fault x, (s1, b1)) \<Rightarrow> (Fault x, s1))"
  by pat_completeness auto
termination
  by (relation "measure (\<lambda>(A, errno, n, s, b). length (is_rest s))")
    (auto intro: file_read_stream_progress [OF sym] positive_batch_pos)

definition file_read_stream_all_nothrow :: "allocator \<Rightarrow> int \<Rightarrow> nat \<Rightarrow> istream \<Rightarrow> buffer result res \<times> istream" where
  "file_read_stream_all_nothrow A errno batch_size s =
     (if \<not> 0 < batch_size then (Fault Assert_Failed, s)
      else file_read_stream_loop A errno batch_size (s, empty_buffer))"

definition file_read_stream_all :: "allocator \<Rightarrow> int \<Rightarrow> nat \<Rightarrow> istream \<Rightarrow> buffer res \<times> istream" where
  "file_read_stream_all A errno batch_size s =
     and_then (file_read_stream_all_nothrow A errno batch_size s) success_or_throw"

function file_read_file_loop :: "allocator \<Rightarrow> int \<Rightarrow> nat \<Rightarrow> c_file \<times> buffer \<Rightarrow> buffer result res \<times> c_file" where
  "file_read_file_loop A errno batch_size (f, b) =
     (case file_read_file_nothrow A errno (positive_batch batch_size) (f, b) of
        (Ret (Success _), (f1, b1)) \<Rightarrow>
          if \<not> cf_eof f1 then file_read_file_loop A errno batch_size (f1, b1) else (Ret (Success b1), f1)
      | (Ret (Failure e), (f1, b1)) \<Rightarrow> (Ret (Failure e), f1)
      | (Throw x, (f1, b1)) \<Rightarrow> (Throw x, f1)
      | (Fault x, (f1, b1)) \<Rightarrow> (Fault x, f1))"
  by pat_completeness auto
termination
  by (relation "measure (\<lambda>(A, errno, n, f, b). length (cf_rest f))")
    (auto intro: file_read_file_progress [OF sym] positive_batch_pos)

definition file_read_file_all_nothrow :: "allocator \<Rightarrow> int \<Rightarrow> nat \<Rightarrow> c_file \<Rightarrow> buffer result res \<times> c_file" where
  "file_read_file_all_nothrow A errno batch_size f =
     (if \<not> 0 < batch_size then (Fault Assert_Failed, f)
      else file_read_file_loop A errno batch_size (f, empty_buffer))"

definition file_read_file_all :: "allocator \<Rightarrow> int \<Rightarrow> nat \<Rightarrow> c_file \<Rightarrow> buffer res \<times> c_file" where
  "file_read_file_all A errno batch_size f =
     and_then (file_read_file_all_nothrow A errno batch_size f) success_or_throw"

function file_read_fd_loop :: "allocator \<Rightarrow> int \<Rightarrow> nat \<Rightarrow> fd_event list \<times> buffer \<Rightarrow> buffer result res \<times> fd_event list" where
  "file_read_fd_loop A errno batch_size (es, b) =
     (case file_read_fd_nothrow A errno (positive_batch batch_size) (es, b) of
        (Ret (Success count), (es1, b1)) \<Rightarrow>
          if 0 < count then file_read_fd_loop A errno batch_size (es1, b1) else (Ret (Success b1), es1)
      | (Ret (Failure e), (es1, b1)) \<Rightarrow> (Ret (Failure e), es1)
      | (Throw x, (es1, b1)) \<Rightarrow> (Throw x, es1)
      | (Fault x, (es1, b1)) \<Rightarrow> (Fault x, es1))"
  by pat_completeness auto
termination
  by (relation "measure (\<lambda>(A, errno, n, es, b). fd_weight es)") (auto intro: file_read_fd_progress [OF sym])

definition file_read_fd_all_nothrow :: "allocator \<Rightarrow> int \<Rightarrow> nat \<Rightarrow> fd_event list \<Rightarrow> buffer result res \<times> fd_event list" where
  "file_read_fd_all_nothrow A errno batch_size es =
     (if \<not> 0 < batch_size then (Fault Assert_Failed, es)
      else file_read_fd_loop A errno batch_size (es, empty_buffer))"

definition file_read_fd_all :: "allocator \<Rightarrow> int \<Rightarrow> nat \<Rightarrow> fd_event list \<Rightarrow> buffer res \<times> fd_event list" where
  "file_read_fd_all A errno batch_size es =
     and_then (file_read_fd_all_nothrow A errno batch_size es) success_or_throw"

text \<open>
  A file is read by its path in one piece of the size that the file system reports: \<open>file_size\<close> gives
  the size or an error code, \<open>open_stream\<close> the stream, which is a failed one if it cannot be opened.
\<close>

definition file_read_path_nothrow ::
  "(string \<Rightarrow> int + nat) \<Rightarrow> (string \<Rightarrow> istream) \<Rightarrow> allocator \<Rightarrow> int \<Rightarrow> string \<Rightarrow> buffer result res" where
  "file_read_path_nothrow file_size open_stream A errno filepath =
     (case file_size filepath of
        Inl e \<Rightarrow> Ret (system_failure e)
      | Inr sz \<Rightarrow>
          if sz = 0 then Ret (Success empty_buffer)
          else (case file_read_stream_nothrow A errno sz (open_stream filepath, empty_buffer) of
                  (Ret (Success _), (s, b)) \<Rightarrow> Ret (Success b)
                | (Ret (Failure e), (s, b)) \<Rightarrow> Ret (Failure e)
                | (Throw x, _) \<Rightarrow> Throw x
                | (Fault x, _) \<Rightarrow> Fault x))"

definition file_read_path ::
  "(string \<Rightarrow> int + nat) \<Rightarrow> (string \<Rightarrow> istream) \<Rightarrow> allocator \<Rightarrow> int \<Rightarrow> string \<Rightarrow> buffer res" where
  "file_read_path file_size open_stream A errno filepath =
     fst (and_then (file_read_path_nothrow file_size open_stream A errno filepath, ()) success_or_throw)"

section \<open>Facts\<close>

text \<open>
  What the three have in common: extending the buffer and storing \<open>got\<close> one size past its end.  The
  bytes in use are then followed by what the block held, and the bytes that were read come after those.
\<close>

lemma fill_ok:
  assumes wf: "buffer_wf b" and lim: "m_size b + n \<le> size_max" and n: "length got \<le> n"
    and ext: "buf_extend_nothrow A n b = (Ret (Some off), b1)"
    and room: "got = [] \<or> 2 * m_size b + length got \<le> m_capacity b1"
  shows "\<exists>b2 b3. m_size b1 = m_size b
    \<and> store_bytes (Some off) (m_size b) got b1 = (Ret (), b2) \<and> m_size b2 = m_size b
    \<and> buf_resize_nothrow A (size_add (m_size b) (length got)) b2 = (Ret (Some 0), b3) \<and> buffer_wf b3
    \<and> m_capacity b3 = m_capacity b1 \<and> m_maximum b3 = m_maximum b \<and> m_size b3 = m_size b + length got
    \<and> contents b3 = take (m_size b + length got) (blit (2 * m_size b) got (the_block (m_data b1)))"
proof -
  have g: "Grow \<noteq> Shrink" by simp
  from extend_with_spec [OF wf g lim ext [unfolded buf_extend_nothrow_def]]
  have e: "buffer_wf b1" "m_size b1 = m_size b" "off = m_size b" "m_size b + n \<le> m_capacity b1"
    and mx: "m_maximum b1 = m_maximum b" by auto
  note wf1 = buffer_wfD [OF e(1)]
  have some: "m_data b1 \<noteq> None"
    using ext wf1(4) by (auto simp: buf_extend_nothrow_def extend_with_def ptr_end_def split: if_splits prod.splits option.splits)
  let ?m = "blit (2 * m_size b) got (the_block (m_data b1))"
  let ?b2 = "b1\<lparr>m_data := Some ?m\<rparr>"
  let ?b3 = "?b2\<lparr>m_size := m_size b + length got\<rparr>"
  have st: "store_bytes (Some off) (m_size b) got b1 = (Ret (), ?b2)"
  proof (cases "got = []")
    case True
    with some show ?thesis by (auto simp: store_bytes_def)
  next
    case False
    with buf_store_spec(1) [OF e(1) _ some, of "2 * m_size b" got] room e(3)
    show ?thesis by (simp add: store_bytes_def mult_2)
  qed
  have len: "length ?m = m_capacity b1"
    using room wf1(4) by (cases "got = []") simp_all
  have wf2: "buffer_wf ?b2" using e(1) len some by (simp add: buffer_wf_def)
  have wf3: "buffer_wf ?b3" using set_size_wf [OF wf2, of "m_size b + length got"] n e(4) by simp
  have "buf_resize_nothrow A (size_add (m_size b) (length got)) ?b2 = (Ret (Some 0), ?b3)"
    using e(2,4) wf1(1) n lim
    by (simp add: buf_resize_nothrow_def resize_with_def buf_realloc_def buf_data_def)
  with st wf3 e(2) mx show ?thesis
    by (intro exI [of _ ?b2] exI [of _ ?b3]) (simp add: buf_to_string_def)
qed

lemma fill_fault:
  assumes wf: "buffer_wf b" and lim: "m_size b + n \<le> size_max"
    and ext: "buf_extend_nothrow A n b = (Ret (Some off), b1)"
    and over: "got \<noteq> []" "m_capacity b1 < 2 * m_size b + length got"
  shows "m_size b1 = m_size b \<and> store_bytes (Some off) (m_size b) got b1 = (Fault Out_Of_Bounds, b1)"
proof -
  have g: "Grow \<noteq> Shrink" by simp
  from extend_with_spec [OF wf g lim ext [unfolded buf_extend_nothrow_def]]
  have e: "buffer_wf b1" "m_size b1 = m_size b" "off = m_size b" by auto
  with buffer_wfD(4) [OF e(1)] over show ?thesis
    by (auto simp: store_bytes_def buf_store_def mem_write_def split: option.splits)
qed

text \<open>A new allocation is exact.\<close>

lemma extend_capacity:
  assumes wf: "buffer_wf b" and lim: "m_size b + n \<le> size_max"
    and ext: "buf_extend_nothrow A n b = (Ret (Some off), b1)"
  shows "m_capacity b1 = max (m_capacity b) (m_size b + n)"
  using ext lim buffer_wfD(1) [OF wf] wf
  by (auto simp: buf_extend_nothrow_def extend_with_def buf_realloc_def buffer_wf_def Let_def
      split: if_splits prod.splits option.splits)


lemma file_read_fd_ok:
  assumes "buffer_wf b" and "m_size b + n \<le> size_max" and "buf_extend_nothrow A n b = (Ret (Some off), b1)"
    and "fd_read n es = (Inr got, es1)" and "got = [] \<or> 2 * m_size b + length got \<le> m_capacity b1"
  shows "\<exists>b2. file_read_fd_nothrow A errno n (es, b) = (Ret (Success (length got)), (es1, b2)) \<and> buffer_wf b2
    \<and> m_capacity b2 = m_capacity b1 \<and> m_maximum b2 = m_maximum b \<and> m_size b2 = m_size b + length got
    \<and> contents b2 = take (m_size b + length got) (blit (2 * m_size b) got (the_block (m_data b1)))"
proof -
  have "length got \<le> n" using assms(4) by (cases "(n, es)" rule: fd_read.cases) auto
  from fill_ok [OF assms(1,2) this assms(3,5)] assms(3,4) show ?thesis
    by (auto simp: file_read_fd_nothrow_def on_buffer_def)
qed

lemma file_read_fd_fault:
  assumes "buffer_wf b" and "m_size b + n \<le> size_max" and "buf_extend_nothrow A n b = (Ret (Some off), b1)"
    and "fd_read n es = (Inr got, es1)" and "got \<noteq> []" "m_capacity b1 < 2 * m_size b + length got"
  shows "file_read_fd_nothrow A errno n (es, b) = (Fault Out_Of_Bounds, (es1, b1))"
  using fill_fault [OF assms(1-3,5,6)] assms(3,4) by (auto simp: file_read_fd_nothrow_def on_buffer_def)

lemma file_read_file_ok:
  assumes "buffer_wf b" and "m_size b + n \<le> size_max" and "buf_extend_nothrow A n b = (Ret (Some off), b1)"
    and "c_fread n f = (got, f1)" and "got = [] \<or> 2 * m_size b + length got \<le> m_capacity b1"
  shows "\<exists>b2. file_read_file_nothrow A errno n (f, b)
      = (Ret (if cf_error f1 then system_failure errno else Success (length got)), (f1, b2)) \<and> buffer_wf b2
    \<and> m_capacity b2 = m_capacity b1 \<and> m_maximum b2 = m_maximum b \<and> m_size b2 = m_size b + length got
    \<and> contents b2 = take (m_size b + length got) (blit (2 * m_size b) got (the_block (m_data b1)))"
proof -
  have "length got \<le> n" using assms(4) by (auto simp: c_fread_def Let_def)
  from fill_ok [OF assms(1,2) this assms(3,5)] assms(3,4) show ?thesis
    by (auto simp: file_read_file_nothrow_def on_buffer_def)
qed

lemma file_read_file_fault:
  assumes "buffer_wf b" and "m_size b + n \<le> size_max" and "buf_extend_nothrow A n b = (Ret (Some off), b1)"
    and "c_fread n f = (got, f1)" and "got \<noteq> []" "m_capacity b1 < 2 * m_size b + length got"
  shows "file_read_file_nothrow A errno n (f, b) = (Fault Out_Of_Bounds, (f1, b1))"
  using fill_fault [OF assms(1-3,5,6)] assms(3,4) by (auto simp: file_read_file_nothrow_def on_buffer_def)

lemma file_read_stream_ok:
  assumes "buffer_wf b" and "m_size b + n \<le> size_max" and "buf_extend_nothrow A n b = (Ret (Some off), b1)"
    and "\<not> is_eof s" and "\<not> is_fail s" and "n \<le> length (is_rest s)" and "2 * m_size b + n \<le> m_capacity b1"
  shows "\<exists>b2. file_read_stream_nothrow A errno n (s, b)
      = (Ret (Success ()), (s\<lparr>is_rest := drop n (is_rest s), is_gcount := n\<rparr>, b2)) \<and> buffer_wf b2
    \<and> m_capacity b2 = m_capacity b1 \<and> m_maximum b2 = m_maximum b \<and> m_size b2 = m_size b + n
    \<and> contents b2 = take (m_size b + n) (blit (2 * m_size b) (take n (is_rest s)) (the_block (m_data b1)))"
proof -
  have "stream_read n s = (take n (is_rest s), s\<lparr>is_rest := drop n (is_rest s), is_gcount := n\<rparr>)"
    using assms(4-6) by (simp add: stream_read_def min_def)
  with fill_ok [OF assms(1,2) _ assms(3), of "take n (is_rest s)"] assms show ?thesis
    by (auto simp: file_read_stream_nothrow_def on_buffer_def)
qed

lemma file_read_stream_short:
  assumes "buffer_wf b" and "m_size b + n \<le> size_max" and "buf_extend_nothrow A n b = (Ret (Some off), b1)"
    and "is_eof s \<or> is_fail s \<or> length (is_rest s) < n"
    and "is_eof s \<or> is_fail s \<or> is_rest s = [] \<or> 2 * m_size b + length (is_rest s) \<le> m_capacity b1"
  shows "\<exists>s1 b2. file_read_stream_nothrow A errno n (s, b) = (Ret (system_failure errno), (s1, b2))"
proof -
  obtain got s1 where r: "stream_read n s = (got, s1)" by fastforce
  have g: "is_fail s1" "length got \<le> n" "got = [] \<or> got = is_rest s \<and> \<not> is_eof s \<and> \<not> is_fail s"
    using r assms(4) by (auto simp: stream_read_def Let_def split: if_splits)
  then have "got = [] \<or> 2 * m_size b + length got \<le> m_capacity b1" using assms(5) by auto
  from fill_ok [OF assms(1,2) g(2) assms(3) this] assms(3) r g(1) show ?thesis
    by (auto simp: file_read_stream_nothrow_def on_buffer_def)
qed

lemma file_read_stream_fault:
  assumes "buffer_wf b" and "m_size b + n \<le> size_max" and "buf_extend_nothrow A n b = (Ret (Some off), b1)"
    and "stream_read n s = (got, s1)" and "got \<noteq> []" "m_capacity b1 < 2 * m_size b + length got"
  shows "file_read_stream_nothrow A errno n (s, b) = (Fault Out_Of_Bounds, (s1, b1))"
  using fill_fault [OF assms(1-3,5,6)] assms(3,4) by (auto simp: file_read_stream_nothrow_def on_buffer_def)

text \<open>What an allocator that grants everything makes of an extension below the maximum.\<close>

lemma extend_granted:
  assumes "\<forall>k. grants A k" and "buffer_wf b" and "0 < n" and "m_size b + n \<le> m_maximum b"
  shows "\<exists>b1. buf_extend_nothrow A n b = (Ret (Some (m_size b)), b1)"
  using assms buffer_wfD [OF assms(2)]
  by (auto simp: buf_extend_nothrow_def extend_with_def buf_realloc_def os_realloc_def ptr_end_def Let_def
      split: option.splits)

lemma take_blit_gap:
  assumes "2 * m + length got \<le> length blk"
  shows "take (m + length got) (blit (2 * m) got blk)
    = take m blk @ take (length got) (take m (drop m blk)) @ take (length got - m) got"
proof (cases "length got \<le> m")
  case True
  with assms show ?thesis by (simp add: blit_def take_add min_def)
next
  case False
  have "take (m + length got) (blit (2 * m) got blk) = take (2 * m) blk @ take (length got - m) got"
    using assms False by (simp add: blit_def)
  also have "take (2 * m) blk = take m blk @ take m (drop m blk)" by (simp add: mult_2 take_add)
  finally show ?thesis using False by (simp add: min_def)
qed

lemma take_blit_start: "length got \<le> length blk \<Longrightarrow> take (length got) (blit 0 got blk) = got"
  by (simp add: blit_def)

section \<open>Properties\<close>

text \<open>
  Reading into an empty buffer does what it promises: the contents are the bytes the descriptor or
  the file gave, and their number is returned; a stream must have as many bytes as were asked for, or the
  read fails, also at the end of the stream.
\<close>

theorem file_read_into_empty_buffer:
  assumes "buffer_wf b" and "m_size b = 0" and "n \<le> size_max" and "buf_extend_nothrow A n b = (Ret (Some off), b1)"
  shows "(\<forall>got es1. fd_read n es = (Inr got, es1) \<longrightarrow>
      (\<exists>b2. file_read_fd_nothrow A errno n (es, b) = (Ret (Success (length got)), (es1, b2))
        \<and> buffer_wf b2 \<and> contents b2 = got))
   \<and> (\<exists>b2. file_read_file_nothrow A errno n (f, b)
        = (Ret (if cf_error (snd (c_fread n f)) then system_failure errno else Success (length (fst (c_fread n f)))),
           (snd (c_fread n f), b2)) \<and> buffer_wf b2 \<and> contents b2 = fst (c_fread n f))
   \<and> (\<not> is_eof s \<and> \<not> is_fail s \<and> n \<le> length (is_rest s) \<longrightarrow>
      (\<exists>s1 b2. file_read_stream_nothrow A errno n (s, b) = (Ret (Success ()), (s1, b2))
        \<and> is_rest s1 = drop n (is_rest s) \<and> buffer_wf b2 \<and> contents b2 = take n (is_rest s)))
   \<and> (is_eof s \<or> is_fail s \<or> length (is_rest s) < n \<longrightarrow>
      (\<exists>t. file_read_stream_nothrow A errno n (s, b) = (Ret (system_failure errno), t)))"
proof -
  have lim: "m_size b + n \<le> size_max" using assms(2,3) by simp
  have cap: "n \<le> m_capacity b1" using extend_capacity [OF assms(1) lim assms(4)] assms(2) by simp
  have len: "length (the_block (m_data b1)) = m_capacity b1"
    using extend_with_spec [OF assms(1) _ lim assms(4) [unfolded buf_extend_nothrow_def]] buffer_wfD(4) by simp
  have 1: "\<exists>b2. file_read_fd_nothrow A errno n (es, b) = (Ret (Success (length got)), (es1, b2))
      \<and> buffer_wf b2 \<and> contents b2 = got" if r: "fd_read n es = (Inr got, es1)" for got es1
  proof -
    have "length got \<le> n" using r by (cases "(n, es)" rule: fd_read.cases) auto
    with file_read_fd_ok [OF assms(1) lim assms(4) r] assms(2) cap len show ?thesis
      by (auto simp: take_blit_start)
  qed
  have 2: "\<exists>b2. file_read_file_nothrow A errno n (f, b)
        = (Ret (if cf_error (snd (c_fread n f)) then system_failure errno else Success (length (fst (c_fread n f)))),
           (snd (c_fread n f), b2)) \<and> buffer_wf b2 \<and> contents b2 = fst (c_fread n f)"
  proof -
    obtain got f1 where r: "c_fread n f = (got, f1)" by fastforce
    then have "length got \<le> n" by (auto simp: c_fread_def Let_def)
    with file_read_file_ok [OF assms(1) lim assms(4) r, of errno] assms(2) cap obtain b2 where
      b2: "file_read_file_nothrow A errno n (f, b)
        = (Ret (if cf_error f1 then system_failure errno else Success (length got)), (f1, b2))" "buffer_wf b2"
      "contents b2 = take (length got) (blit 0 got (the_block (m_data b1)))" by auto
    from b2(3) take_blit_start [of got "the_block (m_data b1)"] \<open>length got \<le> n\<close> cap len
    have "contents b2 = got" by simp
    with b2(1,2) r show ?thesis by (simp only: fst_conv snd_conv) blast
  qed
  have 3: "\<exists>s1 b2. file_read_stream_nothrow A errno n (s, b) = (Ret (Success ()), (s1, b2))
      \<and> is_rest s1 = drop n (is_rest s) \<and> buffer_wf b2 \<and> contents b2 = take n (is_rest s)"
    if "\<not> is_eof s" "\<not> is_fail s" "n \<le> length (is_rest s)"
  proof -
    from file_read_stream_ok [OF assms(1) lim assms(4) that] assms(2) cap obtain b2 where
      b2: "file_read_stream_nothrow A errno n (s, b)
        = (Ret (Success ()), (s\<lparr>is_rest := drop n (is_rest s), is_gcount := n\<rparr>, b2))" "buffer_wf b2"
      "contents b2 = take n (blit 0 (take n (is_rest s)) (the_block (m_data b1)))" by auto
    have "contents b2 = take n (is_rest s)"
      using b2(3) take_blit_start [of "take n (is_rest s)" "the_block (m_data b1)"] that(3) cap len by simp
    with b2(1,2) show ?thesis by auto
  qed
  have 4: "\<exists>t. file_read_stream_nothrow A errno n (s, b) = (Ret (system_failure errno), t)"
    if "is_eof s \<or> is_fail s \<or> length (is_rest s) < n"
    using file_read_stream_short [OF assms(1) lim assms(4) that] assms(2) cap that by auto
  show ?thesis using 1 2 3 4 by (intro conjI allI impI) blast+
qed

definition granting :: allocator where
  "granting = \<lparr>grants = (\<lambda>_. True), junk = (\<lambda>_. 0)\<rparr>"

theorem file_read_into_empty_buffer_witness:
  "\<exists>b2. file_read_fd_nothrow granting 0 4 ([Fd_Data [7, 8, 9]], empty_buffer) = (Ret (Success 3), ([], b2))
     \<and> contents b2 = [7, 8, 9]"
proof -
  have "\<forall>k. grants granting k" by (simp add: granting_def)
  from extend_granted [OF this empty_buffer_wf, of 4] obtain b1
    where e: "buf_extend_nothrow granting 4 empty_buffer = (Ret (Some 0), b1)"
    by (auto simp: empty_buffer_def InfiniteCapacity_def size_max_def)
  have "fd_read 4 [Fd_Data [7, 8, 9]] = (Inr [7, 8, 9], [])" by simp
  with file_read_into_empty_buffer [OF empty_buffer_wf _ _ e, of "[Fd_Data [7, 8, 9]]" 0] show ?thesis
    by (fastforce simp: size_max_def)
qed

text \<open>
  C18.  Reading into a buffer that holds \<open>m\<close> bytes stores at the offset \<open>2 * m\<close>: the contents are followed
  by \<open>m\<close> bytes that nobody stored, and the bytes that were read begin after them, as far as the count
  reaches; where the block is too small for that, the system call writes outside it.
\<close>

theorem file_read_into_used_buffer:
  assumes "buffer_wf b" and "m_size b + n \<le> size_max" and "buf_extend_nothrow A n b = (Ret (Some off), b1)"
    and "fd_read n es = (Inr got, es1)" and "got \<noteq> []"
  shows "(max (m_capacity b) (m_size b + n) < 2 * m_size b + length got \<longrightarrow>
      file_read_fd_nothrow A errno n (es, b) = (Fault Out_Of_Bounds, (es1, b1)))
   \<and> (2 * m_size b + length got \<le> max (m_capacity b) (m_size b + n) \<longrightarrow>
      (\<exists>b2. file_read_fd_nothrow A errno n (es, b) = (Ret (Success (length got)), (es1, b2)) \<and> buffer_wf b2
        \<and> contents b2 = contents b @ take (length got) (take (m_size b) (drop (m_size b) (the_block (m_data b1))))
            @ take (length got - m_size b) got))"
proof -
  note cap = extend_capacity [OF assms(1-3)]
  have e: "buffer_wf b1" "contents b1 = contents b" "m_size b1 = m_size b"
    using extend_with_spec [OF assms(1) _ assms(2) assms(3) [unfolded buf_extend_nothrow_def]] by auto
  have c: "take (m_size b) (the_block (m_data b1)) = contents b" using e(2,3) by (simp add: buf_to_string_def)
  note len = buffer_wfD(4) [OF e(1)]
  have "\<exists>b2. file_read_fd_nothrow A errno n (es, b) = (Ret (Success (length got)), (es1, b2)) \<and> buffer_wf b2
        \<and> contents b2 = contents b @ take (length got) (take (m_size b) (drop (m_size b) (the_block (m_data b1))))
            @ take (length got - m_size b) got" if r: "2 * m_size b + length got \<le> m_capacity b1"
    using file_read_fd_ok [OF assms(1-4) disjI2, OF r] take_blit_gap [of "m_size b" got "the_block (m_data b1)"]
      r len c by auto
  with file_read_fd_fault [OF assms] cap show ?thesis by auto
qed

definition two_bytes :: buffer where
  "two_bytes = \<lparr>m_data = Some [1, 2, 3, 4, 5, 6, 7, 8], m_maximum = 100, m_capacity = 8, m_size = 2\<rparr>"

theorem file_read_into_used_buffer_witness:
  "\<exists>b2. file_read_fd_nothrow granting 0 4 ([Fd_Data [70, 80, 90]], two_bytes) = (Ret (Success 3), ([], b2))
     \<and> contents b2 = [1, 2, 3, 4, 70]"
proof -
  have wf: "buffer_wf two_bytes" by (simp add: two_bytes_def buffer_wf_def size_max_def)
  have e: "buf_extend_nothrow granting 4 two_bytes = (Ret (Some 2), two_bytes)"
    by (simp add: two_bytes_def buf_extend_nothrow_def extend_with_def buf_realloc_def ptr_end_def size_max_def)
  have r: "fd_read 4 [Fd_Data [70, 80, 90]] = (Inr [70, 80, 90], [])" by simp
  from file_read_into_used_buffer [OF wf _ e r, of 0] show ?thesis
    by (auto simp: two_bytes_def size_max_def buf_to_string_def)
qed

text \<open>The reads of a batch into the empty buffer, and the extension for the next batch.\<close>

lemma first_extend:
  assumes "\<forall>k. grants A k" and "0 < batch" and "batch \<le> size_max"
  shows "\<exists>b0. buf_extend_nothrow A batch empty_buffer = (Ret (Some 0), b0) \<and> m_capacity b0 = batch
    \<and> length (the_block (m_data b0)) = batch"
proof -
  obtain b0 where e: "buf_extend_nothrow A batch empty_buffer = (Ret (Some 0), b0)"
    using extend_granted [OF assms(1) empty_buffer_wf assms(2)] assms(3) by (auto simp: empty_buffer_def InfiniteCapacity_def)
  have l: "m_size empty_buffer + batch \<le> size_max" using assms(3) by simp
  have "m_capacity b0 = batch" using extend_capacity [OF empty_buffer_wf l e] by (simp add: empty_buffer_def)
  moreover have "buffer_wf b0"
    using extend_with_spec [OF empty_buffer_wf _ l e [unfolded buf_extend_nothrow_def]] by simp
  ultimately show ?thesis using e buffer_wfD(4) [of b0] by simp
qed

definition after_batch :: "nat \<Rightarrow> u8 list \<Rightarrow> buffer \<Rightarrow> bool" where
  "after_batch batch got b \<longleftrightarrow> buffer_wf b \<and> m_capacity b = batch \<and> m_maximum b = size_max \<and>
     m_size b = length got \<and> contents b = got"

lemma next_extend:
  assumes "\<forall>k. grants A k" and "0 < batch" and "2 * batch \<le> size_max" and "after_batch batch got b"
  shows "\<exists>b1. buf_extend_nothrow A batch b = (Ret (Some (length got)), b1)
    \<and> m_capacity b1 = length got + batch \<and> buffer_wf b \<and> m_size b = length got \<and> m_size b + batch \<le> size_max
    \<and> take (length got) (the_block (m_data b1)) = got"
proof -
  have b: "buffer_wf b" "m_capacity b = batch" "m_maximum b = size_max" "m_size b = length got" "contents b = got"
    using assms(4) by (auto simp: after_batch_def)
  have l: "m_size b + batch \<le> size_max" using buffer_wfD(1) [OF b(1)] b(2) assms(3) by simp
  from extend_granted [OF assms(1) b(1) assms(2)] l b(3) obtain b1
    where e: "buf_extend_nothrow A batch b = (Ret (Some (m_size b)), b1)" by auto
  have "contents b1 = got" "m_size b1 = m_size b"
    using extend_with_spec [OF b(1) _ l e [unfolded buf_extend_nothrow_def]] b(5) by auto
  with extend_capacity [OF b(1) l e] e b l show ?thesis by (auto simp: buf_to_string_def)
qed

lemma first_fd:
  assumes "\<forall>k. grants A k" and "0 < batch" and "batch \<le> size_max" and "fd_read batch es = (Inr got, es1)"
  shows "\<exists>b. file_read_fd_nothrow A errno batch (es, empty_buffer) = (Ret (Success (length got)), (es1, b))
    \<and> after_batch batch got b"
proof -
  from first_extend [OF assms(1-3)] obtain b0 where b0: "buf_extend_nothrow A batch empty_buffer = (Ret (Some 0), b0)"
    "m_capacity b0 = batch" "length (the_block (m_data b0)) = batch" by blast
  have "length got \<le> batch" using assms(4) by (cases "(batch, es)" rule: fd_read.cases) auto
  with file_read_fd_ok [OF empty_buffer_wf _ b0(1) assms(4), of errno] b0 assms(3) show ?thesis
    by (auto simp: after_batch_def empty_buffer_def InfiniteCapacity_def take_blit_start)
qed

lemma first_file:
  assumes "\<forall>k. grants A k" and "0 < batch" and "batch \<le> size_max" and "c_fread batch f = (got, f1)" and "\<not> cf_error f1"
  shows "\<exists>b. file_read_file_nothrow A errno batch (f, empty_buffer) = (Ret (Success (length got)), (f1, b))
    \<and> after_batch batch got b"
proof -
  from first_extend [OF assms(1-3)] obtain b0 where b0: "buf_extend_nothrow A batch empty_buffer = (Ret (Some 0), b0)"
    "m_capacity b0 = batch" "length (the_block (m_data b0)) = batch" by blast
  have "length got \<le> batch" using assms(4) by (auto simp: c_fread_def Let_def)
  with file_read_file_ok [OF empty_buffer_wf _ b0(1) assms(4), of errno] b0 assms(3,5) show ?thesis
    by (auto simp: after_batch_def empty_buffer_def InfiniteCapacity_def take_blit_start)
qed

lemma first_stream:
  assumes "\<forall>k. grants A k" and "0 < batch" and "batch \<le> size_max"
    and "\<not> is_eof s" and "\<not> is_fail s" and "batch \<le> length (is_rest s)"
  shows "\<exists>b. file_read_stream_nothrow A errno batch (s, empty_buffer)
      = (Ret (Success ()), (s\<lparr>is_rest := drop batch (is_rest s), is_gcount := batch\<rparr>, b))
    \<and> after_batch batch (take batch (is_rest s)) b"
proof -
  from first_extend [OF assms(1-3)] obtain b0 where b0: "buf_extend_nothrow A batch empty_buffer = (Ret (Some 0), b0)"
    "m_capacity b0 = batch" "length (the_block (m_data b0)) = batch" by blast
  have "take batch (blit 0 (take batch (is_rest s)) (the_block (m_data b0))) = take batch (is_rest s)"
    using take_blit_start [of "take batch (is_rest s)" "the_block (m_data b0)"] assms(6) b0(3) by simp
  with file_read_stream_ok [OF empty_buffer_wf _ b0(1) assms(4-6), of errno] b0 assms(3,6) show ?thesis
    by (auto simp: after_batch_def empty_buffer_def InfiniteCapacity_def)
qed

lemma fd_loop_step:
  "file_read_fd_nothrow A errno (positive_batch n) (es, b) = (Ret (Success count), (es1, b1)) \<Longrightarrow>
   file_read_fd_loop A errno n (es, b)
     = (if 0 < count then file_read_fd_loop A errno n (es1, b1) else (Ret (Success b1), es1))"
  by (subst file_read_fd_loop.simps) simp

lemma fd_loop_fault:
  "file_read_fd_nothrow A errno (positive_batch n) (es, b) = (Fault x, (es1, b1)) \<Longrightarrow>
   file_read_fd_loop A errno n (es, b) = (Fault x, es1)"
  by (subst file_read_fd_loop.simps) simp

lemma fd_all_fits:
  assumes "\<forall>k. grants A k" and "0 < batch" and "2 * batch \<le> size_max" and "length bs \<le> batch"
  shows "\<exists>b es. file_read_fd_all_nothrow A errno batch [Fd_Data bs] = (Ret (Success b), es) \<and> contents b = bs"
proof -
  note pb = positive_batch_id [OF assms(2)]
  have "fd_read batch [Fd_Data bs] = (Inr bs, [])" using assms(4) by simp
  from first_fd [OF assms(1,2) _ this, of errno] assms(3) obtain b where
    b: "file_read_fd_nothrow A errno batch ([Fd_Data bs], empty_buffer) = (Ret (Success (length bs)), ([], b))"
    "after_batch batch bs b" by auto
  have loop: "file_read_fd_loop A errno batch ([Fd_Data bs], empty_buffer)
      = (if bs \<noteq> [] then file_read_fd_loop A errno batch ([], b) else (Ret (Success b), []))"
    using fd_loop_step [of A errno batch, unfolded pb, OF b(1)] by simp
  show ?thesis
  proof (cases "bs = []")
    case True
    with loop assms(2) b(2) show ?thesis by (simp add: file_read_fd_all_nothrow_def after_batch_def)
  next
    case False
    from next_extend [OF assms(1-3) b(2)] obtain b1 where
      b1: "buf_extend_nothrow A batch b = (Ret (Some (length bs)), b1)" "buffer_wf b" "m_size b = length bs"
      "m_size b + batch \<le> size_max" "take (length bs) (the_block (m_data b1)) = bs" by blast
    have "fd_read batch [] = (Inr [], [])" by simp
    from file_read_fd_ok [OF b1(2,4,1) this, of errno] b1(3,5) obtain b2 where
      "file_read_fd_nothrow A errno batch ([], b) = (Ret (Success 0), ([], b2))" "contents b2 = bs" by auto
    with fd_loop_step [of A errno batch, unfolded pb, OF this(1)] loop False assms(2) show ?thesis
      by (simp add: file_read_fd_all_nothrow_def)
  qed
qed

lemma fd_all_over:
  assumes "\<forall>k. grants A k" and "0 < batch" and "2 * batch \<le> size_max" and "batch < length bs"
  shows "fst (file_read_fd_all_nothrow A errno batch [Fd_Data bs]) = Fault Out_Of_Bounds"
proof -
  note pb = positive_batch_id [OF assms(2)]
  let ?got = "take batch bs" and ?rest = "drop batch bs"
  have l: "length ?got = batch" using assms(4) by simp
  have "fd_read batch [Fd_Data bs] = (Inr ?got, [Fd_Data ?rest])" using assms(4) by simp
  from first_fd [OF assms(1,2) _ this, of errno] assms(3) l obtain b where
    b: "file_read_fd_nothrow A errno batch ([Fd_Data bs], empty_buffer) = (Ret (Success batch), ([Fd_Data ?rest], b))"
    "after_batch batch ?got b" by auto
  from next_extend [OF assms(1-3) b(2)] l obtain b1 where
    b1: "buf_extend_nothrow A batch b = (Ret (Some batch), b1)" "m_capacity b1 = batch + batch" "buffer_wf b"
    "m_size b = batch" "m_size b + batch \<le> size_max" by auto
  obtain got es where r: "fd_read batch [Fd_Data ?rest] = (Inr got, es)" "got \<noteq> []"
    using assms(2,4) by (cases "drop batch bs") auto
  then have "m_capacity b1 < 2 * m_size b + length got" using b1(2,4) by simp
  from file_read_fd_fault [OF b1(3,5,1) r this, of errno]
  show ?thesis
    using fd_loop_step [of A errno batch, unfolded pb, OF b(1)] fd_loop_fault [of A errno batch, unfolded pb] assms(2)
    by (simp add: file_read_fd_all_nothrow_def)
qed

lemma file_loop_step:
  "file_read_file_nothrow A errno (positive_batch n) (f, b) = (Ret (Success count), (f1, b1)) \<Longrightarrow>
   file_read_file_loop A errno n (f, b)
     = (if \<not> cf_eof f1 then file_read_file_loop A errno n (f1, b1) else (Ret (Success b1), f1))"
  by (subst file_read_file_loop.simps) simp

lemma file_loop_fault:
  "file_read_file_nothrow A errno (positive_batch n) (f, b) = (Fault x, (f1, b1)) \<Longrightarrow>
   file_read_file_loop A errno n (f, b) = (Fault x, f1)"
  by (subst file_read_file_loop.simps) simp

abbreviation regular_file :: "u8 list \<Rightarrow> c_file" where
  "regular_file bs \<equiv> \<lparr>cf_rest = bs, cf_broken = False, cf_eof = False, cf_error = False\<rparr>"

lemma file_all_fits:
  assumes "\<forall>k. grants A k" and "0 < batch" and "2 * batch \<le> size_max" and "length bs \<le> batch"
  shows "\<exists>b f. file_read_file_all_nothrow A errno batch (regular_file bs) = (Ret (Success b), f) \<and> contents b = bs"
proof -
  note pb = positive_batch_id [OF assms(2)]
  let ?f = "(regular_file [])\<lparr>cf_eof := length bs < batch\<rparr>"
  have "c_fread batch (regular_file bs) = (bs, ?f)" using assms(4) by (simp add: c_fread_def)
  from first_file [OF assms(1,2) _ this, of errno] assms(3) obtain b where
    b: "file_read_file_nothrow A errno batch (regular_file bs, empty_buffer) = (Ret (Success (length bs)), (?f, b))"
    "after_batch batch bs b" by auto
  have loop: "file_read_file_loop A errno batch (regular_file bs, empty_buffer)
      = (if \<not> length bs < batch then file_read_file_loop A errno batch (?f, b) else (Ret (Success b), ?f))"
    using file_loop_step [of A errno batch, unfolded pb, OF b(1)] by simp
  show ?thesis
  proof (cases "length bs < batch")
    case True
    with loop assms(2) b(2) show ?thesis by (simp add: file_read_file_all_nothrow_def after_batch_def)
  next
    case False
    from next_extend [OF assms(1-3) b(2)] obtain b1 where
      b1: "buf_extend_nothrow A batch b = (Ret (Some (length bs)), b1)" "buffer_wf b" "m_size b = length bs"
      "m_size b + batch \<le> size_max" "take (length bs) (the_block (m_data b1)) = bs" by blast
    have "c_fread batch ?f = ([], ?f\<lparr>cf_eof := True\<rparr>)" using assms(2) by (simp add: c_fread_def)
    from file_read_file_ok [OF b1(2,4,1) this, of errno] b1(3,5) obtain b2 where
      "file_read_file_nothrow A errno batch (?f, b) = (Ret (Success 0), (?f\<lparr>cf_eof := True\<rparr>, b2))" "contents b2 = bs"
      by auto
    with file_loop_step [of A errno batch, unfolded pb, OF this(1)] loop False assms(2) show ?thesis
      by (simp add: file_read_file_all_nothrow_def)
  qed
qed

lemma file_all_over:
  assumes "\<forall>k. grants A k" and "0 < batch" and "2 * batch \<le> size_max" and "batch < length bs"
  shows "fst (file_read_file_all_nothrow A errno batch (regular_file bs)) = Fault Out_Of_Bounds"
proof -
  note pb = positive_batch_id [OF assms(2)]
  let ?got = "take batch bs" and ?f = "regular_file (drop batch bs)"
  have l: "length ?got = batch" using assms(4) by simp
  have "c_fread batch (regular_file bs) = (?got, ?f)" using assms(4) by (simp add: c_fread_def)
  from first_file [OF assms(1,2) _ this, of errno] assms(3) l obtain b where
    b: "file_read_file_nothrow A errno batch (regular_file bs, empty_buffer) = (Ret (Success batch), (?f, b))"
    "after_batch batch ?got b" by auto
  from next_extend [OF assms(1-3) b(2)] l obtain b1 where
    b1: "buf_extend_nothrow A batch b = (Ret (Some batch), b1)" "m_capacity b1 = batch + batch" "buffer_wf b"
    "m_size b = batch" "m_size b + batch \<le> size_max" by auto
  obtain got f1 where r: "c_fread batch ?f = (got, f1)" "got \<noteq> []"
    using assms(2,4) by (cases "drop batch bs") (auto simp: c_fread_def Let_def)
  then have "m_capacity b1 < 2 * m_size b + length got" using b1(2,4) by simp
  from file_read_file_fault [OF b1(3,5,1) r this, of errno]
  show ?thesis
    using file_loop_step [of A errno batch, unfolded pb, OF b(1)] file_loop_fault [of A errno batch, unfolded pb] assms(2)
    by (simp add: file_read_file_all_nothrow_def)
qed

lemma stream_loop_step:
  "file_read_stream_nothrow A errno (positive_batch n) (s, b) = (Ret (Success ()), (s1, b1)) \<Longrightarrow>
   file_read_stream_loop A errno n (s, b)
     = (if \<not> is_fail s1 \<and> \<not> is_eof s1 then file_read_stream_loop A errno n (s1, b1) else (Ret (Success b1), s1))"
  by (subst file_read_stream_loop.simps) simp

lemma stream_loop_end:
  "file_read_stream_nothrow A errno (positive_batch n) (s, b) = (Ret (Failure e), (s1, b1)) \<Longrightarrow>
   file_read_stream_loop A errno n (s, b) = (Ret (Failure e), s1)"
  "file_read_stream_nothrow A errno (positive_batch n) (s, b) = (Fault x, (s1, b1)) \<Longrightarrow>
   file_read_stream_loop A errno n (s, b) = (Fault x, s1)"
  by (subst file_read_stream_loop.simps; simp)+

abbreviation fresh_stream :: "u8 list \<Rightarrow> nat \<Rightarrow> istream" where
  "fresh_stream bs g \<equiv> \<lparr>is_rest = bs, is_eof = False, is_fail = False, is_gcount = g\<rparr>"

lemma stream_all_fits:
  assumes "\<forall>k. grants A k" and "0 < batch" and "2 * batch \<le> size_max" and "length bs \<le> batch"
  shows "fst (file_read_stream_all_nothrow A errno batch (fresh_stream bs g)) = Ret (system_failure errno)"
proof (cases "length bs < batch")
  case True
  note pb = positive_batch_id [OF assms(2)]
  from first_extend [OF assms(1,2)] assms(3) obtain b0
    where b0: "buf_extend_nothrow A batch empty_buffer = (Ret (Some 0), b0)" "m_capacity b0 = batch" by auto
  from file_read_stream_short [OF empty_buffer_wf _ b0(1), of "fresh_stream bs g" errno] b0(2) True assms(3)
  obtain s1 b2 where "file_read_stream_nothrow A errno batch (fresh_stream bs g, empty_buffer)
      = (Ret (system_failure errno), (s1, b2))" by auto
  then show ?thesis
    using stream_loop_end(1) [of A errno batch, unfolded pb] assms(2)
    by (simp add: file_read_stream_all_nothrow_def system_failure_def)
next
  case False
  note pb = positive_batch_id [OF assms(2)]
  from False assms(4) have l: "length bs = batch" by simp
  from first_stream [OF assms(1,2), of "fresh_stream bs g" errno] l assms(3) obtain b where
    b: "file_read_stream_nothrow A errno batch (fresh_stream bs g, empty_buffer)
      = (Ret (Success ()), (fresh_stream [] batch, b))" "after_batch batch bs b" by auto
  from next_extend [OF assms(1-3) b(2)] obtain b1 where
    b1: "buf_extend_nothrow A batch b = (Ret (Some (length bs)), b1)" "buffer_wf b" "m_size b + batch \<le> size_max" by blast
  from file_read_stream_short [OF b1(2,3,1), of "fresh_stream [] batch" errno] assms(2)
  obtain s1 b2 where "file_read_stream_nothrow A errno batch (fresh_stream [] batch, b)
      = (Ret (system_failure errno), (s1, b2))" by auto
  then show ?thesis
    using stream_loop_step [of A errno batch, unfolded pb, OF b(1)] stream_loop_end(1) [of A errno batch, unfolded pb] assms(2)
    by (simp add: file_read_stream_all_nothrow_def system_failure_def)
qed

lemma stream_all_over:
  assumes "\<forall>k. grants A k" and "0 < batch" and "2 * batch \<le> size_max" and "batch < length bs"
  shows "fst (file_read_stream_all_nothrow A errno batch (fresh_stream bs g)) = Fault Out_Of_Bounds"
proof -
  note pb = positive_batch_id [OF assms(2)]
  let ?s = "fresh_stream (drop batch bs) batch"
  from first_stream [OF assms(1,2), of "fresh_stream bs g" errno] assms(3,4) obtain b where
    b: "file_read_stream_nothrow A errno batch (fresh_stream bs g, empty_buffer) = (Ret (Success ()), (?s, b))"
    "after_batch batch (take batch bs) b" by auto
  from next_extend [OF assms(1-3) b(2)] assms(4) obtain b1 where
    b1: "buf_extend_nothrow A batch b = (Ret (Some batch), b1)" "m_capacity b1 = batch + batch" "buffer_wf b"
    "m_size b = batch" "m_size b + batch \<le> size_max" by auto
  obtain got s1 where r: "stream_read batch ?s = (got, s1)" "got \<noteq> []"
    using assms(2,4) by (cases "drop batch bs") (auto simp: stream_read_def Let_def)
  then have "m_capacity b1 < 2 * m_size b + length got" using b1(2,4) by simp
  from file_read_stream_fault [OF b1(3,5,1) r this, of errno]
  show ?thesis
    using stream_loop_step [of A errno batch, unfolded pb, OF b(1)] stream_loop_end(2) [of A errno batch, unfolded pb] assms(2)
    by (simp add: file_read_stream_all_nothrow_def)
qed

text \<open>
  Reading all there is in batches.  A regular descriptor or file that fits one batch is read exactly;
  a longer one makes the second read store outside the buffer.  A stream is never read: one that fits a
  batch fails at the read that finds its end, a longer one stores outside the buffer.
\<close>

theorem file_read_all_outcomes:
  assumes "\<forall>k. grants A k" and "0 < batch" and "2 * batch \<le> size_max"
  shows "(length bs \<le> batch \<longrightarrow>
      (\<exists>b es. file_read_fd_all_nothrow A errno batch [Fd_Data bs] = (Ret (Success b), es) \<and> contents b = bs)
      \<and> (\<exists>b f. file_read_file_all_nothrow A errno batch (regular_file bs) = (Ret (Success b), f) \<and> contents b = bs)
      \<and> fst (file_read_stream_all_nothrow A errno batch (fresh_stream bs g)) = Ret (system_failure errno))
   \<and> (batch < length bs \<longrightarrow>
      fst (file_read_fd_all_nothrow A errno batch [Fd_Data bs]) = Fault Out_Of_Bounds
      \<and> fst (file_read_file_all_nothrow A errno batch (regular_file bs)) = Fault Out_Of_Bounds
      \<and> fst (file_read_stream_all_nothrow A errno batch (fresh_stream bs g)) = Fault Out_Of_Bounds)"
  using fd_all_fits [OF assms] file_all_fits [OF assms] stream_all_fits [OF assms]
    fd_all_over [OF assms] file_all_over [OF assms] stream_all_over [OF assms] by blast

theorem file_read_all_outcomes_witness:
  "(\<exists>b es. file_read_fd_all_nothrow granting 0 4 [Fd_Data [1, 2, 3]] = (Ret (Success b), es) \<and> contents b = [1, 2, 3])
   \<and> fst (file_read_file_all_nothrow granting 0 2 (regular_file [1, 2, 3])) = Fault Out_Of_Bounds"
proof -
  have g: "\<forall>k. grants granting k" by (simp add: granting_def)
  from file_read_all_outcomes [OF g, of 4 "[1, 2, 3]" 0] file_read_all_outcomes [OF g, of 2 "[1, 2, 3]" 0]
  show ?thesis by (simp add: size_max_def)
qed

end
