(* ===== verification/File_Write.thy ===== *)
theory File_Write
  imports File_Read
begin

text \<open>
  \<open>src/hlib_file.cpp\<close>, the functions \<open>write\<close>: to a \<open>std::ostream\<close>, a C \<open>FILE\<close>, a descriptor and a
  path.

  A stream and a \<open>FILE\<close> are the bytes they took with what room the device has left, \<open>None\<close> for any
  amount; a stream that is not seekable has no position to tell.  A descriptor is the list of what the
  system calls on it will do, take up to a number of bytes or fail, with all that it took.
\<close>

section \<open>Streams, files and descriptors\<close>

record ostream =
  os_bytes :: "u8 list"
  os_room :: "nat option"
  os_seekable :: bool
  os_fail :: bool

definition fits :: "nat option \<Rightarrow> nat \<Rightarrow> bool" where
  "fits room n = (case room of None \<Rightarrow> True | Some k \<Rightarrow> n \<le> k)"

definition room_for :: "nat option \<Rightarrow> 'a list \<Rightarrow> 'a list" where
  "room_for room bs = (case room of None \<Rightarrow> bs | Some k \<Rightarrow> take k bs)"

definition stream_write :: "u8 list \<Rightarrow> ostream \<Rightarrow> ostream" where
  "stream_write bs s =
     (if os_fail s then s
      else s\<lparr>os_bytes := os_bytes s @ room_for (os_room s) bs, os_room := map_option (\<lambda>k. k - length bs) (os_room s),
             os_fail := \<not> fits (os_room s) (length bs)\<rparr>)"

text \<open>The position is -1 when there is none.\<close>

definition stream_tell :: "ostream \<Rightarrow> int" where
  "stream_tell s = (if os_fail s \<or> \<not> os_seekable s then - 1 else int (length (os_bytes s)))"

record out_file =
  of_bytes :: "u8 list"
  of_room :: "nat option"
  of_error :: bool

definition c_fwrite :: "u8 list \<Rightarrow> out_file \<Rightarrow> nat \<times> out_file" where
  "c_fwrite bs f =
     (let put = room_for (of_room f) bs
      in (length put, f\<lparr>of_bytes := of_bytes f @ put, of_room := map_option (\<lambda>k. k - length bs) (of_room f),
                        of_error := of_error f \<or> length put < length bs\<rparr>))"

datatype out_event = Fd_Accept nat | Fd_Refuse int

fun fd_write :: "u8 list \<Rightarrow> out_event list \<times> u8 list \<Rightarrow> (int + nat) \<times> out_event list \<times> u8 list" where
  "fd_write bs ([], out) = (Inr (length bs), ([], out @ bs))"
| "fd_write bs (Fd_Accept n # es, out) = (Inr (min n (length bs)), (es, out @ take n bs))"
| "fd_write bs (Fd_Refuse e # es, out) = (Inl e, (es, out))"

text \<open>The bytes readable at a pointer, and at an offset into a buffer; none are read for the size 0.\<close>

definition load_at :: "nat \<Rightarrow> nat \<Rightarrow> u8 list \<Rightarrow> u8 list res" where
  "load_at off n mem =
     (if n = 0 then Ret [] else case mem_read off n mem of None \<Rightarrow> Fault Out_Of_Bounds | Some bs \<Rightarrow> Ret bs)"

section \<open>Writing memory\<close>

text \<open>The result of the first overload is a value-initialised count.\<close>

definition file_write_stream_data_nothrow :: "int \<Rightarrow> u8 list \<Rightarrow> nat \<Rightarrow> ostream \<Rightarrow> nat result res \<times> ostream" where
  "file_write_stream_data_nothrow errno mem n s =
     and_then (load_at 0 n mem, s) (\<lambda>bs s.
       let s1 = stream_write bs s in (Ret (if os_fail s1 then system_failure errno else Success 0), s1))"

text \<open>The throwing overload returns the stream and stores the count in its argument.\<close>

definition file_write_stream_data :: "int \<Rightarrow> u8 list \<Rightarrow> nat \<Rightarrow> ostream \<Rightarrow> nat res \<times> ostream" where
  "file_write_stream_data errno mem n s = and_then (file_write_stream_data_nothrow errno mem n s) success_or_throw"

definition file_write_file_data_nothrow :: "int \<Rightarrow> u8 list \<Rightarrow> nat \<Rightarrow> out_file \<Rightarrow> nat result res \<times> out_file" where
  "file_write_file_data_nothrow errno mem n f =
     and_then (load_at 0 n mem, f) (\<lambda>bs f.
       let (count, f1) = c_fwrite bs f
       in (Ret (if of_error f1 then system_failure errno else Success count), f1))"

definition file_write_file_data :: "int \<Rightarrow> u8 list \<Rightarrow> nat \<Rightarrow> out_file \<Rightarrow> nat res \<times> out_file" where
  "file_write_file_data errno mem n f = and_then (file_write_file_data_nothrow errno mem n f) success_or_throw"

text \<open>
  In the overload for a descriptor the name \<open>write\<close> finds the functions of the namespace before the system
  call: the throwing overload, which calls back.  The count that it gives is compared with -1, and an
  exception would meet \<open>noexcept\<close>; but no call of the two returns.
\<close>

definition fd_write_checked :: "int \<Rightarrow> nat res \<Rightarrow> nat result res" where
  "fd_write_checked errno r =
     (case r of
        Ret count \<Rightarrow> Ret (if (of_nat count :: 64 word) = - 1 then system_failure errno else Success count)
      | Throw x \<Rightarrow> Fault Terminated
      | Fault x \<Rightarrow> Fault x)"

partial_function (option) file_write_fd_data_nothrow :: "int \<Rightarrow> u8 list \<Rightarrow> nat \<Rightarrow> nat result res option" where
  "file_write_fd_data_nothrow errno mem n =
     Option.bind (Option.bind (file_write_fd_data_nothrow errno mem n)
       (\<lambda>r. Some (fst (and_then (r, ()) success_or_throw))))
     (\<lambda>r. Some (fd_write_checked errno r))"

definition file_write_fd_data :: "int \<Rightarrow> u8 list \<Rightarrow> nat \<Rightarrow> nat res option" where
  "file_write_fd_data errno mem n =
     Option.bind (file_write_fd_data_nothrow errno mem n) (\<lambda>r. Some (fst (and_then (r, ()) success_or_throw)))"

section \<open>Writing a buffer\<close>

text \<open>What is left of the buffer from the offset, by subtraction of sizes.\<close>

definition size_sub :: "nat \<Rightarrow> nat \<Rightarrow> nat" where
  "size_sub a b = (a + (size_limit - b mod size_limit)) mod size_limit"

definition buffer_load :: "buffer \<Rightarrow> nat \<Rightarrow> nat \<Rightarrow> u8 list res" where
  "buffer_load b offset n = load_at offset n (the_block (m_data b))"

definition file_write_stream_nothrow ::
  "int \<Rightarrow> buffer \<Rightarrow> nat \<Rightarrow> ostream \<times> nat \<Rightarrow> unit result res \<times> ostream \<times> nat" where
  "file_write_stream_nothrow errno b n = (\<lambda>(s, offset).
     let n = min n (size_sub (m_size b) offset); pos = stream_tell s in
     and_then (buffer_load b offset n, (s, offset)) (\<lambda>bs (s, offset).
       let s1 = stream_write bs s in
       if os_fail s1 then (Ret (system_failure errno), (s1, offset))
       else (Ret (Success ()), (s1, size_add offset (nat ((stream_tell s1 - pos) mod 2 ^ 64))))))"

definition file_write_stream ::
  "int \<Rightarrow> buffer \<Rightarrow> nat \<Rightarrow> ostream \<times> nat \<Rightarrow> unit res \<times> ostream \<times> nat" where
  "file_write_stream errno b n t = and_then (file_write_stream_nothrow errno b n t) success_or_throw"

definition file_write_stream_all_nothrow :: "int \<Rightarrow> buffer \<Rightarrow> ostream \<Rightarrow> unit result res \<times> ostream" where
  "file_write_stream_all_nothrow errno b s =
     (let (r, (s1, offset)) = file_write_stream_nothrow errno b (m_size b) (s, 0) in (r, s1))"

definition file_write_stream_all :: "int \<Rightarrow> buffer \<Rightarrow> ostream \<Rightarrow> unit res \<times> ostream" where
  "file_write_stream_all errno b s =
     (let (r, (s1, offset)) = file_write_stream errno b (m_size b) (s, 0) in (r, s1))"

definition file_write_file_nothrow ::
  "int \<Rightarrow> buffer \<Rightarrow> nat \<Rightarrow> out_file \<times> nat \<Rightarrow> nat result res \<times> out_file \<times> nat" where
  "file_write_file_nothrow errno b n = (\<lambda>(f, offset).
     let n = min n (size_sub (m_size b) offset) in
     and_then (buffer_load b offset n, (f, offset)) (\<lambda>bs (f, offset).
       let (count, f1) = c_fwrite bs f; offset = size_add offset count in
       (Ret (if of_error f1 then system_failure errno else Success count), (f1, offset))))"

definition file_write_file ::
  "int \<Rightarrow> buffer \<Rightarrow> nat \<Rightarrow> out_file \<times> nat \<Rightarrow> nat res \<times> out_file \<times> nat" where
  "file_write_file errno b n t = and_then (file_write_file_nothrow errno b n t) success_or_throw"

definition file_write_file_all_nothrow :: "int \<Rightarrow> buffer \<Rightarrow> out_file \<Rightarrow> nat result res \<times> out_file" where
  "file_write_file_all_nothrow errno b f =
     (let (r, (f1, offset)) = file_write_file_nothrow errno b (m_size b) (f, 0) in (r, f1))"

definition file_write_file_all :: "int \<Rightarrow> buffer \<Rightarrow> out_file \<Rightarrow> nat res \<times> out_file" where
  "file_write_file_all errno b f =
     (let (r, (f1, offset)) = file_write_file errno b (m_size b) (f, 0) in (r, f1))"

text \<open>
  The overloads for a descriptor are defined outside the namespace \<open>file\<close>, where \<open>write\<close> with a pointer is
  the system call; the ones the header declares in the namespace have no definition.
\<close>

type_synonym out_fd = "out_event list \<times> u8 list"

definition write_fd_nothrow :: "buffer \<Rightarrow> nat \<Rightarrow> out_fd \<times> nat \<Rightarrow> nat result res \<times> out_fd \<times> nat" where
  "write_fd_nothrow b n = (\<lambda>(d, offset).
     let n = min n (size_sub (m_size b) offset) in
     and_then (buffer_load b offset n, (d, offset)) (\<lambda>bs (d, offset).
       case fd_write bs d of
         (Inl e, d1) \<Rightarrow> (Ret (system_failure e), (d1, offset))
       | (Inr count, d1) \<Rightarrow> (Ret (Success count), (d1, size_add offset count))))"

definition write_fd :: "buffer \<Rightarrow> nat \<Rightarrow> out_fd \<times> nat \<Rightarrow> nat res \<times> out_fd \<times> nat" where
  "write_fd b n t = and_then (write_fd_nothrow b n t) success_or_throw"

text \<open>The overload that promises not to throw calls the one that throws.\<close>

definition write_fd_all_nothrow :: "buffer \<Rightarrow> out_fd \<Rightarrow> nat result res \<times> out_fd" where
  "write_fd_all_nothrow b d =
     noexcept (let (r, (d1, offset)) = write_fd b (m_size b) (d, 0) in (map_res Success r, d1))"

definition write_fd_all :: "buffer \<Rightarrow> out_fd \<Rightarrow> nat res \<times> out_fd" where
  "write_fd_all b d = (let (r, (d1, offset)) = write_fd b (m_size b) (d, 0) in (r, d1))"

text \<open>
  A file system is a map from paths to contents; \<open>openable\<close> says which paths may be opened for writing,
  and \<open>room\<close> how much the device takes.  Opening truncates the file, and closing leaves what was written.
\<close>

type_synonym file_system = "string \<rightharpoonup> u8 list"

definition file_write_path_nothrow ::
  "(string \<Rightarrow> bool) \<Rightarrow> nat option \<Rightarrow> int \<Rightarrow> string \<Rightarrow> buffer \<Rightarrow> file_system \<Rightarrow> unit result res \<times> file_system" where
  "file_write_path_nothrow openable room errno filepath b fs =
     (if \<not> openable filepath then (Ret (system_failure errno), fs)
      else let (r, s) = file_write_stream_all_nothrow errno b
                 \<lparr>os_bytes = [], os_room = room, os_seekable = True, os_fail = False\<rparr>
           in (r, fs(filepath \<mapsto> os_bytes s)))"

definition file_write_path ::
  "(string \<Rightarrow> bool) \<Rightarrow> nat option \<Rightarrow> int \<Rightarrow> string \<Rightarrow> buffer \<Rightarrow> file_system \<Rightarrow> unit res \<times> file_system" where
  "file_write_path openable room errno filepath b fs =
     and_then (file_write_path_nothrow openable room errno filepath b fs) success_or_throw"

text \<open>The environment of the reader of a path: the size and the stream of the file.\<close>

definition fs_size :: "file_system \<Rightarrow> string \<Rightarrow> int + nat" where
  "fs_size fs p = (case fs p of None \<Rightarrow> Inl 2 | Some bs \<Rightarrow> Inr (length bs))"

definition fs_open :: "file_system \<Rightarrow> string \<Rightarrow> istream" where
  "fs_open fs p =
     (case fs p of
        None \<Rightarrow> \<lparr>is_rest = [], is_eof = False, is_fail = True, is_gcount = 0\<rparr>
      | Some bs \<Rightarrow> \<lparr>is_rest = bs, is_eof = False, is_fail = False, is_gcount = 0\<rparr>)"

section \<open>Facts\<close>

lemma size_sub_exact: "b \<le> a \<Longrightarrow> a \<le> size_max \<Longrightarrow> size_sub a b = a - b"
proof -
  assume "b \<le> a" "a \<le> size_max"
  then have "b mod size_limit = b" "a < size_limit" by (auto simp: le_size_max_iff)
  moreover from this have "a + (size_limit - b) = (a - b) + size_limit" using \<open>b \<le> a\<close> by simp
  ultimately show ?thesis by (simp only: size_sub_def mod_add_self2) simp
qed

text \<open>An offset past the contents leaves a huge number of bytes.\<close>

lemma size_sub_wraps: "a < b \<Longrightarrow> b \<le> size_max \<Longrightarrow> size_sub a b = size_limit - (b - a)"
  by (auto simp: size_sub_def le_size_max_iff)

lemma buffer_load_contents:
  assumes "buffer_wf b" and "offset + n \<le> m_size b"
  shows "buffer_load b offset n = Ret (take n (drop offset (contents b)))"
proof -
  have "take n (drop offset (contents b)) = take n (drop offset (the_block (m_data b)))"
    using assms(2) by (simp add: buf_to_string_def drop_take min_def)
  with assms buffer_wfD(1,4) [OF assms(1)] show ?thesis
    by (auto simp: buffer_load_def load_at_def mem_read_def)
qed

lemma stream_write_fits:
  "\<not> os_fail s \<Longrightarrow> fits (os_room s) (length bs) \<Longrightarrow>
     \<not> os_fail (stream_write bs s) \<and> os_bytes (stream_write bs s) = os_bytes s @ bs
     \<and> os_seekable (stream_write bs s) = os_seekable s"
  by (auto simp: stream_write_def fits_def room_for_def split: option.splits)

lemma stream_tell_write:
  assumes "\<not> os_fail s" and "fits (os_room s) (length bs)"
  shows "stream_tell (stream_write bs s) - stream_tell s = (if os_seekable s then int (length bs) else 0)"
  using assms stream_write_fits [OF assms] by (simp add: stream_tell_def)

lemma file_write_fd_data_nothrow_stuck: "file_write_fd_data_nothrow errno mem n = None"
proof -
  have False if "file_write_fd_data_nothrow errno mem n = Some y" for y
    by (rule file_write_fd_data_nothrow.raw_induct [of "\<lambda>_ _ _ _. False", OF _ that])
      (auto simp: bind_eq_Some_conv)
  then show ?thesis by (cases "file_write_fd_data_nothrow errno mem n") auto
qed

lemma file_write_stream_ok:
  assumes "buffer_wf b" and "offset \<le> m_size b" and k: "k = min n (m_size b - offset)"
    and f: "\<not> os_fail s" "fits (os_room s) k"
  shows "\<exists>s1. file_write_stream_nothrow errno b n (s, offset)
          = (Ret (Success ()), (s1, if os_seekable s then offset + k else offset))
        \<and> os_bytes s1 = os_bytes s @ take k (drop offset (contents b))"
proof -
  note wf = buffer_wfD [OF assms(1)]
  have sub: "size_sub (m_size b) offset = m_size b - offset" by (rule size_sub_exact [OF assms(2) wf(6)])
  let ?bs = "take k (drop offset (contents b))"
  have ok: "offset + k \<le> m_size b" using assms(2) k by auto
  have ld: "buffer_load b offset k = Ret ?bs" by (rule buffer_load_contents [OF assms(1) ok])
  have len: "length ?bs = k" using ok length_contents [OF assms(1)] by simp
  note w = stream_write_fits [OF f(1), of ?bs, unfolded len, OF f(2)]
  note tl = stream_tell_write [OF f(1), of ?bs, unfolded len, OF f(2)]
  have "k \<le> size_max" "offset + k \<le> size_max" using ok wf(6) by simp_all
  moreover from this have "nat (int k mod 2 ^ 64) = k" by (simp add: size_max_def)
  moreover have "size_add offset 0 = offset" using assms(2) wf(6) by simp
  ultimately show ?thesis using w tl
    by (auto simp: file_write_stream_nothrow_def Let_def sub k [symmetric] ld)
qed

section \<open>Properties\<close>

text \<open>
  Writing a buffer from an offset within it writes the bytes there, at most as many as asked for, and
  moves the offset behind them: to a stream that has a position and room, to a file, and to a descriptor as
  far as the system call went.
\<close>

theorem file_write_writes_contents:
  assumes "buffer_wf b" and "offset \<le> m_size b" and "k = min n (m_size b - offset)"
  shows "(\<not> os_fail s \<and> fits (os_room s) k \<longrightarrow>
      (\<exists>s1. file_write_stream_nothrow errno b n (s, offset)
          = (Ret (Success ()), (s1, if os_seekable s then offset + k else offset))
        \<and> os_bytes s1 = os_bytes s @ take k (drop offset (contents b))))
   \<and> (\<not> of_error f \<and> fits (of_room f) k \<longrightarrow>
      (\<exists>f1. file_write_file_nothrow errno b n (f, offset) = (Ret (Success k), (f1, offset + k))
        \<and> of_bytes f1 = of_bytes f @ take k (drop offset (contents b))))
   \<and> (\<forall>j d1. fd_write (take k (drop offset (contents b))) d = (Inr j, d1) \<longrightarrow>
        write_fd_nothrow b n (d, offset) = (Ret (Success j), (d1, offset + j))
        \<and> snd d1 = snd d @ take j (drop offset (contents b)))"
proof -
  note wf = buffer_wfD [OF assms(1)]
  have sub: "size_sub (m_size b) offset = m_size b - offset" by (rule size_sub_exact [OF assms(2) wf(6)])
  let ?bs = "take k (drop offset (contents b))"
  have ld: "buffer_load b offset k = Ret ?bs" using assms(2,3) by (intro buffer_load_contents [OF assms(1)]) simp
  have len: "length ?bs = k" using assms length_contents [OF assms(1)] by simp
  have off: "size_add offset j = offset + j" if "j \<le> k" for j
  proof -
    have "offset + j \<le> m_size b" using that assms(2,3) by auto
    with wf(6) show ?thesis by simp
  qed
  have 2: "\<exists>f1. file_write_file_nothrow errno b n (f, offset) = (Ret (Success k), (f1, offset + k))
        \<and> of_bytes f1 = of_bytes f @ ?bs" if f: "\<not> of_error f" "fits (of_room f) k"
  proof -
    have "room_for (of_room f) ?bs = ?bs" using f(2) len by (auto simp: room_for_def fits_def split: option.splits)
    with f(1) len show ?thesis
      by (simp add: file_write_file_nothrow_def Let_def sub assms(3) [symmetric] ld off c_fwrite_def del: length_take length_drop)
  qed
  have 3: "write_fd_nothrow b n (d, offset) = (Ret (Success j), (d1, offset + j)) \<and> snd d1 = snd d @ take j (drop offset (contents b))"
    if w: "fd_write ?bs d = (Inr j, d1)" for j d1
  proof -
    have j: "j \<le> k" and o: "snd d1 = snd d @ take j ?bs"
      using w len by (cases "(?bs, d)" rule: fd_write.cases; force)+
    with w show ?thesis
      by (simp add: write_fd_nothrow_def Let_def sub assms(3) [symmetric] ld off min_absorb1)
  qed
  show ?thesis by (intro conjI allI impI) (use file_write_stream_ok [OF assms] 2 3 in blast)+
qed

definition four_bytes :: buffer where
  "four_bytes = \<lparr>m_data = Some [1, 2, 3, 4, 5, 6], m_maximum = 100, m_capacity = 6, m_size = 4\<rparr>"

lemma four_bytes_facts: "buffer_wf four_bytes" "m_size four_bytes = 4" "contents four_bytes = [1, 2, 3, 4]"
  by (simp_all add: four_bytes_def buffer_wf_def size_max_def buf_to_string_def)

theorem file_write_writes_contents_witness:
  "write_fd_nothrow four_bytes 10 (([Fd_Accept 2], []), 1) = (Ret (Success 2), (([], [2, 3]), 3))"
  using file_write_writes_contents [of four_bytes 1 3 10, where d = "([Fd_Accept 2], [])"]
  by (simp add: four_bytes_facts numeral_eq_Suc)

text \<open>
  C19.  The functions for paths are inverse: what was written to a path that can be opened is what reading
  the path gives, whatever it held before, and no other file changes.
\<close>

theorem file_write_then_read:
  assumes "buffer_wf b" and "openable p" and "\<forall>k. grants A k"
  shows "\<exists>fs1 b1. file_write_path_nothrow openable None errno p b fs = (Ret (Success ()), fs1)
    \<and> (\<forall>q. q \<noteq> p \<longrightarrow> fs1 q = fs q)
    \<and> file_read_path_nothrow (fs_size fs1) (fs_open fs1) A errno p = Ret (Success b1)
    \<and> contents b1 = contents b"
proof -
  let ?s = "\<lparr>os_bytes = [], os_room = None, os_seekable = True, os_fail = False\<rparr>"
  note wf = buffer_wfD [OF assms(1)]
  obtain s1 off where w: "file_write_stream_nothrow errno b (m_size b) (?s, 0) = (Ret (Success ()), (s1, off))"
    and s1: "os_bytes s1 = contents b"
    using file_write_stream_ok [OF assms(1) le0 refl, where n = "m_size b" and s = ?s and errno = errno] wf(1)
      length_contents [OF assms(1)] by (auto simp: fits_def)
  let ?fs = "fs(p \<mapsto> contents b)"
  have wr: "file_write_path_nothrow openable None errno p b fs = (Ret (Success ()), ?fs)"
    using w s1 assms(2) by (simp add: file_write_path_nothrow_def file_write_stream_all_nothrow_def)
  have "\<exists>b1. file_read_path_nothrow (fs_size ?fs) (fs_open ?fs) A errno p = Ret (Success b1) \<and> contents b1 = contents b"
  proof (cases "contents b = []")
    case True
    then show ?thesis by (simp add: file_read_path_nothrow_def fs_size_def)
  next
    case False
    let ?n = "length (contents b)"
    have n: "0 < ?n" "?n \<le> size_max" using False length_contents [OF assms(1)] wf(6) by (metis length_greater_0_conv, metis)
    from first_stream [OF assms(3) n, of "fresh_stream (contents b) 0" errno] obtain b1 where
      "file_read_stream_nothrow A errno ?n (fresh_stream (contents b) 0, empty_buffer)
        = (Ret (Success ()), (fresh_stream [] ?n, b1))" "after_batch ?n (contents b) b1" by auto
    then show ?thesis using n(1)
      by (simp add: file_read_path_nothrow_def fs_size_def fs_open_def after_batch_def)
  qed
  then obtain b1 where "file_read_path_nothrow (fs_size ?fs) (fs_open ?fs) A errno p = Ret (Success b1)"
    "contents b1 = contents b" by blast
  with wr show ?thesis by (intro exI [of _ ?fs] exI [of _ b1]) simp
qed

theorem file_write_then_read_witness:
  "\<exists>fs1 b1. file_write_path_nothrow (\<lambda>_. True) None 0 ''/tmp/x'' four_bytes [''/tmp/x'' \<mapsto> [9]] = (Ret (Success ()), fs1)
    \<and> file_read_path_nothrow (fs_size fs1) (fs_open fs1) granting 0 ''/tmp/x'' = Ret (Success b1)
    \<and> contents b1 = [1, 2, 3, 4]"
proof -
  have g: "\<forall>k. grants granting k" by (simp add: granting_def)
  from file_write_then_read [OF four_bytes_facts(1) _ g, of "\<lambda>_. True" "''/tmp/x''" 0 "[''/tmp/x'' \<mapsto> [9]]"]
  show ?thesis by (auto simp: four_bytes_facts)
qed

text \<open>C20.  Writing memory to a descriptor never returns: the two overloads call each other for ever.\<close>

theorem file_write_fd_never_returns:
  "file_write_fd_data_nothrow errno mem n = None \<and> file_write_fd_data errno mem n = None"
  by (simp add: file_write_fd_data_def file_write_fd_data_nothrow_stuck)

text \<open>
  An offset behind the contents is not noticed: a positive size is kept, and bytes of the block that were
  never part of the contents are written, or bytes outside it are read.
\<close>

lemma write_fd_past_contents:
  assumes "buffer_wf b" and "m_size b < offset" and "offset \<le> m_capacity b" and "n + offset \<le> size_max"
  shows "write_fd_nothrow b n (([], out), offset)
    = (if offset + n \<le> m_capacity b
       then (Ret (Success n), (([], out @ take n (drop offset (the_block (m_data b)))), offset + n))
       else (Fault Out_Of_Bounds, (([], out), offset)))"
proof -
  note wf = buffer_wfD [OF assms(1)]
  have "size_sub (m_size b) offset = size_limit - (offset - m_size b)"
    using size_sub_wraps [OF assms(2)] assms(4) by simp
  moreover have "n \<le> size_limit - (offset - m_size b)" using assms(4) size_max_less_limit by linarith
  ultimately have "min n (size_sub (m_size b) offset) = n" by simp
  with wf assms show ?thesis
    by (auto simp: write_fd_nothrow_def buffer_load_def load_at_def mem_read_def add.commute)
qed

end
