(* ===== verification/File_System.thy ===== *)
theory File_System
  imports Result Strings Memory
begin

text \<open>
  \<open>src/hlib_file.cpp\<close>, the rest: what may be done with a path, the type of a file by its name or its first
  bytes, non-blocking descriptors, and the classes \<open>File\<close> and \<open>Pipe\<close>, which own a \<open>FILE\<close> and two
  descriptors through handles.

  The system calls are arguments: what they return with the error number they set.
\<close>

section \<open>Paths\<close>

text \<open>
  \<open>getpwuid\<close> gives the directory of the user, or none; an \<open>errno\<close> of 0, with which it reports a user that
  is not known, makes no error.
\<close>

definition get_home_directory_code :: "string option \<times> int \<Rightarrow> int option \<Rightarrow> string \<times> int option" where
  "get_home_directory_code getpwuid ec =
     (case getpwuid of
        (None, errno) \<Rightarrow> ([], if errno = 0 then None else Some errno)
      | (Some dir, _) \<Rightarrow> (dir, ec))"

definition get_home_directory :: "string option \<times> int \<Rightarrow> string res" where
  "get_home_directory getpwuid =
     (let (path, ec) = get_home_directory_code getpwuid None in
      case ec of
        Some e \<Rightarrow> Throw (System_Error e ''get_home_directory() failed'')
      | None \<Rightarrow> Ret path)"

text \<open>
  The permissions are bits, read, write and execute for the owner from \<open>0x100\<close>, the group and others.
  The status of a path: its permissions, that it is not found, or another error.  A path that is not
  found has the permissions \<open>perms::unknown\<close>.
\<close>

datatype file_status = Found u16 | Not_Found int | Status_Error int

definition perms_unknown :: u16 where "perms_unknown = 0xFFFF"

definition status_throwing :: "file_status \<Rightarrow> u16 res" where
  "status_throwing st =
     (case st of Found p \<Rightarrow> Ret p | Not_Found _ \<Rightarrow> Ret perms_unknown | Status_Error e \<Rightarrow> Throw (System_Error e ''status''))"

definition status_code :: "file_status \<Rightarrow> u16 \<times> int option" where
  "status_code st =
     (case st of Found p \<Rightarrow> (p, None) | Not_Found e \<Rightarrow> (perms_unknown, Some e) | Status_Error e \<Rightarrow> (perms_unknown, Some e))"

definition file_is_creatable :: "(string \<Rightarrow> string) \<Rightarrow> (string \<Rightarrow> file_status) \<Rightarrow> string \<Rightarrow> bool" where
  "file_is_creatable parent_path status filepath =
     (let parent = parent_path filepath in
      case status_throwing (status parent) of
        Ret permissions \<Rightarrow> 0x80 AND permissions \<noteq> 0
      | _ \<Rightarrow> False)"

definition file_is_readable :: "(string \<Rightarrow> file_status) \<Rightarrow> string \<Rightarrow> bool" where
  "file_is_readable status filepath =
     (let (permissions, ec) = status_code (status filepath) in
      if \<not> Option.is_none ec then False
      else 0x100 AND permissions \<noteq> 0 \<or> 0x20 AND permissions \<noteq> 0 \<or> 0x4 AND permissions \<noteq> 0)"

definition file_is_writable :: "(string \<Rightarrow> file_status) \<Rightarrow> string \<Rightarrow> bool" where
  "file_is_writable status filepath =
     (let (permissions, ec) = status_code (status filepath) in
      if \<not> Option.is_none ec then False
      else 0x80 AND permissions \<noteq> 0 \<or> 0x10 AND permissions \<noteq> 0 \<or> 0x2 AND permissions \<noteq> 0)"

section \<open>Types of files\<close>

definition mime_table :: "(string \<times> string) list" where
  "mime_table =
    [(''txt'', ''text/plain''),
     (''htm'', ''text/html''),
     (''html'', ''text/html''),
     (''js'', ''text/javascript''),
     (''xml'', ''text/xml''),
     (''json'', ''application/json''),
     (''pdf'', ''application/pdf''),
     (''png'', ''image/png''),
     (''jpg'', ''image/jpeg''),
     (''jpeg'', ''image/jpeg''),
     (''webp'', ''image/webp''),
     (''gif'', ''image/gif''),
     (''bmp'', ''image/bmp'')]"

definition get_mime_type_from_extension :: "string \<Rightarrow> string \<Rightarrow> string" where
  "get_mime_type_from_extension extension default_mime_type =
     (case map_of mime_table (trim_left extension ''.'') of Some t \<Rightarrow> t | None \<Rightarrow> default_mime_type)"

text \<open>
  What there is at a path: nothing, something that is not a regular file, or a file with its extension,
  its size and, if it can be opened, its bytes; a stream that is not open reads nothing.
\<close>

datatype path_object =
    Nothing
  | Not_Regular
  | Regular (path_extension: string) (path_size: nat) (path_bytes: "u8 list")

definition header_matches :: "u8 list \<Rightarrow> u8 list \<Rightarrow> bool" where
  "header_matches header signature \<longleftrightarrow> take (length signature) header = signature"

definition get_mime_type_from_file :: "path_object \<Rightarrow> string \<Rightarrow> string res" where
  "get_mime_type_from_file obj default_mime_type =
     (case obj of
        Nothing \<Rightarrow> Throw (Runtime_Error ''File not found'')
      | Not_Regular \<Rightarrow> Throw (Runtime_Error ''File not a regular file'')
      | Regular extension sz bytes \<Rightarrow>
          let header = take 8 bytes; matches = header_matches header in
          if length header < 8 then Ret (get_mime_type_from_extension extension default_mime_type)
          else if matches [0x89, 0x50, 0x4E, 0x47, 0x0D, 0x0A, 0x1A, 0x0A] then Ret ''image/png''
          else if matches [0x52, 0x49, 0x46, 0x46] \<or> matches [0x57, 0x45, 0x42, 0x50] then Ret ''image/webp''
          else if matches [0xFF, 0xD8, 0xFF] then Ret ''image/jpeg''
          else if matches [0x47, 0x49, 0x46, 0x38, 0x37, 0x61] \<or> matches [0x47, 0x49, 0x46, 0x38, 0x39, 0x61]
          then Ret ''image/gif''
          else if matches [0x42, 0x4D] then Ret ''image/bmp''
          else if 8 \<le> sz \<and> header_matches (drop 4 header) [0x66, 0x74, 0x79, 0x70] then Ret ''video/mp4''
          else Ret (get_mime_type_from_extension extension default_mime_type))"

section \<open>Descriptors\<close>

text \<open>\<open>getfl\<close> and \<open>setfl\<close> are the error numbers of the two system calls, if they fail.\<close>

definition O_NONBLOCK :: u32 where "O_NONBLOCK = 0x800"

definition fd_set_non_blocking_nothrow :: "int option \<Rightarrow> int option \<Rightarrow> bool \<Rightarrow> u32 \<Rightarrow> unit result res \<times> u32" where
  "fd_set_non_blocking_nothrow getfl setfl enable kernel_flags =
     (case getfl of
        Some e \<Rightarrow> (Ret (Failure (Some (make_system_error e []))), kernel_flags)
      | None \<Rightarrow>
          let flags = kernel_flags;
              flags = (if enable then flags OR O_NONBLOCK else flags AND NOT O_NONBLOCK) in
          (case setfl of
             Some e \<Rightarrow> (Ret (Failure (Some (make_system_error e []))), kernel_flags)
           | None \<Rightarrow> (Ret (Success ()), flags)))"

definition fd_set_non_blocking :: "int option \<Rightarrow> int option \<Rightarrow> bool \<Rightarrow> u32 \<Rightarrow> unit res \<times> u32" where
  "fd_set_non_blocking getfl setfl enable kernel_flags =
     and_then (fd_set_non_blocking_nothrow getfl setfl enable kernel_flags) success_or_throw"

text \<open>The descriptors that were closed, in order.\<close>

definition fd_close :: "int \<Rightarrow> int list \<Rightarrow> int list" where
  "fd_close fd closed = (if fd < 0 then closed else closed @ [fd])"

section \<open>The class File\<close>

text \<open>
  A \<open>FILE\<close> pointer is a number, 0 the null pointer; the state is the handle with the log of destructor
  calls.  \<open>fopen\<close> is the pointer it returns with \<open>errno\<close>.
\<close>

type_synonym file_object = "(nat, string) handle \<times> (nat, string) log"

definition make_file :: "(nat, string) handle res" where
  "make_file = make_handle_empty 0 (Some ''fclose'')"

definition file_close :: "file_object \<Rightarrow> unit res \<times> file_object" where
  "file_close = (\<lambda>(this, log).
     if h_handle this = 0 then (Ret (), (this, log)) else handle_reset 0 (this, log))"

definition file_open_nothrow :: "nat \<times> int \<Rightarrow> file_object \<Rightarrow> unit result res \<times> file_object" where
  "file_open_nothrow fopen t =
     and_then (file_close t) (\<lambda>_ t.
     and_then (handle_reset_to 0 (fst fopen) t) (\<lambda>_ (this, log).
       (Ret (if h_handle this = 0 then Failure (Some (make_system_error (snd fopen) [])) else Success ()), (this, log))))"

definition file_open :: "nat \<times> int \<Rightarrow> file_object \<Rightarrow> unit res \<times> file_object" where
  "file_open fopen t =
     and_then (file_open_nothrow fopen t) (\<lambda>r t.
       (case r of Failure e \<Rightarrow> Throw (Hlib_Error e) | Success _ \<Rightarrow> Ret (), t))"

text \<open>The constructors that open: with an error code, and throwing.\<close>

definition make_file_code :: "nat \<times> int \<Rightarrow> (nat, string) log \<Rightarrow> int option \<Rightarrow> int option res \<times> file_object" where
  "make_file_code fopen log ec =
     (case make_file of
        Ret h \<Rightarrow> and_then (file_open_nothrow fopen (h, log)) (\<lambda>r t.
                  (Ret (case r of Failure e \<Rightarrow> error_code e | Success _ \<Rightarrow> ec), t))
      | Throw x \<Rightarrow> (Throw x, (make_handle 0 None, log))
      | Fault x \<Rightarrow> (Fault x, (make_handle 0 None, log)))"

definition make_file_open :: "nat \<times> int \<Rightarrow> (nat, string) log \<Rightarrow> unit res \<times> file_object" where
  "make_file_open fopen log =
     (case make_file of
        Ret h \<Rightarrow> file_open fopen (h, log)
      | Throw x \<Rightarrow> (Throw x, (make_handle 0 None, log))
      | Fault x \<Rightarrow> (Fault x, (make_handle 0 None, log)))"

definition file_move :: "(nat, string) handle \<Rightarrow> (nat, string) handle \<times> (nat, string) handle" where
  "file_move = handle_move 0"

definition file_move_assign ::
  "(nat, string) handle \<times> (nat, string) handle \<times> (nat, string) log
     \<Rightarrow> unit res \<times> (nat, string) handle \<times> (nat, string) handle \<times> (nat, string) log" where
  "file_move_assign = handle_move_assign 0"

definition file_release :: "(nat, string) handle \<Rightarrow> nat \<times> (nat, string) handle" where
  "file_release = handle_release 0"

section \<open>The class Pipe\<close>

text \<open>The two handles with the log; the system call gives two descriptors or the error number.\<close>

record pipe_object =
  p_read :: "(int, string) handle"
  p_write :: "(int, string) handle"
  p_log :: "(int, string) log"

definition make_pipe :: "(int, string) log \<Rightarrow> pipe_object" where
  "make_pipe log = \<lparr>p_read = make_handle (- 1) (Some ''fd_close''), p_write = make_handle (- 1) (Some ''fd_close''), p_log = log\<rparr>"

text \<open>A member function of the handle at an index; there is no handle behind the second.\<close>

definition on_fd ::
  "nat \<Rightarrow> ((int, string) handle \<times> (int, string) log \<Rightarrow> unit res \<times> (int, string) handle \<times> (int, string) log)
     \<Rightarrow> pipe_object \<Rightarrow> unit res \<times> pipe_object" where
  "on_fd i op p =
     (if i = 0 then (let (r, (h, log)) = op (p_read p, p_log p) in (r, p\<lparr>p_read := h, p_log := log\<rparr>))
      else if i = 1 then (let (r, (h, log)) = op (p_write p, p_log p) in (r, p\<lparr>p_write := h, p_log := log\<rparr>))
      else (Fault Out_Of_Bounds, p))"

definition pipe_index :: "nat \<Rightarrow> pipe_object \<Rightarrow> int res" where
  "pipe_index i p = (if \<not> i \<le> 1 then Fault Assert_Failed else Ret (h_handle (if i = 0 then p_read p else p_write p)))"

definition pipe_close_index :: "nat \<Rightarrow> pipe_object \<Rightarrow> unit res \<times> pipe_object" where
  "pipe_close_index i = on_fd i (handle_reset (- 1))"

definition pipe_close :: "pipe_object \<Rightarrow> unit res \<times> pipe_object" where
  "pipe_close p = and_then (on_fd 1 (handle_reset (- 1)) p) (\<lambda>_. on_fd 0 (handle_reset (- 1)))"

definition pipe_open_nothrow :: "int + nat \<times> nat \<Rightarrow> pipe_object \<Rightarrow> unit result res \<times> pipe_object" where
  "pipe_open_nothrow pipe2 p =
     and_then (pipe_close p) (\<lambda>_ p.
       case pipe2 of
         Inl e \<Rightarrow> (Ret (Failure (Some (make_system_error e []))), p)
       | Inr (r, w) \<Rightarrow>
           and_then (on_fd 0 (handle_reset_to (- 1) (int r)) p) (\<lambda>_ p.
           and_then (on_fd 1 (handle_reset_to (- 1) (int w)) p) (\<lambda>_ p. (Ret (Success ()), p))))"

definition pipe_open :: "int + nat \<times> nat \<Rightarrow> pipe_object \<Rightarrow> unit res \<times> pipe_object" where
  "pipe_open pipe2 p = and_then (pipe_open_nothrow pipe2 p) success_or_throw"

definition make_pipe_code :: "int + nat \<times> nat \<Rightarrow> (int, string) log \<Rightarrow> int option \<Rightarrow> int option res \<times> pipe_object" where
  "make_pipe_code pipe2 log ec =
     and_then (pipe_open_nothrow pipe2 (make_pipe log)) (\<lambda>r p.
       (Ret (case r of Failure e \<Rightarrow> error_code e | Success _ \<Rightarrow> ec), p))"

definition make_pipe_open :: "int + nat \<times> nat \<Rightarrow> bool \<Rightarrow> (int, string) log \<Rightarrow> unit res \<times> pipe_object" where
  "make_pipe_open pipe2 is_open log = (if \<not> is_open then (Ret (), make_pipe log) else pipe_open pipe2 (make_pipe log))"

definition pipe_destroy :: "pipe_object \<Rightarrow> unit res \<times> pipe_object" where
  "pipe_destroy = pipe_close"

text \<open>\<open>set\<close> replaces a handle by one that owns a descriptor; its bound on the index admits any.\<close>

definition pipe_set :: "nat \<Rightarrow> (int, string) handle \<Rightarrow> pipe_object \<Rightarrow> unit res \<times> pipe_object" where
  "pipe_set i fd =
     on_fd i (\<lambda>(this, log). case handle_move_assign (- 1) (this, fd, log) of (r, (this1, fd1, log1)) \<Rightarrow> (r, (this1, log1)))"

section \<open>Facts\<close>

text \<open>
  A path whose directory does not exist counts as creatable, as the permissions that are not known have
  every bit; a path that does not exist is neither readable nor writable.
\<close>

lemma path_not_found:
  "status (parent_path p) = Not_Found e \<Longrightarrow> file_is_creatable parent_path status p"
  "status p = Not_Found e \<Longrightarrow> \<not> file_is_readable status p \<and> \<not> file_is_writable status p"
  by (simp_all add: file_is_creatable_def status_throwing_def perms_unknown_def file_is_readable_def
      file_is_writable_def status_code_def)

text \<open>Setting the flag changes that bit and no other, or nothing and the error is the one of the call.\<close>

lemma fd_set_non_blocking_spec:
  "fd_set_non_blocking_nothrow None None enable flags = (r, flags1) \<Longrightarrow>
     r = Ret (Success ()) \<and> bit flags1 11 = enable \<and> (\<forall>i. i \<noteq> 11 \<longrightarrow> bit flags1 i = bit flags i)"
  "fd_set_non_blocking_nothrow (Some e) setfl enable flags = (Ret (Failure (Some (System_Error e []))), flags)"
  "fd_set_non_blocking_nothrow None (Some e) enable flags = (Ret (Failure (Some (System_Error e []))), flags)"
proof -
  have o: "O_NONBLOCK = push_bit 11 1" by (simp add: O_NONBLOCK_def)
  have n: "bit O_NONBLOCK i \<longleftrightarrow> i = 11" for i
    unfolding o by (simp only: bit_push_bit_iff bit_1_iff) auto
  assume "fd_set_non_blocking_nothrow None None enable flags = (r, flags1)"
  then have "r = Ret (Success ())" "flags1 = (if enable then flags OR O_NONBLOCK else flags AND NOT O_NONBLOCK)"
    by (auto simp: fd_set_non_blocking_nothrow_def)
  moreover have "bit (if enable then flags OR O_NONBLOCK else flags AND NOT O_NONBLOCK) i
    = (if i = 11 then enable else bit flags i)" for i
    by (cases "i < 32") (auto simp: bit_or_iff bit_and_iff bit_not_iff n dest: bit_imp_le_length)
  ultimately show "r = Ret (Success ()) \<and> bit flags1 11 = enable \<and> (\<forall>i. i \<noteq> 11 \<longrightarrow> bit flags1 i = bit flags i)"
    by simp
qed (simp_all add: fd_set_non_blocking_nothrow_def make_system_error_def)

text \<open>The leading dots of an extension are dropped.\<close>

lemma mime_type_of_extension:
  "get_mime_type_from_extension (''.'' @ ext) d = get_mime_type_from_extension ext d"
  "get_mime_type_from_extension ''.html'' d = ''text/html''"
  "get_mime_type_from_extension [] d = d"
  by (simp_all add: get_mime_type_from_extension_def trim_left_dropWhile mime_table_def)

text \<open>Every RIFF file is called an image, whatever the format of its data is.\<close>

lemma riff_is_webp:
  "get_mime_type_from_file (Regular ext sz ([0x52, 0x49, 0x46, 0x46] @ a # b # c # d # bytes)) dflt = Ret ''image/webp''"
  by (simp add: get_mime_type_from_file_def header_matches_def)

subsection \<open>Ownership in File and Pipe\<close>

lemmas handle_defs = handle_reset_def handle_reset_to_def handle_move_assign_def handle_move_def make_handle_def

lemma file_open_spec:
  assumes "h_destructor f = Some d"
  shows "file_open_nothrow (new, errno) (f, log)
    = (Ret (if new = 0 then Failure (Some (System_Error errno [])) else Success ()),
       (f\<lparr>h_handle := new\<rparr>, if h_handle f = 0 then log else log @ [(d, h_handle f)]))"
  using assms by (simp add: file_open_nothrow_def file_close_def handle_defs make_system_error_def)

text \<open>
  What has been moved from can be opened again, but its handle has lost the function that closes: closing
  it, which its destructor does too, ends the program.
\<close>

lemma file_moved_from:
  assumes "file_move f = (g, f1)" and "new \<noteq> 0"
  shows "\<exists>f2. file_open_nothrow (new, errno) (f1, log) = (Ret (Success ()), (f2, log))
    \<and> fst (file_close (f2, log)) = Fault Terminated"
  using assms by (auto simp: file_move_def file_open_nothrow_def file_close_def handle_defs)

datatype pipe_cmd =
    Pipe_Open "int + nat \<times> nat"
  | Pipe_Close
  | Pipe_Close_Index nat
  | Pipe_Set nat nat

fun pipe_exec :: "pipe_cmd \<Rightarrow> pipe_object \<Rightarrow> unit res \<times> pipe_object" where
  "pipe_exec (Pipe_Open r) p = and_then (pipe_open_nothrow r p) (\<lambda>_ p. (Ret (), p))"
| "pipe_exec Pipe_Close p = pipe_close p"
| "pipe_exec (Pipe_Close_Index i) p = pipe_close_index i p"
| "pipe_exec (Pipe_Set i fd) p = pipe_set i (make_handle (int fd) (Some ''fd_close'')) p"

fun pipe_run :: "pipe_cmd list \<Rightarrow> pipe_object \<Rightarrow> unit res \<times> pipe_object" where
  "pipe_run [] p = pipe_destroy p"
| "pipe_run (c # cs) p = and_then (pipe_exec c p) (\<lambda>_. pipe_run cs)"

text \<open>The descriptors that a command brings into the pipe, and the index it uses.\<close>

fun brings :: "pipe_cmd \<Rightarrow> int multiset" where
  "brings (Pipe_Open (Inr (r, w))) = {#int r, int w#}"
| "brings (Pipe_Set i fd) = {#int fd#}"
| "brings c = {#}"

fun index_ok :: "pipe_cmd \<Rightarrow> bool" where
  "index_ok (Pipe_Close_Index i) \<longleftrightarrow> i < 2"
| "index_ok (Pipe_Set i fd) \<longleftrightarrow> i < 2"
| "index_ok c \<longleftrightarrow> True"

definition pipe_inv :: "int multiset \<Rightarrow> pipe_object \<Rightarrow> bool" where
  "pipe_inv m p \<longleftrightarrow>
     h_destructor (p_read p) = Some ''fd_close'' \<and> h_destructor (p_write p) = Some ''fd_close'' \<and>
     mset_of (- 1) (h_handle (p_read p)) + mset_of (- 1) (h_handle (p_write p)) + mset (map snd (p_log p)) = m"

lemma pipe_close_spec:
  assumes "pipe_inv m p"
  shows "\<exists>p1. pipe_close p = (Ret (), p1) \<and> pipe_inv m p1 \<and> h_handle (p_read p1) = - 1 \<and> h_handle (p_write p1) = - 1"
  using assms by (auto simp: pipe_inv_def pipe_close_def on_fd_def handle_defs mset_of_def)

lemma pipe_exec_inv:
  assumes "pipe_inv m p" and "index_ok c"
  shows "\<exists>p1. pipe_exec c p = (Ret (), p1) \<and> pipe_inv (m + brings c) p1"
proof (cases c)
  case (Pipe_Open r)
  from pipe_close_spec [OF assms(1)] obtain p1 where p1: "pipe_close p = (Ret (), p1)" "pipe_inv m p1"
    "h_handle (p_read p1) = - 1" "h_handle (p_write p1) = - 1" by blast
  show ?thesis
  proof (cases r)
    case (Inl e)
    with p1 Pipe_Open show ?thesis by (simp add: pipe_open_nothrow_def)
  next
    case (Inr rw)
    obtain a b where "rw = (a, b)" by fastforce
    with p1 Pipe_Open Inr show ?thesis
      by (auto simp: pipe_open_nothrow_def on_fd_def handle_defs pipe_inv_def mset_of_def)
  qed
next
  case Pipe_Close
  with pipe_close_spec [OF assms(1)] show ?thesis by auto
next
  case (Pipe_Close_Index i)
  with assms have "i = 0 \<or> i = 1" by auto
  with assms Pipe_Close_Index show ?thesis
    by (auto simp: pipe_close_index_def on_fd_def handle_defs pipe_inv_def mset_of_def)
next
  case (Pipe_Set i fd)
  with assms have "i = 0 \<or> i = 1" by auto
  with assms Pipe_Set show ?thesis
    by (auto simp: pipe_set_def on_fd_def handle_defs pipe_inv_def mset_of_def)
qed

lemma pipe_run_inv:
  assumes "pipe_inv m p" and "\<forall>c\<in>set cs. index_ok c"
  shows "\<exists>p1. pipe_run cs p = (Ret (), p1) \<and> h_handle (p_read p1) = - 1 \<and> h_handle (p_write p1) = - 1
    \<and> mset (map snd (p_log p1)) = m + sum_list (map brings cs)"
  using assms
proof (induction cs arbitrary: m p)
  case Nil
  with pipe_close_spec [of m p] show ?case by (auto simp: pipe_destroy_def pipe_inv_def mset_of_def)
next
  case (Cons c cs)
  from pipe_exec_inv [OF Cons.prems(1), of c] Cons.prems(2) obtain p1
    where p1: "pipe_exec c p = (Ret (), p1)" "pipe_inv (m + brings c) p1" by auto
  from Cons.IH [OF p1(2)] Cons.prems(2) p1(1) show ?case by (simp add: add.assoc)
qed

section \<open>Properties\<close>

text \<open>
  C21.  A pipe owns its descriptors: whatever is opened, closed or put into it, when it is destroyed every
  descriptor that came into it has been closed exactly once, with the function it came with, and it holds
  none.
\<close>

theorem pipe_closes_once:
  assumes "\<forall>c\<in>set cs. index_ok c"
  shows "\<exists>p. pipe_run cs (make_pipe []) = (Ret (), p)
    \<and> h_handle (p_read p) = - 1 \<and> h_handle (p_write p) = - 1
    \<and> mset (map snd (p_log p)) = sum_list (map brings cs)"
proof -
  have "pipe_inv {#} (make_pipe [])" by (simp add: pipe_inv_def make_pipe_def make_handle_def mset_of_def)
  from pipe_run_inv [OF this assms] show ?thesis by simp
qed

theorem pipe_closes_once_witness:
  "\<exists>p. pipe_run [Pipe_Open (Inr (3, 4)), Pipe_Close_Index 1, Pipe_Open (Inl 24), Pipe_Open (Inr (5, 6)), Pipe_Set 0 7]
      (make_pipe []) = (Ret (), p) \<and> mset (map snd (p_log p)) = {#3, 4, 5, 6, 7#}"
  using pipe_closes_once [of "[Pipe_Open (Inr (3, 4)), Pipe_Close_Index 1, Pipe_Open (Inl 24), Pipe_Open (Inr (5, 6)), Pipe_Set 0 7]"]
  by auto

end
