(* ===== verification/Sock_Addr.thy ===== *)
theory Sock_Addr
  imports Strings
begin

text \<open>
  \<open>src/hlib_sock_addr.cpp\<close>: a socket address, which is one of the address structures of the system in the
  128 bytes of a \<open>sockaddr_storage\<close>.

  The object is that block of bytes, so that what an operation does not store keeps what was there: the
  family in its first two bytes, in the order of the machine, low byte first; the port of the two network
  families in the next two, high byte first; an IPv4 address at 4, an IPv6 address at 8, between flow
  information at 4 and a scope at 24, and the path of a Unix domain address at 2, up to 110.  The
  functions of the system that convert network addresses are an argument.
\<close>

section \<open>State\<close>

type_synonym sock_storage = "u8 list"

definition AF_UNSPEC :: nat where "AF_UNSPEC = 0"
definition AF_UNIX :: nat where "AF_UNIX = 1"
definition AF_INET :: nat where "AF_INET = 2"
definition AF_INET6 :: nat where "AF_INET6 = 10"

lemmas families = AF_UNSPEC_def AF_UNIX_def AF_INET_def AF_INET6_def

definition mask_ipv4 :: u32 where "mask_ipv4 = push_bit AF_INET 1"
definition mask_ipv6 :: u32 where "mask_ipv6 = push_bit AF_INET6 1"
definition mask_unix :: u32 where "mask_unix = push_bit AF_UNIX 1"
definition mask_all :: u32 where "mask_all = NOT 0"

text \<open>\<open>inet_pton\<close> and \<open>inet_ntop\<close> for the two families; the latter may fail with an error number.\<close>

record inet =
  pton4 :: "string \<Rightarrow> u8 list option"
  pton6 :: "string \<Rightarrow> u8 list option"
  ntop4 :: "u8 list \<Rightarrow> int + string"
  ntop6 :: "u8 list \<Rightarrow> int + string"

definition sock_addr_family :: "sock_storage \<Rightarrow> nat" where
  "sock_addr_family s = unat (s ! 0) + 256 * unat (s ! 1)"

definition store_family :: "nat \<Rightarrow> sock_storage \<Rightarrow> sock_storage" where
  "store_family f s = blit 0 [word_of_nat (f mod 256), word_of_nat (f div 256)] s"

text \<open>\<open>htons\<close> and \<open>ntohs\<close> at the place of the port.\<close>

definition store_port :: "int \<Rightarrow> sock_storage \<Rightarrow> sock_storage" where
  "store_port p s = blit 2 [word_of_int (p div 256), word_of_int p] s"

definition load_port :: "sock_storage \<Rightarrow> int" where
  "load_port s = 256 * uint (s ! 2) + uint (s ! 3)"

section \<open>Construction and assignment\<close>

text \<open>The constructors work on the storage as they find it.\<close>

definition make_sock_addr :: "sock_storage \<Rightarrow> sock_storage" where
  "make_sock_addr junk = store_family AF_UNSPEC junk"

definition sock_addr_copy :: "sock_storage \<Rightarrow> sock_storage" where
  "sock_addr_copy that = that"

text \<open>The new object and what is left of the old one.\<close>

definition sock_addr_move :: "sock_storage \<Rightarrow> sock_storage \<times> sock_storage" where
  "sock_addr_move that = (take 128 that, store_family AF_UNSPEC that)"

definition sock_addr_of_inet :: "u8 list \<Rightarrow> sock_storage \<Rightarrow> sock_storage res" where
  "sock_addr_of_inet that junk =
     (if AF_INET \<noteq> sock_addr_family that then Fault Assert_Failed else Ret (blit 0 (take 16 that) junk))"

definition sock_addr_of_inet6 :: "u8 list \<Rightarrow> sock_storage \<Rightarrow> sock_storage res" where
  "sock_addr_of_inet6 that junk =
     (if AF_INET6 \<noteq> sock_addr_family that then Fault Assert_Failed else Ret (blit 0 (take 28 that) junk))"

definition sock_addr_of_unix :: "u8 list \<Rightarrow> sock_storage \<Rightarrow> sock_storage res" where
  "sock_addr_of_unix that junk =
     (if AF_UNIX \<noteq> sock_addr_family that then Fault Assert_Failed else Ret (blit 0 (take 110 that) junk))"

definition sock_addr_of_storage :: "sock_storage \<Rightarrow> sock_storage" where
  "sock_addr_of_storage that = that"

definition sock_addr_move_assign :: "sock_storage \<Rightarrow> sock_storage \<Rightarrow> sock_storage \<times> sock_storage" where
  "sock_addr_move_assign this that = (take 128 that, store_family AF_UNSPEC that)"

definition sock_addr_assign :: "sock_storage \<Rightarrow> sock_storage \<Rightarrow> sock_storage" where
  "sock_addr_assign this that = that"

definition sock_addr_assign_inet :: "u8 list \<Rightarrow> sock_storage \<Rightarrow> sock_storage res" where
  "sock_addr_assign_inet that this =
     (if AF_INET \<noteq> sock_addr_family that then Fault Assert_Failed else Ret (blit 0 (take 16 that) this))"

definition sock_addr_assign_inet6 :: "u8 list \<Rightarrow> sock_storage \<Rightarrow> sock_storage res" where
  "sock_addr_assign_inet6 that this =
     (if AF_INET6 \<noteq> sock_addr_family that then Fault Assert_Failed else Ret (blit 0 (take 28 that) this))"

definition sock_addr_assign_unix :: "u8 list \<Rightarrow> sock_storage \<Rightarrow> sock_storage res" where
  "sock_addr_assign_unix that this =
     (if AF_UNIX \<noteq> sock_addr_family that then Fault Assert_Failed else Ret (blit 0 (take 110 that) this))"

definition sock_addr_assign_storage :: "sock_storage \<Rightarrow> sock_storage \<Rightarrow> sock_storage" where
  "sock_addr_assign_storage that this = that"

section \<open>Observation\<close>

definition sock_addr_length :: "sock_storage \<Rightarrow> nat" where
  "sock_addr_length s =
     (if sock_addr_family s = AF_INET then 16
      else if sock_addr_family s = AF_INET6 then 28
      else if sock_addr_family s = AF_UNIX then 110
      else 128)"

definition sock_addr_port :: "sock_storage \<Rightarrow> int" where
  "sock_addr_port s =
     (if sock_addr_family s = AF_INET then load_port s
      else if sock_addr_family s = AF_INET6 then load_port s
      else 0)"

text \<open>A path is read as a C string, up to the first zero byte, wherever that is.\<close>

definition load_path :: "sock_storage \<Rightarrow> string res" where
  "load_path s =
     (if 0 \<in> set (drop 2 s) then Ret (map char_of_byte (takeWhile (\<lambda>b. b \<noteq> 0) (drop 2 s))) else Fault Out_Of_Bounds)"

definition sock_addr_address :: "inet \<Rightarrow> sock_storage \<Rightarrow> string res" where
  "sock_addr_address I s =
     (if sock_addr_family s = AF_INET
      then (case ntop4 I (take 4 (drop 4 s)) of
              Inl e \<Rightarrow> Throw (System_Error e ''inet_ntop() failed'') | Inr address \<Rightarrow> Ret address)
      else if sock_addr_family s = AF_INET6
      then (case ntop6 I (take 16 (drop 8 s)) of
              Inl e \<Rightarrow> Throw (System_Error e ''inet_ntop() failed'') | Inr address \<Rightarrow> Ret address)
      else if sock_addr_family s = AF_UNIX then load_path s
      else Ret [])"

definition sock_addr_empty :: "sock_storage \<Rightarrow> bool" where
  "sock_addr_empty s \<longleftrightarrow> AF_UNSPEC = sock_addr_family s"

text \<open>The conversions to pointers to the structures: the block seen as the structure.\<close>

definition sock_addr_as_any :: "sock_storage \<Rightarrow> u8 list" where
  "sock_addr_as_any s = s"

definition sock_addr_as_inet :: "sock_storage \<Rightarrow> u8 list res" where
  "sock_addr_as_inet s = (if AF_INET \<noteq> sock_addr_family s then Fault Assert_Failed else Ret (take 16 s))"

definition sock_addr_as_inet6 :: "sock_storage \<Rightarrow> u8 list res" where
  "sock_addr_as_inet6 s = (if AF_INET6 \<noteq> sock_addr_family s then Fault Assert_Failed else Ret (take 28 s))"

definition sock_addr_as_unix :: "sock_storage \<Rightarrow> u8 list res" where
  "sock_addr_as_unix s = (if AF_UNIX \<noteq> sock_addr_family s then Fault Assert_Failed else Ret (take 110 s))"

section \<open>Modification\<close>

definition sock_addr_set_port_nothrow :: "int \<Rightarrow> sock_storage \<Rightarrow> bool \<times> sock_storage" where
  "sock_addr_set_port_nothrow port s =
     (if sock_addr_family s = AF_INET then (True, store_port port s)
      else if sock_addr_family s = AF_INET6 then (True, store_port port s)
      else (False, s))"

definition sock_addr_set_port :: "int \<Rightarrow> sock_storage \<Rightarrow> unit res \<times> sock_storage" where
  "sock_addr_set_port port s =
     (let (ok, s1) = sock_addr_set_port_nothrow port s
      in if \<not> ok then (Throw (Runtime_Error ''Not a network address''), s1) else (Ret (), s1))"

definition sock_addr_clear :: "sock_storage \<Rightarrow> sock_storage" where
  "sock_addr_clear s = replicate 128 0"

section \<open>Parsing and printing\<close>

text \<open>\<open>std::string::rfind\<close> of a text.\<close>

fun rfind_text :: "string \<Rightarrow> string \<Rightarrow> nat option" where
  "rfind_text sub [] = (if sub = [] then Some 0 else None)"
| "rfind_text sub (c # s) =
     (case rfind_text sub s of
        Some n \<Rightarrow> Some (Suc n)
      | None \<Rightarrow> if take (length sub) (c # s) = sub then Some 0 else None)"

text \<open>The number of times a character occurs; counting a single character always returns.\<close>

definition occurrences :: "string \<Rightarrow> char \<Rightarrow> nat" where
  "occurrences s c = (case count_char s c of Some n \<Rightarrow> n | None \<Rightarrow> 0)"

definition to_unix :: "string \<Rightarrow> u32 \<Rightarrow> sock_storage \<Rightarrow> bool \<times> sock_storage" where
  "to_unix text allowed s =
     (if mask_unix AND allowed = 0 then (False, sock_addr_clear s)
      else if 108 < length text + 1 then (False, s)
      else (True, blit 2 (map byte_of_char text @ [0]) (store_family AF_UNIX s)))"

definition sock_addr_parse_nothrow :: "inet \<Rightarrow> string \<Rightarrow> u32 \<Rightarrow> sock_storage \<Rightarrow> bool \<times> sock_storage" where
  "sock_addr_parse_nothrow I text allowed s =
     (let s = store_family AF_UNSPEC s in
      if 2 \<le> occurrences text CHR '':'' then
        if mask_ipv6 AND allowed = 0 then (False, sock_addr_clear s)
        else let start = of_bool (starts_with_char text CHR ''[''); end = rfind_text '']:'' text in
        if (case end of Some e \<Rightarrow> e < start | None \<Rightarrow> False)
           \<or> start = 1 \<and> Option.is_none end \<or> start = 0 \<and> \<not> Option.is_none end
        then to_unix text allowed s
        else let address = (case end of None \<Rightarrow> drop start text | Some e \<Rightarrow> take (e - 1) (drop start text)) in
          (case pton6 I (c_str address) of
             None \<Rightarrow> to_unix text allowed s
           | Some addr \<Rightarrow>
               let s = store_port 0 (blit 8 addr (store_family AF_INET6 s)) in
               (case end of
                  None \<Rightarrow> (True, s)
                | Some e \<Rightarrow>
                    (case fst (stoui16_nothrow (drop (e + 2) text) 10 0) of
                       None \<Rightarrow> to_unix text allowed s
                     | Some port \<Rightarrow> (True, store_port port s))))
      else if 3 = occurrences text CHR ''.'' then
        if mask_ipv4 AND allowed = 0 then (False, sock_addr_clear s)
        else let pos = rfind CHR '':'' text;
                 address = (case pos of None \<Rightarrow> text | Some n \<Rightarrow> take n text) in
          (case pton4 I (c_str address) of
             None \<Rightarrow> to_unix text allowed s
           | Some addr \<Rightarrow>
               let s = store_port 0 (blit 4 addr (store_family AF_INET s)) in
               (case pos of
                  None \<Rightarrow> (True, s)
                | Some n \<Rightarrow>
                    (case fst (stoui16_nothrow (drop (n + 1) text) 10 0) of
                       None \<Rightarrow> to_unix text allowed s
                     | Some port \<Rightarrow> (True, store_port port s))))
      else to_unix text allowed s)"

definition sock_addr_parse :: "inet \<Rightarrow> string \<Rightarrow> u32 \<Rightarrow> sock_storage \<Rightarrow> unit res \<times> sock_storage" where
  "sock_addr_parse I text allowed s =
     (let (ok, s1) = sock_addr_parse_nothrow I text allowed s in
      if \<not> ok then
        if 108 < length text + 1 then (Throw (Runtime_Error ''String too long''), s1)
        else (Throw (Runtime_Error ''Invalid address string''), s1)
      else (Ret (), s1))"

definition make_sock_addr_parse :: "inet \<Rightarrow> string \<Rightarrow> u32 \<Rightarrow> sock_storage \<Rightarrow> unit res \<times> sock_storage" where
  "make_sock_addr_parse I that allowed junk = sock_addr_parse I that allowed junk"

text \<open>The assignment of a text is \<open>noexcept\<close>.\<close>

definition sock_addr_assign_text :: "inet \<Rightarrow> string \<Rightarrow> sock_storage \<Rightarrow> unit res \<times> sock_storage" where
  "sock_addr_assign_text I that this = noexcept (sock_addr_parse I that mask_all this)"

definition sock_addr_to_string :: "inet \<Rightarrow> sock_storage \<Rightarrow> string res" where
  "sock_addr_to_string I s =
     (case sock_addr_address I s of
        Ret address \<Rightarrow>
          let port = sock_addr_port s in
          if sock_addr_family s = AF_INET
          then Ret (if port > 0 then c_str address @ '':'' @ to_string_int port else address)
          else if sock_addr_family s = AF_INET6
          then Ret (if port > 0 then ''['' @ c_str address @ '']:'' @ to_string_int port else address)
          else Ret address
      | Throw e \<Rightarrow> Throw e
      | Fault x \<Rightarrow> Fault x)"

section \<open>Facts\<close>

subsection \<open>Texts\<close>

lemma occurrences_filter: "occurrences s c = length (filter (\<lambda>d. d = c) s)"
proof -
  obtain ps tl where c: "s = concat (map (\<lambda>p. p @ [c]) ps) @ tl" "\<not> sublist [c] tl"
    "\<forall>p \<in> set ps. find_at [c] (p @ [c]) = Some (length p)" "count_loop s [c] 0 0 = Some (length ps)"
    using count_loop_spec [of "[c]" 0 s 0] by auto
  have "c \<notin> set tl" using c(2) by (auto simp: sublist_def in_set_conv_decomp)
  then have tl: "filter (\<lambda>d. d = c) tl = []" by (auto simp: filter_empty_conv)
  have "c \<notin> set p" if "p \<in> set ps" for p
  proof
    assume "c \<in> set p"
    then obtain xs ys where p: "p = xs @ c # ys" "c \<notin> set xs" by (auto dest: split_list_first)
    have "find_at [c] (p @ [c]) = Some (length xs)" using find_char [OF p(2), of "ys @ [c]"] p(1) by (simp add: view_find_0)
    with c(3) that p(1) show False by auto
  qed
  then have "length (filter (\<lambda>d. d = c) (concat (map (\<lambda>p. p @ [c]) ps))) = length ps"
    by (induction ps) (auto simp: filter_empty_conv)
  with c(1,4) tl show ?thesis by (simp add: occurrences_def count_char_def)
qed

lemma rfind_text_None: "sub \<noteq> [] \<Longrightarrow> hd sub \<notin> set s \<Longrightarrow> rfind_text sub s = None"
  by (induction s) (auto simp: neq_Nil_conv)

lemma rfind_text_last: "hd sub \<notin> set ys \<Longrightarrow> hd sub \<notin> set (tl sub) \<Longrightarrow> sub \<noteq> [] \<Longrightarrow>
    rfind_text sub (xs @ sub @ ys) = Some (length xs)"
proof (induction xs)
  case Nil
  then obtain c cs where s: "sub = c # cs" by (cases sub) auto
  with Nil have "rfind_text sub (cs @ ys) = None" by (intro rfind_text_None) auto
  with s show ?case by simp
qed simp

lemma rfind_None: "c \<notin> set s \<Longrightarrow> rfind c s = None"
  by (simp add: rfind_def)

lemma port_digits:
  assumes "0 \<le> p"
  shows "CHR '':'' \<notin> set (to_string_int p)" "CHR ''.'' \<notin> set (to_string_int p)" "CHR '']'' \<notin> set (to_string_int p)"
proof -
  have "\<forall>c\<in>set (to_string_int p). is_digit 10 c" using assms dec_nat_digits by (simp add: to_string_int_def)
  moreover have "\<not> is_digit 10 CHR '':''" "\<not> is_digit 10 CHR ''.''" "\<not> is_digit 10 CHR '']''"
    by (simp_all add: is_digit_def digit_value_def)
  ultimately show "CHR '':'' \<notin> set (to_string_int p)" "CHR ''.'' \<notin> set (to_string_int p)"
    "CHR '']'' \<notin> set (to_string_int p)" by blast+
qed

lemma parse_port_text:
  assumes "0 \<le> p" and "p < 2 ^ 16"
  shows "fst (stoui16_nothrow (to_string_int p) 10 0) = Some p"
  using assms by (simp add: stoui16_nothrow_def strtoul_to_string stopped_early_def ULONG_MAX_def ERANGE_def)

subsection \<open>Storage\<close>

lemma length_stores [simp]:
  "length s = 128 \<Longrightarrow> length (store_family f s) = 128"
  "length s = 128 \<Longrightarrow> length (store_port p s) = 128"
  by (simp_all add: store_family_def store_port_def)

lemma family_store_family [simp]: "length s = 128 \<Longrightarrow> f < 65536 \<Longrightarrow> sock_addr_family (store_family f s) = f"
  by (simp add: sock_addr_family_def store_family_def block_reads unat_of_nat)

lemma family_blit [simp]:
  "length s = 128 \<Longrightarrow> 2 \<le> off \<Longrightarrow> off + length bs \<le> 128 \<Longrightarrow> sock_addr_family (blit off bs s) = sock_addr_family s"
  by (simp add: sock_addr_family_def block_reads)

lemma family_store_port [simp]: "length s = 128 \<Longrightarrow> sock_addr_family (store_port p s) = sock_addr_family s"
  by (simp add: store_port_def)

lemma load_store_port [simp]: "length s = 128 \<Longrightarrow> 0 \<le> p \<Longrightarrow> p < 2 ^ 16 \<Longrightarrow> load_port (store_port p s) = p"
  by (simp add: load_port_def store_port_def block_reads uint_word_of_int)

lemma slice_store_port [simp]:
  "length s = 128 \<Longrightarrow> 4 \<le> at \<Longrightarrow> take k (drop at (store_port p s)) = take k (drop at s)"
  by (simp add: store_port_def block_reads)

lemma slice_store_family [simp]:
  "length s = 128 \<Longrightarrow> 2 \<le> at \<Longrightarrow> take k (drop at (store_family f s)) = take k (drop at s)"
  by (simp add: store_family_def block_reads)

lemma load_port_range: "0 \<le> load_port s \<and> load_port s < 2 ^ 16"
proof -
  have "uint b < 256" for b :: u8 using uint_bounded [of b] by (simp del: uint_lt2p)
  from this [of "s ! 2"] this [of "s ! 3"] show ?thesis by (simp add: load_port_def)
qed

subsection \<open>Printing and parsing\<close>

text \<open>
  What the code relies on of \<open>inet_ntop\<close> and \<open>inet_pton\<close>: every address has a text, without a zero
  character, that converts back; the text of an IPv4 address has three dots and no colon, the text of an
  IPv6 address at least two colons and no brackets; and addresses have 4 and 16 bytes.
\<close>

definition inet_ok :: "inet \<Rightarrow> bool" where
  "inet_ok I \<longleftrightarrow>
     (\<forall>a. length a = 4 \<longrightarrow> (\<exists>t. ntop4 I a = Inr t \<and> pton4 I t = Some a \<and> NUL \<notin> set t
        \<and> length (filter (\<lambda>c. c = CHR ''.'') t) = 3 \<and> CHR '':'' \<notin> set t)) \<and>
     (\<forall>a. length a = 16 \<longrightarrow> (\<exists>t. ntop6 I a = Inr t \<and> pton6 I t = Some a \<and> NUL \<notin> set t
        \<and> 2 \<le> length (filter (\<lambda>c. c = CHR '':'') t) \<and> CHR ''['' \<notin> set t \<and> CHR '']'' \<notin> set t)) \<and>
     (\<forall>t a. pton4 I t = Some a \<longrightarrow> length a = 4) \<and> (\<forall>t a. pton6 I t = Some a \<longrightarrow> length a = 16)"

lemma filter_free: "c \<notin> set t \<Longrightarrow> filter (\<lambda>d. d = c) t = []"
  by (auto simp: filter_empty_conv)

lemma parse_print4:
  assumes I: "inet_ok I" and s: "length s = 128" "length s' = 128" "sock_addr_family s = AF_INET"
    and m: "mask_ipv4 AND allowed \<noteq> 0"
  shows "\<exists>t s1. sock_addr_to_string I s = Ret t \<and> sock_addr_parse_nothrow I t allowed s' = (True, s1)
    \<and> length s1 = 128 \<and> sock_addr_family s1 = AF_INET \<and> sock_addr_port s1 = sock_addr_port s
    \<and> take 4 (drop 4 s1) = take 4 (drop 4 s)"
proof -
  let ?a = "take 4 (drop 4 s)" and ?p = "load_port s"
  have "length ?a = 4" using s(1) by simp
  with I obtain t where t: "ntop4 I ?a = Inr t" "pton4 I t = Some ?a" "NUL \<notin> set t"
    "length (filter (\<lambda>c. c = CHR ''.'') t) = 3" "CHR '':'' \<notin> set t" unfolding inet_ok_def by blast
  have p: "0 \<le> ?p" "?p < 2 ^ 16" using load_port_range by simp_all
  note pd = port_digits [OF p(1)]
  let ?s0 = "store_port 0 (blit 4 ?a (store_family AF_INET (store_family AF_UNSPEC s')))"
  have s0: "length ?s0 = 128" "sock_addr_family ?s0 = AF_INET" "load_port ?s0 = 0" "take 4 (drop 4 ?s0) = ?a"
    using s by (simp_all add: families block_reads)
  show ?thesis
  proof (cases "0 < ?p")
    case True
    let ?t = "t @ CHR '':'' # to_string_int ?p"
    have pr: "sock_addr_to_string I s = Ret ?t"
      using t s(3) True by (simp add: sock_addr_to_string_def sock_addr_address_def sock_addr_port_def families c_str_id)
    have "occurrences ?t CHR '':'' = 1" "occurrences ?t CHR ''.'' = 3"
      using t(4,5) pd by (simp_all add: occurrences_filter filter_free)
    moreover have "rfind CHR '':'' ?t = Some (length t)" by (rule rfind_last [OF pd(1)])
    ultimately have "sock_addr_parse_nothrow I ?t allowed s' = (True, store_port ?p ?s0)"
      using t(2,3) m parse_port_text [OF p] by (simp add: sock_addr_parse_nothrow_def c_str_id Let_def)
    with pr s0 s(3) p show ?thesis by (auto simp: sock_addr_port_def)
  next
    case False
    with p have z: "?p = 0" by simp
    have pr: "sock_addr_to_string I s = Ret t"
      using t s(3) z by (simp add: sock_addr_to_string_def sock_addr_address_def sock_addr_port_def families)
    have "sock_addr_parse_nothrow I t allowed s' = (True, ?s0)"
      using t m by (simp add: sock_addr_parse_nothrow_def occurrences_filter filter_free rfind_None c_str_id Let_def)
    with pr s0 s(3) z show ?thesis by (auto simp: sock_addr_port_def)
  qed
qed

lemma parse_print6:
  assumes I: "inet_ok I" and s: "length s = 128" "length s' = 128" "sock_addr_family s = AF_INET6"
    and m: "mask_ipv6 AND allowed \<noteq> 0"
  shows "\<exists>t s1. sock_addr_to_string I s = Ret t \<and> sock_addr_parse_nothrow I t allowed s' = (True, s1)
    \<and> length s1 = 128 \<and> sock_addr_family s1 = AF_INET6 \<and> sock_addr_port s1 = sock_addr_port s
    \<and> take 16 (drop 8 s1) = take 16 (drop 8 s)"
proof -
  let ?a = "take 16 (drop 8 s)" and ?p = "load_port s"
  have "length ?a = 16" using s(1) by simp
  with I obtain t where t: "ntop6 I ?a = Inr t" "pton6 I t = Some ?a" "NUL \<notin> set t"
    "2 \<le> length (filter (\<lambda>c. c = CHR '':'') t)" "CHR ''['' \<notin> set t" "CHR '']'' \<notin> set t" unfolding inet_ok_def by blast
  have p: "0 \<le> ?p" "?p < 2 ^ 16" using load_port_range by simp_all
  note pd = port_digits [OF p(1)]
  let ?s0 = "store_port 0 (blit 8 ?a (store_family AF_INET6 (store_family AF_UNSPEC s')))"
  have s0: "length ?s0 = 128" "sock_addr_family ?s0 = AF_INET6" "load_port ?s0 = 0" "take 16 (drop 8 ?s0) = ?a"
    using s by (simp_all add: families block_reads)
  show ?thesis
  proof (cases "0 < ?p")
    case True
    let ?t = "CHR ''['' # t @ CHR '']'' # CHR '':'' # to_string_int ?p"
    have pr: "sock_addr_to_string I s = Ret ?t"
      using t s(3) True by (simp add: sock_addr_to_string_def sock_addr_address_def sock_addr_port_def families c_str_id)
    have "2 \<le> occurrences ?t CHR '':''" using t(4) by (simp add: occurrences_filter)
    moreover have "rfind_text '']:'' ?t = Some (Suc (length t))"
      using rfind_text_last [of "'']:''" "to_string_int ?p" "CHR ''['' # t"] pd(3) by simp
    moreover have "starts_with_char ?t CHR ''[''" by (simp add: starts_with_char_def)
    ultimately have "sock_addr_parse_nothrow I ?t allowed s' = (True, store_port ?p ?s0)"
      using t(2,3) m parse_port_text [OF p] by (simp add: sock_addr_parse_nothrow_def c_str_id Let_def)
    with pr s0 s(3) p show ?thesis by (auto simp: sock_addr_port_def families)
  next
    case False
    with p have z: "?p = 0" by simp
    have pr: "sock_addr_to_string I s = Ret t"
      using t s(3) z by (simp add: sock_addr_to_string_def sock_addr_address_def sock_addr_port_def families)
    have "rfind_text '']:'' t = None" using t(6) by (intro rfind_text_None) simp_all
    moreover have "\<not> starts_with_char t CHR ''[''" using t(5) by (cases t) (auto simp: starts_with_char_def)
    ultimately have "sock_addr_parse_nothrow I t allowed s' = (True, ?s0)"
      using t m by (simp add: sock_addr_parse_nothrow_def occurrences_filter c_str_id Let_def)
    with pr s0 s(3) z show ?thesis by (auto simp: sock_addr_port_def families)
  qed
qed

text \<open>A path comes back up to its first zero character.\<close>

lemma load_path_stored:
  assumes "length s = 128" and "length text < 108"
  shows "load_path (blit 2 (map byte_of_char text @ [0]) s) = Ret (c_str text)"
proof -
  let ?bs = "map byte_of_char text"
  have "drop 2 (blit 2 (?bs @ [0]) s) = ?bs @ 0 # drop (3 + length text) s"
    using assms by (simp add: blit_def numeral_3_eq_3)
  moreover have "takeWhile (\<lambda>b. b \<noteq> 0) (?bs @ 0 # xs) = map byte_of_char (c_str text)" for xs
    by (induction "text") (auto simp: c_str_def)
  ultimately show ?thesis by (simp add: load_path_def comp_def)
qed

lemma to_unix_cases:
  assumes "length s = 128" and "to_unix text allowed s = (ok, s1)"
  shows "length s1 = 128
    \<and> (ok \<longrightarrow> sock_addr_family s1 = AF_UNIX \<and> mask_unix AND allowed \<noteq> 0 \<and> load_path s1 = Ret (c_str text))
    \<and> (\<not> ok \<longrightarrow> sock_addr_family s1 = AF_UNSPEC \<or> s1 = s \<and> 108 \<le> length text)"
proof (cases "mask_unix AND allowed \<noteq> 0 \<and> length text < 108")
  case True
  let ?s1 = "blit 2 (map byte_of_char text @ [0]) (store_family AF_UNIX s)"
  from True assms(2) have s1: "ok" "s1 = ?s1" by (auto simp: to_unix_def)
  have "load_path ?s1 = Ret (c_str text)" using assms(1) True by (intro load_path_stored) simp_all
  with s1 True assms(1) show ?thesis by (simp add: AF_UNIX_def)
next
  case False
  with assms show ?thesis
    by (auto simp: to_unix_def sock_addr_clear_def sock_addr_family_def AF_UNSPEC_def split: if_splits)
qed

text \<open>
  What parsing leaves behind in the storage \<open>s\<close>: the specification that every way through the function
  meets.
\<close>

definition parse_left :: "string \<Rightarrow> u32 \<Rightarrow> sock_storage \<Rightarrow> bool \<Rightarrow> sock_storage \<Rightarrow> bool" where
  "parse_left text allowed s ok s1 \<longleftrightarrow>
     length s1 = 128
     \<and> (ok \<longrightarrow>
        sock_addr_family s1 = AF_INET \<and> mask_ipv4 AND allowed \<noteq> 0
        \<or> sock_addr_family s1 = AF_INET6 \<and> mask_ipv6 AND allowed \<noteq> 0
          \<and> take 4 (drop 4 s1) = take 4 (drop 4 s) \<and> take 4 (drop 24 s1) = take 4 (drop 24 s)
        \<or> sock_addr_family s1 = AF_UNIX \<and> mask_unix AND allowed \<noteq> 0 \<and> load_path s1 = Ret (c_str text))
     \<and> (\<not> ok \<longrightarrow> sock_addr_family s1 = AF_UNSPEC \<or> 108 \<le> length text)"

lemma left_clear: "(False, sock_addr_clear s0) = (ok, s1) \<Longrightarrow> parse_left text allowed s ok s1"
  by (auto simp: parse_left_def sock_addr_clear_def sock_addr_family_def AF_UNSPEC_def)

lemma left_unix: "length s0 = 128 \<Longrightarrow> to_unix text allowed s0 = (ok, s1) \<Longrightarrow> parse_left text allowed s ok s1"
  by (drule (1) to_unix_cases) (simp add: parse_left_def, blast)

lemma left_inet:
  assumes "length s0 = 128" and "length addr = 4" and "mask_ipv4 AND allowed \<noteq> 0"
  shows "parse_left text allowed s True (store_port p (blit 4 addr (store_family AF_INET s0)))"
    and "parse_left text allowed s True (store_port p (store_port q (blit 4 addr (store_family AF_INET s0))))"
  using assms by (simp_all add: parse_left_def families)

lemma left_inet6:
  assumes "length s = 128" and "length addr = 16" and "mask_ipv6 AND allowed \<noteq> 0"
  shows "parse_left text allowed s True
      (store_port p (blit 8 addr (store_family AF_INET6 (store_family AF_UNSPEC s))))"
    and "parse_left text allowed s True
      (store_port p (store_port q (blit 8 addr (store_family AF_INET6 (store_family AF_UNSPEC s)))))"
  using assms by (simp_all add: parse_left_def families block_reads)

section \<open>Properties\<close>

text \<open>
  C22.  The text of a network address parses back, into any storage and with any mask that allows the
  family: the family, the address and the port are the same, with or without a port in the text.
\<close>

theorem sock_addr_parse_to_string:
  assumes "inet_ok I" and "length s = 128" and "length s' = 128"
    and "sock_addr_family s = AF_INET \<and> mask_ipv4 AND allowed \<noteq> 0 \<or>
         sock_addr_family s = AF_INET6 \<and> mask_ipv6 AND allowed \<noteq> 0"
  shows "\<exists>t s1. sock_addr_to_string I s = Ret t \<and> sock_addr_parse_nothrow I t allowed s' = (True, s1)
    \<and> sock_addr_family s1 = sock_addr_family s \<and> sock_addr_port s1 = sock_addr_port s
    \<and> sock_addr_address I s1 = sock_addr_address I s"
  using assms(4)
proof (elim disjE conjE)
  assume f: "sock_addr_family s = AF_INET" "mask_ipv4 AND allowed \<noteq> 0"
  from parse_print4 [OF assms(1-3) f] obtain t s1 where
    r: "sock_addr_to_string I s = Ret t" "sock_addr_parse_nothrow I t allowed s' = (True, s1)"
    "sock_addr_family s1 = AF_INET" "sock_addr_port s1 = sock_addr_port s" "take 4 (drop 4 s1) = take 4 (drop 4 s)"
    by blast
  with f show ?thesis by (intro exI [of _ t] exI [of _ s1]) (simp add: sock_addr_address_def)
next
  assume f: "sock_addr_family s = AF_INET6" "mask_ipv6 AND allowed \<noteq> 0"
  from parse_print6 [OF assms(1-3) f] obtain t s1 where
    r: "sock_addr_to_string I s = Ret t" "sock_addr_parse_nothrow I t allowed s' = (True, s1)"
    "sock_addr_family s1 = AF_INET6" "sock_addr_port s1 = sock_addr_port s" "take 16 (drop 8 s1) = take 16 (drop 8 s)"
    by blast
  with f show ?thesis by (intro exI [of _ t] exI [of _ s1]) (simp add: sock_addr_address_def families)
qed

text \<open>
  An instance of what is relied on: decimal numbers between dots, and eight groups of four hexadecimal
  digits between colons.
\<close>

definition read_number :: "nat \<Rightarrow> string \<Rightarrow> u8" where
  "read_number base s = word_of_nat (digits_value base s)"

definition dotted :: "u8 list \<Rightarrow> string" where
  "dotted a = join (map (\<lambda>b. dec_nat (unat b)) a) ''.''"

definition read_dotted :: "string \<Rightarrow> u8 list option" where
  "read_dotted t = (let ps = tokens (\<lambda>c. CHR ''.'' = c) t in if length ps = 4 then Some (map (read_number 10) ps) else None)"

definition hex_digit :: "nat \<Rightarrow> char" where
  "hex_digit n = ''0123456789abcdef'' ! n"

definition hex_byte :: "u8 \<Rightarrow> string" where
  "hex_byte b = [hex_digit (unat b div 16), hex_digit (unat b mod 16)]"

fun hex_groups :: "u8 list \<Rightarrow> string list" where
  "hex_groups (a # b # bs) = (hex_byte a @ hex_byte b) # hex_groups bs"
| "hex_groups bs = []"

definition read_groups :: "string \<Rightarrow> u8 list option" where
  "read_groups t =
     (let ps = tokens (\<lambda>c. CHR '':'' = c) t in
      if length ps = 8 then Some (concat (map (\<lambda>p. [read_number 16 (take 2 p), read_number 16 (drop 2 p)]) ps)) else None)"

definition plain_inet :: inet where
  "plain_inet = \<lparr>pton4 = read_dotted, pton6 = read_groups, ntop4 = Inr \<circ> dotted, ntop6 = (\<lambda>a. Inr (join (hex_groups a) '':''))\<rparr>"

lemma less_16_cases: "(n :: nat) < 16 \<longleftrightarrow>
    n \<in> {0, 1, 2, 3, 4, 5, 6, 7, 8, 9, 10, 11, 12, 13, 14, 15}"
  unfolding insert_iff empty_iff by presburger

definition group_char :: "char \<Rightarrow> bool" where
  "group_char c \<longleftrightarrow> c \<notin> set '':[]'' \<and> c \<noteq> NUL"

lemma hex_digit_value: "n < 16 \<Longrightarrow> digit_value (hex_digit n) = Some n \<and> group_char (hex_digit n)"
  unfolding less_16_cases by (elim insertE emptyE) (simp_all add: hex_digit_def digit_value_def group_char_def)

lemma unat_byte: "unat (b :: u8) < 256"
  using unsigned_less [of b] by simp

lemma read_hex_byte: "read_number 16 (hex_byte b) = b"
proof -
  have "unat b div 16 < 16" "unat b mod 16 < 16" using unat_byte [of b] by simp_all
  then have "digits_value 16 (hex_byte b) = unat b"
    using hex_digit_value by (simp add: digits_value_def hex_byte_def)
  then show ?thesis by (simp add: read_number_def)
qed

lemma hex_byte_chars: "c \<in> set (hex_byte b) \<Longrightarrow> group_char c"
proof -
  have "unat b div 16 < 16" "unat b mod 16 < 16" using unat_byte [of b] by simp_all
  then show "c \<in> set (hex_byte b) \<Longrightarrow> group_char c"
    using hex_digit_value [of "unat b div 16"] hex_digit_value [of "unat b mod 16"] by (auto simp: hex_byte_def)
qed

lemma hex_groups_chars: "p \<in> set (hex_groups bs) \<Longrightarrow> c \<in> set p \<Longrightarrow> group_char c"
  by (induction bs rule: hex_groups.induct) (auto dest: hex_byte_chars)

lemma length_hex_groups: "length (hex_groups bs) = length bs div 2"
  by (induction bs rule: hex_groups.induct) auto

lemma read_hex_groups:
  "even (length bs) \<Longrightarrow>
     concat (map (\<lambda>p. [read_number 16 (take 2 p), read_number 16 (drop 2 p)]) (hex_groups bs)) = bs"
proof (induction bs rule: hex_groups.induct)
  case (1 a b bs)
  have "take 2 (hex_byte a @ hex_byte b) = hex_byte a" "drop 2 (hex_byte a @ hex_byte b) = hex_byte b"
    by (simp_all add: hex_byte_def)
  with 1 show ?case by (simp add: read_hex_byte)
qed auto

lemma chars_join: "set (join ts sep) \<subseteq> \<Union> (set ` set ts) \<union> set sep"
  by (auto simp: join_def dest: in_set_butlastD last_in_set)

lemma separators_join:
  fixes d :: char
  assumes "ts \<noteq> []" and "\<forall>t\<in>set ts. d \<notin> set t"
  shows "Suc (length (filter (\<lambda>c. c = d) (join ts [d]))) = length ts"
  using length_tokens [of "\<lambda>c. d = c" "join ts [d]"] tokens_join [OF assms] by (simp add: eq_commute)

lemma plain_inet_ok: "inet_ok plain_inet"
proof -
  have "\<exists>t. ntop4 plain_inet a = Inr t \<and> pton4 plain_inet t = Some a \<and> NUL \<notin> set t
        \<and> length (filter (\<lambda>c. c = CHR ''.'') t) = 3 \<and> CHR '':'' \<notin> set t" if "length a = 4" for a
  proof -
    let ?ts = "map (\<lambda>b. dec_nat (unat b)) a"
    have d: "\<forall>t\<in>set ?ts. \<forall>c\<in>set t. is_digit 10 c" using dec_nat_digits by auto
    moreover have "\<not> is_digit 10 CHR ''.''" "\<not> is_digit 10 CHR '':''" "\<not> is_digit 10 NUL"
      by (simp_all add: is_digit_def digit_value_def)
    ultimately have f: "\<forall>t\<in>set ?ts. CHR ''.'' \<notin> set t" "\<forall>t\<in>set ?ts. CHR '':'' \<notin> set t \<and> NUL \<notin> set t" by blast+
    have ne: "?ts \<noteq> []" using that by auto
    have "read_dotted (dotted a) = Some a"
      using that tokens_join [OF ne f(1)] by (simp add: read_dotted_def dotted_def comp_def read_number_def)
    moreover have "length (filter (\<lambda>c. c = CHR ''.'') (dotted a)) = 3"
      using separators_join [OF ne f(1)] that by (simp add: dotted_def)
    moreover have "NUL \<notin> set (dotted a)" "CHR '':'' \<notin> set (dotted a)"
      using chars_join [of ?ts "''.''"] f(2) by (auto simp: dotted_def)
    ultimately show ?thesis by (simp add: plain_inet_def)
  qed
  moreover have "\<exists>t. ntop6 plain_inet a = Inr t \<and> pton6 plain_inet t = Some a \<and> NUL \<notin> set t
        \<and> 2 \<le> length (filter (\<lambda>c. c = CHR '':'') t) \<and> CHR ''['' \<notin> set t \<and> CHR '']'' \<notin> set t" if "length a = 16" for a
  proof -
    let ?ts = "hex_groups a"
    have l: "length ?ts = 8" using that by (simp add: length_hex_groups)
    then have ne: "?ts \<noteq> []" by auto
    have f: "\<forall>t\<in>set ?ts. CHR '':'' \<notin> set t"
      "\<forall>t\<in>set ?ts. CHR ''['' \<notin> set t \<and> CHR '']'' \<notin> set t \<and> NUL \<notin> set t"
      using hex_groups_chars [of _ a] by (fastforce simp: group_char_def)+
    have "read_groups (join ?ts '':'') = Some a"
      using tokens_join [OF ne f(1)] l read_hex_groups [of a] that by (simp add: read_groups_def)
    moreover have "length (filter (\<lambda>c. c = CHR '':'') (join ?ts '':'')) = 7"
      using separators_join [OF ne f(1)] l by simp
    moreover have "NUL \<notin> set (join ?ts '':'')" "CHR ''['' \<notin> set (join ?ts '':'')" "CHR '']'' \<notin> set (join ?ts '':'')"
      using chars_join [of ?ts "'':''"] f(2) by auto
    ultimately show ?thesis by (simp add: plain_inet_def)
  qed
  moreover have "pton4 plain_inet t = Some a \<Longrightarrow> length a = 4" for t a
    by (auto simp: plain_inet_def read_dotted_def Let_def split: if_splits)
  moreover have "pton6 plain_inet t = Some a \<Longrightarrow> length a = 16" for t a
  proof -
    have "length (concat (map (\<lambda>p. [read_number 16 (take 2 p), read_number 16 (drop 2 p)]) ps)) = 2 * length ps" for ps
      by (induction ps) simp_all
    then show "pton6 plain_inet t = Some a \<Longrightarrow> length a = 16"
      by (auto simp: plain_inet_def read_groups_def Let_def split: if_splits)
  qed
  ultimately show ?thesis unfolding inet_ok_def by blast
qed

definition web_server :: sock_storage where
  "web_server = store_port 8080 (blit 4 [127, 0, 0, 1] (store_family AF_INET (replicate 128 0)))"

theorem sock_addr_parse_to_string_witness:
  "\<exists>t s1. sock_addr_to_string plain_inet web_server = Ret t
    \<and> sock_addr_parse_nothrow plain_inet t mask_ipv4 (replicate 128 9) = (True, s1)
    \<and> sock_addr_port s1 = 8080"
proof -
  have w: "length web_server = 128" "sock_addr_family web_server = AF_INET" "sock_addr_port web_server = 8080"
    by (simp_all add: web_server_def sock_addr_port_def families)
  have "mask_ipv4 AND mask_ipv4 \<noteq> 0" by (simp add: mask_ipv4_def AF_INET_def)
  with sock_addr_parse_to_string [OF plain_inet_ok w(1), of "replicate 128 9" mask_ipv4] w show ?thesis by auto
qed

text \<open>
  C23.  What parsing leaves.  When it succeeds the address is of an allowed family, and a path reads back up
  to its first zero character; of an IPv6 address the flow information and the scope are what the storage
  held before.  When it fails the address is empty, except for a text too long for a path, which may leave
  the network address that its beginning is.
\<close>

theorem sock_addr_parse_outcome:
  assumes a4: "\<forall>t a. pton4 I t = Some a \<longrightarrow> length a = 4" and a6: "\<forall>t a. pton6 I t = Some a \<longrightarrow> length a = 16"
    and s: "length s = 128" and p: "sock_addr_parse_nothrow I text allowed s = (ok, s1)"
  shows "parse_left text allowed s ok s1"
proof -
  let ?s0 = "store_family AF_UNSPEC s"
  have s0: "length ?s0 = 128" using s by simp
  note l4 = left_inet [OF s0] and l6 = left_inet6 [OF s]
  have u4: "length (store_port q (blit 4 a (store_family AF_INET ?s0))) = 128" if "length a = 4" for q a
    using that s by simp
  have u6: "length (store_port q (blit 8 a (store_family AF_INET6 ?s0))) = 128" if "length a = 16" for q a
    using that s by simp
  show ?thesis
    using p unfolding sock_addr_parse_nothrow_def Let_def
    by (auto split: if_splits option.splits
        intro: left_clear left_unix [OF s0] left_unix [OF u4] left_unix [OF u6] l4 l6 a4 [rule_format] a6 [rule_format])
qed

theorem sock_addr_parse_outcome_witness:
  "parse_left ''/tmp/a:b'' mask_unix (replicate 128 9) True (snd (sock_addr_parse_nothrow plain_inet ''/tmp/a:b'' mask_unix (replicate 128 9)))
   \<and> load_path (snd (sock_addr_parse_nothrow plain_inet ''/tmp/a:b'' mask_unix (replicate 128 9))) = Ret ''/tmp/a:b''"
proof -
  let ?t = "''/tmp/a:b''"
  let ?s1 = "snd (sock_addr_parse_nothrow plain_inet ?t mask_unix (replicate 128 9))"
  have a: "\<forall>t a. pton4 plain_inet t = Some a \<longrightarrow> length a = 4" "\<forall>t a. pton6 plain_inet t = Some a \<longrightarrow> length a = 16"
    using plain_inet_ok unfolding inet_ok_def by blast+
  have "sock_addr_parse_nothrow plain_inet ?t mask_unix (replicate 128 9) = (True, ?s1)"
    by (simp add: sock_addr_parse_nothrow_def occurrences_filter to_unix_def mask_unix_def AF_UNIX_def)
  from sock_addr_parse_outcome [OF a _ this] have left: "parse_left ?t mask_unix (replicate 128 9) True ?s1" by simp
  have "sock_addr_family ?s1 = AF_UNIX"
    by (simp add: sock_addr_parse_nothrow_def occurrences_filter to_unix_def mask_unix_def AF_UNIX_def)
  with left have "load_path ?s1 = Ret (c_str ?t)" by (auto simp: parse_left_def families)
  with left show ?thesis by (simp add: c_str_def)
qed

text \<open>
  Whatever may be said of paths, one with two colons or three dots is not tried as a path when the mask
  does not allow the network family that such a text is taken for.
\<close>

lemma unix_path_like_address:
  "2 \<le> occurrences text CHR '':'' \<Longrightarrow> sock_addr_parse_nothrow I text mask_unix s = (False, sock_addr_clear (store_family AF_UNSPEC s))"
  "occurrences text CHR '':'' < 2 \<Longrightarrow> occurrences text CHR ''.'' = 3 \<Longrightarrow>
     sock_addr_parse_nothrow I text mask_unix s = (False, sock_addr_clear (store_family AF_UNSPEC s))"
  by (simp_all add: sock_addr_parse_nothrow_def mask_unix_def mask_ipv4_def mask_ipv6_def families)

end
