(* ===== verification/Fdio.thy ===== *)
theory Fdio
  imports Source_Sink Timer File_System File_Read
begin

text \<open>
  \<open>src/hlib_fdio.cpp\<close>: \<open>FileDescriptorIO\<close>, which reads a descriptor into a sink and writes a queue of
  sources to it, as the event loop reports that it is ready.

  The object holds its members with the event loop, \<open>None\<close> when the weak pointer has expired, the
  bytes the kernel took from it, the descriptors it has closed and a world that callbacks change.  Sinks and sources are over any vtables; a
  pointer to one is the object itself, \<open>None\<close> the null pointer.  What the system calls of one event give
  is the argument \<open>io\<close>; what the three kinds of callbacks do is the argument \<open>calls\<close>, on the whole state,
  so that a callback may use the object.
\<close>

section \<open>State\<close>

definition EPOLLOUT :: u32 where "EPOLLOUT = 4"
definition EPOLLERR :: u32 where "EPOLLERR = 8"
definition EPOLLHUP :: u32 where "EPOLLHUP = 16"
definition ENOMEM :: int where "ENOMEM = 12"
definition ENODEV :: int where "ENODEV = 19"

record ('c, 'k, 'q, 'w) fdio =
  fio_loop :: "(unit, unit) event_loop option"
  fio_fd :: int
  fio_closed :: "int list"
  fio_sent :: "u8 list"
  fio_on_close :: "'c option"
  fio_locked :: bool
  fio_events :: u32
  fio_read_sink :: "'k sink option"
  fio_read_callback :: "'c option"
  fio_write_queue :: "('q source option \<times> 'c option) list"
  fio_world :: 'w

text \<open>The kernel's answers: the bytes available, a read, a write, and the error of the descriptor.\<close>

record fd_io =
  io_available :: "int + nat"
  io_read :: "nat \<Rightarrow> int + u8 list"
  io_write :: "u8 list \<Rightarrow> int + nat"
  io_error :: int

record ('c, 'k, 'q, 'w) fdio_calls =
  on_read :: "'c \<Rightarrow> 'k sink option \<Rightarrow> ('c, 'k, 'q, 'w) fdio \<Rightarrow> unit res \<times> ('c, 'k, 'q, 'w) fdio"
  on_written :: "'c \<Rightarrow> 'q source option \<Rightarrow> ('c, 'k, 'q, 'w) fdio \<Rightarrow> unit res \<times> ('c, 'k, 'q, 'w) fdio"
  on_close :: "'c \<Rightarrow> int \<Rightarrow> ('c, 'k, 'q, 'w) fdio \<Rightarrow> unit res \<times> ('c, 'k, 'q, 'w) fdio"

definition fio_lock :: "('c, 'k, 'q, 'w) fdio \<Rightarrow> unit res \<times> ('c, 'k, 'q, 'w) fdio" where
  "fio_lock F = (if fio_locked F then (Fault Deadlock, F) else (Ret (), F\<lparr>fio_locked := True\<rparr>))"

definition fio_unlock :: "('c, 'k, 'q, 'w) fdio \<Rightarrow> ('c, 'k, 'q, 'w) fdio" where
  "fio_unlock F = F\<lparr>fio_locked := False\<rparr>"

text \<open>An operation on the event loop, if there still is one; whether there is.\<close>

definition with_loop ::
  "((unit, unit) event_loop \<Rightarrow> unit res \<times> (unit, unit) event_loop) \<Rightarrow> ('c, 'k, 'q, 'w) fdio
     \<Rightarrow> bool res \<times> ('c, 'k, 'q, 'w) fdio" where
  "with_loop f F =
     (case fio_loop F of
        None \<Rightarrow> (Ret False, F)
      | Some L \<Rightarrow> (case f L of (r, L1) \<Rightarrow> (map_res (\<lambda>_. True) r, F\<lparr>fio_loop := Some L1\<rparr>)))"

section \<open>Operations\<close>

definition update_events_locked :: "epoll_ctl \<Rightarrow> u32 \<Rightarrow> ('c, 'k, 'q, 'w) fdio \<Rightarrow> unit res \<times> ('c, 'k, 'q, 'w) fdio" where
  "update_events_locked ctl events F =
     noexcept (and_then (with_loop (event_loop_modify ctl (fio_fd F) events) F)
       (\<lambda>_ F. (Ret (), F\<lparr>fio_events := events\<rparr>)))"

definition fdio_close :: "epoll_ctl \<Rightarrow> ('c, 'k, 'q, 'w) fdio \<Rightarrow> unit res \<times> ('c, 'k, 'q, 'w) fdio" where
  "fdio_close ctl F =
     noexcept (and_then (fio_lock F) (\<lambda>_ F.
       if - 1 = fio_fd F then (Ret (), fio_unlock F)
       else and_then (with_loop (event_loop_remove ctl (fio_fd F)) F) (\<lambda>_ F.
         let F = F\<lparr>fio_closed := fd_close (fio_fd F) (fio_closed F), fio_fd := - 1\<rparr>;
             F = F\<lparr>fio_events := 0\<rparr>;
             F = F\<lparr>fio_read_sink := None, fio_read_callback := None\<rparr>;
             F = F\<lparr>fio_write_queue := []\<rparr>
         in (Ret (), fio_unlock F))))"

definition callback_and_close ::
  "('c, 'k, 'q, 'w) fdio_calls \<Rightarrow> epoll_ctl \<Rightarrow> int \<Rightarrow> ('c, 'k, 'q, 'w) fdio \<Rightarrow> unit res \<times> ('c, 'k, 'q, 'w) fdio" where
  "callback_and_close calls ctl error F =
     and_then (case fio_on_close F of None \<Rightarrow> (Ret (), F) | Some c \<Rightarrow> on_close calls c error F)
       (\<lambda>_. fdio_close ctl)"

text \<open>The closure \<open>completed\<close> of the read branch.\<close>

definition read_completed ::
  "('c, 'k, 'q, 'w) fdio_calls \<Rightarrow> epoll_ctl \<Rightarrow> ('c, 'k, 'q, 'w) fdio \<Rightarrow> unit res \<times> ('c, 'k, 'q, 'w) fdio" where
  "read_completed calls ctl F =
     and_then (update_events_locked ctl (fio_events F AND NOT EPOLLIN) F) (\<lambda>_ F.
       let sink = fio_read_sink F; callback = fio_read_callback F;
           F = fio_unlock (F\<lparr>fio_read_sink := None, fio_read_callback := None\<rparr>)
       in case callback of None \<Rightarrow> (Ret (), F) | Some c \<Rightarrow> on_read calls c sink F)"

text \<open>
  The branches of \<open>onEvent\<close>; a branch returns whether the function goes on.  In the read branch the sink
  grows by its headroom, takes the bytes at the pointer and is cut to what was read.
\<close>

definition on_readable ::
  "'k sink_vtable \<Rightarrow> ('c, 'k, 'q, 'w) fdio_calls \<Rightarrow> epoll_ctl \<Rightarrow> fd_io \<Rightarrow> ('c, 'k, 'q, 'w) fdio
     \<Rightarrow> bool res \<times> ('c, 'k, 'q, 'w) fdio" where
  "on_readable V calls ctl io F =
     and_then (fio_lock F) (\<lambda>_ F.
     case fio_read_sink F of
       None \<Rightarrow> (Fault Assert_Failed, F)
     | Some k \<Rightarrow>
         (case io_available io of
            Inl e \<Rightarrow> and_then (callback_and_close calls ctl e (fio_unlock F)) (\<lambda>_ F. (Ret False, F))
          | Inr available \<Rightarrow>
              and_then (sink_headroom_limit V available k, F) (\<lambda>headroom F.
              let unextended = vt_size V (sk_impl k) in
              and_then (case sink_produce V headroom k of (r, k1) \<Rightarrow> (r, F\<lparr>fio_read_sink := Some k1\<rparr>)) (\<lambda>ptr F.
              if Option.is_none ptr
              then and_then (callback_and_close calls ctl ENOMEM (fio_unlock F)) (\<lambda>_ F. (Ret False, F))
              else let k1 = the (fio_read_sink F) in
              (case io_read io headroom of
                 Inl e \<Rightarrow> and_then (callback_and_close calls ctl e (fio_unlock F)) (\<lambda>_ F. (Ret False, F))
               | Inr bs \<Rightarrow>
                   if bs = []
                   then and_then (read_completed calls ctl F) (\<lambda>_ F.
                        and_then (callback_and_close calls ctl 0 F) (\<lambda>_ F. (Ret False, F)))
                   else
                     and_then (case lift_impl k1 (vt_store V ptr bs (sk_impl k1)) of
                                 (r, k2) \<Rightarrow> (r, F\<lparr>fio_read_sink := Some k2\<rparr>)) (\<lambda>_ F.
                     let k2 = the (fio_read_sink F) in
                     and_then (case lift_impl k2 (vt_resize V (size_add unextended (length bs)) (sk_impl k2)) of
                                 (r, k3) \<Rightarrow> (r, F\<lparr>fio_read_sink := Some k3\<rparr>)) (\<lambda>_ F.
                     if sink_full V (the (fio_read_sink F))
                     then and_then (read_completed calls ctl F) (\<lambda>_ F. (Ret True, F))
                     else (Ret True, fio_unlock F))))))))"

definition on_writable ::
  "'q source_vtable \<Rightarrow> ('c, 'k, 'q, 'w) fdio_calls \<Rightarrow> epoll_ctl \<Rightarrow> fd_io \<Rightarrow> ('c, 'k, 'q, 'w) fdio
     \<Rightarrow> bool res \<times> ('c, 'k, 'q, 'w) fdio" where
  "on_writable V calls ctl io F =
     and_then (fio_lock F) (\<lambda>_ F.
     case fio_write_queue F of
       [] \<Rightarrow> (Fault Assert_Failed, F)
     | (None, callback) # rest \<Rightarrow> (Fault Out_Of_Bounds, F)
     | (Some source, callback) # rest \<Rightarrow>
         and_then (source_available V source, F) (\<lambda>n F.
         and_then (source_peek V n source, F) (\<lambda>off F.
         and_then (source_read V off n source, F) (\<lambda>bs F.
         case io_write io bs of
           Inl e \<Rightarrow> and_then (callback_and_close calls ctl e (fio_unlock F)) (\<lambda>_ F. (Ret False, F))
         | Inr sz \<Rightarrow>
             and_then (case source_consume V sz source of
                         (r, s1) \<Rightarrow> (r, F\<lparr>fio_sent := fio_sent F @ take sz bs, fio_write_queue := (Some s1, callback) # rest\<rparr>)) (\<lambda>_ F.
             let s1 = the (fst (hd (fio_write_queue F))) in
             and_then (source_empty V s1, F) (\<lambda>done F.
             if done
             then let F = F\<lparr>fio_write_queue := tl (fio_write_queue F)\<rparr> in
                  and_then (if fio_write_queue F = [] then update_events_locked ctl (fio_events F AND NOT EPOLLOUT) F
                            else (Ret (), F)) (\<lambda>_ F.
                  let F = fio_unlock F in
                  (case callback of
                     None \<Rightarrow> (Ret True, F)
                   | Some c \<Rightarrow> and_then (on_written calls c (Some s1) F) (\<lambda>_ F. (Ret True, F))))
             else (Ret True, fio_unlock F)))))))"

definition on_event ::
  "'k sink_vtable \<Rightarrow> 'q source_vtable \<Rightarrow> ('c, 'k, 'q, 'w) fdio_calls \<Rightarrow> epoll_ctl \<Rightarrow> fd_io \<Rightarrow> int \<Rightarrow> u32
     \<Rightarrow> ('c, 'k, 'q, 'w) fdio \<Rightarrow> unit res \<times> ('c, 'k, 'q, 'w) fdio" where
  "on_event V W calls ctl io fd events F =
     (if \<not> fio_fd F = fd then (Fault Assert_Failed, F)
      else
       and_then (if 0 \<noteq> EPOLLIN AND events then on_readable V calls ctl io F else (Ret True, F)) (\<lambda>go_on F.
       if \<not> go_on then (Ret (), F)
       else and_then (if 0 \<noteq> EPOLLOUT AND events then on_writable W calls ctl io F else (Ret True, F)) (\<lambda>go_on F.
       if \<not> go_on then (Ret (), F)
       else if 0 \<noteq> (EPOLLERR OR EPOLLHUP) AND events then callback_and_close calls ctl (io_error io) F
       else (Ret (), F))))"

text \<open>A descriptor that is passed in is closed when it is not taken over.\<close>

definition fdio_open_nothrow :: "epoll_ctl \<Rightarrow> int \<Rightarrow> ('c, 'k, 'q, 'w) fdio \<Rightarrow> unit result res \<times> ('c, 'k, 'q, 'w) fdio" where
  "fdio_open_nothrow ctl fd F =
     noexcept (and_then (fdio_close ctl F) (\<lambda>_ F.
       and_then (with_loop (event_loop_add ctl fd (fio_events F) (Some (User_Handler ()))) F) (\<lambda>success F.
       if \<not> success
       then (Ret (Failure (Some (make_system_error ENODEV ''Failed to lock event loop''))),
             F\<lparr>fio_closed := fd_close fd (fio_closed F)\<rparr>)
       else (Ret (Success ()), F\<lparr>fio_fd := fd\<rparr>))))"

definition fdio_open :: "epoll_ctl \<Rightarrow> int \<Rightarrow> ('c, 'k, 'q, 'w) fdio \<Rightarrow> unit res \<times> ('c, 'k, 'q, 'w) fdio" where
  "fdio_open ctl fd F = and_then (fdio_open_nothrow ctl fd F) success_or_throw"

text \<open>\<open>opened\<close> is the descriptor the system call returns, -1 when it fails.\<close>

definition fdio_open_path_nothrow :: "epoll_ctl \<Rightarrow> int \<Rightarrow> ('c, 'k, 'q, 'w) fdio \<Rightarrow> unit result res \<times> ('c, 'k, 'q, 'w) fdio" where
  "fdio_open_path_nothrow ctl opened F = fdio_open_nothrow ctl opened F"

definition fdio_open_path :: "epoll_ctl \<Rightarrow> int \<Rightarrow> ('c, 'k, 'q, 'w) fdio \<Rightarrow> unit res \<times> ('c, 'k, 'q, 'w) fdio" where
  "fdio_open_path ctl opened F = and_then (fdio_open_path_nothrow ctl opened F) success_or_throw"

definition make_fdio :: "(unit, unit) event_loop option \<Rightarrow> 'w \<Rightarrow> ('c, 'k, 'q, 'w) fdio" where
  "make_fdio loop w =
     \<lparr>fio_loop = loop, fio_fd = - 1, fio_closed = [], fio_sent = [], fio_on_close = None, fio_locked = False, fio_events = 0,
      fio_read_sink = None, fio_read_callback = None, fio_write_queue = [], fio_world = w\<rparr>"

definition make_fdio_open :: "epoll_ctl \<Rightarrow> (unit, unit) event_loop option \<Rightarrow> int \<Rightarrow> 'w \<Rightarrow> unit res \<times> ('c, 'k, 'q, 'w) fdio" where
  "make_fdio_open ctl loop fd w = noexcept (fdio_open ctl fd (make_fdio loop w))"

definition fdio_destroy :: "epoll_ctl \<Rightarrow> ('c, 'k, 'q, 'w) fdio \<Rightarrow> unit res \<times> ('c, 'k, 'q, 'w) fdio" where
  "fdio_destroy ctl F = fdio_close ctl F"

definition fdio_set_close_callback :: "'c option \<Rightarrow> ('c, 'k, 'q, 'w) fdio \<Rightarrow> ('c, 'k, 'q, 'w) fdio" where
  "fdio_set_close_callback callback F = F\<lparr>fio_on_close := callback\<rparr>"

definition fdio_read ::
  "epoll_ctl \<Rightarrow> 'k sink option \<Rightarrow> 'c option \<Rightarrow> ('c, 'k, 'q, 'w) fdio \<Rightarrow> unit res \<times> ('c, 'k, 'q, 'w) fdio" where
  "fdio_read ctl sink callback F =
     and_then (fio_lock F) (\<lambda>_ F.
       let events = (if \<not> Option.is_none sink then fio_events F OR EPOLLIN else fio_events F AND NOT EPOLLIN) in
       and_then (if events \<noteq> fio_events F then update_events_locked ctl events F else (Ret (), F)) (\<lambda>_ F.
         (Ret (), fio_unlock (F\<lparr>fio_read_sink := sink, fio_read_callback := callback\<rparr>))))"

definition fdio_write ::
  "epoll_ctl \<Rightarrow> 'q source option \<Rightarrow> 'c option \<Rightarrow> ('c, 'k, 'q, 'w) fdio \<Rightarrow> unit res \<times> ('c, 'k, 'q, 'w) fdio" where
  "fdio_write ctl source callback F =
     and_then (fio_lock F) (\<lambda>_ F.
       let events = (if fio_write_queue F = [] then fio_events F OR EPOLLOUT else fio_events F);
           F = F\<lparr>fio_write_queue := fio_write_queue F @ [(source, callback)]\<rparr> in
       and_then (if events \<noteq> fio_events F then update_events_locked ctl events F else (Ret (), F)) (\<lambda>_ F.
         (Ret (), fio_unlock F)))"

text \<open>The overloads without a callback.\<close>

definition fdio_read_only :: "epoll_ctl \<Rightarrow> 'k sink option \<Rightarrow> ('c, 'k, 'q, 'w) fdio \<Rightarrow> unit res \<times> ('c, 'k, 'q, 'w) fdio" where
  "fdio_read_only ctl sink F = fdio_read ctl sink None F"

definition fdio_write_only :: "epoll_ctl \<Rightarrow> 'q source option \<Rightarrow> ('c, 'k, 'q, 'w) fdio \<Rightarrow> unit res \<times> ('c, 'k, 'q, 'w) fdio" where
  "fdio_write_only ctl source F = fdio_write ctl source None F"

section \<open>Facts\<close>

text \<open>
  An open object: its mutex is free, its descriptor is registered with the events it asks for, and it asks
  for the two kinds of events exactly while it has a sink and something to write.
\<close>

definition fdio_inv :: "('c, 'k, 'q, 'w) fdio \<Rightarrow> bool" where
  "fdio_inv F \<longleftrightarrow>
     \<not> fio_locked F \<and> fio_fd F \<noteq> - 1 \<and>
     (\<exists>L. fio_loop F = Some L \<and> \<not> el_locked L \<and> el_callbacks L (fio_fd F) = Some (Some (User_Handler ()))
        \<and> el_interest L (fio_fd F) = Some (fio_events F)) \<and>
     (fio_read_sink F \<noteq> None \<longleftrightarrow> EPOLLIN AND fio_events F \<noteq> 0) \<and>
     (fio_write_queue F \<noteq> [] \<longleftrightarrow> EPOLLOUT AND fio_events F \<noteq> 0)"

definition accepting :: epoll_ctl where
  "accepting op fd events = None"

lemma event_nonzero [simp]: "EPOLLIN \<noteq> 0" "EPOLLOUT \<noteq> 0" "0 \<noteq> EPOLLIN" "0 \<noteq> EPOLLOUT"
  by (simp_all add: EPOLLIN_def EPOLLOUT_def)

lemma event_bits [simp]:
  "EPOLLIN AND (e OR EPOLLIN) \<noteq> 0" "EPOLLIN AND (e AND NOT EPOLLIN) = 0"
  "EPOLLOUT AND (e OR EPOLLOUT) \<noteq> 0" "EPOLLOUT AND (e AND NOT EPOLLOUT) = 0"
  "EPOLLIN AND (e OR EPOLLOUT) = EPOLLIN AND e" "EPOLLIN AND (e AND NOT EPOLLOUT) = EPOLLIN AND e"
  "EPOLLOUT AND (e OR EPOLLIN) = EPOLLOUT AND e" "EPOLLOUT AND (e AND NOT EPOLLIN) = EPOLLOUT AND e"
  for e :: u32
proof -
  have i: "bit EPOLLIN n \<longleftrightarrow> n = 0" for n by (simp add: EPOLLIN_def bit_1_iff)
  have o: "bit EPOLLOUT n \<longleftrightarrow> n = 2" for n
  proof -
    have e: "EPOLLOUT = push_bit 2 1" by (simp add: EPOLLOUT_def)
    show ?thesis unfolding e by (simp only: bit_push_bit_iff bit_1_iff) auto
  qed
  note b = bit_and_iff bit_or_iff bit_not_iff i o
  show "EPOLLIN AND (e AND NOT EPOLLIN) = 0" "EPOLLOUT AND (e AND NOT EPOLLOUT) = 0"
    "EPOLLIN AND (e OR EPOLLOUT) = EPOLLIN AND e" "EPOLLIN AND (e AND NOT EPOLLOUT) = EPOLLIN AND e"
    "EPOLLOUT AND (e OR EPOLLIN) = EPOLLOUT AND e" "EPOLLOUT AND (e AND NOT EPOLLIN) = EPOLLOUT AND e"
    by (rule bit_word_eqI, auto simp: b)+
  have nz: "bit x n \<Longrightarrow> x \<noteq> 0" for x :: u32 and n by auto
  show "EPOLLIN AND (e OR EPOLLIN) \<noteq> 0" by (rule nz [of _ 0]) (simp add: b)
  show "EPOLLOUT AND (e OR EPOLLOUT) \<noteq> 0" by (rule nz [of _ 2]) (simp add: b)
qed

lemma event_not_set: "EPOLLOUT AND e = 0 \<Longrightarrow> e OR EPOLLOUT \<noteq> e" "EPOLLIN AND e = 0 \<Longrightarrow> e OR EPOLLIN \<noteq> e"
  by (metis event_bits(3), metis event_bits(1))

text \<open>Changing the events of an open object.\<close>

lemma update_events_open:
  assumes "fio_loop F = Some L" and "fio_fd F \<noteq> - 1"
  shows "update_events_locked accepting events F
    = (Ret (), F\<lparr>fio_loop := Some (L\<lparr>el_interest := (el_interest L)(fio_fd F := Some events)\<rparr>), fio_events := events\<rparr>)"
  using assms by (simp add: update_events_locked_def with_loop_def event_loop_modify_def event_loop_modify_nothrow_def accepting_def)

lemma fdio_write_inv:
  assumes "fdio_inv F"
  shows "\<exists>F1. fdio_write accepting s cb F = (Ret (), F1) \<and> fdio_inv F1
    \<and> fio_write_queue F1 = fio_write_queue F @ [(s, cb)]
    \<and> fio_sent F1 = fio_sent F \<and> fio_world F1 = fio_world F \<and> fio_fd F1 = fio_fd F \<and> fio_read_sink F1 = fio_read_sink F"
proof -
  from assms obtain L where L: "fio_loop F = Some L" unfolding fdio_inv_def by blast
  have u: "fio_loop (F\<lparr>fio_locked := True, fio_write_queue := q\<rparr>) = Some L" "fio_fd (F\<lparr>fio_locked := True, fio_write_queue := q\<rparr>) \<noteq> - 1" for q
    using L assms by (simp_all add: fdio_inv_def)
  show ?thesis
    using assms L by (auto simp: fdio_write_def fio_lock_def fdio_inv_def update_events_open [OF u] Let_def fio_unlock_def event_not_set)
qed

subsection \<open>Writing\<close>

text \<open>
  Callbacks that record that they were called and leave the object alone, and a kernel that takes at most
  \<open>n\<close> of the bytes it is given.
\<close>

datatype 'c call_log = Called_Read 'c "u8 list" | Called_Written 'c | Called_Close 'c int

type_synonym ('c, 'k, 'q) logged = "('c, 'k, 'q, 'c call_log list) fdio"

definition logging :: "('k \<Rightarrow> u8 list) \<Rightarrow> ('c, 'k, 'q, 'c call_log list) fdio_calls" where
  "logging bytes =
     \<lparr>on_read = (\<lambda>c k F. (Ret (), F\<lparr>fio_world := fio_world F @ [Called_Read c (case k of None \<Rightarrow> [] | Some k \<Rightarrow> bytes (sk_impl k))]\<rparr>)),
      on_written = (\<lambda>c s F. (Ret (), F\<lparr>fio_world := fio_world F @ [Called_Written c]\<rparr>)),
      on_close = (\<lambda>c e F. (Ret (), F\<lparr>fio_world := fio_world F @ [Called_Close c e]\<rparr>))\<rparr>"

definition taking :: "nat \<Rightarrow> fd_io" where
  "taking n = \<lparr>io_available = Inr 0, io_read = (\<lambda>_. Inr []), io_write = (\<lambda>bs. Inr (min n (length bs))), io_error = 0\<rparr>"

text \<open>What is still to be written, and the callbacks still to be called.\<close>

definition queued :: "('q \<Rightarrow> u8 list) \<Rightarrow> ('q source option \<times> 'c option) list \<Rightarrow> u8 list" where
  "queued bytes q =
     concat (map (\<lambda>(s, _). case s of None \<Rightarrow> [] | Some s \<Rightarrow> drop (so_progress s) (bytes (so_impl s))) q)"

definition queued_calls :: "('q source option \<times> 'c option) list \<Rightarrow> 'c call_log list" where
  "queued_calls q = concat (map (\<lambda>(_, cb). case cb of None \<Rightarrow> [] | Some c \<Rightarrow> [Called_Written c]) q)"

text \<open>
  A program that writes sources while the kernel reports that the descriptor takes bytes, which it does
  only while the descriptor is registered for that.
\<close>

datatype ('c, 'q) write_step = Write_Source "'q source" "'c option" | Kernel_Takes nat

definition interested :: "u32 \<Rightarrow> ('c, 'k, 'q, 'w) fdio \<Rightarrow> bool" where
  "interested ev F =
     (case fio_loop F of
        None \<Rightarrow> False
      | Some L \<Rightarrow> (case el_interest L (fio_fd F) of None \<Rightarrow> False | Some e \<Rightarrow> ev AND e \<noteq> 0))"

fun write_run ::
  "'k sink_vtable \<Rightarrow> 'q source_vtable \<Rightarrow> ('k \<Rightarrow> u8 list) \<Rightarrow> ('c, 'q) write_step list \<Rightarrow> ('c, 'k, 'q) logged
     \<Rightarrow> unit res \<times> ('c, 'k, 'q) logged" where
  "write_run V W kb [] F = (Ret (), F)"
| "write_run V W kb (Write_Source s cb # steps) F =
     and_then (fdio_write accepting (Some s) cb F) (\<lambda>_. write_run V W kb steps)"
| "write_run V W kb (Kernel_Takes n # steps) F =
     (if interested EPOLLOUT F
      then and_then (on_event V W (logging kb) accepting (taking n) (fio_fd F) EPOLLOUT F) (\<lambda>_. write_run V W kb steps)
      else write_run V W kb steps F)"

fun written :: "('c, 'q) write_step list \<Rightarrow> ('q source option \<times> 'c option) list" where
  "written [] = []"
| "written (Write_Source s cb # steps) = (Some s, cb) # written steps"
| "written (Kernel_Takes n # steps) = written steps"

lemma interested_iff: "fdio_inv F \<Longrightarrow> interested EPOLLOUT F \<longleftrightarrow> fio_write_queue F \<noteq> []"
  by (auto simp: interested_def fdio_inv_def)

lemma queued_append [simp]: "queued bytes (q @ r) = queued bytes q @ queued bytes r"
  by (simp add: queued_def)

lemma queued_calls_append [simp]: "queued_calls (q @ r) = queued_calls q @ queued_calls r"
  by (simp add: queued_calls_def)

lemma queued_Nil [simp]: "queued bytes [] = []" "queued_calls [] = []"
  by (simp_all add: queued_def queued_calls_def)

lemma on_event_writable:
  "on_writable W calls ctl io F = (Ret True, F1) \<Longrightarrow> on_event V W calls ctl io (fio_fd F) EPOLLOUT F = (Ret (), F1)"
  by (simp add: on_event_def EPOLLIN_def EPOLLOUT_def EPOLLERR_def EPOLLHUP_def)

context source_provider
begin

definition queue_inv :: "('s source option \<times> 'c option) list \<Rightarrow> bool" where
  "queue_inv q \<longleftrightarrow> (\<forall>(s, cb)\<in>set q. \<exists>s'. s = Some s' \<and> source_inv s')"

lemma queued_Cons: "queued bytes ((Some s, cb) # q) = rest s @ queued bytes q"
  by (simp add: queued_def rest_def)

lemma on_writable_step:
  assumes inv: "fdio_inv F" and q: "queue_inv (fio_write_queue F)" and ne: "fio_write_queue F \<noteq> []"
  shows "\<exists>F1. on_writable V (logging kb) accepting (taking n) F = (Ret True, F1) \<and> fdio_inv F1
    \<and> queue_inv (fio_write_queue F1)
    \<and> fio_sent F1 @ queued bytes (fio_write_queue F1) = fio_sent F @ queued bytes (fio_write_queue F)
    \<and> fio_world F1 @ queued_calls (fio_write_queue F1) = fio_world F @ queued_calls (fio_write_queue F)
    \<and> fio_read_sink F1 = fio_read_sink F \<and> fio_fd F1 = fio_fd F
    \<and> (0 < n \<longrightarrow> length (queued bytes (fio_write_queue F1)) + length (fio_write_queue F1)
        < length (queued bytes (fio_write_queue F)) + length (fio_write_queue F))"
proof -
  from inv obtain L where L: "fio_loop F = Some L" "fio_fd F \<noteq> - 1" unfolding fdio_inv_def by blast
  from ne q obtain s cb r where qs: "fio_write_queue F = (Some s, cb) # r" and s: "source_inv s"
    by (cases "fio_write_queue F") (auto simp: queue_inv_def)
  let ?rs = "rest s" and ?m = "min n (length (rest s))"
  let ?s1 = "s\<lparr>so_progress := so_progress s + ?m\<rparr>"
  have m: "?m \<le> length ?rs" by simp
  obtain s' where ci: "source_consume_into V (length ?rs) s = (Ret ?rs, s')"
    using consume_into_law [OF s, of "length ?rs"] by auto
  have pk: "source_peek V (length ?rs) s = Ret (so_progress s)"
    using consume_law [OF s, of "length ?rs"] by (cases "source_peek V (length ?rs) s") (auto simp: source_consume_def)
  have rd: "source_read V (so_progress s) (length ?rs) s = Ret ?rs"
    using ci consume_law [OF s, of "length ?rs"] by (auto simp: source_consume_into_def source_read_def split: option.splits)
  have s1: "source_inv ?s1" "rest ?s1 = drop ?m ?rs"
    using s m by (auto simp: source_inv_def rest_def add.commute)
  note cs = consume_law [OF s m]
  have em: "source_empty V ?s1 = Ret (drop ?m ?rs = [])" using empty_law [OF s1(1)] s1(2) by simp
  let ?w = "fio_world F @ (case cb of None \<Rightarrow> [] | Some c \<Rightarrow> [Called_Written c])"
  note defs = on_writable_def fio_lock_def taking_def fio_unlock_def logging_def
  have pre: "\<not> fio_locked F" using inv by (simp add: fdio_inv_def)
  note facts = pre qs available_law [OF s] pk rd cs em
  have go: "\<exists>F1. on_writable V (logging kb) accepting (taking n) F = (Ret True, F1) \<and> \<not> fio_locked F1
      \<and> fio_fd F1 = fio_fd F \<and> fio_read_sink F1 = fio_read_sink F
      \<and> fio_sent F1 = fio_sent F @ take ?m ?rs
      \<and> (if drop ?m ?rs = []
         then fio_write_queue F1 = r \<and> fio_world F1 = ?w
           \<and> fio_events F1 = (if r = [] then fio_events F AND NOT EPOLLOUT else fio_events F)
           \<and> fio_loop F1 = Some (if r = [] then L\<lparr>el_interest := (el_interest L)(fio_fd F := Some (fio_events F AND NOT EPOLLOUT))\<rparr> else L)
         else fio_write_queue F1 = (Some ?s1, cb) # r \<and> fio_world F1 = fio_world F
           \<and> fio_events F1 = fio_events F \<and> fio_loop F1 = Some L)"
  proof (cases "length ?rs \<le> n")
    case False
    then show ?thesis using facts L by (simp add: defs)
  next
    case True
    have u: "fio_loop (F\<lparr>fio_locked := True, fio_sent := x, fio_write_queue := []\<rparr>) = Some L"
      "fio_fd (F\<lparr>fio_locked := True, fio_sent := x, fio_write_queue := []\<rparr>) \<noteq> - 1" for x using L by simp_all
    from True facts L show ?thesis by (cases cb; cases "r = []") (simp_all add: defs update_events_open [OF u] min_absorb2)
  qed
  then obtain F1 where F1: "on_writable V (logging kb) accepting (taking n) F = (Ret True, F1)" "\<not> fio_locked F1"
      "fio_fd F1 = fio_fd F" "fio_read_sink F1 = fio_read_sink F" "fio_sent F1 = fio_sent F @ take ?m ?rs"
      "if drop ?m ?rs = []
         then fio_write_queue F1 = r \<and> fio_world F1 = ?w
           \<and> fio_events F1 = (if r = [] then fio_events F AND NOT EPOLLOUT else fio_events F)
           \<and> fio_loop F1 = Some (if r = [] then L\<lparr>el_interest := (el_interest L)(fio_fd F := Some (fio_events F AND NOT EPOLLOUT))\<rparr> else L)
         else fio_write_queue F1 = (Some ?s1, cb) # r \<and> fio_world F1 = fio_world F
           \<and> fio_events F1 = fio_events F \<and> fio_loop F1 = Some L" by blast
  have "fdio_inv F1" using inv F1(2-4,6) L qs by (auto simp: fdio_inv_def split: if_splits)
  moreover have "queue_inv (fio_write_queue F1)" using q qs F1(6) s1(1) by (auto simp: queue_inv_def split: if_splits)
  moreover have "fio_sent F1 @ queued bytes (fio_write_queue F1) = fio_sent F @ queued bytes (fio_write_queue F)"
    using F1(5,6) qs s1(2) by (auto simp: queued_Cons split: if_splits)
  moreover have "fio_world F1 @ queued_calls (fio_write_queue F1) = fio_world F @ queued_calls (fio_write_queue F)"
    using F1(6) qs by (auto simp: queued_calls_def split: if_splits)
  moreover have "0 < n \<longrightarrow> length (queued bytes (fio_write_queue F1)) + length (fio_write_queue F1)
        < length (queued bytes (fio_write_queue F)) + length (fio_write_queue F)"
    using F1(6) qs s1(2) by (auto simp: queued_Cons split: if_splits)
  ultimately show ?thesis using F1(1,3,4) by blast
qed

definition run_inv :: "('s source option \<times> 'c option) list \<Rightarrow> ('c, 'k, 's) logged \<Rightarrow> bool" where
  "run_inv all F \<longleftrightarrow>
     fdio_inv F \<and> queue_inv (fio_write_queue F) \<and>
     fio_sent F @ queued bytes (fio_write_queue F) = queued bytes all \<and>
     fio_world F @ queued_calls (fio_write_queue F) = queued_calls all"

lemma run_preserves:
  assumes "run_inv all F" and "queue_inv (written steps)"
  shows "\<exists>F1. write_run K V kb steps F = (Ret (), F1) \<and> run_inv (all @ written steps) F1"
  using assms
proof (induction steps arbitrary: all F)
  case Nil
  then show ?case by simp
next
  case (Cons st steps)
  show ?case
  proof (cases st)
    case (Write_Source s cb)
    have "fdio_inv F" using Cons.prems(1) by (simp add: run_inv_def)
    from fdio_write_inv [OF this, of "Some s" cb] obtain F1 where
      F1: "fdio_write accepting (Some s) cb F = (Ret (), F1)" "fdio_inv F1"
      "fio_write_queue F1 = fio_write_queue F @ [(Some s, cb)]" "fio_sent F1 = fio_sent F" "fio_world F1 = fio_world F" by blast
    have "run_inv (all @ [(Some s, cb)]) F1"
      using F1 Cons.prems Write_Source by (auto simp: run_inv_def queue_inv_def)
    from Cons.IH [OF this] Cons.prems(2) F1(1) Write_Source show ?thesis by (simp add: queue_inv_def)
  next
    case (Kernel_Takes n)
    have q: "queue_inv (written steps)" using Cons.prems(2) Kernel_Takes by simp
    have inv: "fdio_inv F" "queue_inv (fio_write_queue F)" using Cons.prems(1) by (simp_all add: run_inv_def)
    show ?thesis
    proof (cases "fio_write_queue F = []")
      case True
      with interested_iff [OF inv(1)] Kernel_Takes Cons.IH [OF Cons.prems(1) q] show ?thesis by simp
    next
      case False
      from on_writable_step [OF inv False, of kb n] obtain F1 where
        F1: "on_writable V (logging kb) accepting (taking n) F = (Ret True, F1)" "fdio_inv F1"
        "queue_inv (fio_write_queue F1)"
        "fio_sent F1 @ queued bytes (fio_write_queue F1) = fio_sent F @ queued bytes (fio_write_queue F)"
        "fio_world F1 @ queued_calls (fio_write_queue F1) = fio_world F @ queued_calls (fio_write_queue F)" by blast
      then have "run_inv all F1" using Cons.prems(1) by (simp add: run_inv_def)
      from Cons.IH [OF this q] on_event_writable [OF F1(1), of K] interested_iff [OF inv(1)] False Kernel_Takes
      show ?thesis by simp
    qed
  qed
qed

lemma run_drains:
  assumes "run_inv all F" and "0 < n" and "length (queued bytes (fio_write_queue F)) + length (fio_write_queue F) \<le> k"
  shows "\<exists>F1. write_run K V kb (replicate k (Kernel_Takes n)) F = (Ret (), F1) \<and> run_inv all F1 \<and> fio_write_queue F1 = []"
  using assms
proof (induction k arbitrary: F)
  case 0
  then show ?case by simp
next
  case (Suc k)
  have inv: "fdio_inv F" "queue_inv (fio_write_queue F)" using Suc.prems(1) by (simp_all add: run_inv_def)
  show ?case
  proof (cases "fio_write_queue F = []")
    case True
    with interested_iff [OF inv(1)] Suc show ?thesis by simp
  next
    case False
    from on_writable_step [OF inv False, of kb n] obtain F1 where
      F1: "on_writable V (logging kb) accepting (taking n) F = (Ret True, F1)" "fdio_inv F1"
      "queue_inv (fio_write_queue F1)"
      "fio_sent F1 @ queued bytes (fio_write_queue F1) = fio_sent F @ queued bytes (fio_write_queue F)"
      "fio_world F1 @ queued_calls (fio_write_queue F1) = fio_world F @ queued_calls (fio_write_queue F)"
      and less: "0 < n \<longrightarrow> length (queued bytes (fio_write_queue F1)) + length (fio_write_queue F1)
        < length (queued bytes (fio_write_queue F)) + length (fio_write_queue F)" by blast
    have r: "run_inv all F1" using F1 Suc.prems(1) by (simp add: run_inv_def)
    have "length (queued bytes (fio_write_queue F1)) + length (fio_write_queue F1) \<le> k"
      using less Suc.prems(2,3) by simp
    from Suc.IH [OF r Suc.prems(2) this] on_event_writable [OF F1(1), of K] interested_iff [OF inv(1)] False
    show ?thesis by simp
  qed
qed

end

subsection \<open>Reading\<close>

text \<open>A kernel that holds the bytes \<open>rx\<close> for the descriptor.\<close>

definition giving :: "u8 list \<Rightarrow> fd_io" where
  "giving rx = \<lparr>io_available = Inr (length rx), io_read = (\<lambda>n. Inr (take n rx)), io_write = (\<lambda>bs. Inr (length bs)), io_error = 0\<rparr>"

definition called_read :: "'c option \<Rightarrow> u8 list \<Rightarrow> 'c call_log list" where
  "called_read cb bs = (case cb of None \<Rightarrow> [] | Some c \<Rightarrow> [Called_Read c bs])"

lemma read_completed_open:
  assumes "fio_loop F = Some L" and "fio_fd F \<noteq> - 1" and "fio_read_sink F = Some k"
  shows "read_completed (logging bytes) accepting F =
    (Ret (), F\<lparr>fio_loop := Some (L\<lparr>el_interest := (el_interest L)(fio_fd F := Some (fio_events F AND NOT EPOLLIN))\<rparr>),
       fio_events := fio_events F AND NOT EPOLLIN, fio_read_sink := None, fio_read_callback := None, fio_locked := False,
       fio_world := fio_world F @ called_read (fio_read_callback F) (bytes (sk_impl k))\<rparr>)"
  using assms(3)
  by (cases "fio_read_callback F")
    (simp_all add: read_completed_def update_events_open [OF assms(1,2)] Let_def fio_unlock_def logging_def called_read_def)

context sink_provider
begin

text \<open>Growing a sink, storing what was read and cutting it to that appends it.\<close>

lemma grow_store_cut:
  assumes k: "inv (sk_impl k)" and room: "sk_maximum k = 0 \<or> length (bytes (sk_impl k)) + n \<le> sk_maximum k"
    and lim: "length (bytes (sk_impl k)) + n \<le> size_max" and got: "length got \<le> n" "0 < n"
    and p: "sink_produce V n k = (r1, k1)" and alive: "r1 \<noteq> Fault Terminated"
    and st: "vt_store V (Some (length (bytes (sk_impl k)))) got (sk_impl k1) = (r2, s2)"
    and rz: "vt_resize V (length (bytes (sk_impl k)) + length got) s2 = (r3, s3)" and alive3: "r3 \<noteq> Fault Terminated"
  shows "r1 = Ret (Some (length (bytes (sk_impl k)))) \<and> sk_maximum k1 = sk_maximum k \<and> r2 = Ret ()
    \<and> (r3 = Ret (Some 0) \<or> r3 = Ret None) \<and> inv s3 \<and> bytes s3 = bytes (sk_impl k) @ got"
proof -
  let ?b = "bytes (sk_impl k)"
  from produce_law [OF k room lim p] alive got(2)
  have 1: "r1 = Ret (Some (length ?b))" "sk_maximum k1 = sk_maximum k" "inv (sk_impl k1)"
    "resized (length ?b + n) ?b (bytes (sk_impl k1))" by auto
  have len: "length ?b + length got \<le> length (bytes (sk_impl k1))" using 1(4) got(1) by (simp add: resized_def)
  from store_law [OF 1(3) len st] have 2: "r2 = Ret ()" "inv s2" "bytes s2 = blit (length ?b) got (bytes (sk_impl k1))" by auto
  have "length ?b + length got \<le> size_max" using lim got(1) by simp
  from resize_law [OF 2(2) this rz] alive3
  have 3: "inv s3" "resized (length ?b + length got) (bytes s2) (bytes s3)" "r3 = Ret (Some 0) \<or> r3 = Ret None" by auto
  have l3: "length (bytes s3) = length ?b + length got" and
    t3: "take (length ?b + length got) (bytes s3) = take (length ?b + length got) (bytes s2)"
    using 3(2) 2(3) len by (simp_all add: resized_def)
  have "bytes s3 = take (length ?b + length got) (bytes s3)" using l3 by simp
  also have "\<dots> = take (length ?b + length got) (bytes s2)" by (rule t3)
  also have "\<dots> = take (length ?b) (bytes (sk_impl k1)) @ got" using 2(3) len by (simp add: take_blit_over)
  also have "take (length ?b) (bytes (sk_impl k1)) = ?b" using 1(4) by (simp add: resized_def)
  finally show ?thesis using 1 2 3 by simp
qed

text \<open>The headroom for \<open>n\<close> available bytes, and when the sink is full afterwards.\<close>

definition room_of :: "nat \<Rightarrow> 's sink \<Rightarrow> nat" where
  "room_of n k = (if sk_maximum k = 0 then length (bytes (sk_impl k)) + n else min (sk_maximum k - length (bytes (sk_impl k))) n)"

lemma on_readable_step:
  assumes F: "fdio_inv F" "fio_read_sink F = Some k" and k: "inv (sk_impl k)"
    and room: "sk_maximum k = 0 \<or> length (bytes (sk_impl k)) < sk_maximum k" and rx: "rx \<noteq> []"
    and lim: "2 * length (bytes (sk_impl k)) + length rx \<le> size_max" "sk_maximum k \<le> size_max"
  shows "fst (on_readable V (logging bytes) accepting (giving rx) F) = Fault Terminated
    \<or> (\<exists>F1 k1. on_readable V (logging bytes) accepting (giving rx) F = (Ret True, F1) \<and> fdio_inv F1
        \<and> inv (sk_impl k1) \<and> sk_maximum k1 = sk_maximum k
        \<and> bytes (sk_impl k1) = bytes (sk_impl k) @ take (room_of (length rx) k) rx
        \<and> fio_write_queue F1 = fio_write_queue F \<and> fio_sent F1 = fio_sent F \<and> fio_fd F1 = fio_fd F
        \<and> (if sk_maximum k = 0 \<or> length (bytes (sk_impl k1)) = sk_maximum k
           then fio_read_sink F1 = None \<and> fio_world F1 = fio_world F @ called_read (fio_read_callback F) (bytes (sk_impl k1))
           else fio_read_sink F1 = Some k1 \<and> fio_read_callback F1 = fio_read_callback F \<and> fio_world F1 = fio_world F))"
proof -
  from F obtain L where L: "fio_loop F = Some L" "fio_fd F \<noteq> - 1" "\<not> fio_locked F" unfolding fdio_inv_def by blast
  let ?b = "bytes (sk_impl k)" and ?n = "room_of (length rx) k"
  let ?got = "take ?n rx"
  have n: "0 < ?n" "length ?got \<le> ?n" "?got \<noteq> []" using rx room by (auto simp: room_of_def)
  have hl: "sink_headroom_limit V (length rx) k = Ret ?n"
    using room lim size_bytes [OF k] by (auto simp: sink_headroom_limit_def sink_headroom_def MinimalCapacity_def room_of_def)
  have room': "sk_maximum k = 0 \<or> length ?b + ?n \<le> sk_maximum k" using room by (auto simp: room_of_def)
  have lim': "length ?b + ?n \<le> size_max" using lim room by (auto simp: room_of_def)
  obtain r1 k1 where p: "sink_produce V ?n k = (r1, k1)" by fastforce
  obtain r2 s2 where st: "vt_store V (Some (length ?b)) ?got (sk_impl k1) = (r2, s2)" by fastforce
  obtain r3 s3 where rz: "vt_resize V (length ?b + length ?got) s2 = (r3, s3)" by fastforce
  have got_lim: "length ?b + length ?got \<le> size_max" using lim' n(2) by simp
  show ?thesis
  proof (cases "r1 = Fault Terminated")
    case True
    with F L p hl show ?thesis by (simp add: on_readable_def fio_lock_def giving_def)
  next
    case alive: False
    show ?thesis
    proof (cases "r3 = Fault Terminated")
      case True
      from produce_law [OF k room' lim' p] alive n(1)
      have 1: "r1 = Ret (Some (length ?b))" "inv (sk_impl k1)" "resized (length ?b + ?n) ?b (bytes (sk_impl k1))" by auto
      have "length ?b + length ?got \<le> length (bytes (sk_impl k1))" using 1(3) n(2) by (simp add: resized_def)
      from store_law [OF 1(2) this st] have "r2 = Ret ()" by simp
      with True 1 F L p hl st rz n(3) got_lim size_bytes [OF k] show ?thesis
        by (simp add: on_readable_def fio_lock_def giving_def lift_impl_def)
    next
      case False
      note g = grow_store_cut [OF k room' lim' n(2,1) p alive st rz False]
      define k3 where "k3 = k1\<lparr>sk_impl := s3\<rparr>"
      have k3: "sk_maximum k3 = sk_maximum k" "inv (sk_impl k3)" "bytes (sk_impl k3) = ?b @ ?got" using g by (simp_all add: k3_def)
      have full: "sink_full V k3 \<longleftrightarrow> sk_maximum k = 0 \<or> length (bytes (sk_impl k3)) = sk_maximum k"
        using size_bytes [OF k3(2)] k3 by (auto simp: sink_full_def MinimalCapacity_def)
      let ?F = "F\<lparr>fio_locked := True, fio_read_sink := Some k3\<rparr>"
      have r3: "\<exists>x. r3 = Ret x" using g by auto
      have run: "on_readable V (logging bytes) accepting (giving rx) F =
         (if sink_full V k3 then and_then (read_completed (logging bytes) accepting ?F) (\<lambda>_ F. (Ret True, F))
          else (Ret True, fio_unlock ?F))"
        using g r3 F L p hl st rz n(3) got_lim size_bytes [OF k]
        by (auto simp: on_readable_def fio_lock_def giving_def lift_impl_def k3_def)
      have u: "fio_loop ?F = Some L" "fio_fd ?F \<noteq> - 1" "fio_read_sink ?F = Some k3" using L by simp_all
      show ?thesis
      proof (cases "sink_full V k3")
        case True
        with run read_completed_open [OF u, of bytes] full k3 F L show ?thesis
          by (intro disjI2 exI [of _ k3] exI) (auto simp: fdio_inv_def)
      next
        case False
        with run full k3 F L show ?thesis
          by (intro disjI2 exI [of _ k3] exI) (auto simp: fdio_inv_def fio_unlock_def)
      qed
    qed
  qed
qed

end

text \<open>
  A callback that closes the object while the descriptor is also reported to take bytes: the write branch
  finds an empty queue.
\<close>

lemma close_in_read_callback:
  assumes "on_readable V calls ctl io F = (Ret True, F1)" and "\<not> fio_locked F1" and "fio_write_queue F1 = []"
  shows "fst (on_event V W calls ctl io (fio_fd F) (EPOLLIN OR EPOLLOUT) F) = Fault Assert_Failed"
proof -
  have "EPOLLIN AND (EPOLLIN OR EPOLLOUT) \<noteq> 0" "EPOLLOUT AND (EPOLLIN OR EPOLLOUT) \<noteq> 0"
    by (simp_all add: EPOLLIN_def EPOLLOUT_def)
  with assms show ?thesis by (simp add: on_event_def on_writable_def fio_lock_def)
qed

text \<open>Opening a path that the system cannot open does not fail, it asserts.\<close>

lemma open_path_failed:
  assumes "\<not> fio_locked F" and "fio_fd F = - 1" and "fio_loop F = Some L"
  shows "fst (fdio_open_path_nothrow ctl (- 1) F) = Fault Assert_Failed"
  using assms by (simp add: fdio_open_path_nothrow_def fdio_open_nothrow_def fdio_close_def fio_lock_def fio_unlock_def
      with_loop_def event_loop_add_def)

section \<open>Properties\<close>

text \<open>
  C24.  What is written arrives: however writes and reports of the kernel interleave and however little it
  takes each time, the bytes it took and the bytes still queued are those of all sources in the order of
  the writes, each callback is called once, in that order, after its source; the descriptor is registered
  for writing exactly while something is queued, and finitely many further reports send everything.
\<close>

theorem fdio_writes_in_order:
  fixes F :: "('c, 'k, buffer) logged"
  assumes "fdio_inv F" and "fio_write_queue F = []" and "fio_sent F = []" and "fio_world F = []" and "0 < n"
    and "\<forall>(s, cb)\<in>set (written steps). \<exists>s'. s = Some s' \<and> buffer_wf (so_impl s') \<and> so_progress s' \<le> m_size (so_impl s')"
  shows "\<exists>F1 k F2. write_run K buffer_source kb steps F = (Ret (), F1)
    \<and> fio_sent F1 @ queued contents (fio_write_queue F1) = queued contents (written steps)
    \<and> fio_world F1 @ queued_calls (fio_write_queue F1) = queued_calls (written steps)
    \<and> (interested EPOLLOUT F1 \<longleftrightarrow> fio_write_queue F1 \<noteq> [])
    \<and> write_run K buffer_source kb (replicate k (Kernel_Takes n)) F1 = (Ret (), F2)
    \<and> fio_write_queue F2 = [] \<and> fio_sent F2 = queued contents (written steps) \<and> fio_world F2 = queued_calls (written steps)
    \<and> \<not> interested EPOLLOUT F2"
proof -
  have start: "buffer_source.run_inv [] F"
    using assms(1-4) by (simp add: buffer_source.run_inv_def buffer_source.queue_inv_def)
  have q: "buffer_source.queue_inv (written steps)"
    using assms(6) by (fastforce simp: buffer_source.queue_inv_def buffer_source.source_inv_def)
  from buffer_source.run_preserves [OF start q, of K kb] obtain F1
    where F1: "write_run K buffer_source kb steps F = (Ret (), F1)" "buffer_source.run_inv (written steps) F1" by auto
  from buffer_source.run_drains [OF F1(2) assms(5) order_refl, of K kb] obtain k F2
    where F2: "write_run K buffer_source kb (replicate k (Kernel_Takes n)) F1 = (Ret (), F2)"
      "buffer_source.run_inv (written steps) F2" "fio_write_queue F2 = []" by blast
  have i: "fdio_inv F1" "fdio_inv F2" using F1(2) F2(2) by (simp_all add: buffer_source.run_inv_def)
  show ?thesis
    using F1 F2 interested_iff [OF i(1)] interested_iff [OF i(2)]
    by (intro exI [of _ F1] exI [of _ k] exI [of _ F2]) (simp add: buffer_source.run_inv_def)
qed

definition open_fdio :: "(nat, buffer, buffer) logged" where
  "open_fdio =
     \<lparr>fio_loop = Some \<lparr>el_pipe_fd = 3, el_pipe = 0, el_interrupt = False, el_locked = False, el_thread_id = None,
        el_callbacks = [5 \<mapsto> Some (User_Handler ())], el_interest = [5 \<mapsto> 0], el_world = ()\<rparr>,
      fio_fd = 5, fio_closed = [], fio_sent = [], fio_on_close = None, fio_locked = False, fio_events = 0,
      fio_read_sink = None, fio_read_callback = None, fio_write_queue = [], fio_world = []\<rparr>"

definition hello_source :: "buffer source" where
  "hello_source = make_source \<lparr>m_data = Some [104, 101, 108, 108, 111, 0], m_maximum = 100, m_capacity = 6, m_size = 5\<rparr>"

theorem fdio_writes_in_order_witness:
  "\<exists>F1 k F2. write_run (buffer_sink granting) buffer_source contents [Write_Source hello_source (Some 1), Kernel_Takes 2] open_fdio
      = (Ret (), F1)
    \<and> write_run (buffer_sink granting) buffer_source contents (replicate k (Kernel_Takes 1)) F1 = (Ret (), F2)
    \<and> fio_sent F2 = [104, 101, 108, 108, 111] \<and> fio_world F2 = [Called_Written 1]"
proof -
  have inv: "fdio_inv open_fdio" by (simp add: fdio_inv_def open_fdio_def)
  have w: "\<forall>(s, cb)\<in>set (written [Write_Source hello_source (Some (1 :: nat)), Kernel_Takes 2]).
      \<exists>s'. s = Some s' \<and> buffer_wf (so_impl s') \<and> so_progress s' \<le> m_size (so_impl s')"
    by (simp add: hello_source_def make_source_def buffer_wf_def size_max_def)
  have q: "queued contents (written [Write_Source hello_source (Some (1 :: nat)), Kernel_Takes 2]) = [104, 101, 108, 108, 111]"
    "queued_calls (written [Write_Source hello_source (Some (1 :: nat)), Kernel_Takes 2]) = [Called_Written 1]"
    by (simp_all add: queued_def queued_calls_def hello_source_def make_source_def buf_to_string_def)
  have z: "fio_write_queue open_fdio = []" "fio_sent open_fdio = []" "fio_world open_fdio = []"
    by (simp_all add: open_fdio_def)
  from fdio_writes_in_order [OF inv z zero_less_one w, of "buffer_sink granting" contents] q show ?thesis
    by (elim exE conjE, intro exI conjI) simp_all
qed

text \<open>
  C25.  Reading into a sink: one report of the kernel appends to the contents the bytes that are there, as
  far as the sink has room, and no others, unless the allocation fails and ends the program.  When the sink
  is full, which one without a maximum always is, it is handed to the callback with those contents and the
  descriptor is no longer registered for reading; until then it stays.
\<close>

theorem fdio_fills_sink:
  fixes F :: "('c, buffer, 'q) logged"
  assumes "fdio_inv F" and "fio_read_sink F = Some k" and "buffer_wf (sk_impl k)"
    and "sk_maximum k = 0 \<or> m_size (sk_impl k) < sk_maximum k" and "rx \<noteq> []"
    and "2 * m_size (sk_impl k) + length rx \<le> size_max" and "sk_maximum k \<le> size_max"
    and "n = (if sk_maximum k = 0 then length rx else min (sk_maximum k - m_size (sk_impl k)) (length rx))"
  shows "fst (on_event (buffer_sink A) W (logging contents) accepting (giving rx) (fio_fd F) EPOLLIN F) = Fault Terminated
    \<or> (\<exists>F1 k1. on_event (buffer_sink A) W (logging contents) accepting (giving rx) (fio_fd F) EPOLLIN F = (Ret (), F1)
        \<and> fdio_inv F1 \<and> contents (sk_impl k1) = contents (sk_impl k) @ take n rx
        \<and> (if sk_maximum k = 0 \<or> m_size (sk_impl k) + n = sk_maximum k
           then fio_world F1 = fio_world F @ called_read (fio_read_callback F) (contents (sk_impl k1)) \<and> \<not> interested EPOLLIN F1
           else fio_read_sink F1 = Some k1 \<and> fio_world F1 = fio_world F \<and> interested EPOLLIN F1))"
proof -
  have len: "length (contents (sk_impl k)) = m_size (sk_impl k)" using assms(3) by simp
  have i: "interested EPOLLIN F1 \<longleftrightarrow> fio_read_sink F1 \<noteq> None" if "fdio_inv F1" for F1 :: "('c, buffer, 'q) logged"
    using that by (auto simp: interested_def fdio_inv_def)
  have e: "on_event (buffer_sink A) W calls ctl io (fio_fd F) EPOLLIN F
      = and_then (on_readable (buffer_sink A) calls ctl io F) (\<lambda>go_on F. (Ret (), F))" for calls ctl io
  proof -
    have "(0 \<noteq> EPOLLOUT AND EPOLLIN) = False" "(0 \<noteq> (EPOLLERR OR EPOLLHUP) AND EPOLLIN) = False"
        "(0 \<noteq> EPOLLIN AND EPOLLIN) = True"
      by (simp_all add: EPOLLIN_def EPOLLOUT_def EPOLLERR_def EPOLLHUP_def)
    note bits = this
    have k: "(if \<not> b then (Ret (), G) else and_then (Ret True, G) (\<lambda>b G. if \<not> b then (Ret (), G) else (Ret (), G))) = (Ret (), G)"
      for b and G :: "('c, buffer, 'q) logged" by simp
    show ?thesis unfolding on_event_def bits if_True if_False k by simp
  qed
  have t: "take (buffer_sink.room_of (length rx) k) rx = take n rx" "length (take n rx) = n"
    using assms(8) len by (auto simp: buffer_sink.room_of_def)
  from buffer_sink.on_readable_step [OF assms(1-3) _ assms(5) _ assms(7), where A = A] assms(4,6) len
  consider (dies) "fst (on_readable (buffer_sink A) (logging contents) accepting (giving rx) F) = Fault Terminated"
    | (goes) F1 k1 where "on_readable (buffer_sink A) (logging contents) accepting (giving rx) F = (Ret True, F1)"
        "fdio_inv F1" "buffer_wf (sk_impl k1)" "contents (sk_impl k1) = contents (sk_impl k) @ take n rx"
        "if sk_maximum k = 0 \<or> length (contents (sk_impl k1)) = sk_maximum k
           then fio_read_sink F1 = None \<and> fio_world F1 = fio_world F @ called_read (fio_read_callback F) (contents (sk_impl k1))
           else fio_read_sink F1 = Some k1 \<and> fio_read_callback F1 = fio_read_callback F \<and> fio_world F1 = fio_world F"
    unfolding t(1) by auto
  then show ?thesis
  proof cases
    case dies
    then show ?thesis unfolding e
      by (cases "on_readable (buffer_sink A) (logging contents) accepting (giving rx) F") simp
  next
    case goes
    have "length (contents (sk_impl k1)) = m_size (sk_impl k) + n" using goes(4) len t(2) by simp
    with goes i [OF goes(2)] show ?thesis
      unfolding e by (intro disjI2 exI [of _ F1] exI [of _ k1]) (auto split: if_splits)
  qed
qed

definition reading_fdio :: "(nat, buffer, buffer) logged" where
  "reading_fdio = snd (fdio_read accepting (Some \<lparr>sk_maximum = 3, sk_impl = two_bytes\<rparr>) (Some 1) open_fdio)"

theorem fdio_fills_sink_witness:
  "\<exists>F1. on_event (buffer_sink granting) buffer_source (logging contents) accepting (giving [70, 80]) 5 EPOLLIN reading_fdio
      = (Ret (), F1) \<and> fio_world F1 = [Called_Read 1 [1, 2, 70]]"
proof -
  let ?k = "\<lparr>sk_maximum = 3, sk_impl = two_bytes\<rparr>"
  have s: "fio_read_sink reading_fdio = Some ?k" "fio_fd reading_fdio = 5" "fio_world reading_fdio = []"
      "fio_read_callback reading_fdio = Some 1" "fdio_inv reading_fdio"
    by (simp_all add: reading_fdio_def fdio_read_def fio_lock_def fio_unlock_def open_fdio_def update_events_locked_def with_loop_def
        event_loop_modify_def event_loop_modify_nothrow_def accepting_def fdio_inv_def EPOLLIN_def EPOLLOUT_def)
  have wf: "buffer_wf (sk_impl ?k)" by (simp add: two_bytes_def buffer_wf_def size_max_def)
  have two: "m_size two_bytes = 2" "contents two_bytes = [1, 2]" by (simp_all add: two_bytes_def buf_to_string_def)
  have live: "fst (on_event (buffer_sink granting) buffer_source (logging contents) accepting (giving [70, 80]) 5 EPOLLIN reading_fdio) \<noteq> Fault Terminated"
    by code_simp
  from fdio_fills_sink [OF s(5,1) wf, where A = granting and W = buffer_source and rx = "[70, 80]" and n = 1] live two s
  show ?thesis by (auto simp: size_max_def called_read_def)
qed

end
