(* ===== verification/Cpu.thy ===== *)
theory Cpu
  imports Math Strings Result
begin

text \<open>
  \<open>src/hlib_cpu.cpp\<close>: the queries of the processors and \<open>CPUMonitor\<close>, which reads the counters of
  \<open>/proc/stat\<close> and reports how far they moved between its last two readings.

  The files are a function from paths to texts; \<open>sysconf\<close> is the number it returns, with \<open>errno\<close>.
  The conversions of texts reset \<open>errno\<close>, so they start from any value of it.
\<close>

section \<open>Queries\<close>

type_synonym files = "string \<Rightarrow> string option"

definition whitespace :: string where
  "whitespace = [CHR '' '', CHR 0x09, CHR 0x0B, CHR 0x0C, CHR 0x0D, CHR 0x0A]"

text \<open>A stream on a file that cannot be opened throws nothing and gives no characters.\<close>

definition cpu_read :: "files \<Rightarrow> string \<Rightarrow> bool \<Rightarrow> string result" where
  "cpu_read fs filepath trimmed =
     (let text = (case fs filepath of None \<Rightarrow> [] | Some t \<Rightarrow> t)
      in if trimmed then Success (trim text whitespace) else Success text)"

definition int_of_long :: "int \<Rightarrow> int" where
  "int_of_long v = (v + 2 ^ 31) mod 2 ^ 32 - 2 ^ 31"

definition cpu_get_ticks_per_second :: "int \<Rightarrow> int \<Rightarrow> int result" where
  "cpu_get_ticks_per_second sysconf errno =
     (let r = int_of_long sysconf
      in if - 1 = r then Failure (Some (make_system_error errno [])) else Success r)"

definition cpu_get_count :: "int \<Rightarrow> int \<Rightarrow> int result" where
  "cpu_get_count sysconf errno =
     (let r = int_of_long sysconf
      in if - 1 = r then Failure (Some (make_system_error errno [])) else Success r)"

definition string_to :: "int_type \<Rightarrow> string \<Rightarrow> int res" where
  "string_to t s = fst (string_to_int t s 10 0)"

fun noexcept_res :: "'a res \<Rightarrow> 'a res" where
  "noexcept_res (Throw e) = Fault Terminated"
| "noexcept_res (Ret a) = Ret a"
| "noexcept_res (Fault f) = Fault f"

definition frequency_path :: "int \<Rightarrow> string" where
  "frequency_path cpu = ''/sys/devices/system/cpu/cpu'' @ to_string_int cpu @ ''/cpufreq/scaling_cur_freq''"

definition cpu_get_frequency :: "int \<Rightarrow> files \<Rightarrow> int \<Rightarrow> int result res" where
  "cpu_get_frequency sysconf fs cpu =
     (if \<not> cpu < sysconf then Fault Assert_Failed
      else case cpu_read fs (frequency_path cpu) True of
             Failure e \<Rightarrow> Ret (Failure e)
           | Success file \<Rightarrow> noexcept_res (map_res Success (string_to I32 file)))"

definition cache_path :: "int \<Rightarrow> int \<Rightarrow> string" where
  "cache_path cpu cache_index =
     ''/sys/devices/system/cpu/cpu'' @ to_string_int cpu @ ''/cache/index'' @ to_string_int cache_index @ ''/size''"

text \<open>The variable \<open>factor\<close> has no value unless the text ends in one of the two letters.\<close>

definition cpu_get_cache_size :: "int \<Rightarrow> files \<Rightarrow> int \<Rightarrow> int \<Rightarrow> int result res" where
  "cpu_get_cache_size sysconf fs cpu cache_index =
     (if \<not> cpu < sysconf then Fault Assert_Failed
      else case cpu_read fs (cache_path cpu cache_index) True of
             Failure e \<Rightarrow> Ret (Failure e)
           | Success s \<Rightarrow>
               if s = [] then Fault Assert_Failed
               else let factor = (if last s = CHR ''K'' then Some 1024
                                  else if last s = CHR ''M'' then Some (1024 * 1024) else None);
                        s = trim_right s ''KM''
                    in noexcept_res (res_bind (string_to U64 s) (\<lambda>n.
                         case factor of None \<Rightarrow> Fault Uninitialized | Some f \<Rightarrow> Ret (Success (n * f mod 2 ^ 64)))))"

section \<open>The monitor\<close>

record statistics =
  st_user :: int
  st_nice :: int
  st_system :: int
  st_idle :: int
  st_iowait :: int
  st_irq :: int
  st_softirq :: int
  st_steal :: int
  st_guest_nice :: int
  st_total :: int

record cpu_monitor =
  cm_count :: int
  cm_total_previous :: statistics
  cm_total_current :: statistics
  cm_cpu_previous :: "statistics list"
  cm_cpu_current :: "statistics list"

definition zero_statistics :: statistics where
  "zero_statistics =
     \<lparr>st_user = 0, st_nice = 0, st_system = 0, st_idle = 0, st_iowait = 0, st_irq = 0, st_softirq = 0, st_steal = 0,
      st_guest_nice = 0, st_total = 0\<rparr>"

definition make_cpu_monitor :: cpu_monitor where
  "make_cpu_monitor =
     \<lparr>cm_count = 0, cm_total_previous = zero_statistics, cm_total_current = zero_statistics,
      cm_cpu_previous = [], cm_cpu_current = []\<rparr>"

text \<open>The closure of \<open>parse\<close>, with the variable \<open>total\<close> as its state.\<close>

definition parse_number :: "string list \<Rightarrow> nat \<Rightarrow> int \<Rightarrow> int res \<times> int" where
  "parse_number columns index tot =
     (if \<not> index < length columns then (Fault Out_Of_Bounds, tot)
      else and_then (string_to I64 (columns ! index), tot) (\<lambda>v tot.
             and_then (i64 (tot + v), tot) (\<lambda>t _. (Ret v, t))))"

definition cpu_parse :: "string \<Rightarrow> statistics res" where
  "cpu_parse line =
     (let columns = split_char line (CHR '' '') True
      in fst (noexcept (
           and_then (parse_number columns 1 0) (\<lambda>user tot.
           and_then (parse_number columns 2 tot) (\<lambda>nice tot.
           and_then (parse_number columns 3 tot) (\<lambda>system tot.
           and_then (parse_number columns 4 tot) (\<lambda>idle tot.
           and_then (parse_number columns 5 tot) (\<lambda>iowait tot.
           and_then (parse_number columns 6 tot) (\<lambda>irq tot.
           and_then (parse_number columns 7 tot) (\<lambda>softirq tot.
           and_then (parse_number columns 8 tot) (\<lambda>steal tot.
           and_then (parse_number columns 9 tot) (\<lambda>guest_nice tot.
             (Ret \<lparr>st_user = user, st_nice = nice, st_system = system, st_idle = idle, st_iowait = iowait, st_irq = irq,
                   st_softirq = softirq, st_steal = steal, st_guest_nice = guest_nice, st_total = tot\<rparr>, tot)))))))))))))"
definition cpu_count :: "cpu_monitor \<Rightarrow> int" where
  "cpu_count M = cm_count M"

definition cpu_previous :: "int \<Rightarrow> cpu_monitor \<Rightarrow> statistics res" where
  "cpu_previous cpu M =
     (if \<not> cpu < cm_count M then Fault Assert_Failed
      else Ret (if cpu < 0 then cm_total_previous M else cm_cpu_previous M ! nat cpu))"

definition cpu_current :: "int \<Rightarrow> cpu_monitor \<Rightarrow> statistics res" where
  "cpu_current cpu M =
     (if \<not> cpu < cm_count M then Fault Assert_Failed
      else Ret (if cpu < 0 then cm_total_current M else cm_cpu_current M ! nat cpu))"

text \<open>The body that the queries of a counter have in common.\<close>

definition counter_difference :: "(statistics \<Rightarrow> int) \<Rightarrow> int \<Rightarrow> cpu_monitor \<Rightarrow> int res" where
  "counter_difference counter cpu M =
     (if \<not> cpu < cm_count M then Fault Assert_Failed
      else if cpu < 0 then i64 (counter (cm_total_current M) - counter (cm_total_previous M))
      else i64 (counter (cm_cpu_current M ! nat cpu) - counter (cm_cpu_previous M ! nat cpu)))"

definition cpu_user :: "int \<Rightarrow> cpu_monitor \<Rightarrow> int res" where
  "cpu_user cpu M = counter_difference st_user cpu M"

definition cpu_nice :: "int \<Rightarrow> cpu_monitor \<Rightarrow> int res" where
  "cpu_nice cpu M = counter_difference st_nice cpu M"

definition cpu_system :: "int \<Rightarrow> cpu_monitor \<Rightarrow> int res" where
  "cpu_system cpu M = counter_difference st_system cpu M"

definition cpu_idle :: "int \<Rightarrow> cpu_monitor \<Rightarrow> int res" where
  "cpu_idle cpu M = counter_difference st_idle cpu M"

definition cpu_iowait :: "int \<Rightarrow> cpu_monitor \<Rightarrow> int res" where
  "cpu_iowait cpu M = counter_difference st_iowait cpu M"

definition cpu_irq :: "int \<Rightarrow> cpu_monitor \<Rightarrow> int res" where
  "cpu_irq cpu M = counter_difference st_irq cpu M"

definition cpu_softirq :: "int \<Rightarrow> cpu_monitor \<Rightarrow> int res" where
  "cpu_softirq cpu M = counter_difference st_softirq cpu M"

definition cpu_steal :: "int \<Rightarrow> cpu_monitor \<Rightarrow> int res" where
  "cpu_steal cpu M = counter_difference st_steal cpu M"

definition cpu_guest_nice :: "int \<Rightarrow> cpu_monitor \<Rightarrow> int res" where
  "cpu_guest_nice cpu M = counter_difference st_guest_nice cpu M"

definition cpu_total :: "int \<Rightarrow> cpu_monitor \<Rightarrow> int res" where
  "cpu_total cpu M = counter_difference st_total cpu M"

definition cpu_busy :: "int \<Rightarrow> cpu_monitor \<Rightarrow> int res" where
  "cpu_busy cpu M =
     res_bind (cpu_total cpu M) (\<lambda>t.
     res_bind (res_bind (cpu_idle cpu M) (\<lambda>i. res_bind (cpu_iowait cpu M) (\<lambda>w. i64 (i + w)))) (\<lambda>n. i64 (t - n)))"

fun update_cpus :: "string list \<Rightarrow> nat \<Rightarrow> nat \<Rightarrow> cpu_monitor \<Rightarrow> unit res \<times> cpu_monitor" where
  "update_cpus lines cpu 0 M = (Ret (), M)"
| "update_cpus lines cpu (Suc n) M =
     and_then (cpu_parse (lines ! (cpu + 1)),
               M\<lparr>cm_cpu_previous := (cm_cpu_previous M)[cpu := cm_cpu_current M ! cpu]\<rparr>) (\<lambda>s M.
       update_cpus lines (cpu + 1) n (M\<lparr>cm_cpu_current := (cm_cpu_current M)[cpu := s]\<rparr>))"

definition newline :: char where
  "newline = CHR 0x0A"

definition cpu_update :: "files \<Rightarrow> cpu_monitor \<Rightarrow> unit result res \<times> cpu_monitor" where
  "cpu_update fs M =
     (case cpu_read fs ''/proc/stat'' False of
        Failure e \<Rightarrow> (Ret (Failure e), M)
      | Success file \<Rightarrow>
          let lines = split_char file newline False
          in if \<not> nat (cm_count M + 1) \<le> length lines then (Fault Assert_Failed, M)
             else and_then (cpu_parse (lines ! 0), M\<lparr>cm_total_previous := cm_total_current M\<rparr>) (\<lambda>s M.
                  and_then (update_cpus lines 0 (nat (cm_count M)) (M\<lparr>cm_total_current := s\<rparr>)) (\<lambda>_ M.
                    (Ret (Success ()), M))))"

definition resize_statistics :: "nat \<Rightarrow> statistics list \<Rightarrow> statistics list" where
  "resize_statistics n xs = take n xs @ replicate (n - length xs) zero_statistics"

text \<open>A negative count is a huge size, which \<open>resize\<close> refuses with an exception.\<close>

definition cpu_initialize :: "int \<Rightarrow> int \<Rightarrow> files \<Rightarrow> cpu_monitor \<Rightarrow> unit result res \<times> cpu_monitor" where
  "cpu_initialize sysconf errno fs M =
     (case cpu_get_count sysconf errno of
        Failure e \<Rightarrow> (Ret (Failure e), M)
      | Success cpu \<Rightarrow>
          let M = M\<lparr>cm_count := cpu\<rparr>
          in if cpu < 0 then (Fault Terminated, M)
             else cpu_update fs
               (M\<lparr>cm_cpu_previous := resize_statistics (nat cpu) (cm_cpu_previous M),
                  cm_cpu_current := resize_statistics (nat cpu) (cm_cpu_current M)\<rparr>))"

section \<open>Facts\<close>

lemma cpu_number_chars:
  "c \<in> set (to_string_int v) \<Longrightarrow> is_digit 10 c \<or> c = CHR ''-''" "to_string_int v \<noteq> []"
  using dec_nat_digits by (auto simp: to_string_int_def split: if_splits)

lemma to_string_int_free [simp]:
  "CHR '' '' \<notin> set (to_string_int v)" "newline \<notin> set (to_string_int v)"
  "CHR ''K'' \<notin> set (to_string_int v)" "CHR ''M'' \<notin> set (to_string_int v)"
  "c \<in> set whitespace \<Longrightarrow> c \<notin> set (to_string_int v)"
proof -
  have n: "\<not> is_digit 10 d \<and> d \<noteq> CHR ''-'' \<Longrightarrow> d \<notin> set (to_string_int v)" for d
    using cpu_number_chars(1) by metis
  show "CHR '' '' \<notin> set (to_string_int v)" "newline \<notin> set (to_string_int v)"
    "CHR ''K'' \<notin> set (to_string_int v)" "CHR ''M'' \<notin> set (to_string_int v)"
    by (rule n, simp add: is_digit_def digit_value_def newline_def)+
  assume "c \<in> set whitespace"
  then show "c \<notin> set (to_string_int v)"
    by (intro n) (auto simp: is_digit_def digit_value_def whitespace_def)
qed

text \<open>A text without the characters at its two ends, between characters that are removed.\<close>

lemma trim_id:
  assumes "t \<noteq> []" and "hd t \<notin> set chars" and "last t \<notin> set chars" and "set r \<subseteq> set chars"
  shows "trim (t @ r) chars = t" and "trim_right (t @ r) chars = t"
proof -
  have "dropWhile (\<lambda>c. c \<in> set chars) (rev r @ rev t) = rev t"
    using assms(1,3,4) by (cases "rev t") (auto simp: dropWhile_append subset_iff hd_rev dest: rev_is_Nil_conv [THEN iffD1] simp flip: hd_rev)
  then show r: "trim_right (t @ r) chars = t" by (simp add: trim_right_rev)
  have "dropWhile (\<lambda>c. c \<in> set chars) (t @ r) = t @ r" using assms(1,2) by (cases t) auto
  then show "trim (t @ r) chars = t" by (simp add: trim_def trim_left_dropWhile r)
qed

lemma cache_size_of_text:
  assumes "cpu < sysconf" and "fs (cache_path cpu i) = Some (to_string_int (int n) @ unit @ [newline])"
    and "n < 2 ^ 64" and "unit \<in> {[], ''K'', ''M''}"
  shows "cpu_get_cache_size sysconf fs cpu i
    = (if unit = [] then Fault Uninitialized
       else Ret (Success (int n * (if unit = ''K'' then 1024 else 1024 * 1024) mod 2 ^ 64)))"
proof -
  let ?d = "to_string_int (int n)"
  have ne: "?d \<noteq> []" by (rule cpu_number_chars(2))
  have in_d: "hd ?d \<in> set ?d" "last ?d \<in> set ?d" using ne by simp_all
  have w: "x \<notin> set whitespace" if "x \<in> set ?d" for x using that to_string_int_free(5) by blast
  have u: "CHR ''K'' \<notin> set whitespace" "CHR ''M'' \<notin> set whitespace" by (simp_all add: whitespace_def)
  have "trim ((?d @ unit) @ [newline]) whitespace = ?d @ unit"
  proof (rule trim_id(1))
    show "hd (?d @ unit) \<notin> set whitespace" "last (?d @ unit) \<notin> set whitespace"
      using ne w [OF in_d(1)] w [OF in_d(2)] u assms(4) by auto
  qed (use ne in \<open>auto simp: newline_def whitespace_def\<close>)
  then have r: "cpu_read fs (cache_path cpu i) True = Success (?d @ unit)" using assms(2) by (simp add: cpu_read_def)
  have k: "hd ?d \<notin> {CHR ''K'', CHR ''M''}" "last ?d \<notin> {CHR ''K'', CHR ''M''}"
    using in_d to_string_int_free(3,4) by (metis empty_iff insert_iff)+
  have "trim_right (?d @ unit) ''KM'' = ?d"
    by (rule trim_id(2)) (use ne k(1,2) k(1,2) assms(4) in auto)
  moreover have "string_to U64 ?d = Ret (int n)"
    using assms(3) by (simp add: string_to_def stoi_defs strtoul_to_string stopped_early_def ULONG_MAX_def ERANGE_def)
  ultimately show ?thesis
    using assms(1,4) r ne k by (auto simp: cpu_get_cache_size_def res_bind_def)
qed

text \<open>A file that cannot be read or parsed ends the program: no failure is returned.\<close>

lemma frequency_of_missing_file:
  assumes "cpu < sysconf" and "fs (frequency_path cpu) = None"
  shows "cpu_get_frequency sysconf fs cpu = Fault Terminated"
  using assms by (simp add: cpu_get_frequency_def cpu_read_def trim_def trim_left_def trim_right_def string_to_def stoi_defs not_a_number_def)

text \<open>A line of \<open>/proc/stat\<close>, the file, and the statistics of its counters.\<close>

definition stat_line :: "string list \<Rightarrow> int list \<Rightarrow> string" where
  "stat_line name ns = join (name @ map to_string_int ns) '' ''"

definition proc_stat :: "int list \<Rightarrow> int list list \<Rightarrow> string list \<Rightarrow> string" where
  "proc_stat all cpus rest =
     join (stat_line [''cpu'', []] all
           # map (\<lambda>(i, ns). stat_line [''cpu'' @ to_string_int (int i)] ns) (enumerate 0 cpus) @ rest) [newline]"

definition statistics_of :: "int list \<Rightarrow> statistics" where
  "statistics_of ns =
     \<lparr>st_user = ns ! 0, st_nice = ns ! 1, st_system = ns ! 2, st_idle = ns ! 3, st_iowait = ns ! 4, st_irq = ns ! 5,
      st_softirq = ns ! 6, st_steal = ns ! 7, st_guest_nice = ns ! 8, st_total = sum_list (take 9 ns)\<rparr>"

text \<open>Counters the monitor can add up.\<close>

definition counters :: "int list \<Rightarrow> bool" where
  "counters ns \<longleftrightarrow> 9 \<le> length ns \<and> list_all (\<lambda>n. 0 \<le> n) ns \<and> sum_list (take 9 ns) \<le> LONG_MAX"

definition monitor_wf :: "cpu_monitor \<Rightarrow> bool" where
  "monitor_wf M \<longleftrightarrow> 0 \<le> cm_count M \<and> length (cm_cpu_previous M) = nat (cm_count M) \<and> length (cm_cpu_current M) = nat (cm_count M)"

lemma split_join_free:
  assumes "ts \<noteq> []" and "\<forall>t\<in>set ts. d \<notin> set t" and "ts \<noteq> [[]]"
  shows "split_char (join ts [d]) d False = ts" and "split_char (join ts [d]) d True = List.filter (\<lambda>t. t \<noteq> []) ts"
proof -
  note t = tokens_join [OF assms(1,2)]
  have "join ts [d] \<noteq> []" using t assms(3) by fastforce
  with t show "split_char (join ts [d]) d False = ts" by (simp add: split_char_def split_tokens)
  then show "split_char (join ts [d]) d True = List.filter (\<lambda>t. t \<noteq> []) ts" by (simp add: split_char_def split_filtered)
qed

lemma string_to_of_to_string:
  "string_to I64 (to_string_int v) = (if - (2 ^ 63) \<le> v \<and> v < 2 ^ 63 then Ret v else Throw (Range_Error ''stoi64''))"
  by (simp add: string_to_def stoi_defs strtol_to_string stopped_early_def LONG_MIN_def LONG_MAX_def ERANGE_def)

lemma parse_number_column:
  assumes "index < length columns" and "columns ! index = to_string_int v" and "0 \<le> v" and "0 \<le> t" and "t + v \<le> LONG_MAX"
  shows "parse_number columns index t = (Ret v, t + v)"
  using assms by (simp add: parse_number_def string_to_of_to_string i64_def LONG_MAX_def)

lemma take_9: "9 \<le> length ns \<Longrightarrow> take 9 ns = [ns ! 0, ns ! 1, ns ! 2, ns ! 3, ns ! 4, ns ! 5, ns ! 6, ns ! 7, ns ! 8]"
  by (rule nth_equalityI) (auto simp: nth_Cons' less_Suc_eq numeral_eq_Suc)

lemma cpu_parse_line:
  assumes "counters ns" and "List.filter (\<lambda>t. t \<noteq> []) name = [n]" and "\<forall>t\<in>set name. CHR '' '' \<notin> set t"
  shows "cpu_parse (stat_line name ns) = Ret (statistics_of ns)"
proof -
  let ?cs = "n # map to_string_int ns"
  have len: "9 \<le> length ns" and nonneg: "\<And>i. i < length ns \<Longrightarrow> 0 \<le> ns ! i" and sum: "sum_list (take 9 ns) \<le> LONG_MAX"
    using assms(1) by (auto simp: counters_def list_all_length)
  have ne: "List.filter (\<lambda>t. t \<noteq> []) (map to_string_int ns) = map to_string_int ns"
    by (rule filter_True) (auto simp: cpu_number_chars(2))
  have "name \<noteq> []" using assms(2) by auto
  then have "name @ map to_string_int ns \<noteq> []" "name @ map to_string_int ns \<noteq> [[]]"
    using len by (auto simp: append_eq_Cons_conv)
  moreover have "\<forall>t\<in>set (name @ map to_string_int ns). CHR '' '' \<notin> set t" using assms(3) by auto
  ultimately have cs: "split_char (stat_line name ns) (CHR '' '') True = ?cs"
    using assms(2) by (simp add: stat_line_def split_join_free(2) ne)
  have col: "parse_number ?cs i t = (Ret (ns ! (i - 1)), t + ns ! (i - 1))"
    if "0 < i" "i \<le> 9" "0 \<le> t" "t + ns ! (i - 1) \<le> LONG_MAX" for i t
    using that len nonneg by (intro parse_number_column) (simp_all add: nth_Cons')
  note s = sum [unfolded take_9 [OF len], simplified]
  have p: "0 \<le> ns ! 0" "0 \<le> ns ! 1" "0 \<le> ns ! 2" "0 \<le> ns ! 3" "0 \<le> ns ! 4" "0 \<le> ns ! 5" "0 \<le> ns ! 6" "0 \<le> ns ! 7" "0 \<le> ns ! 8"
    by (rule nonneg; use len in linarith)+
  show ?thesis
    unfolding cpu_parse_def cs using s p by (simp add: col statistics_of_def take_9 [OF len])
qed

text \<open>The lines of the file.\<close>

lemma stat_line_free [simp]: "\<forall>t\<in>set name. newline \<notin> set t \<Longrightarrow> newline \<notin> set (stat_line name ns)"
proof -
  have sp: "newline \<noteq> CHR '' ''" by (simp add: newline_def)
  have j: "newline \<notin> set (join ts '' '')" if "\<forall>t\<in>set ts. newline \<notin> set t" for ts
    using that sp by (auto simp: join_def dest: in_set_butlastD)
  show "\<forall>t\<in>set name. newline \<notin> set t \<Longrightarrow> newline \<notin> set (stat_line name ns)"
    unfolding stat_line_def by (rule j) auto
qed

text \<open>The loop over the processors moves the current statistics of each to the previous ones.\<close>

lemma update_cpus_spec:
  assumes "\<forall>i<n. cpu_parse (lines ! (cpu + i + 1)) = Ret (st (cpu + i))"
    and "cpu + n \<le> length (cm_cpu_previous M)" and "length (cm_cpu_current M) = length (cm_cpu_previous M)"
  shows "\<exists>M1. update_cpus lines cpu n M = (Ret (), M1) \<and> cm_count M1 = cm_count M
    \<and> cm_total_previous M1 = cm_total_previous M \<and> cm_total_current M1 = cm_total_current M
    \<and> length (cm_cpu_previous M1) = length (cm_cpu_previous M) \<and> length (cm_cpu_current M1) = length (cm_cpu_previous M)
    \<and> (\<forall>i<length (cm_cpu_previous M). cm_cpu_previous M1 ! i = (if cpu \<le> i \<and> i < cpu + n then cm_cpu_current M else cm_cpu_previous M) ! i
         \<and> cm_cpu_current M1 ! i = (if cpu \<le> i \<and> i < cpu + n then st i else cm_cpu_current M ! i))"
  using assms
proof (induction n arbitrary: cpu M)
  case (Suc n)
  let ?M = "M\<lparr>cm_cpu_previous := (cm_cpu_previous M)[cpu := cm_cpu_current M ! cpu], cm_cpu_current := (cm_cpu_current M)[cpu := st cpu]\<rparr>"
  have p: "cpu_parse (lines ! (cpu + 1)) = Ret (st cpu)" using Suc.prems(1) [rule_format, of 0] by simp
  have q: "\<forall>i<n. cpu_parse (lines ! (cpu + 1 + i + 1)) = Ret (st (cpu + 1 + i))"
  proof (intro allI impI)
    fix i assume "i < n"
    then show "cpu_parse (lines ! (cpu + 1 + i + 1)) = Ret (st (cpu + 1 + i))"
      using Suc.prems(1) [rule_format, of "Suc i"] by simp
  qed
  have eq: "i = cpu" if "cpu \<le> i" "\<not> Suc cpu \<le> i" for i using that by simp
  have "cpu + 1 + n \<le> length (cm_cpu_previous ?M)" "length (cm_cpu_current ?M) = length (cm_cpu_previous ?M)"
    using Suc.prems(2,3) by simp_all
  from Suc.IH [OF q this] Suc.prems(2,3) show ?case
    by (elim exE conjE, intro exI) (auto simp: p [simplified] nth_list_update dest: eq)
qed simp

lemma cpu_update_proc_stat:
  assumes "monitor_wf M" and "fs ''/proc/stat'' = Some (proc_stat all cpus rest)"
    and "counters all" and "list_all counters cpus" and "cm_count M \<le> int (length cpus)" and "\<forall>t\<in>set rest. newline \<notin> set t"
  shows "\<exists>M1. cpu_update fs M = (Ret (Success ()), M1) \<and> monitor_wf M1 \<and> cm_count M1 = cm_count M
    \<and> cm_total_previous M1 = cm_total_current M \<and> cm_total_current M1 = statistics_of all
    \<and> (\<forall>i<nat (cm_count M). cm_cpu_previous M1 ! i = cm_cpu_current M ! i \<and> cm_cpu_current M1 ! i = statistics_of (cpus ! i))"
proof -
  let ?cpu = "\<lambda>(i, ns). stat_line [''cpu'' @ to_string_int (int i)] ns"
  let ?lines = "stat_line [''cpu'', []] all # map ?cpu (enumerate 0 cpus) @ rest"
  have sp: "CHR '' '' \<notin> set ''cpu''" "newline \<notin> set ''cpu''" by (simp_all add: newline_def)
  have "\<forall>t\<in>set ?lines. newline \<notin> set t" using assms(6) sp(2) by auto
  moreover have first: "cpu_parse (stat_line [''cpu'', []] all) = Ret (statistics_of all)"
    by (rule cpu_parse_line [OF assms(3)]) (use sp in auto)
  then have "stat_line [''cpu'', []] all \<noteq> []" by (auto simp: stat_line_def join_Cons)
  then have "?lines \<noteq> [[]]" by simp
  ultimately have lines: "split_char (proc_stat all cpus rest) newline False = ?lines"
    unfolding proc_stat_def by (intro split_join_free(1)) simp_all
  let ?M = "M\<lparr>cm_total_previous := cm_total_current M, cm_total_current := statistics_of all\<rparr>"
  have "\<forall>i<nat (cm_count M). cpu_parse (?lines ! (0 + i + 1)) = Ret (statistics_of (cpus ! (0 + i)))"
  proof (intro allI impI)
    fix i assume i: "i < nat (cm_count M)"
    then have l: "i < length cpus" using assms(5) by linarith
    then have "?lines ! (0 + i + 1) = stat_line [''cpu'' @ to_string_int (int i)] (cpus ! i)"
      by (simp add: nth_append nth_enumerate_eq)
    moreover have "counters (cpus ! i)" using assms(4) l by (simp add: list_all_length)
    ultimately show "cpu_parse (?lines ! (0 + i + 1)) = Ret (statistics_of (cpus ! (0 + i)))"
      using sp(1) by (simp add: cpu_parse_line)
  qed
  moreover have "0 + nat (cm_count M) \<le> length (cm_cpu_previous ?M)" "length (cm_cpu_current ?M) = length (cm_cpu_previous ?M)"
    using assms(1) by (simp_all add: monitor_wf_def)
  ultimately obtain M1 where M1: "update_cpus ?lines 0 (nat (cm_count M)) ?M = (Ret (), M1)" "cm_count M1 = cm_count M"
      "cm_total_previous M1 = cm_total_current M" "cm_total_current M1 = statistics_of all"
      "length (cm_cpu_previous M1) = nat (cm_count M)" "length (cm_cpu_current M1) = nat (cm_count M)"
      "\<forall>i<nat (cm_count M). cm_cpu_previous M1 ! i = cm_cpu_current M ! i \<and> cm_cpu_current M1 ! i = statistics_of (cpus ! i)"
    using update_cpus_spec [of "nat (cm_count M)" ?lines 0 "\<lambda>i. statistics_of (cpus ! i)" ?M] assms(1)
    by (auto simp: monitor_wf_def)
  have "nat (cm_count M + 1) \<le> length ?lines" using assms(1,5) by (simp add: monitor_wf_def)
  then show ?thesis
    using M1 first assms(1,2) by (auto simp: cpu_update_def cpu_read_def lines monitor_wf_def)
qed

lemma cpu_initialize_wf:
  assumes "cpu_initialize sysconf errno fs make_cpu_monitor = (Ret (Success ()), M)"
    and "fs ''/proc/stat'' = Some (proc_stat all cpus rest)"
    and "counters all" and "list_all counters cpus" and "int_of_long sysconf \<le> int (length cpus)" and "\<forall>t\<in>set rest. newline \<notin> set t"
  shows "monitor_wf M \<and> cm_count M = int_of_long sysconf"
proof -
  let ?n = "int_of_long sysconf"
  let ?M = "make_cpu_monitor\<lparr>cm_count := ?n, cm_cpu_previous := resize_statistics (nat ?n) [],
      cm_cpu_current := resize_statistics (nat ?n) []\<rparr>"
  have n: "- 1 \<noteq> ?n" "0 \<le> ?n" and u: "cpu_update fs ?M = (Ret (Success ()), M)"
    using assms(1) by (auto simp: cpu_initialize_def cpu_get_count_def Let_def make_cpu_monitor_def split: if_splits)
  have "monitor_wf ?M" using n by (simp add: monitor_wf_def resize_statistics_def)
  from cpu_update_proc_stat [where fs = fs, OF this assms(2-4) _ assms(6)] assms(5) u show ?thesis by auto
qed

text \<open>The last two readings decide what the queries of the monitor return.\<close>

lemma counter_difference_i64:
  "cpu < cm_count M \<Longrightarrow>
   counter_difference c cpu M
     = i64 (if cpu < 0 then c (cm_total_current M) - c (cm_total_previous M)
            else c (cm_cpu_current M ! nat cpu) - c (cm_cpu_previous M ! nat cpu))"
  by (simp add: counter_difference_def)

lemmas monitor_queries =
  cpu_user_def cpu_nice_def cpu_system_def cpu_idle_def cpu_iowait_def cpu_irq_def cpu_softirq_def cpu_steal_def
  cpu_guest_nice_def cpu_total_def

lemma queries_of_statistics:
  assumes "counters x" and "counters y" and "cpu < cm_count M"
    and "(if cpu < 0 then cm_total_previous M else cm_cpu_previous M ! nat cpu) = statistics_of x"
    and "(if cpu < 0 then cm_total_current M else cm_cpu_current M ! nat cpu) = statistics_of y"
  shows "map (\<lambda>q. q cpu M) [cpu_user, cpu_nice, cpu_system, cpu_idle, cpu_iowait, cpu_irq, cpu_softirq, cpu_steal, cpu_guest_nice]
      = map2 (\<lambda>b a. Ret (b - a)) (take 9 y) (take 9 x)"
    and "cpu_total cpu M = Ret (sum_list (take 9 y) - sum_list (take 9 x))"
    and "cpu_busy cpu M = Ret (sum_list (take 9 y) - sum_list (take 9 x) - (y ! 3 - x ! 3 + (y ! 4 - x ! 4)))"
proof -
  have d: "counter_difference c cpu M = i64 (c (statistics_of y) - c (statistics_of x))" for c
    using assms(3-5) by (simp add: counter_difference_i64 split: if_splits)
  have len: "9 \<le> length x" "9 \<le> length y" using assms(1,2) by (simp_all add: counters_def)
  have nonneg: "0 \<le> x ! i" "0 \<le> y ! i" if "i < 9" for i
    using assms(1,2) that by (auto simp: counters_def list_all_length)
  note p = nonneg [of 0] nonneg [of 1] nonneg [of 2] nonneg [of 3] nonneg [of 4] nonneg [of 5] nonneg [of 6] nonneg [of 7] nonneg [of 8]
  have s: "sum_list (take 9 x) \<le> LONG_MAX" "sum_list (take 9 y) \<le> LONG_MAX" using assms(1,2) by (simp_all add: counters_def)
  note s = s [unfolded take_9 [OF len(1)] take_9 [OF len(2)], simplified]
  have i: "i64 v = Ret v" if "- LONG_MAX \<le> v" "v \<le> LONG_MAX" for v using that by (simp add: i64_def LONG_MAX_def)
  show "map (\<lambda>q. q cpu M) [cpu_user, cpu_nice, cpu_system, cpu_idle, cpu_iowait, cpu_irq, cpu_softirq, cpu_steal, cpu_guest_nice]
      = map2 (\<lambda>b a. Ret (b - a)) (take 9 y) (take 9 x)"
    unfolding take_9 [OF len(1)] take_9 [OF len(2)] using s p
    by (simp add: monitor_queries d statistics_of_def i)
  show t: "cpu_total cpu M = Ret (sum_list (take 9 y) - sum_list (take 9 x))"
    unfolding monitor_queries d take_9 [OF len(1)] take_9 [OF len(2)] using s p
    by (simp add: statistics_of_def i take_9 [OF len(1)] take_9 [OF len(2)])
  show "cpu_busy cpu M = Ret (sum_list (take 9 y) - sum_list (take 9 x) - (y ! 3 - x ! 3 + (y ! 4 - x ! 4)))"
    unfolding cpu_busy_def t cpu_idle_def cpu_iowait_def d take_9 [OF len(1)] take_9 [OF len(2)] using s p
    by (simp add: statistics_of_def i res_bind_def)
qed

section \<open>Properties\<close>

text \<open>
  C26.  After two readings of \<open>/proc/stat\<close>, in the format of the kernel with any further columns and lines,
  every query of every processor and of the whole machine returns how far its column moved between the
  two, without overflow: the total is the sum of the first nine columns, and the busy time that without
  the idle and the waiting time.  The query for the guest time of niced processes reads the ninth column.
\<close>

theorem monitor_reports_differences:
  assumes "monitor_wf M" and "list_all counters [a, b]" and "list_all counters (as @ bs)"
    and "cm_count M \<le> int (length as)" and "cm_count M \<le> int (length bs)" and "\<forall>t\<in>set (ra @ rb). newline \<notin> set t"
    and "fs1 ''/proc/stat'' = Some (proc_stat a as ra)" and "fs2 ''/proc/stat'' = Some (proc_stat b bs rb)"
  shows "\<exists>M1 M2. cpu_update fs1 M = (Ret (Success ()), M1) \<and> cpu_update fs2 M1 = (Ret (Success ()), M2)
    \<and> (\<forall>cpu<cm_count M.
        let x = if cpu < 0 then a else as ! nat cpu; y = if cpu < 0 then b else bs ! nat cpu
        in map (\<lambda>q. q cpu M2) [cpu_user, cpu_nice, cpu_system, cpu_idle, cpu_iowait, cpu_irq, cpu_softirq, cpu_steal, cpu_guest_nice]
             = map2 (\<lambda>b a. Ret (b - a)) (take 9 y) (take 9 x)
         \<and> cpu_total cpu M2 = Ret (sum_list (take 9 y) - sum_list (take 9 x))
         \<and> cpu_busy cpu M2 = Ret (sum_list (take 9 y) - sum_list (take 9 x) - (y ! 3 - x ! 3 + (y ! 4 - x ! 4))))"
proof -
  have c: "counters a" "counters b" "list_all counters as" "list_all counters bs" using assms(2,3) by simp_all
  from cpu_update_proc_stat [where fs = fs1, OF assms(1,7) c(1,3) assms(4)] assms(6) obtain M1 where M1: "cpu_update fs1 M = (Ret (Success ()), M1)"
      "monitor_wf M1" "cm_count M1 = cm_count M" "cm_total_current M1 = statistics_of a"
      "\<forall>i<nat (cm_count M). cm_cpu_current M1 ! i = statistics_of (as ! i)" by auto
  from cpu_update_proc_stat [where fs = fs2, OF M1(2) assms(8) c(2,4)] assms(5,6) M1(3) obtain M2 where M2: "cpu_update fs2 M1 = (Ret (Success ()), M2)"
      "cm_count M2 = cm_count M" "cm_total_previous M2 = cm_total_current M1" "cm_total_current M2 = statistics_of b"
      "\<forall>i<nat (cm_count M). cm_cpu_previous M2 ! i = cm_cpu_current M1 ! i \<and> cm_cpu_current M2 ! i = statistics_of (bs ! i)" by auto
  have "let x = if cpu < 0 then a else as ! nat cpu; y = if cpu < 0 then b else bs ! nat cpu
        in map (\<lambda>q. q cpu M2) [cpu_user, cpu_nice, cpu_system, cpu_idle, cpu_iowait, cpu_irq, cpu_softirq, cpu_steal, cpu_guest_nice]
             = map2 (\<lambda>b a. Ret (b - a)) (take 9 y) (take 9 x)
         \<and> cpu_total cpu M2 = Ret (sum_list (take 9 y) - sum_list (take 9 x))
         \<and> cpu_busy cpu M2 = Ret (sum_list (take 9 y) - sum_list (take 9 x) - (y ! 3 - x ! 3 + (y ! 4 - x ! 4)))"
    if cpu: "cpu < cm_count M" for cpu
  proof -
    let ?x = "if cpu < 0 then a else as ! nat cpu" and ?y = "if cpu < 0 then b else bs ! nat cpu"
    have xy: "counters ?x" "counters ?y" using c cpu assms(4,5) by (auto simp: list_all_length)
    have "(if cpu < 0 then cm_total_previous M2 else cm_cpu_previous M2 ! nat cpu) = statistics_of ?x"
      "(if cpu < 0 then cm_total_current M2 else cm_cpu_current M2 ! nat cpu) = statistics_of ?y"
      using M1(4,5) M2(3-5) cpu by auto
    note q = queries_of_statistics [OF xy cpu [folded M2(2)] this]
    show ?thesis unfolding Let_def by (intro conjI q)
  qed
  with M1(1) M2(1) show ?thesis by blast
qed

definition stat_files :: "int \<Rightarrow> files" where
  "stat_files n = [''/proc/stat'' \<mapsto> proc_stat [n + 10, 0, 5, n + 90, 3, 0, 1, 0, 0, 0] [[n + 10, 0, 5, n + 90, 3, 0, 1, 0, 0, 0]] [''intr 7'', []]]"

theorem monitor_reports_differences_witness:
  "\<exists>M M1 M2. cpu_initialize 1 0 (stat_files 0) make_cpu_monitor = (Ret (Success ()), M)
    \<and> cpu_update (stat_files 2) M = (Ret (Success ()), M1) \<and> cpu_update (stat_files 7) M1 = (Ret (Success ()), M2)
    \<and> cpu_user 0 M2 = Ret 5 \<and> cpu_total 0 M2 = Ret 10 \<and> cpu_busy (- 1) M2 = Ret 5"
proof -
  let ?ns = "\<lambda>n :: int. [n + 10, 0, 5, n + 90, 3, 0, 1, 0, 0, 0]"
  have stat: "stat_files n ''/proc/stat'' = Some (proc_stat (?ns n) [?ns n] [''intr 7'', []])" for n by (simp add: stat_files_def)
  have c: "counters (?ns 0)" "counters (?ns 2)" "counters (?ns 7)" by (simp_all add: counters_def LONG_MAX_def)
  have free: "\<forall>t\<in>set [''intr 7'', []]. newline \<notin> set t" by (simp add: newline_def)
  have one: "int_of_long 1 = 1" by (simp add: int_of_long_def)
  let ?M0 = "make_cpu_monitor\<lparr>cm_count := 1, cm_cpu_previous := [zero_statistics], cm_cpu_current := [zero_statistics]\<rparr>"
  have i: "cpu_initialize 1 0 (stat_files 0) make_cpu_monitor = cpu_update (stat_files 0) ?M0"
    by (simp add: cpu_initialize_def cpu_get_count_def one make_cpu_monitor_def resize_statistics_def)
  have "monitor_wf ?M0" by (simp add: monitor_wf_def)
  from cpu_update_proc_stat [where fs = "stat_files 0", OF this stat c(1) _ _ free] c(1) obtain M
    where M: "cpu_initialize 1 0 (stat_files 0) make_cpu_monitor = (Ret (Success ()), M)" "monitor_wf M" "cm_count M = 1"
    unfolding i by auto
  have "\<forall>t\<in>set ([''intr 7'', []] @ [''intr 7'', []]). newline \<notin> set t" using free by simp
  from monitor_reports_differences [where ?fs1.0 = "stat_files 2" and ?fs2.0 = "stat_files 7", OF M(2) _ _ _ _ this stat stat] c M(3) obtain M1 M2
    where u: "cpu_update (stat_files 2) M = (Ret (Success ()), M1)" "cpu_update (stat_files 7) M1 = (Ret (Success ()), M2)"
      and q: "\<forall>cpu<1. let x = if cpu < 0 then ?ns 2 else [?ns 2] ! nat cpu; y = if cpu < 0 then ?ns 7 else [?ns 7] ! nat cpu
        in map (\<lambda>q. q cpu M2) [cpu_user, cpu_nice, cpu_system, cpu_idle, cpu_iowait, cpu_irq, cpu_softirq, cpu_steal, cpu_guest_nice]
             = map2 (\<lambda>b a. Ret (b - a)) (take 9 y) (take 9 x)
         \<and> cpu_total cpu M2 = Ret (sum_list (take 9 y) - sum_list (take 9 x))
         \<and> cpu_busy cpu M2 = Ret (sum_list (take 9 y) - sum_list (take 9 x) - (y ! 3 - x ! 3 + (y ! 4 - x ! 4)))"
    by auto
  from q [rule_format, of 0] q [rule_format, of "- 1"] M(1) u show ?thesis by (auto simp: Let_def)
qed

end
