(* ===== verification/Utility.thy ===== *)
theory Utility
  imports Strings
begin

text \<open>
  \<open>src/hlib_utility.cpp\<close>: \<open>get_env\<close>, the value of an environment variable as a type, or an alternative.

  The environment is a function from names to texts without NUL.  The standard conversions used here
  differ from those of \<open>Strings\<close>: they skip white space, ignore what follows the number, and throw
  only when there is no number or it does not fit a \<open>long\<close>; \<open>stod\<close> is a parameter, \<open>None\<close> when it throws.
\<close>

section \<open>Standard conversions\<close>

type_synonym environment = "string \<Rightarrow> string option"

definition getenv :: "environment \<Rightarrow> string \<Rightarrow> string option" where
  "getenv env name = env (c_str name)"

text \<open>\<open>std::stol\<close> and \<open>std::stoll\<close>, and \<open>std::stoull\<close>, with the base 10.\<close>

definition std_stol :: "string \<Rightarrow> int res" where
  "std_stol s =
     (case strtol (c_str s) 10 0 of
        ((r, pos), e) \<Rightarrow>
          if pos = Some 0 then Throw (Invalid_Argument ''stol'')
          else if e = ERANGE then Throw (Out_Of_Range ''stol'') else Ret r)"

definition std_stoull :: "string \<Rightarrow> int res" where
  "std_stoull s =
     (case strtoul (c_str s) 10 0 of
        ((r, pos), e) \<Rightarrow>
          if pos = Some 0 then Throw (Invalid_Argument ''stoull'')
          else if e = ERANGE then Throw (Out_Of_Range ''stoull'') else Ret r)"

definition strcasecmp_equal :: "string \<Rightarrow> string \<Rightarrow> bool" where
  "strcasecmp_equal a b \<longleftrightarrow> map tolower a = map tolower b"

definition int32_of_long :: "int \<Rightarrow> int" where
  "int32_of_long v = (v + 2 ^ 31) mod 2 ^ 32 - 2 ^ 31"

section \<open>\<open>get_env\<close>\<close>

definition catch_all :: "'a res \<Rightarrow> 'a \<Rightarrow> 'a res" where
  "catch_all r alt = (case r of Throw _ \<Rightarrow> Ret alt | _ \<Rightarrow> r)"

definition get_env_string :: "environment \<Rightarrow> string \<Rightarrow> string \<Rightarrow> string" where
  "get_env_string env name alt = (case getenv env name of None \<Rightarrow> alt | Some v \<Rightarrow> v)"

definition get_env_int32 :: "environment \<Rightarrow> string \<Rightarrow> int \<Rightarrow> int res" where
  "get_env_int32 env name alt =
     (case getenv env name of None \<Rightarrow> Ret alt | Some v \<Rightarrow> catch_all (map_res int32_of_long (std_stol v)) alt)"

definition get_env_int64 :: "environment \<Rightarrow> string \<Rightarrow> int \<Rightarrow> int res" where
  "get_env_int64 env name alt = (case getenv env name of None \<Rightarrow> Ret alt | Some v \<Rightarrow> catch_all (std_stol v) alt)"

definition get_env_double :: "(string \<Rightarrow> 'f option) \<Rightarrow> environment \<Rightarrow> string \<Rightarrow> 'f \<Rightarrow> 'f" where
  "get_env_double stod env name alt =
     (case getenv env name of None \<Rightarrow> alt | Some v \<Rightarrow> (case stod v of None \<Rightarrow> alt | Some d \<Rightarrow> d))"

definition get_env_bool :: "environment \<Rightarrow> string \<Rightarrow> bool \<Rightarrow> bool" where
  "get_env_bool env name alt =
     (case getenv env name of
        None \<Rightarrow> alt
      | Some v \<Rightarrow>
          if ''1'' = v \<or> strcasecmp_equal ''true'' v then True
          else if ''0'' = v \<or> strcasecmp_equal ''false'' v then True
          else alt)"

definition get_env_size :: "environment \<Rightarrow> string \<Rightarrow> int \<Rightarrow> int res" where
  "get_env_size env name alt = (case getenv env name of None \<Rightarrow> Ret alt | Some v \<Rightarrow> catch_all (std_stoull v) alt)"

section \<open>Properties\<close>

lemma scan_number_more:
  assumes "rest = [] \<or> \<not> is_digit 10 (hd rest)"
  shows "scan_number (dec_nat n @ rest) 10 = Some (False, n, length (dec_nat n))"
    and "scan_number (CHR ''-'' # dec_nat n @ rest) 10 = Some (True, n, Suc (length (dec_nat n)))"
proof -
  obtain c s where d: "dec_nat n = c # s" by (cases "dec_nat n") auto
  have c: "is_digit 10 c" "\<not> is_space c" "c \<noteq> CHR ''-''" "c \<noteq> CHR ''+''" using dec_nat_digits [of n] d by auto
  have t: "takeWhile (is_digit 10) (dec_nat n @ rest) = dec_nat n"
    using takeWhile_stop [of "is_digit 10" "dec_nat n" rest] assms dec_nat_digits [of n] by (simp add: list_all_iff)
  have "\<not> is_space (CHR ''-'')" by (simp add: is_space_def)
  then show "scan_number (dec_nat n @ rest) 10 = Some (False, n, length (dec_nat n))"
    and "scan_number (CHR ''-'' # dec_nat n @ rest) 10 = Some (True, n, Suc (length (dec_nat n)))"
    using t c by (simp_all add: scan_number_def scan_prefix_def d digits_value_dec [of n, unfolded d])
qed

text \<open>
  A variable that is unset gives the alternative, and so does one that begins with no number or with
  one outside 64 bits.  Otherwise the number at its beginning is returned and what follows it is ignored:
  as it is for a 64-bit integer, reduced to 32 bits for a 32-bit one, and modulo \<open>2 ^ 64\<close> for a size, for
  which a negative number is accepted too.
\<close>

theorem get_env_number:
  assumes "NUL \<notin> set name" and "env name = Some (to_string_int v @ rest)"
    and "rest = [] \<or> \<not> is_digit 10 (hd rest)" and "NUL \<notin> set rest" and "env other = None" and "NUL \<notin> set other"
  shows "get_env_int64 env name alt = Ret (if LONG_MIN \<le> v \<and> v \<le> LONG_MAX then v else alt)
    \<and> get_env_int32 env name alt = Ret (if LONG_MIN \<le> v \<and> v \<le> LONG_MAX then int32_of_long v else alt)
    \<and> get_env_size env name alt = Ret (if \<bar>v\<bar> \<le> ULONG_MAX then v mod 2 ^ 64 else alt)
    \<and> get_env_int64 env other alt = Ret alt \<and> get_env_int32 env other alt = Ret alt \<and> get_env_size env other alt = Ret alt"
proof -
  have c: "c_str (to_string_int v @ rest) = to_string_int v @ rest"
  proof (rule c_str_id)
    have "NUL \<notin> set (dec_nat n)" for n using dec_nat_digits by blast
    then show "NUL \<notin> set (to_string_int v @ rest)" using assms(4) by (simp add: to_string_int_def)
  qed
  obtain k where k: "scan_number (to_string_int v @ rest) 10 = Some (v < 0, nat \<bar>v\<bar>, Suc k)"
  proof (cases "v < 0")
    case True
    then show ?thesis using scan_number_more(2) [OF assms(3)] that by (simp add: to_string_int_def)
  next
    case False
    obtain m where "length (dec_nat (nat \<bar>v\<bar>)) = Suc m" by (cases "dec_nat (nat \<bar>v\<bar>)") auto
    then show ?thesis using scan_number_more(1) [OF assms(3)] that False by (simp add: to_string_int_def)
  qed
  have "getenv env name = Some (to_string_int v @ rest)" "getenv env other = None"
    using assms by (simp_all add: getenv_def c_str_id)
  moreover have "v mod 2 ^ 64 = v" if "0 \<le> v" "v \<le> ULONG_MAX" using that by (simp add: ULONG_MAX_def)
  ultimately show ?thesis
    using k by (auto simp: get_env_int64_def get_env_int32_def get_env_size_def std_stol_def std_stoull_def catch_all_def
        strtol_def strtoul_def c LONG_MIN_def LONG_MAX_def ERANGE_def ULONG_MAX_def)
qed

theorem get_env_number_witness:
  "get_env_int32 [''N'' \<mapsto> ''4294967297 bytes''] ''N'' 0 = Ret 1 \<and> get_env_size [''N'' \<mapsto> ''-1''] ''N'' 0 = Ret (2 ^ 64 - 1)"
proof -
  have t: "to_string_int 4294967297 = ''4294967297''" "to_string_int (- 1) = ''-1''" by code_simp+
  have "\<not> is_digit 10 (CHR '' '')" by (simp add: is_digit_def digit_value_def)
  then show ?thesis
    using get_env_number [of "''N''" "[''N'' \<mapsto> ''4294967297 bytes'']" 4294967297 "'' bytes''" "''X''" 0]
      get_env_number [of "''N''" "[''N'' \<mapsto> ''-1'']" "- 1" "[]" "''X''" 0]
    by (simp add: t int32_of_long_def LONG_MIN_def LONG_MAX_def ULONG_MAX_def)
qed

text \<open>The texts of false are read as true.\<close>

lemma get_env_bool_false:
  assumes "NUL \<notin> set name" and "env name = Some v" and "v = ''0'' \<or> map tolower v = ''false''"
  shows "get_env_bool env name alt"
proof -
  have "map tolower ''false'' = ''false''" by code_simp
  then show ?thesis using assms by (auto simp: get_env_bool_def getenv_def c_str_id strcasecmp_equal_def)
qed

end
