(* ===== verification/Socket.thy ===== *)
theory Socket
  imports Fdio Sock_Addr
begin

text \<open>
  \<open>src/hlib_socket.cpp\<close>: \<open>Socket\<close>, which listens, connects, and once it is connected reads and writes like
  \<open>FileDescriptorIO\<close>, with a handler in the event loop for each of the three.

  The object holds its members with the event loop, \<open>None\<close> when the weak pointer has expired, the bytes the
  kernel took, the descriptors it has closed and a world that callbacks change.  The event loop stores
  which member function is bound.  Callbacks work on the whole state, so that they may use the object; a
  descriptor that is handed to the accept callback belongs to it.  The answers of the system calls are
  arguments.
\<close>

section \<open>State\<close>

datatype socket_handler = On_Accept | On_Connect | On_Event

record ('c, 'k, 'q, 'w) socket =
  so_loop :: "(socket_handler, unit) event_loop option"
  so_fd :: int
  so_closed :: "int list"
  so_sent :: "u8 list"
  so_on_accept :: "'c option"
  so_on_connected :: "'c option"
  so_on_close :: "'c option"
  so_locked :: bool
  so_connected :: bool
  so_events :: u32
  so_receive_sink :: "'k sink option"
  so_receive_callback :: "'c option"
  so_send_queue :: "('q source option \<times> 'c option) list"
  so_world :: 'w

record ('c, 'k, 'q, 'w) socket_calls =
  call_accept :: "'c \<Rightarrow> int \<Rightarrow> sock_storage \<Rightarrow> ('c, 'k, 'q, 'w) socket \<Rightarrow> unit res \<times> ('c, 'k, 'q, 'w) socket"
  call_connected :: "'c \<Rightarrow> ('c, 'k, 'q, 'w) socket \<Rightarrow> unit res \<times> ('c, 'k, 'q, 'w) socket"
  call_received :: "'c \<Rightarrow> 'k sink option \<Rightarrow> ('c, 'k, 'q, 'w) socket \<Rightarrow> unit res \<times> ('c, 'k, 'q, 'w) socket"
  call_sent :: "'c \<Rightarrow> 'q source option \<Rightarrow> ('c, 'k, 'q, 'w) socket \<Rightarrow> unit res \<times> ('c, 'k, 'q, 'w) socket"
  call_close :: "'c \<Rightarrow> int \<Rightarrow> ('c, 'k, 'q, 'w) socket \<Rightarrow> unit res \<times> ('c, 'k, 'q, 'w) socket"

text \<open>
  The system calls of the set-up: a new descriptor, \<open>fcntl\<close> with the close-on-exec flag, reading and
  setting the status flags, the two options, \<open>bind\<close>, \<open>listen\<close> and \<open>connect\<close>, each an error number or
  success; \<open>accept\<close> gives a descriptor and an address.
\<close>

record setup_io =
  sys_socket :: "nat \<Rightarrow> int + int"
  sys_cloexec :: "int option"
  sys_getfl :: "int option"
  sys_setfl :: "int option"
  sys_reuse_addr :: "int option"
  sys_reuse_port :: "int option"
  sys_bind :: "u8 list \<Rightarrow> nat \<Rightarrow> int option"
  sys_listen :: "int \<Rightarrow> int option"
  sys_connect :: "u8 list \<Rightarrow> nat \<Rightarrow> int option"
  sys_accept :: "int + int \<times> sock_storage"

definition so_lock :: "('c, 'k, 'q, 'w) socket \<Rightarrow> unit res \<times> ('c, 'k, 'q, 'w) socket" where
  "so_lock S = (if so_locked S then (Fault Deadlock, S) else (Ret (), S\<lparr>so_locked := True\<rparr>))"

definition so_unlock :: "('c, 'k, 'q, 'w) socket \<Rightarrow> ('c, 'k, 'q, 'w) socket" where
  "so_unlock S = S\<lparr>so_locked := False\<rparr>"

definition so_with_loop ::
  "((socket_handler, unit) event_loop \<Rightarrow> unit res \<times> (socket_handler, unit) event_loop) \<Rightarrow> ('c, 'k, 'q, 'w) socket
     \<Rightarrow> bool res \<times> ('c, 'k, 'q, 'w) socket" where
  "so_with_loop f S =
     (case so_loop S of
        None \<Rightarrow> (Ret False, S)
      | Some L \<Rightarrow> (case f L of (r, L1) \<Rightarrow> (map_res (\<lambda>_. True) r, S\<lparr>so_loop := Some L1\<rparr>)))"

section \<open>Helpers\<close>

definition REUSE_ADDR :: u32 where "REUSE_ADDR = 1"
definition REUSE_PORT :: u32 where "REUSE_PORT = 2"
definition EINPROGRESS :: int where "EINPROGRESS = 115"

definition set_option :: "int option \<Rightarrow> bool" where
  "set_option setsockopt = Option.is_none setsockopt"

definition system_failure :: "int \<Rightarrow> string \<Rightarrow> 'a result" where
  "system_failure e what = Failure (Some (make_system_error e what))"

definition set_reuse :: "setup_io \<Rightarrow> u32 \<Rightarrow> unit result" where
  "set_reuse io options =
     (if 0 \<noteq> REUSE_ADDR AND options \<and> \<not> set_option (sys_reuse_addr io)
      then system_failure (the (sys_reuse_addr io)) ''setsocktopt(SO_REUSEADDR) failed''
      else if 0 \<noteq> REUSE_PORT AND options \<and> \<not> set_option (sys_reuse_port io)
      then system_failure (the (sys_reuse_port io)) ''setsocktopt(SO_REUSEPORT) failed''
      else Success ())"

text \<open>The result of \<open>file::fd_set_non_blocking\<close> on a new descriptor.\<close>

definition set_non_blocking :: "setup_io \<Rightarrow> unit result" where
  "set_non_blocking io =
     (case fst (fd_set_non_blocking_nothrow (sys_getfl io) (sys_setfl io) True 0) of Ret r \<Rightarrow> r | _ \<Rightarrow> Success ())"

text \<open>\<open>fstat\<close> gives the mode; \<open>getsockopt\<close> gives an error number of its own or the error of the socket.\<close>

definition is_socket :: "nat option \<Rightarrow> bool" where
  "is_socket fstat = (case fstat of None \<Rightarrow> False | Some mode \<Rightarrow> mode AND 0xF000 = 0xC000)"

definition get_socket_error :: "int + int \<Rightarrow> int" where
  "get_socket_error getsockopt = (case getsockopt of Inl errno \<Rightarrow> errno | Inr error \<Rightarrow> error)"

definition so_update_events_locked :: "epoll_ctl \<Rightarrow> u32 \<Rightarrow> ('c, 'k, 'q, 'w) socket \<Rightarrow> unit res \<times> ('c, 'k, 'q, 'w) socket" where
  "so_update_events_locked ctl events S =
     noexcept (and_then (if so_connected S then so_with_loop (event_loop_modify ctl (so_fd S) events) S else (Ret True, S))
       (\<lambda>_ S. (Ret (), S\<lparr>so_events := events\<rparr>)))"

section \<open>Closing\<close>

definition socket_close :: "epoll_ctl \<Rightarrow> ('c, 'k, 'q, 'w) socket \<Rightarrow> unit res \<times> ('c, 'k, 'q, 'w) socket" where
  "socket_close ctl S =
     noexcept (and_then (so_lock S) (\<lambda>_ S.
       if - 1 = so_fd S then (Ret (), so_unlock S)
       else and_then (so_with_loop (event_loop_remove ctl (so_fd S)) S) (\<lambda>_ S.
         let S = S\<lparr>so_closed := fd_close (so_fd S) (so_closed S), so_fd := - 1\<rparr>;
             S = S\<lparr>so_connected := False\<rparr>;
             S = S\<lparr>so_events := 0\<rparr>;
             S = S\<lparr>so_receive_sink := None, so_receive_callback := None\<rparr>;
             S = S\<lparr>so_send_queue := []\<rparr>
         in (Ret (), so_unlock S))))"

definition so_callback_and_close ::
  "('c, 'k, 'q, 'w) socket_calls \<Rightarrow> epoll_ctl \<Rightarrow> int \<Rightarrow> ('c, 'k, 'q, 'w) socket \<Rightarrow> unit res \<times> ('c, 'k, 'q, 'w) socket" where
  "so_callback_and_close calls ctl error S =
     and_then (case so_on_close S of None \<Rightarrow> (Ret (), S) | Some c \<Rightarrow> call_close calls c error S)
       (\<lambda>_. socket_close ctl)"

section \<open>Events\<close>

text \<open>
  \<open>errno\<close> is what an earlier call left there.  The handler goes on after it has closed the socket for an
  error condition.
\<close>

definition socket_on_accept ::
  "('c, 'k, 'q, 'w) socket_calls \<Rightarrow> epoll_ctl \<Rightarrow> setup_io \<Rightarrow> int \<Rightarrow> int \<Rightarrow> u32 \<Rightarrow> ('c, 'k, 'q, 'w) socket
     \<Rightarrow> unit res \<times> ('c, 'k, 'q, 'w) socket" where
  "socket_on_accept calls ctl io errno fd events S =
     (if \<not> so_fd S = fd then (Fault Assert_Failed, S)
      else if Option.is_none (so_on_accept S) then (Fault Assert_Failed, S)
      else
       and_then (if 0 \<noteq> EPOLLERR AND events then so_callback_and_close calls ctl errno S else (Ret (), S)) (\<lambda>_ S.
       case sys_accept io of
         Inl e \<Rightarrow> so_callback_and_close calls ctl e S
       | Inr (sock, address) \<Rightarrow>
           (case set_non_blocking io of
              Failure e \<Rightarrow>
                (case so_callback_and_close calls ctl (case error_code e of None \<Rightarrow> 0 | Some n \<Rightarrow> n) S of
                   (r, S) \<Rightarrow> (r, S\<lparr>so_closed := fd_close sock (so_closed S)\<rparr>))
            | Success _ \<Rightarrow>
                (case so_on_accept S of
                   None \<Rightarrow> (Throw Bad_Function_Call, S)
                 | Some c \<Rightarrow> call_accept calls c sock address S))))"

definition socket_on_connect ::
  "('c, 'k, 'q, 'w) socket_calls \<Rightarrow> epoll_ctl \<Rightarrow> int \<Rightarrow> int \<Rightarrow> ('c, 'k, 'q, 'w) socket \<Rightarrow> unit res \<times> ('c, 'k, 'q, 'w) socket" where
  "socket_on_connect calls ctl error fd S =
     (if 0 \<noteq> error then so_callback_and_close calls ctl error S
      else
       and_then (so_with_loop (\<lambda>L. and_then (event_loop_remove ctl fd L) (\<lambda>_ L.
                   event_loop_add ctl fd (so_events S) (Some (User_Handler On_Event)) L)) S) (\<lambda>success S.
       if \<not> success then so_callback_and_close calls ctl ENODEV S
       else
        let S = S\<lparr>so_connected := True\<rparr>
        in (case so_on_connected S of None \<Rightarrow> (Ret (), S) | Some c \<Rightarrow> call_connected calls c S)))"

text \<open>The closure \<open>completed\<close> of the read branch, and the two branches; a branch returns whether the function goes on.\<close>

definition receive_completed ::
  "('c, 'k, 'q, 'w) socket_calls \<Rightarrow> epoll_ctl \<Rightarrow> ('c, 'k, 'q, 'w) socket \<Rightarrow> unit res \<times> ('c, 'k, 'q, 'w) socket" where
  "receive_completed calls ctl S =
     and_then (so_update_events_locked ctl (so_events S AND NOT EPOLLIN) S) (\<lambda>_ S.
       let sink = so_receive_sink S; callback = so_receive_callback S;
           S = so_unlock (S\<lparr>so_receive_sink := None, so_receive_callback := None\<rparr>)
       in case callback of None \<Rightarrow> (Ret (), S) | Some c \<Rightarrow> call_received calls c sink S)"

definition so_on_readable ::
  "'k sink_vtable \<Rightarrow> ('c, 'k, 'q, 'w) socket_calls \<Rightarrow> epoll_ctl \<Rightarrow> fd_io \<Rightarrow> ('c, 'k, 'q, 'w) socket
     \<Rightarrow> bool res \<times> ('c, 'k, 'q, 'w) socket" where
  "so_on_readable V calls ctl io S =
     and_then (so_lock S) (\<lambda>_ S.
     case so_receive_sink S of
       None \<Rightarrow> (Fault Assert_Failed, S)
     | Some k \<Rightarrow>
         (case io_available io of
            Inl e \<Rightarrow> and_then (so_callback_and_close calls ctl e (so_unlock S)) (\<lambda>_ S. (Ret False, S))
          | Inr available \<Rightarrow>
              and_then (sink_headroom_limit V available k, S) (\<lambda>headroom S.
              let unextended = vt_size V (sk_impl k) in
              and_then (case sink_produce V headroom k of (r, k1) \<Rightarrow> (r, S\<lparr>so_receive_sink := Some k1\<rparr>)) (\<lambda>ptr S.
              if Option.is_none ptr
              then and_then (so_callback_and_close calls ctl ENOMEM (so_unlock S)) (\<lambda>_ S. (Ret False, S))
              else let k1 = the (so_receive_sink S) in
              (case io_read io headroom of
                 Inl e \<Rightarrow> and_then (so_callback_and_close calls ctl e (so_unlock S)) (\<lambda>_ S. (Ret False, S))
               | Inr bs \<Rightarrow>
                   if bs = []
                   then and_then (receive_completed calls ctl S) (\<lambda>_ S.
                        and_then (so_callback_and_close calls ctl 0 S) (\<lambda>_ S. (Ret False, S)))
                   else
                     and_then (case lift_impl k1 (vt_store V ptr bs (sk_impl k1)) of
                                 (r, k2) \<Rightarrow> (r, S\<lparr>so_receive_sink := Some k2\<rparr>)) (\<lambda>_ S.
                     let k2 = the (so_receive_sink S) in
                     and_then (case lift_impl k2 (vt_resize V (size_add unextended (length bs)) (sk_impl k2)) of
                                 (r, k3) \<Rightarrow> (r, S\<lparr>so_receive_sink := Some k3\<rparr>)) (\<lambda>_ S.
                     if sink_full V (the (so_receive_sink S))
                     then and_then (receive_completed calls ctl S) (\<lambda>_ S. (Ret True, S))
                     else (Ret True, so_unlock S))))))))"

definition so_on_writable ::
  "'q source_vtable \<Rightarrow> ('c, 'k, 'q, 'w) socket_calls \<Rightarrow> epoll_ctl \<Rightarrow> fd_io \<Rightarrow> ('c, 'k, 'q, 'w) socket
     \<Rightarrow> unit res \<times> ('c, 'k, 'q, 'w) socket" where
  "so_on_writable V calls ctl io S =
     and_then (so_lock S) (\<lambda>_ S.
     case so_send_queue S of
       [] \<Rightarrow> (Fault Assert_Failed, S)
     | (None, callback) # rest \<Rightarrow> (Fault Out_Of_Bounds, S)
     | (Some source, callback) # rest \<Rightarrow>
         and_then (source_available V source, S) (\<lambda>n S.
         and_then (source_peek V n source, S) (\<lambda>off S.
         and_then (source_read V off n source, S) (\<lambda>bs S.
         case io_write io bs of
           Inl e \<Rightarrow> so_callback_and_close calls ctl e (so_unlock S)
         | Inr sz \<Rightarrow>
             and_then (case source_consume V sz source of
                         (r, s1) \<Rightarrow> (r, S\<lparr>so_sent := so_sent S @ take sz bs, so_send_queue := (Some s1, callback) # rest\<rparr>)) (\<lambda>_ S.
             let s1 = the (fst (hd (so_send_queue S))) in
             and_then (source_empty V s1, S) (\<lambda>done S.
             if done
             then let S = S\<lparr>so_send_queue := tl (so_send_queue S)\<rparr> in
                  and_then (if so_send_queue S = [] then so_update_events_locked ctl (so_events S AND NOT EPOLLOUT) S
                            else (Ret (), S)) (\<lambda>_ S.
                  let S = so_unlock S in
                  (case callback of None \<Rightarrow> (Ret (), S) | Some c \<Rightarrow> call_sent calls c (Some s1) S))
             else (Ret (), so_unlock S)))))))"

text \<open>The error of the socket is that of \<open>io\<close>.\<close>

definition socket_on_event ::
  "'k sink_vtable \<Rightarrow> 'q source_vtable \<Rightarrow> ('c, 'k, 'q, 'w) socket_calls \<Rightarrow> epoll_ctl \<Rightarrow> fd_io \<Rightarrow> int \<Rightarrow> u32
     \<Rightarrow> ('c, 'k, 'q, 'w) socket \<Rightarrow> unit res \<times> ('c, 'k, 'q, 'w) socket" where
  "socket_on_event V W calls ctl io fd events S =
     (if \<not> so_fd S = fd then (Fault Assert_Failed, S)
      else if \<not> so_connected S then (Fault Assert_Failed, S)
      else if 0 \<noteq> (EPOLLERR OR EPOLLHUP) AND events then so_callback_and_close calls ctl (io_error io) S
      else
       and_then (if 0 \<noteq> EPOLLIN AND events then so_on_readable V calls ctl io S else (Ret True, S)) (\<lambda>go_on S.
       if \<not> go_on then (Ret (), S)
       else if 0 \<noteq> EPOLLOUT AND events then so_on_writable W calls ctl io S else (Ret (), S)))"

section \<open>Operations\<close>

definition make_socket :: "(socket_handler, unit) event_loop option \<Rightarrow> 'w \<Rightarrow> ('c, 'k, 'q, 'w) socket" where
  "make_socket loop w =
     \<lparr>so_loop = loop, so_fd = - 1, so_closed = [], so_sent = [], so_on_accept = None, so_on_connected = None,
      so_on_close = None, so_locked = False, so_connected = False, so_events = 0, so_receive_sink = None,
      so_receive_callback = None, so_send_queue = [], so_world = w\<rparr>"

definition socket_destroy :: "epoll_ctl \<Rightarrow> ('c, 'k, 'q, 'w) socket \<Rightarrow> unit res \<times> ('c, 'k, 'q, 'w) socket" where
  "socket_destroy ctl S = socket_close ctl S"

definition socket_fd :: "('c, 'k, 'q, 'w) socket \<Rightarrow> int" where
  "socket_fd S = so_fd S"

definition socket_is_connected :: "('c, 'k, 'q, 'w) socket \<Rightarrow> bool" where
  "socket_is_connected S = so_connected S"

text \<open>\<open>getpeername\<close> gives an error number or the storage it fills.\<close>

definition socket_peer_address :: "int + sock_storage \<Rightarrow> sock_storage \<Rightarrow> sock_storage" where
  "socket_peer_address getpeername old =
     (case getpeername of Inl e \<Rightarrow> make_sock_addr old | Inr storage \<Rightarrow> sock_addr_of_storage storage)"

definition socket_set_accept_callback :: "'c option \<Rightarrow> ('c, 'k, 'q, 'w) socket \<Rightarrow> ('c, 'k, 'q, 'w) socket" where
  "socket_set_accept_callback callback S = S\<lparr>so_on_accept := callback\<rparr>"

definition socket_set_connected_callback :: "'c option \<Rightarrow> ('c, 'k, 'q, 'w) socket \<Rightarrow> ('c, 'k, 'q, 'w) socket" where
  "socket_set_connected_callback callback S = S\<lparr>so_on_connected := callback\<rparr>"

definition socket_set_close_callback :: "'c option \<Rightarrow> ('c, 'k, 'q, 'w) socket \<Rightarrow> ('c, 'k, 'q, 'w) socket" where
  "socket_set_close_callback callback S = S\<lparr>so_on_close := callback\<rparr>"

text \<open>
  In the three operations that set up a descriptor, the handle that holds it closes it on every return
  before it is committed.
\<close>

definition drop_handle :: "int \<Rightarrow> ('c, 'k, 'q, 'w) socket \<Rightarrow> ('c, 'k, 'q, 'w) socket" where
  "drop_handle fd S = S\<lparr>so_closed := fd_close fd (so_closed S)\<rparr>"

definition socket_open_nothrow :: "epoll_ctl \<Rightarrow> int \<Rightarrow> int \<Rightarrow> ('c, 'k, 'q, 'w) socket \<Rightarrow> unit result res \<times> ('c, 'k, 'q, 'w) socket" where
  "socket_open_nothrow ctl error fd S =
     noexcept (and_then (socket_close ctl S) (\<lambda>_ S.
       let S = S\<lparr>so_events := EPOLLIN\<rparr> in
       and_then (so_with_loop (event_loop_add ctl fd (so_events S) (Some (User_Handler On_Event))) S) (\<lambda>success S.
       if \<not> success then (Ret (system_failure ENODEV ''Failed to lock event loop''), drop_handle fd S)
       else (Ret (Success ()), S\<lparr>so_fd := fd, so_connected := (0 = error)\<rparr>))))"

definition socket_open :: "epoll_ctl \<Rightarrow> int \<Rightarrow> int \<Rightarrow> ('c, 'k, 'q, 'w) socket \<Rightarrow> unit res \<times> ('c, 'k, 'q, 'w) socket" where
  "socket_open ctl error fd S = and_then (socket_open_nothrow ctl error fd S) success_or_throw"

definition make_socket_open ::
  "epoll_ctl \<Rightarrow> (socket_handler, unit) event_loop option \<Rightarrow> int \<Rightarrow> int \<Rightarrow> 'w \<Rightarrow> unit res \<times> ('c, 'k, 'q, 'w) socket" where
  "make_socket_open ctl loop error fd w = noexcept (socket_open ctl error fd (make_socket loop w))"

definition socket_listen_nothrow ::
  "epoll_ctl \<Rightarrow> setup_io \<Rightarrow> sock_storage \<Rightarrow> int \<Rightarrow> u32 \<Rightarrow> ('c, 'k, 'q, 'w) socket \<Rightarrow> unit result res \<times> ('c, 'k, 'q, 'w) socket" where
  "socket_listen_nothrow ctl io address backlog options S =
     noexcept (and_then (socket_close ctl S) (\<lambda>_ S.
       let S = S\<lparr>so_events := EPOLLIN\<rparr> in
       case sys_socket io (sock_addr_family address) of
         Inl e \<Rightarrow> (Ret (system_failure e ''socket() failed''), S)
       | Inr fd \<Rightarrow>
       case sys_cloexec io of
         Some e \<Rightarrow> (Ret (system_failure e ''fcntl() failed''), drop_handle fd S)
       | None \<Rightarrow>
       case set_non_blocking io of
         Failure e \<Rightarrow> (Ret (Failure e), drop_handle fd S)
       | Success _ \<Rightarrow>
       case set_reuse io options of
         Failure e \<Rightarrow> (Ret (Failure e), drop_handle fd S)
       | Success _ \<Rightarrow>
       case sys_bind io address (sock_addr_length address) of
         Some e \<Rightarrow> (Ret (system_failure e ''bind() failed''), drop_handle fd S)
       | None \<Rightarrow>
       case sys_listen io backlog of
         Some e \<Rightarrow> (Ret (system_failure e ''listen() failed''), drop_handle fd S)
       | None \<Rightarrow>
       and_then (so_with_loop (event_loop_add ctl fd (so_events S) (Some (User_Handler On_Accept))) S) (\<lambda>success S.
       if \<not> success then (Ret (system_failure ENODEV ''Event loop not available''), drop_handle fd S)
       else (Ret (Success ()), S\<lparr>so_fd := fd\<rparr>))))"

definition socket_listen ::
  "epoll_ctl \<Rightarrow> setup_io \<Rightarrow> sock_storage \<Rightarrow> int \<Rightarrow> u32 \<Rightarrow> ('c, 'k, 'q, 'w) socket \<Rightarrow> unit res \<times> ('c, 'k, 'q, 'w) socket" where
  "socket_listen ctl io address backlog options S =
     and_then (socket_listen_nothrow ctl io address backlog options S) success_or_throw"

definition socket_connect_nothrow ::
  "('c, 'k, 'q, 'w) socket_calls \<Rightarrow> epoll_ctl \<Rightarrow> setup_io \<Rightarrow> sock_storage \<Rightarrow> u32 \<Rightarrow> ('c, 'k, 'q, 'w) socket
     \<Rightarrow> unit result res \<times> ('c, 'k, 'q, 'w) socket" where
  "socket_connect_nothrow calls ctl io address options S =
     noexcept (and_then (socket_close ctl S) (\<lambda>_ S.
       let callback = On_Event; events = EPOLLIN; S = S\<lparr>so_events := events\<rparr> in
       case sys_socket io (sock_addr_family address) of
         Inl e \<Rightarrow> (Ret (system_failure e ''socket() failed''), S)
       | Inr fd \<Rightarrow>
       case set_non_blocking io of
         Failure e \<Rightarrow> (Ret (Failure e), drop_handle fd S)
       | Success _ \<Rightarrow>
       case set_reuse io options of
         Failure e \<Rightarrow> (Ret (Failure e), drop_handle fd S)
       | Success _ \<Rightarrow>
       and_then (case sys_connect io address (sock_addr_length address) of
                   Some e \<Rightarrow> if EINPROGRESS \<noteq> e then (Ret (Inl e), S) else (Ret (Inr (On_Connect, events OR EPOLLOUT)), S)
                 | None \<Rightarrow> (Ret (Inr (callback, events)), S\<lparr>so_connected := True\<rparr>)) (\<lambda>pending S.
       case pending of
         Inl e \<Rightarrow> (Ret (system_failure e ''connect() failed''), drop_handle fd S)
       | Inr (callback, events) \<Rightarrow>
       and_then (so_with_loop (event_loop_add ctl fd events (Some (User_Handler callback))) S) (\<lambda>success S.
       if \<not> success then (Ret (system_failure ENODEV ''Event loop not available''), drop_handle fd S)
       else
        let S = S\<lparr>so_fd := fd\<rparr> in
        and_then (case so_on_connected S of
                    Some c \<Rightarrow> if so_connected S then call_connected calls c S else (Ret (), S)
                  | None \<Rightarrow> (Ret (), S)) (\<lambda>_ S.
        (Ret (Success ()), S))))))"

definition socket_connect ::
  "('c, 'k, 'q, 'w) socket_calls \<Rightarrow> epoll_ctl \<Rightarrow> setup_io \<Rightarrow> sock_storage \<Rightarrow> u32 \<Rightarrow> ('c, 'k, 'q, 'w) socket
     \<Rightarrow> unit res \<times> ('c, 'k, 'q, 'w) socket" where
  "socket_connect calls ctl io address options S =
     and_then (socket_connect_nothrow calls ctl io address options S) success_or_throw"

definition socket_receive ::
  "epoll_ctl \<Rightarrow> 'k sink option \<Rightarrow> 'c option \<Rightarrow> ('c, 'k, 'q, 'w) socket \<Rightarrow> unit res \<times> ('c, 'k, 'q, 'w) socket" where
  "socket_receive ctl sink callback S =
     and_then (so_lock S) (\<lambda>_ S.
       let events = (if \<not> Option.is_none sink then so_events S OR EPOLLIN else so_events S AND NOT EPOLLIN) in
       and_then (if events \<noteq> so_events S then so_update_events_locked ctl events S else (Ret (), S)) (\<lambda>_ S.
         (Ret (), so_unlock (S\<lparr>so_receive_sink := sink, so_receive_callback := callback\<rparr>))))"

definition socket_send ::
  "epoll_ctl \<Rightarrow> 'q source option \<Rightarrow> 'c option \<Rightarrow> ('c, 'k, 'q, 'w) socket \<Rightarrow> unit res \<times> ('c, 'k, 'q, 'w) socket" where
  "socket_send ctl source callback S =
     and_then (so_lock S) (\<lambda>_ S.
       let events = (if so_send_queue S = [] then so_events S OR EPOLLOUT else so_events S);
           S = S\<lparr>so_send_queue := so_send_queue S @ [(source, callback)]\<rparr> in
       and_then (if events \<noteq> so_events S then so_update_events_locked ctl events S else (Ret (), S)) (\<lambda>_ S.
         (Ret (), so_unlock S)))"

text \<open>The overload without a callback.\<close>

definition socket_send_only :: "epoll_ctl \<Rightarrow> 'q source option \<Rightarrow> ('c, 'k, 'q, 'w) socket \<Rightarrow> unit res \<times> ('c, 'k, 'q, 'w) socket" where
  "socket_send_only ctl source S = socket_send ctl source None S"

text \<open>What the event loop calls for the handler that is registered.\<close>

definition socket_handle ::
  "'k sink_vtable \<Rightarrow> 'q source_vtable \<Rightarrow> ('c, 'k, 'q, 'w) socket_calls \<Rightarrow> epoll_ctl \<Rightarrow> setup_io \<Rightarrow> fd_io \<Rightarrow> socket_handler
     \<Rightarrow> int \<Rightarrow> u32 \<Rightarrow> ('c, 'k, 'q, 'w) socket \<Rightarrow> unit res \<times> ('c, 'k, 'q, 'w) socket" where
  "socket_handle V W calls ctl setup io h fd events S =
     (case h of
        On_Accept \<Rightarrow> socket_on_accept calls ctl setup (io_error io) fd events S
      | On_Connect \<Rightarrow> socket_on_connect calls ctl (io_error io) fd S
      | On_Event \<Rightarrow> socket_on_event V W calls ctl io fd events S)"

end
