(* ===== verification/Socket_Fdio.thy ===== *)
theory Socket_Fdio
  imports Socket
begin

text \<open>
  What \<open>Socket\<close> does once it is connected: a simulation by the objects of \<open>Fdio\<close>, step by step, and from it
  that what is sent arrives in order, also what is sent while the connection is being set up.  At the end,
  the inputs on which the code does not do what it means to.
\<close>

section \<open>A connected socket as a FileDescriptorIO\<close>

text \<open>
  The object of \<open>Fdio\<close> that a socket corresponds to, under a function from the world of the one to that of
  the other.
\<close>

definition loop_fdio :: "(socket_handler, unit) event_loop \<Rightarrow> (unit, unit) event_loop" where
  "loop_fdio L =
     \<lparr>el_pipe_fd = el_pipe_fd L, el_pipe = el_pipe L, el_interrupt = el_interrupt L, el_locked = el_locked L,
      el_thread_id = el_thread_id L,
      el_callbacks = (\<lambda>fd. map_option (map_option (map_handler (\<lambda>_. ()))) (el_callbacks L fd)),
      el_interest = el_interest L, el_world = ()\<rparr>"

definition socket_fdio :: "('w \<Rightarrow> 'v) \<Rightarrow> ('c, 'k, 'q, 'w) socket \<Rightarrow> ('c, 'k, 'q, 'v) fdio" where
  "socket_fdio pw S =
     \<lparr>fio_loop = map_option loop_fdio (so_loop S), fio_fd = so_fd S, fio_closed = so_closed S, fio_sent = so_sent S,
      fio_on_close = so_on_close S, fio_locked = so_locked S, fio_events = so_events S,
      fio_read_sink = so_receive_sink S, fio_read_callback = so_receive_callback S, fio_write_queue = so_send_queue S,
      fio_world = pw (so_world S)\<rparr>"

text \<open>A call of the one does what a call of the other does, and a return leaves the socket in \<open>P\<close>.\<close>

definition simulates ::
  "('w \<Rightarrow> 'v) \<Rightarrow> ('a \<Rightarrow> ('c, 'k, 'q, 'w) socket \<Rightarrow> bool) \<Rightarrow> 'a res \<times> ('c, 'k, 'q, 'w) socket \<Rightarrow> 'a res \<times> ('c, 'k, 'q, 'v) fdio \<Rightarrow> bool" where
  "simulates pw P x y \<longleftrightarrow> y = map_prod id (socket_fdio pw) x \<and> (\<forall>a. fst x = Ret a \<longrightarrow> P a (snd x))"

named_theorems socket_views

lemma socket_fdio_sel [simp]:
  "fio_loop (socket_fdio pw S) = map_option loop_fdio (so_loop S)" "fio_fd (socket_fdio pw S) = so_fd S"
  "fio_closed (socket_fdio pw S) = so_closed S" "fio_sent (socket_fdio pw S) = so_sent S"
  "fio_on_close (socket_fdio pw S) = so_on_close S" "fio_locked (socket_fdio pw S) = so_locked S"
  "fio_events (socket_fdio pw S) = so_events S" "fio_read_sink (socket_fdio pw S) = so_receive_sink S"
  "fio_read_callback (socket_fdio pw S) = so_receive_callback S" "fio_write_queue (socket_fdio pw S) = so_send_queue S"
  "fio_world (socket_fdio pw S) = pw (so_world S)"
  by (simp_all add: socket_fdio_def)

lemma socket_fdio_update [socket_views]:
  "(socket_fdio pw S)\<lparr>fio_loop := Some (loop_fdio L)\<rparr> = socket_fdio pw (S\<lparr>so_loop := Some L\<rparr>)"
  "(socket_fdio pw S)\<lparr>fio_fd := fd\<rparr> = socket_fdio pw (S\<lparr>so_fd := fd\<rparr>)"
  "(socket_fdio pw S)\<lparr>fio_closed := l\<rparr> = socket_fdio pw (S\<lparr>so_closed := l\<rparr>)"
  "(socket_fdio pw S)\<lparr>fio_sent := bs\<rparr> = socket_fdio pw (S\<lparr>so_sent := bs\<rparr>)"
  "(socket_fdio pw S)\<lparr>fio_locked := b\<rparr> = socket_fdio pw (S\<lparr>so_locked := b\<rparr>)"
  "(socket_fdio pw S)\<lparr>fio_events := e\<rparr> = socket_fdio pw (S\<lparr>so_events := e\<rparr>)"
  "(socket_fdio pw S)\<lparr>fio_read_sink := k\<rparr> = socket_fdio pw (S\<lparr>so_receive_sink := k\<rparr>)"
  "(socket_fdio pw S)\<lparr>fio_read_callback := cb\<rparr> = socket_fdio pw (S\<lparr>so_receive_callback := cb\<rparr>)"
  "(socket_fdio pw S)\<lparr>fio_write_queue := q\<rparr> = socket_fdio pw (S\<lparr>so_send_queue := q\<rparr>)"
  "fio_unlock (socket_fdio pw S) = socket_fdio pw (so_unlock S)"
  by (simp_all add: socket_fdio_def fio_unlock_def so_unlock_def)

lemma socket_fdio_connected [socket_views]: "socket_fdio pw (S\<lparr>so_connected := b\<rparr>) = socket_fdio pw S"
  by (simp add: socket_fdio_def)

lemma so_unlock_sel [simp]:
  "so_connected (so_unlock S) = so_connected S" "so_send_queue (so_unlock S) = so_send_queue S"
  "so_receive_sink (so_unlock S) = so_receive_sink S" "so_events (so_unlock S) = so_events S" "so_fd (so_unlock S) = so_fd S"
  "so_loop (so_unlock S) = so_loop S" "so_world (so_unlock S) = so_world S"
  by (simp_all add: so_unlock_def)

lemma simulates_pair: "F = socket_fdio pw S \<Longrightarrow> (\<And>a. r = Ret a \<Longrightarrow> P a S) \<Longrightarrow> simulates pw P (r, S) (r, F)"
  by (simp add: simulates_def)

lemma simulates_and_then:
  assumes "simulates pw Q x y"
    and "\<And>a S. x = (Ret a, S) \<Longrightarrow> Q a S \<Longrightarrow> simulates pw P (k a S) (k' a (socket_fdio pw S))"
  shows "simulates pw P (and_then x k) (and_then y k')"
proof (cases x)
  case (Pair r S)
  with assms(1) have y: "y = (r, socket_fdio pw S)" by (simp add: simulates_def)
  show ?thesis
  proof (cases r)
    case (Ret a)
    with assms Pair y show ?thesis by (simp add: simulates_def)
  qed (simp_all add: Pair y simulates_def)
qed

lemma simulates_weaken: "simulates pw Q x y \<Longrightarrow> (\<And>a S. Q a S \<Longrightarrow> P a S) \<Longrightarrow> simulates pw P x y"
  by (auto simp: simulates_def)

lemma simulates_noexcept: "simulates pw P x y \<Longrightarrow> simulates pw P (noexcept x) (noexcept y)"
  by (cases x rule: noexcept.cases) (auto simp: simulates_def)

lemma simulates_lock: "simulates pw (\<lambda>_ T. T = S\<lparr>so_locked := True\<rparr>) (so_lock S) (fio_lock (socket_fdio pw S))"
  by (simp add: so_lock_def fio_lock_def simulates_def socket_views)

lemma loop_fdio_commutes:
  "event_loop_modify ctl fd events (loop_fdio L) = map_prod id loop_fdio (event_loop_modify ctl fd events L)"
  "event_loop_remove ctl fd (loop_fdio L) = map_prod id loop_fdio (event_loop_remove ctl fd L)"
  by (auto simp: event_loop_modify_def event_loop_modify_nothrow_def event_loop_remove_def loop_fdio_def fun_eq_iff
      Option.is_none_def split: option.splits)

lemma simulates_with_loop:
  assumes "\<And>L. f' (loop_fdio L) = map_prod id loop_fdio (f L)"
  shows "simulates pw (\<lambda>_ T. \<exists>l. T = S\<lparr>so_loop := l\<rparr>) (so_with_loop f S) (with_loop f' (socket_fdio pw S))"
proof (cases "so_loop S")
  case None
  have "\<exists>l. S = S\<lparr>so_loop := l\<rparr>" by (rule exI [of _ "so_loop S"]) simp
  with None show ?thesis by (simp add: so_with_loop_def with_loop_def simulates_def)
next
  case (Some L)
  obtain r L1 where f: "f L = (r, L1)" by fastforce
  show ?thesis
    by (auto simp: so_with_loop_def with_loop_def Some assms f socket_views intro!: simulates_pair)
qed

lemma simulates_update_events:
  assumes "so_connected S"
  shows "simulates pw (\<lambda>_ T. \<exists>l e. T = S\<lparr>so_loop := l, so_events := e\<rparr>)
    (so_update_events_locked ctl events S) (update_events_locked ctl events (socket_fdio pw S))"
  unfolding so_update_events_locked_def update_events_locked_def socket_fdio_sel if_P [OF assms]
  by (intro simulates_noexcept simulates_and_then [OF simulates_with_loop] loop_fdio_commutes simulates_pair)
    (auto simp: socket_views)

lemma simulates_close: "simulates pw (\<lambda>_ T. so_fd T = - 1 \<and> so_send_queue T = (if so_fd S = - 1 then so_send_queue S else []))
    (socket_close ctl S) (fdio_close ctl (socket_fdio pw S))"
  unfolding socket_close_def fdio_close_def
proof (intro simulates_noexcept simulates_and_then [OF simulates_lock], goal_cases)
  case (1 a T)
  show ?case
  proof (cases "- 1 = so_fd T")
    case True
    with 1 show ?thesis by (auto simp: socket_views intro!: simulates_pair)
  next
    case False
    with 1 show ?thesis
      unfolding socket_fdio_sel if_not_P [OF False]
      by (intro simulates_and_then [OF simulates_with_loop] loop_fdio_commutes)
        (auto simp: Let_def socket_fdio_def fio_unlock_def so_unlock_def intro!: simulates_pair)
  qed
qed

text \<open>
  Callbacks that correspond: they leave the objects in correspondence, and one for a received sink keeps the
  socket connected or leaves nothing to send.
\<close>

definition calls_agree :: "('w \<Rightarrow> 'v) \<Rightarrow> ('c, 'k, 'q, 'w) socket_calls \<Rightarrow> ('c, 'k, 'q, 'v) fdio_calls \<Rightarrow> bool" where
  "calls_agree pw calls fcalls \<longleftrightarrow>
     (\<forall>c k S. so_connected S \<longrightarrow> simulates pw (\<lambda>_ T. so_connected T \<or> so_send_queue T = [])
        (call_received calls c k S) (on_read fcalls c k (socket_fdio pw S))) \<and>
     (\<forall>c s S. simulates pw (\<lambda>_ _. True) (call_sent calls c s S) (on_written fcalls c s (socket_fdio pw S))) \<and>
     (\<forall>c e S. simulates pw (\<lambda>_ _. True) (call_close calls c e S) (on_close fcalls c e (socket_fdio pw S)))"

lemma simulates_callback_and_close:
  assumes "calls_agree pw calls fcalls"
  shows "simulates pw (\<lambda>_ _. True) (so_callback_and_close calls ctl e S) (callback_and_close fcalls ctl e (socket_fdio pw S))"
  unfolding so_callback_and_close_def callback_and_close_def socket_fdio_sel
proof (rule simulates_and_then [where Q = "\<lambda>_ _. True"])
  show "simulates pw (\<lambda>_ _. True) (case so_on_close S of None \<Rightarrow> (Ret (), S) | Some c \<Rightarrow> call_close calls c e S)
      (case so_on_close S of None \<Rightarrow> (Ret (), socket_fdio pw S) | Some c \<Rightarrow> on_close fcalls c e (socket_fdio pw S))"
    using assms by (cases "so_on_close S") (auto simp: calls_agree_def intro: simulates_pair)
qed (rule simulates_weaken [OF simulates_close], simp)

lemma simulates_receive_completed:
  assumes "calls_agree pw calls fcalls" and "so_connected S"
  shows "simulates pw (\<lambda>_ T. so_connected T \<or> so_send_queue T = []) (receive_completed calls ctl S) (read_completed fcalls ctl (socket_fdio pw S))"
  unfolding receive_completed_def read_completed_def socket_fdio_sel
proof (rule simulates_and_then [OF simulates_update_events [OF assms(2)]])
  fix a T assume "\<exists>l e. T = S\<lparr>so_loop := l, so_events := e\<rparr>"
  then obtain l e where T: "T = S\<lparr>so_loop := l, so_events := e\<rparr>" by blast
  show "simulates pw (\<lambda>_ T. so_connected T \<or> so_send_queue T = [])
      (let sink = so_receive_sink T; callback = so_receive_callback T;
           S = so_unlock (T\<lparr>so_receive_sink := None, so_receive_callback := None\<rparr>)
       in case callback of None \<Rightarrow> (Ret (), S) | Some c \<Rightarrow> call_received calls c sink S)
      (let sink = fio_read_sink (socket_fdio pw T); callback = fio_read_callback (socket_fdio pw T);
           F = fio_unlock ((socket_fdio pw T)\<lparr>fio_read_sink := None, fio_read_callback := None\<rparr>)
       in case callback of None \<Rightarrow> (Ret (), F) | Some c \<Rightarrow> on_read fcalls c sink F)"
    using assms T by (cases "so_receive_callback T") (auto simp: socket_views calls_agree_def intro!: simulates_pair)
qed

lemma simulates_res: "simulates pw (\<lambda>_ T. T = S) (r, S) (r, socket_fdio pw S)"
  by (simp add: simulates_def)

lemma simulates_then_stop:
  assumes "simulates pw Q x y"
  shows "simulates pw (\<lambda>b _. \<not> b) (and_then x (\<lambda>_ S. (Ret False, S))) (and_then y (\<lambda>_ F. (Ret False, F)))"
  by (rule simulates_and_then [OF assms]) (rule simulates_pair, simp_all)

lemma simulates_then_go:
  assumes "simulates pw Q x y" and "\<And>a T. Q a T \<Longrightarrow> R True T"
  shows "simulates pw R (and_then x (\<lambda>_ S. (Ret True, S))) (and_then y (\<lambda>_ F. (Ret True, F)))"
  by (rule simulates_and_then [OF assms(1)]) (rule simulates_pair, simp_all add: assms(2))

lemma simulates_sink:
  "simulates pw (\<lambda>_ T. \<exists>k. T = S\<lparr>so_receive_sink := Some k\<rparr>)
    (case p of (r, k) \<Rightarrow> (r, S\<lparr>so_receive_sink := Some k\<rparr>))
    (case p of (r, k) \<Rightarrow> (r, (socket_fdio pw S)\<lparr>fio_read_sink := Some k\<rparr>))"
  by (cases p) (auto simp: socket_views intro: simulates_pair)

text \<open>The read branch.\<close>

lemma simulates_readable:
  assumes "calls_agree pw calls fcalls" and "so_connected S"
  shows "simulates pw (\<lambda>go T. go \<longrightarrow> so_connected T \<or> so_send_queue T = [])
    (so_on_readable V calls ctl io S) (on_readable V fcalls ctl io (socket_fdio pw S))"
  unfolding so_on_readable_def on_readable_def
proof (rule simulates_and_then [OF simulates_lock], goal_cases)
  case (1 a T)
  then have T: "so_connected T" using assms(2) by simp
  note stop = simulates_weaken [OF simulates_then_stop [OF simulates_callback_and_close [OF assms(1)]]]
  show ?case
  proof (cases "so_receive_sink T")
    case None
    then show ?thesis by (simp add: simulates_def)
  next
    case (Some k)
    show ?thesis
    proof (cases "io_available io")
      case (Inl e)
      with Some show ?thesis by (auto simp: socket_views intro: stop)
    next
      case (Inr available)
      show ?thesis
        unfolding socket_fdio_sel Some Inr option.case sum.case
      proof (rule simulates_and_then [OF simulates_res], goal_cases)
        case (1 headroom U)
        then have U: "so_connected U" using T by simp
        show ?case unfolding Let_def
        proof (rule simulates_and_then [OF simulates_sink], goal_cases)
          case (1 ptr W)
          then have W: "so_connected W" using U by auto
          show ?case
          proof (cases ptr)
            case None
            then show ?thesis by (auto simp: socket_views intro: stop)
          next
            case (Some off)
            show ?thesis
            proof (cases "io_read io headroom")
              case (Inl e)
              with Some show ?thesis by (auto simp: socket_views intro: stop)
            next
              case (Inr bs)
              show ?thesis
              proof (cases "bs = []")
                case True
                then show ?thesis using Some Inr
                  by (auto intro!: simulates_and_then [OF simulates_receive_completed [OF assms(1) W]] stop)
              next
                case False
                with Some Inr show ?thesis
                  unfolding socket_fdio_sel
                proof (simp only: if_not_P Option.is_none_simps not_False_eq_True if_False sum.case, goal_cases)
                  case 1
                  show ?case
                  proof (rule simulates_and_then [OF simulates_sink], goal_cases)
                    case (1 u X)
                    then have X: "so_connected X" using W by auto
                    show ?case
                      unfolding socket_fdio_sel
                    proof (rule simulates_and_then [OF simulates_sink], goal_cases)
                      case (1 v Y)
                      then have Y: "so_connected Y" using X by auto
                      then show ?case
                        by (auto simp: socket_views intro!: simulates_pair
                            intro: simulates_then_go [OF simulates_receive_completed [OF assms(1) Y]])
                    qed
                  qed
                qed
              qed
            qed
          qed
        qed
      qed
    qed
  qed
qed

lemma and_then_assoc: "and_then (and_then r k) h = and_then r (\<lambda>a s. and_then (k a s) h)"
  by (cases r; cases "fst r") auto

lemma and_then_unit: "and_then y (\<lambda>_ s. (Ret (), s)) = y"
  by (cases y; cases "fst y") auto

text \<open>The write branch; there its result no longer matters.\<close>

lemma simulates_writable:
  assumes "calls_agree pw calls fcalls" and "so_connected S \<or> so_send_queue S = []"
  shows "simulates pw (\<lambda>_ _. True) (so_on_writable V calls ctl io S)
    (and_then (on_writable V fcalls ctl io (socket_fdio pw S)) (\<lambda>_ F. (Ret (), F)))"
  unfolding so_on_writable_def on_writable_def and_then_assoc
proof (rule simulates_and_then [OF simulates_lock], goal_cases)
  case (1 a T)
  then have T: "so_connected T \<or> so_send_queue T = []" using assms(2) by simp
  note cb = simulates_callback_and_close [OF assms(1)]
  show ?case
  proof (cases "so_send_queue T = [] \<or> fst (hd (so_send_queue T)) = None")
    case True
    then show ?thesis by (cases "so_send_queue T"; cases "hd (so_send_queue T)") (auto simp: simulates_def)
  next
    case False
    then obtain source callback rest where q: "so_send_queue T = (Some source, callback) # rest"
      by (cases "so_send_queue T"; cases "hd (so_send_queue T)") auto
    then have T: "so_connected T" using T by simp
    show ?thesis
      unfolding socket_fdio_sel q list.case prod.case option.case and_then_assoc
    proof (rule simulates_and_then [OF simulates_res], goal_cases)
      case (1 n U)
      show ?case
      proof (rule simulates_and_then [OF simulates_res], goal_cases)
        case (1 off U1)
        show ?case
        proof (rule simulates_and_then [OF simulates_res], goal_cases)
          case (1 bs U2)
          then have U2: "so_connected U2" using T \<open>U = T\<close> \<open>U1 = U\<close> by simp
          show ?case
          proof (cases "io_write io bs")
            case (Inl e)
            then show ?thesis using cb by (simp add: and_then_assoc and_then_unit socket_views)
          next
            case (Inr sz)
            obtain r s1 where c: "source_consume V sz source = (r, s1)" by fastforce
            let ?U = "U2\<lparr>so_sent := so_sent U2 @ take sz bs, so_send_queue := (Some s1, callback) # rest\<rparr>"
            have step: "(socket_fdio pw U2)\<lparr>fio_sent := so_sent U2 @ take sz bs, fio_write_queue := (Some s1, callback) # rest\<rparr>
                = socket_fdio pw ?U" by (simp add: socket_views)
            show ?thesis
              unfolding Inr sum.case c prod.case socket_fdio_sel step and_then_assoc
            proof (rule simulates_and_then [OF simulates_res], goal_cases)
              case (1 u X)
              then have X: "so_connected X" "so_send_queue X = (Some s1, callback) # rest" using U2 by simp_all
              show ?case
                unfolding socket_fdio_sel X(2) list.sel fst_conv option.sel Let_def and_then_assoc
              proof (rule simulates_and_then [OF simulates_res], goal_cases)
                case (1 fin Y)
                then have Y: "so_connected Y" "so_send_queue Y = (Some s1, callback) # rest" using X by simp_all
                show ?case
                proof (cases fin)
                  case False
                  then show ?thesis by (auto simp: socket_views intro: simulates_pair)
                next
                  case True
                  let ?Y = "Y\<lparr>so_send_queue := rest\<rparr>"
                  have rest: "(socket_fdio pw Y)\<lparr>fio_write_queue := rest\<rparr> = socket_fdio pw ?Y" by (simp add: socket_views)
                  have up: "simulates pw (\<lambda>_ _. True)
                      (if so_send_queue ?Y = [] then so_update_events_locked ctl (so_events ?Y AND NOT EPOLLOUT) ?Y else (Ret (), ?Y))
                      (if so_send_queue ?Y = [] then update_events_locked ctl (so_events ?Y AND NOT EPOLLOUT) (socket_fdio pw ?Y) else (Ret (), socket_fdio pw ?Y))"
                    using Y(1) by (auto intro!: simulates_pair intro: simulates_weaken [OF simulates_update_events])
                  show ?thesis
                    unfolding if_P [OF True] socket_fdio_sel Y(2) list.sel rest and_then_assoc
                  proof (rule simulates_and_then [OF up], goal_cases)
                    case (1 w Z)
                    show ?case
                      using assms(1) by (cases callback) (auto simp: socket_views calls_agree_def and_then_assoc and_then_unit intro!: simulates_pair)
                  qed
                qed
              qed
            qed
          qed
        qed
      qed
    qed
  qed
qed

lemma simulates_event:
  assumes "calls_agree pw calls fcalls" and "so_connected S" and "(EPOLLERR OR EPOLLHUP) AND events = 0"
  shows "simulates pw (\<lambda>_ _. True) (socket_on_event V W calls ctl io fd events S) (on_event V W fcalls ctl io fd events (socket_fdio pw S))"
proof (cases "so_fd S = fd")
  case True
  have e: "(0 \<noteq> (EPOLLERR OR EPOLLHUP) AND events) = False" using assms(3) by simp
  have r: "simulates pw (\<lambda>go T. go \<longrightarrow> so_connected T \<or> so_send_queue T = [])
      (if 0 \<noteq> EPOLLIN AND events then so_on_readable V calls ctl io S else (Ret True, S))
      (if 0 \<noteq> EPOLLIN AND events then on_readable V fcalls ctl io (socket_fdio pw S) else (Ret True, socket_fdio pw S))"
    using simulates_readable [OF assms(1,2)] assms(2) by (auto intro: simulates_pair)
  show ?thesis
    unfolding socket_on_event_def on_event_def socket_fdio_sel e if_False
  proof (simp only: True assms(2) simp_thms if_False, rule simulates_and_then [OF r], goal_cases)
    case (1 go T)
    have w: "simulates pw (\<lambda>_ _. True) (so_on_writable W calls ctl io T)
        (and_then (on_writable W fcalls ctl io (socket_fdio pw T)) (\<lambda>_ F. (Ret (), F)))" if go
      using simulates_writable [OF assms(1)] 1 that by blast
    show ?case
      unfolding if_cancel
      by (cases go; cases "0 \<noteq> EPOLLOUT AND events") (auto intro!: simulates_pair w)
  qed
qed (simp add: socket_on_event_def on_event_def simulates_def)

lemma simulates_receive:
  assumes "so_connected S"
  shows "simulates pw (\<lambda>_ _. True) (socket_receive ctl k cb S) (fdio_read ctl k cb (socket_fdio pw S))"
  unfolding socket_receive_def fdio_read_def
proof (rule simulates_and_then [OF simulates_lock], goal_cases)
  case (1 a T)
  then have T: "so_connected T" using assms by simp
  show ?case
    unfolding socket_fdio_sel Let_def
    by (rule simulates_and_then [where Q = "\<lambda>_ _. True"])
      (auto simp: socket_views intro!: simulates_pair simulates_weaken [OF simulates_update_events [OF T]])
qed

lemma simulates_send:
  assumes "so_connected S"
  shows "simulates pw (\<lambda>_ _. True) (socket_send ctl s cb S) (fdio_write ctl s cb (socket_fdio pw S))"
  unfolding socket_send_def fdio_write_def
proof (rule simulates_and_then [OF simulates_lock], goal_cases)
  case (1 a T)
  let ?T = "T\<lparr>so_send_queue := so_send_queue T @ [(s, cb)]\<rparr>"
  have T: "so_connected (T\<lparr>so_send_queue := r\<rparr>)" for r using 1 assms by simp
  have q: "(socket_fdio pw T)\<lparr>fio_write_queue := so_send_queue T @ [(s, cb)]\<rparr> = socket_fdio pw ?T" by (simp add: socket_views)
  show ?case
    unfolding socket_fdio_sel Let_def q
    by (rule simulates_and_then [where Q = "\<lambda>_ _. True"])
      (auto simp: socket_views intro!: simulates_pair simulates_weaken [OF simulates_update_events [OF T]])
qed


section \<open>Sending while and after connecting\<close>

text \<open>Callbacks that record that they were called and leave the socket alone.\<close>

datatype 'c socket_log = Connected 'c | Accepted 'c int sock_storage | Io "'c call_log"

type_synonym ('c, 'k, 'q) logged_socket = "('c, 'k, 'q, 'c socket_log list) socket"

definition so_log :: "'c socket_log \<Rightarrow> ('c, 'k, 'q) logged_socket \<Rightarrow> unit res \<times> ('c, 'k, 'q) logged_socket" where
  "so_log e S = (Ret (), S\<lparr>so_world := so_world S @ [e]\<rparr>)"

definition socket_logging :: "('k \<Rightarrow> u8 list) \<Rightarrow> ('c, 'k, 'q, 'c socket_log list) socket_calls" where
  "socket_logging bytes =
     \<lparr>call_accept = (\<lambda>c fd a. so_log (Accepted c fd a)),
      call_connected = (\<lambda>c. so_log (Connected c)),
      call_received = (\<lambda>c k. so_log (Io (Called_Read c (case k of None \<Rightarrow> [] | Some k \<Rightarrow> bytes (sk_impl k))))),
      call_sent = (\<lambda>c s. so_log (Io (Called_Written c))),
      call_close = (\<lambda>c e. so_log (Io (Called_Close c e)))\<rparr>"

fun io_part :: "'c socket_log list \<Rightarrow> 'c call_log list" where
  "io_part [] = []"
| "io_part (Io l # es) = l # io_part es"
| "io_part (e # es) = io_part es"

lemma io_part_append [simp]: "io_part (es @ fs) = io_part es @ io_part fs"
  by (induction es rule: io_part.induct) simp_all

fun is_io :: "'c socket_log \<Rightarrow> bool" where
  "is_io (Io l) = True"
| "is_io e = False"

lemma map_Io_io_part: "list_all is_io es \<Longrightarrow> map Io (io_part es) = es"
  by (induction es rule: io_part.induct) simp_all

lemma logging_agrees: "calls_agree io_part (socket_logging bytes) (logging bytes)"
  unfolding calls_agree_def
  by (auto simp: socket_logging_def logging_def so_log_def socket_fdio_def intro!: simulates_pair)

text \<open>
  A program that sends sources while the kernel reports that the descriptor is writable, which it does only
  while the descriptor is registered for that: first that the connection is there, then that bytes can go.
\<close>

definition writable_handler :: "('c, 'k, 'q, 'w) socket \<Rightarrow> socket_handler option" where
  "writable_handler S =
     (case so_loop S of
        None \<Rightarrow> None
      | Some L \<Rightarrow>
          (case (el_interest L (so_fd S), el_callbacks L (so_fd S)) of
             (Some e, Some (Some (User_Handler h))) \<Rightarrow> if EPOLLOUT AND e \<noteq> 0 then Some h else None
           | _ \<Rightarrow> None))"

fun socket_run ::
  "'k sink_vtable \<Rightarrow> 'q source_vtable \<Rightarrow> ('k \<Rightarrow> u8 list) \<Rightarrow> setup_io \<Rightarrow> ('c, 'q) write_step list \<Rightarrow> ('c, 'k, 'q) logged_socket
     \<Rightarrow> unit res \<times> ('c, 'k, 'q) logged_socket" where
  "socket_run V W kb env [] S = (Ret (), S)"
| "socket_run V W kb env (Write_Source s cb # steps) S =
     and_then (socket_send accepting (Some s) cb S) (\<lambda>_. socket_run V W kb env steps)"
| "socket_run V W kb env (Kernel_Takes n # steps) S =
     (case writable_handler S of
        Some h \<Rightarrow> and_then (socket_handle V W (socket_logging kb) accepting env (taking n) h (so_fd S) EPOLLOUT S)
                   (\<lambda>_. socket_run V W kb env steps)
      | None \<Rightarrow> socket_run V W kb env steps S)"

text \<open>What a connected socket keeps while it writes.\<close>

definition keeps :: "('c, 'k, 'q) logged_socket \<Rightarrow> ('c, 'k, 'q) logged_socket \<Rightarrow> bool" where
  "keeps S T \<longleftrightarrow>
     so_connected T = so_connected S \<and> so_fd T = so_fd S \<and> map_option el_callbacks (so_loop T) = map_option el_callbacks (so_loop S)
     \<and> (\<exists>es. so_world T = so_world S @ es \<and> list_all is_io es)"

lemma keeps_refl: "keeps S S"
  by (simp add: keeps_def)

lemma keeps_trans: "keeps S T \<Longrightarrow> keeps T U \<Longrightarrow> keeps S U"
  by (auto simp: keeps_def)

lemma keeps_simps [simp]:
  "keeps S (T\<lparr>so_locked := b\<rparr>) = keeps S T" "keeps S (T\<lparr>so_events := e\<rparr>) = keeps S T"
  "keeps S (T\<lparr>so_send_queue := q\<rparr>) = keeps S T" "keeps S (T\<lparr>so_sent := bs\<rparr>) = keeps S T" "keeps S (so_unlock T) = keeps S T"
  by (simp_all add: keeps_def so_unlock_def)

lemma keeps_pair: "keeps S T \<Longrightarrow> ensures (keeps S) (r, T)"
  by (rule ensures_pair)

lemma keeps_lock: "ensures (keeps S) (so_lock S)"
  by (simp add: so_lock_def keeps_refl)

lemma keeps_update_events: "keeps S T \<Longrightarrow> ensures (keeps S) (so_update_events_locked accepting events T)"
  by (auto simp: so_update_events_locked_def so_with_loop_def event_loop_modify_def event_loop_modify_nothrow_def accepting_def
      keeps_def split: option.splits)

lemma keeps_send: "ensures (keeps S) (socket_send accepting s cb S)"
  unfolding socket_send_def
  by (rule ensures_and_then [OF keeps_lock])
    (auto simp: Let_def intro!: ensures_and_then [where P = "keeps S"] keeps_pair keeps_update_events)

lemma keeps_writable: "ensures (keeps S) (so_on_writable W (socket_logging kb) accepting (taking n) S)"
proof -
  have sent: "keeps S T \<Longrightarrow> ensures (keeps S) (call_sent (socket_logging kb) c s T)" for c s T
    by (auto simp: socket_logging_def so_log_def keeps_def)
  show ?thesis
    unfolding so_on_writable_def
    by (rule ensures_and_then [OF keeps_lock])
      (auto simp: Let_def taking_def split: list.splits option.splits prod.splits
        intro!: ensures_and_then [where P = "keeps S"] keeps_pair keeps_update_events sent)
qed

lemma map_prod_Ret_iff: "map_prod id f x = (Ret a, y) \<longleftrightarrow> (\<exists>S. x = (Ret a, S) \<and> y = f S)"
  by (cases x) auto

definition handles_events :: "('c, 'k, 'q, 'w) socket \<Rightarrow> bool" where
  "handles_events S \<longleftrightarrow> (\<exists>L. so_loop S = Some L \<and> el_callbacks L (so_fd S) = Some (Some (User_Handler On_Event)))"

lemma keeps_handles_events: "keeps S T \<Longrightarrow> handles_events S \<Longrightarrow> handles_events T"
  by (cases "so_loop T") (auto simp: keeps_def handles_events_def)

lemma writable_handler_open:
  assumes "handles_events S"
  shows "writable_handler S = (if interested EPOLLOUT (socket_fdio pw S) then Some On_Event else None)"
  using assms
  by (auto simp: writable_handler_def interested_def handles_events_def socket_fdio_def loop_fdio_def split: option.splits)

text \<open>While it is connected, the program does to the socket what \<open>write_run\<close> does to the object it corresponds to.\<close>

lemma socket_run_simulates:
  assumes "so_connected S" and "handles_events S" and "write_run V W kb steps (socket_fdio io_part S) = (Ret (), F)"
  shows "\<exists>T. socket_run V W kb env steps S = (Ret (), T) \<and> F = socket_fdio io_part T \<and> keeps S T"
  using assms
proof (induction steps arbitrary: S)
  case Nil
  then show ?case by (simp add: keeps_refl)
next
  case (Cons step steps)
  show ?case
  proof (cases step)
    case (Write_Source s cb)
    from simulates_send [OF Cons.prems(1), of io_part accepting "Some s" cb] Cons.prems(3) Write_Source
    obtain S1 where S1: "socket_send accepting (Some s) cb S = (Ret (), S1)"
        "write_run V W kb steps (socket_fdio io_part S1) = (Ret (), F)"
      by (auto simp: simulates_def and_then_Ret_iff map_prod_Ret_iff)
    have k: "keeps S S1" using keeps_send [of S "Some s" cb] S1(1) by simp
    then have "so_connected S1" "handles_events S1" using Cons.prems(1,2) keeps_handles_events by (auto simp: keeps_def)
    from Cons.IH [OF this S1(2)] k Write_Source S1(1) show ?thesis by (auto intro: keeps_trans)
  next
    case (Kernel_Takes n)
    show ?thesis
    proof (cases "interested EPOLLOUT (socket_fdio io_part S)")
      case False
      with Cons Kernel_Takes writable_handler_open [OF Cons.prems(2), of io_part] show ?thesis by simp
    next
      case True
      have "(EPOLLERR OR EPOLLHUP) AND EPOLLOUT = 0" by (simp add: EPOLLERR_def EPOLLHUP_def EPOLLOUT_def)
      from simulates_event [OF logging_agrees [of kb] Cons.prems(1) this, where V = V and W = W and ctl = accepting and io = "taking n" and fd = "so_fd S"] Cons.prems(3) True Kernel_Takes
      obtain S1 where S1: "socket_on_event V W (socket_logging kb) accepting (taking n) (so_fd S) EPOLLOUT S = (Ret (), S1)"
          "write_run V W kb steps (socket_fdio io_part S1) = (Ret (), F)"
        by (auto simp: simulates_def and_then_Ret_iff map_prod_Ret_iff)
      have "so_on_writable W (socket_logging kb) accepting (taking n) S = (Ret (), S1)"
        using S1(1) Cons.prems(1) by (simp add: socket_on_event_def EPOLLERR_def EPOLLHUP_def EPOLLIN_def EPOLLOUT_def)
      then have k: "keeps S S1" using keeps_writable [of S W kb n] by simp
      then have "so_connected S1" "handles_events S1" using Cons.prems(1,2) keeps_handles_events by (auto simp: keeps_def)
      from Cons.IH [OF this S1(2)] k Kernel_Takes S1(1) writable_handler_open [OF Cons.prems(2), of io_part] True
      show ?thesis by (auto simp: socket_handle_def intro: keeps_trans)
    qed
  qed
qed

text \<open>A socket that waits for its connection, with what has been queued so far.\<close>

definition connecting :: "('q source option \<times> 'c option) list \<Rightarrow> 'c \<Rightarrow> ('c, 'k, 'q) logged_socket \<Rightarrow> bool" where
  "connecting q c S \<longleftrightarrow>
     \<not> so_locked S \<and> so_fd S \<noteq> - 1 \<and> \<not> so_connected S \<and>
     (\<exists>L. so_loop S = Some L \<and> \<not> el_locked L \<and> el_callbacks L (so_fd S) = Some (Some (User_Handler On_Connect))
        \<and> el_interest L (so_fd S) = Some (EPOLLIN OR EPOLLOUT)) \<and>
     so_receive_sink S \<noteq> None \<and> EPOLLIN AND so_events S \<noteq> 0 \<and> (q \<noteq> [] \<longleftrightarrow> EPOLLOUT AND so_events S \<noteq> 0) \<and>
     so_send_queue S = q \<and> so_sent S = [] \<and> so_world S = [] \<and> so_on_connected S = Some c"

lemma connecting_send:
  assumes "connecting q c S"
  shows "\<exists>T. socket_send accepting s cb S = (Ret (), T) \<and> connecting (q @ [(s, cb)]) c T"
  using assms by (auto simp: socket_send_def so_lock_def so_unlock_def so_update_events_locked_def connecting_def Let_def dest: event_not_set)

lemma connecting_completes:
  assumes "connecting q c S"
  shows "writable_handler S = Some On_Connect"
    and "\<exists>T. socket_handle V W (socket_logging kb) accepting env (taking n) On_Connect (so_fd S) EPOLLOUT S = (Ret (), T)
      \<and> so_connected T \<and> handles_events T \<and> fdio_inv (socket_fdio io_part T)
      \<and> so_send_queue T = q \<and> so_sent T = [] \<and> so_world T = [Connected c]"
proof -
  have "EPOLLOUT AND (EPOLLIN OR EPOLLOUT) \<noteq> 0" by simp
  with assms show "writable_handler S = Some On_Connect" by (auto simp: connecting_def writable_handler_def)
  show "\<exists>T. socket_handle V W (socket_logging kb) accepting env (taking n) On_Connect (so_fd S) EPOLLOUT S = (Ret (), T)
      \<and> so_connected T \<and> handles_events T \<and> fdio_inv (socket_fdio io_part T)
      \<and> so_send_queue T = q \<and> so_sent T = [] \<and> so_world T = [Connected c]"
    using assms
    by (auto simp: connecting_def socket_handle_def socket_on_connect_def taking_def so_with_loop_def event_loop_remove_def
        event_loop_add_def accepting_def Let_def socket_logging_def so_log_def handles_events_def fdio_inv_def socket_fdio_def loop_fdio_def)
qed

context source_provider
begin

definition open_run :: "('s source option \<times> 'c option) list \<Rightarrow> 'c \<Rightarrow> ('c, 'k, 's) logged_socket \<Rightarrow> bool" where
  "open_run all c T \<longleftrightarrow>
     so_connected T \<and> handles_events T \<and> run_inv all (socket_fdio io_part T) \<and> (\<exists>es. so_world T = Connected c # es \<and> list_all is_io es)"

lemma keeps_open_run:
  assumes "open_run all c S" and "keeps S T" and "run_inv all' (socket_fdio io_part T)"
  shows "open_run all' c T"
  using assms keeps_handles_events [OF assms(2)] by (auto simp: open_run_def keeps_def)

lemma open_run_steps:
  assumes "open_run all c S" and "queue_inv (written steps)"
  shows "\<exists>T. socket_run K V kb env steps S = (Ret (), T) \<and> open_run (all @ written steps) c T"
proof -
  have S: "so_connected S" "handles_events S" "run_inv all (socket_fdio io_part S)" using assms(1) by (simp_all add: open_run_def)
  from run_preserves [OF S(3) assms(2), of K kb] obtain F where F: "write_run K V kb steps (socket_fdio io_part S) = (Ret (), F)"
      "run_inv (all @ written steps) F" by blast
  from socket_run_simulates [OF S(1,2) F(1), of env] keeps_open_run [OF assms(1)] F(2) show ?thesis by blast
qed

lemma open_run_drains:
  assumes "open_run all c S" and "0 < n"
  shows "\<exists>k T. socket_run K V kb env (replicate k (Kernel_Takes n)) S = (Ret (), T) \<and> open_run all c T \<and> so_send_queue T = []"
proof -
  have S: "so_connected S" "handles_events S" "run_inv all (socket_fdio io_part S)" using assms(1) by (simp_all add: open_run_def)
  from run_drains [OF S(3) assms(2) order_refl, of K kb] obtain k F where F: "write_run K V kb (replicate k (Kernel_Takes n)) (socket_fdio io_part S) = (Ret (), F)"
      "run_inv all F" "fio_write_queue F = []" by blast
  from socket_run_simulates [OF S(1,2) F(1), of env] obtain T where "socket_run K V kb env (replicate k (Kernel_Takes n)) S = (Ret (), T)"
      "F = socket_fdio io_part T" "keeps S T" by blast
  with keeps_open_run [OF assms(1)] F(2,3) show ?thesis by auto
qed

lemma completes_open_run:
  assumes "connecting q c S" and "queue_inv q"
  shows "\<exists>T. socket_handle K V (socket_logging kb) accepting env (taking n) On_Connect (so_fd S) EPOLLOUT S = (Ret (), T) \<and> open_run q c T"
proof -
  from connecting_completes(2) [OF assms(1), of K V kb env n] obtain T
    where T: "socket_handle K V (socket_logging kb) accepting env (taking n) On_Connect (so_fd S) EPOLLOUT S = (Ret (), T)"
      "so_connected T" "handles_events T" "fdio_inv (socket_fdio io_part T)"
      "so_send_queue T = q" "so_sent T = []" "so_world T = [Connected c]" by blast
  then show ?thesis using assms(2) by (auto simp: open_run_def run_inv_def)
qed

text \<open>However far the connection has come, the program goes on without a fault.\<close>

lemma connecting_run:
  assumes "connecting q c S" and "queue_inv (q @ written steps)"
  shows "\<exists>T. socket_run K V kb env steps S = (Ret (), T) \<and> (connecting (q @ written steps) c T \<or> open_run (q @ written steps) c T)"
  using assms
proof (induction steps arbitrary: q S)
  case (Cons step steps)
  show ?case
  proof (cases step)
    case (Write_Source s cb)
    from connecting_send [OF Cons.prems(1), of "Some s" cb] obtain S1
      where S1: "socket_send accepting (Some s) cb S = (Ret (), S1)" "connecting (q @ [(Some s, cb)]) c S1" by blast
    from Cons.IH [OF S1(2)] Cons.prems(2) S1(1) Write_Source show ?thesis by simp
  next
    case (Kernel_Takes n)
    have q: "queue_inv q" "queue_inv (written steps)" using Cons.prems(2) Kernel_Takes by (auto simp: queue_inv_def)
    from completes_open_run [OF Cons.prems(1) q(1), of K kb env n] obtain S1
      where S1: "socket_handle K V (socket_logging kb) accepting env (taking n) On_Connect (so_fd S) EPOLLOUT S = (Ret (), S1)"
        "open_run q c S1" by blast
    from open_run_steps [OF S1(2) q(2), of K kb env] S1(1) Kernel_Takes connecting_completes(1) [OF Cons.prems(1)]
    show ?thesis by auto
  qed
qed simp

lemma connecting_drains:
  assumes "connecting q c S \<or> open_run q c S" and "queue_inv q" and "0 < n"
  shows "\<exists>k T. socket_run K V kb env (replicate k (Kernel_Takes n)) S = (Ret (), T) \<and> open_run q c T \<and> so_send_queue T = []"
  using assms(1)
proof
  assume S: "connecting q c S"
  from completes_open_run [OF S assms(2), of K kb env n] obtain S1
    where S1: "socket_handle K V (socket_logging kb) accepting env (taking n) On_Connect (so_fd S) EPOLLOUT S = (Ret (), S1)"
      "open_run q c S1" by blast
  from open_run_drains [OF S1(2) assms(3), of K kb env] obtain k T
    where "socket_run K V kb env (replicate k (Kernel_Takes n)) S1 = (Ret (), T)" "open_run q c T" "so_send_queue T = []" by blast
  with S1(1) connecting_completes(1) [OF S] show ?thesis by (intro exI [of _ "Suc k"] exI [of _ T]) simp
qed (rule open_run_drains [OF _ assms(3)])

end

text \<open>A connection that is in progress.\<close>

lemma connect_in_progress:
  assumes "\<not> el_locked L" and "el_callbacks L fd = None" and "fd \<noteq> - 1"
    and "sys_socket io (sock_addr_family address) = Inr fd" and "set_non_blocking io = Success ()"
    and "set_reuse io options = Success ()" and "sys_connect io address (sock_addr_length address) = Some EINPROGRESS"
  shows "\<exists>S1 S2. socket_connect_nothrow calls accepting io address options (socket_set_connected_callback (Some c) (make_socket (Some L) []))
      = (Ret (Success ()), S1) \<and> socket_receive accepting (Some k) cb S1 = (Ret (), S2) \<and> connecting [] c S2"
proof -
  have "EPOLLOUT AND EPOLLIN = 0" by (simp add: EPOLLIN_def EPOLLOUT_def)
  with assms show ?thesis
    by (auto simp: socket_connect_nothrow_def socket_close_def so_lock_def so_unlock_def socket_set_connected_callback_def make_socket_def
        Let_def so_with_loop_def event_loop_add_def accepting_def socket_receive_def so_update_events_locked_def connecting_def)
qed

section \<open>Where the code goes wrong\<close>

text \<open>
  A source that is sent before \<open>connect\<close> is never written: \<open>connect\<close> overwrites the events that the socket
  asks for but keeps the queue, and as the queue is not empty no later \<open>send\<close> asks for them again.
\<close>

lemma send_before_connect_stalls:
  assumes "\<not> el_locked L" and "el_callbacks L fd = None" and "fd \<noteq> - 1"
    and "sys_socket io (sock_addr_family address) = Inr fd" and "set_non_blocking io = Success ()"
    and "set_reuse io options = Success ()" and "sys_connect io address (sock_addr_length address) = Some EINPROGRESS"
  shows "\<exists>S1 S2 S3. socket_send accepting s cb (make_socket (Some L) []) = (Ret (), S1)
    \<and> socket_connect_nothrow (socket_logging kb) accepting io address options S1 = (Ret (Success ()), S2)
    \<and> socket_on_connect (socket_logging kb) accepting 0 fd S2 = (Ret (), S3)
    \<and> so_connected S3 \<and> so_send_queue S3 = [(s, cb)] \<and> writable_handler S3 = None
    \<and> (\<forall>s1 cb1 S4. socket_send accepting s1 cb1 S3 = (Ret (), S4) \<longrightarrow> so_send_queue S4 = [(s, cb), (s1, cb1)] \<and> writable_handler S4 = None)"
proof -
  have "EPOLLOUT AND EPOLLIN = 0" by (simp add: EPOLLIN_def EPOLLOUT_def)
  with assms show ?thesis
    by (auto simp: socket_connect_nothrow_def socket_send_def socket_on_connect_def socket_close_def so_lock_def so_unlock_def make_socket_def
        Let_def so_with_loop_def event_loop_add_def event_loop_remove_def accepting_def so_update_events_locked_def writable_handler_def
        dest: event_not_set)
qed

text \<open>
  A connection that is there at once, on a loop that no longer exists, is reported as a failure and leaves an
  object without a descriptor that says that it is connected; it says so until it is closed with another
  descriptor.
\<close>

lemma connect_without_loop:
  assumes "sys_socket io (sock_addr_family address) = Inr fd" and "set_non_blocking io = Success ()"
    and "set_reuse io options = Success ()" and "sys_connect io address (sock_addr_length address) = None"
  shows "\<exists>S1. socket_connect_nothrow calls ctl io address options (make_socket None w)
      = (Ret (system_failure ENODEV ''Event loop not available''), S1)
    \<and> socket_is_connected S1 \<and> socket_fd S1 = - 1 \<and> socket_close ctl S1 = (Ret (), S1)"
  using assms
  by (simp add: socket_connect_nothrow_def socket_close_def so_lock_def so_unlock_def make_socket_def Let_def so_with_loop_def
      drop_handle_def socket_is_connected_def socket_fd_def)

text \<open>After an error condition the accept handler goes on with the closed descriptor and reports a second error.\<close>

lemma accept_error_reported_twice:
  assumes "\<not> so_locked S" and "so_fd S = fd" and "fd \<noteq> - 1" and "so_loop S = None" and "so_on_accept S = Some a"
    and "so_on_close S = Some c" and "sys_accept io = Inl e2"
  shows "\<exists>T. socket_on_accept (socket_logging kb) accepting io e1 fd EPOLLERR S = (Ret (), T)
    \<and> so_world T = so_world S @ [Io (Called_Close c e1), Io (Called_Close c e2)]"
  using assms
  by (auto simp: socket_on_accept_def EPOLLERR_def so_callback_and_close_def socket_logging_def so_log_def socket_close_def so_lock_def
      so_unlock_def so_with_loop_def Let_def)

text \<open>Data that arrives at a connected socket before \<open>receive\<close> is called fails an assertion.\<close>

lemma readable_before_receive:
  assumes "\<not> so_locked S" and "so_connected S" and "so_receive_sink S = None"
  shows "fst (socket_on_event V W calls ctl io (so_fd S) EPOLLIN S) = Fault Assert_Failed"
  using assms by (simp add: socket_on_event_def so_on_readable_def so_lock_def EPOLLIN_def EPOLLERR_def EPOLLHUP_def)

section \<open>Properties\<close>

text \<open>
  C27.  A connected socket is a \<open>FileDescriptorIO\<close>: a report that it is readable or writable, \<open>receive\<close>,
  \<open>send\<close> and \<open>close\<close> give the same results and lead to corresponding states, faults and exceptions
  included, for any streams, any answers of the kernel and any callbacks that correspond.
\<close>

theorem connected_socket_is_fdio:
  assumes "calls_agree pw calls fcalls" and "so_connected S" and "(EPOLLERR OR EPOLLHUP) AND events = 0"
  shows "map_prod id (socket_fdio pw) (socket_on_event V W calls ctl io fd events S)
      = on_event V W fcalls ctl io fd events (socket_fdio pw S)
    \<and> map_prod id (socket_fdio pw) (socket_receive ctl k cb S) = fdio_read ctl k cb (socket_fdio pw S)
    \<and> map_prod id (socket_fdio pw) (socket_send ctl s cb S) = fdio_write ctl s cb (socket_fdio pw S)
    \<and> map_prod id (socket_fdio pw) (socket_close ctl S) = fdio_close ctl (socket_fdio pw S)"
  using simulates_event [OF assms, where V = V and W = W and ctl = ctl and io = io and fd = fd] simulates_receive [OF assms(2), where pw = pw and ctl = ctl and k = k and cb = cb]
    simulates_send [OF assms(2), where pw = pw and ctl = ctl and s = s and cb = cb] simulates_close [where pw = pw and S = S and ctl = ctl]
  by (simp add: simulates_def)


definition plain_loop :: "(socket_handler, unit) event_loop" where
  "plain_loop =
     \<lparr>el_pipe_fd = 3, el_pipe = 0, el_interrupt = False, el_locked = False, el_thread_id = None,
      el_callbacks = Map.empty, el_interest = Map.empty, el_world = ()\<rparr>"

definition open_socket :: "(nat, buffer, buffer) logged_socket" where
  "open_socket = snd (socket_open_nothrow accepting 0 5 (make_socket (Some plain_loop) []))"

theorem connected_socket_is_fdio_witness:
  "map_prod id (socket_fdio io_part) (socket_send accepting (Some hello_source) (Some 1) open_socket)
     = fdio_write accepting (Some hello_source) (Some 1) (socket_fdio io_part open_socket)"
proof -
  have "so_connected open_socket"
    by (simp add: open_socket_def socket_open_nothrow_def socket_close_def so_lock_def so_unlock_def make_socket_def Let_def
        so_with_loop_def event_loop_add_def accepting_def plain_loop_def)
  moreover have "(EPOLLERR OR EPOLLHUP) AND EPOLLIN = 0" by (simp add: EPOLLERR_def EPOLLHUP_def EPOLLIN_def)
  ultimately show ?thesis
    using connected_socket_is_fdio [OF logging_agrees [of contents], where S = open_socket and events = EPOLLIN
        and V = "buffer_sink granting" and W = buffer_source and ctl = accepting and io = "taking 1" and fd = 5 and k = None
        and cb = "Some 1" and s = "Some hello_source"]
    by blast
qed

text \<open>
  C28.  Sources may be sent from the moment a connection is asked for, before it is there and after.  Whatever
  the order of the calls and of the reports of the kernel, nothing fails; finitely many further reports
  finish the connection, send the bytes of all sources in the order of the calls and no others, and the
  callbacks have run once each: first the one for the connection, then those of the sources in order.
\<close>

theorem socket_sends_after_connecting:
  fixes L :: "(socket_handler, unit) event_loop" and c :: 'c and kb :: "'k \<Rightarrow> u8 list"
  assumes "\<not> el_locked L" and "el_callbacks L fd = None" and "fd \<noteq> - 1"
    and "sys_socket io (sock_addr_family address) = Inr fd" and "set_non_blocking io = Success ()"
    and "set_reuse io options = Success ()" and "sys_connect io address (sock_addr_length address) = Some EINPROGRESS"
    and "\<forall>(s, cb)\<in>set (written steps). \<exists>s'. s = Some s' \<and> buffer_wf (so_impl s') \<and> so_progress s' \<le> m_size (so_impl s')"
    and "0 < n"
  shows "\<exists>S1 S2 S3 k S4.
      socket_connect_nothrow (socket_logging kb) accepting io address options
        (socket_set_connected_callback (Some c) (make_socket (Some L) [])) = (Ret (Success ()), S1)
    \<and> socket_receive accepting (Some sink) rcb S1 = (Ret (), S2)
    \<and> socket_run K buffer_source kb io steps S2 = (Ret (), S3)
    \<and> socket_run K buffer_source kb io (replicate k (Kernel_Takes n)) S3 = (Ret (), S4)
    \<and> so_connected S4 \<and> so_send_queue S4 = [] \<and> so_sent S4 = queued contents (written steps)
    \<and> so_world S4 = Connected c # map Io (queued_calls (written steps))"
proof -
  from connect_in_progress [OF assms(1-7), where calls = "socket_logging kb" and c = c and k = sink and cb = rcb]
  obtain S1 S2 :: "('c, 'k, buffer) logged_socket" where S:
      "socket_connect_nothrow (socket_logging kb) accepting io address options
        (socket_set_connected_callback (Some c) (make_socket (Some L) [])) = (Ret (Success ()), S1)"
      "socket_receive accepting (Some sink) rcb S1 = (Ret (), S2)" "connecting [] c S2" by blast
  have q: "buffer_source.queue_inv ([] @ written steps)"
    using assms(8) by (fastforce simp: buffer_source.queue_inv_def buffer_source.source_inv_def)
  from buffer_source.connecting_run [OF S(3) q, of K kb io] obtain S3
    where S3: "socket_run K buffer_source kb io steps S2 = (Ret (), S3)"
      "connecting (written steps) c S3 \<or> buffer_source.open_run (written steps) c S3" by auto
  from buffer_source.connecting_drains [OF S3(2) _ assms(9), of K kb io] q obtain k S4
    where S4: "socket_run K buffer_source kb io (replicate k (Kernel_Takes n)) S3 = (Ret (), S4)"
      "buffer_source.open_run (written steps) c S4" "so_send_queue S4 = []" by auto
  then have "so_connected S4" "so_sent S4 = queued contents (written steps)"
      "so_world S4 = Connected c # map Io (queued_calls (written steps))"
    by (auto simp: buffer_source.open_run_def buffer_source.run_inv_def) (metis map_Io_io_part)
  with S(1,2) S3(1) S4(1,3) show ?thesis by blast
qed

definition plain_io :: setup_io where
  "plain_io =
     \<lparr>sys_socket = (\<lambda>_. Inr 5), sys_cloexec = None, sys_getfl = None, sys_setfl = None, sys_reuse_addr = None,
      sys_reuse_port = None, sys_bind = (\<lambda>_ _. None), sys_listen = (\<lambda>_. None), sys_connect = (\<lambda>_ _. Some EINPROGRESS),
      sys_accept = Inl 11\<rparr>"

lemma plain_io_ok: "set_non_blocking plain_io = Success ()" "set_reuse plain_io options = Success ()"
  by (simp_all add: plain_io_def set_non_blocking_def fd_set_non_blocking_nothrow_def set_reuse_def set_option_def)

theorem socket_sends_after_connecting_witness:
  "\<exists>S1 S2 S3 k S4.
      socket_connect_nothrow (socket_logging contents) accepting plain_io web_server 0
        (socket_set_connected_callback (Some 7) (make_socket (Some plain_loop) [])) = (Ret (Success ()), S1)
    \<and> socket_receive accepting (Some \<lparr>sk_maximum = 3, sk_impl = two_bytes\<rparr>) None S1 = (Ret (), S2)
    \<and> socket_run (buffer_sink granting) buffer_source contents plain_io [Write_Source hello_source (Some 1), Kernel_Takes 2] S2 = (Ret (), S3)
    \<and> socket_run (buffer_sink granting) buffer_source contents plain_io (replicate k (Kernel_Takes 1)) S3 = (Ret (), S4)
    \<and> so_sent S4 = [104, 101, 108, 108, 111] \<and> so_world S4 = [Connected (7 :: nat), Io (Called_Written 1)]"
proof -
  have w: "\<forall>(s, cb)\<in>set (written [Write_Source hello_source (Some (1 :: nat)), Kernel_Takes 2]).
      \<exists>s'. s = Some s' \<and> buffer_wf (so_impl s') \<and> so_progress s' \<le> m_size (so_impl s')"
    by (simp add: hello_source_def make_source_def buffer_wf_def size_max_def)
  have q: "queued contents (written [Write_Source hello_source (Some (1 :: nat)), Kernel_Takes 2]) = [104, 101, 108, 108, 111]"
    "queued_calls (written [Write_Source hello_source (Some (1 :: nat)), Kernel_Takes 2]) = [Called_Written 1]"
    by (simp_all add: queued_def queued_calls_def hello_source_def make_source_def buf_to_string_def)
  have l: "\<not> el_locked plain_loop" "el_callbacks plain_loop 5 = None" by (simp_all add: plain_loop_def)
  have c: "sys_socket plain_io (sock_addr_family web_server) = Inr 5" "(5 :: int) \<noteq> - 1"
      "sys_connect plain_io web_server (sock_addr_length web_server) = Some EINPROGRESS" by (simp_all add: plain_io_def)
  from socket_sends_after_connecting [OF l c(2,1) plain_io_ok c(3) w zero_less_one, where kb = contents and c = 7
      and sink = "\<lparr>sk_maximum = 3, sk_impl = two_bytes\<rparr>" and rcb = None and options = 0 and K = "buffer_sink granting"] q
  show ?thesis by (elim exE conjE, intro exI conjI) simp_all
qed

end
