(* ===== verification/Socket_Descriptors.thy ===== *)
theory Socket_Descriptors
  imports Socket_Fdio "HOL-Library.Multiset"
begin

text \<open>
  Which descriptors a \<open>Socket\<close> owns: every operation and every handler closes what it takes, or hands it on.
\<close>

section \<open>Descriptors\<close>

text \<open>
  The descriptors a socket has taken: those it has closed, and the one it holds.  Callbacks may use the
  object and so take descriptors too; \<open>A\<close> reads from the world which.  Then a socket that has taken \<open>M\<close>
  besides, and one that has taken \<open>M\<close> and holds none.
\<close>

definition taken :: "('c, 'k, 'q, 'w) socket \<Rightarrow> int multiset" where
  "taken S = mset (so_closed S) + (if so_fd S = - 1 then {#} else {#so_fd S#})"

definition has_taken :: "('w \<Rightarrow> int multiset) \<Rightarrow> int multiset \<Rightarrow> ('c, 'k, 'q, 'w) socket \<Rightarrow> bool" where
  "has_taken A M S \<longleftrightarrow> (so_fd S = - 1 \<or> 0 \<le> so_fd S) \<and> taken S = M + A (so_world S)"

definition detached :: "('w \<Rightarrow> int multiset) \<Rightarrow> int multiset \<Rightarrow> ('c, 'k, 'q, 'w) socket \<Rightarrow> bool" where
  "detached A M S \<longleftrightarrow> so_fd S = - 1 \<and> mset (so_closed S) = M + A (so_world S)"

text \<open>A call that returns or throws leaves the object in \<open>P\<close>.\<close>

definition leaves :: "('s \<Rightarrow> bool) \<Rightarrow> 'a res \<times> 's \<Rightarrow> bool" where
  "leaves P x \<longleftrightarrow> (no_fault (fst x) \<longrightarrow> P (snd x))"

lemma leaves_pair: "P S \<Longrightarrow> leaves P (r, S)"
  by (simp add: leaves_def)

lemma leaves_simps [simp]:
  "leaves P (Ret a, S) \<longleftrightarrow> P S" "leaves P (Throw e, S) \<longleftrightarrow> P S" "leaves P (Fault f, S)"
  by (simp_all add: leaves_def)

lemma leaves_and_then:
  assumes "leaves P x" and "\<And>a S. P S \<Longrightarrow> leaves P (k a S)"
  shows "leaves P (and_then x k)"
proof (cases x)
  case (Pair r S)
  with assms show ?thesis by (cases r) auto
qed

lemma leaves_noexcept: "ensures P (noexcept x) \<Longrightarrow> leaves P (noexcept x)"
  by (cases x rule: noexcept.cases) (auto simp: ensures_def)

lemma leaves_ensures: "leaves P x \<Longrightarrow> ensures P x"
  by (auto simp: leaves_def ensures_def)

lemma leaves_weaken: "leaves P x \<Longrightarrow> (\<And>S. P S \<Longrightarrow> Q S) \<Longrightarrow> leaves Q x"
  by (auto simp: leaves_def)

text \<open>Parts of the state that do not matter here.\<close>

lemma taken_simps [simp]:
  "has_taken A M (S\<lparr>so_loop := l\<rparr>) = has_taken A M S" "has_taken A M (S\<lparr>so_locked := b\<rparr>) = has_taken A M S"
  "has_taken A M (S\<lparr>so_connected := b\<rparr>) = has_taken A M S" "has_taken A M (S\<lparr>so_events := e\<rparr>) = has_taken A M S"
  "has_taken A M (S\<lparr>so_receive_sink := k\<rparr>) = has_taken A M S" "has_taken A M (S\<lparr>so_receive_callback := cb\<rparr>) = has_taken A M S"
  "has_taken A M (S\<lparr>so_send_queue := q\<rparr>) = has_taken A M S" "has_taken A M (S\<lparr>so_sent := bs\<rparr>) = has_taken A M S"
  "has_taken A M (so_unlock S) = has_taken A M S"
  "has_taken A M (S\<lparr>so_on_accept := cb\<rparr>) = has_taken A M S" "has_taken A M (S\<lparr>so_on_connected := cb\<rparr>) = has_taken A M S"
  "has_taken A M (S\<lparr>so_on_close := cb\<rparr>) = has_taken A M S"
  by (simp_all add: has_taken_def taken_def so_unlock_def)

lemma detached_simps [simp]:
  "detached A M (S\<lparr>so_loop := l\<rparr>) = detached A M S" "detached A M (S\<lparr>so_locked := b\<rparr>) = detached A M S"
  "detached A M (S\<lparr>so_connected := b\<rparr>) = detached A M S" "detached A M (S\<lparr>so_events := e\<rparr>) = detached A M S"
  "detached A M (S\<lparr>so_receive_sink := k\<rparr>) = detached A M S" "detached A M (S\<lparr>so_receive_callback := cb\<rparr>) = detached A M S"
  "detached A M (S\<lparr>so_send_queue := q\<rparr>) = detached A M S" "detached A M (so_unlock S) = detached A M S"
  by (simp_all add: detached_def so_unlock_def)

lemma detached_has_taken: "detached A M S \<Longrightarrow> has_taken A M S"
  by (simp add: detached_def has_taken_def taken_def)

lemma closed_detached:
  "has_taken A M S \<Longrightarrow> detached A M (S\<lparr>so_closed := fd_close (so_fd S) (so_closed S), so_fd := - 1\<rparr>)"
  by (auto simp: has_taken_def taken_def detached_def fd_close_def)

lemma committed_has_taken: "detached A M S \<Longrightarrow> 0 \<le> fd \<Longrightarrow> has_taken A (add_mset fd M) (S\<lparr>so_fd := fd\<rparr>)"
  by (simp add: has_taken_def taken_def detached_def)

lemma dropped_has_taken:
  "has_taken A M S \<Longrightarrow> 0 \<le> fd \<Longrightarrow> has_taken A (add_mset fd M) (S\<lparr>so_closed := fd_close fd (so_closed S)\<rparr>)"
  by (auto simp: has_taken_def taken_def fd_close_def)

lemma takes_pair: "has_taken A M S \<Longrightarrow> ensures (has_taken A M) (r, S)"
  by (rule ensures_pair)

lemma takes_lock: "has_taken A M S \<Longrightarrow> ensures (has_taken A M) (so_lock S)"
  by (simp add: ensures_def so_lock_def)

lemma ensures_with_loop: "(\<And>l. P (S\<lparr>so_loop := l\<rparr>)) \<Longrightarrow> P S \<Longrightarrow> ensures P (so_with_loop f S)"
  by (auto simp: ensures_def so_with_loop_def split: option.splits prod.splits)

lemma takes_update_events: "has_taken A M S \<Longrightarrow> ensures (has_taken A M) (so_update_events_locked ctl events S)"
  unfolding so_update_events_locked_def
  by (intro ensures_noexcept ensures_and_then [where P = "has_taken A M"]) (auto intro: ensures_with_loop)

lemma takes_close: "has_taken A M S \<Longrightarrow> ensures (detached A M) (socket_close ctl S)"
  unfolding socket_close_def
proof (rule ensures_noexcept, rule ensures_and_then [OF takes_lock], assumption)
  fix a T assume T: "has_taken A M T"
  show "ensures (detached A M)
      (if - 1 = so_fd T then (Ret (), so_unlock T)
       else and_then (so_with_loop (event_loop_remove ctl (so_fd T)) T) (\<lambda>_ S.
         let S = S\<lparr>so_closed := fd_close (so_fd S) (so_closed S), so_fd := - 1\<rparr>;
             S = S\<lparr>so_connected := False\<rparr>;
             S = S\<lparr>so_events := 0\<rparr>;
             S = S\<lparr>so_receive_sink := None, so_receive_callback := None\<rparr>;
             S = S\<lparr>so_send_queue := []\<rparr>
         in (Ret (), so_unlock S)))"
  proof (cases "- 1 = so_fd T")
    case True
    then have "detached A M T" using T by (simp add: has_taken_def taken_def detached_def)
    with True show ?thesis by auto
  next
    case False
    show ?thesis
      unfolding if_not_P [OF False]
      by (rule ensures_and_then [where P = "has_taken A M"])
        (use T in \<open>auto simp: Let_def intro!: ensures_with_loop dest: closed_detached\<close>)
  qed
qed

lemma takes_lock_leaves: "has_taken A M S \<Longrightarrow> leaves (has_taken A M) (so_lock S)"
  by (simp add: leaves_def so_lock_def)

lemma leaves_with_loop: "(\<And>l. P (S\<lparr>so_loop := l\<rparr>)) \<Longrightarrow> P S \<Longrightarrow> leaves P (so_with_loop f S)"
  by (auto simp: leaves_def so_with_loop_def split: option.splits prod.splits)

lemma leaves_update_events: "has_taken A M S \<Longrightarrow> leaves (has_taken A M) (so_update_events_locked ctl events S)"
  using takes_update_events unfolding so_update_events_locked_def by (intro leaves_noexcept)

lemma leaves_close: "has_taken A M S \<Longrightarrow> leaves (has_taken A M) (socket_close ctl S)"
  using ensures_weaken [OF takes_close detached_has_taken] unfolding socket_close_def by (intro leaves_noexcept)

text \<open>
  Callbacks that account for what they do: whether they return or throw, the descriptors they make the
  socket take are in \<open>A\<close> of the world, and no others come or go.
\<close>

definition calls_account :: "('w \<Rightarrow> int multiset) \<Rightarrow> ('c, 'k, 'q, 'w) socket_calls \<Rightarrow> bool" where
  "calls_account A calls \<longleftrightarrow>
     (\<forall>M S. has_taken A M S \<longrightarrow>
        (\<forall>c fd a. leaves (has_taken A M) (call_accept calls c fd a S)) \<and> (\<forall>c. leaves (has_taken A M) (call_connected calls c S)) \<and>
        (\<forall>c k. leaves (has_taken A M) (call_received calls c k S)) \<and> (\<forall>c s. leaves (has_taken A M) (call_sent calls c s S)) \<and>
        (\<forall>c e. leaves (has_taken A M) (call_close calls c e S)))"

lemma takes_callback_and_close:
  assumes "calls_account A calls" and "has_taken A M S"
  shows "leaves (has_taken A M) (so_callback_and_close calls ctl e S)"
  unfolding so_callback_and_close_def
proof (rule leaves_and_then [where P = "has_taken A M"])
  show "leaves (has_taken A M) (case so_on_close S of None \<Rightarrow> (Ret (), S) | Some c \<Rightarrow> call_close calls c e S)"
    using assms by (auto simp: calls_account_def split: option.splits)
qed (rule leaves_close)

lemma takes_receive_completed:
  assumes "calls_account A calls" and "has_taken A M S"
  shows "leaves (has_taken A M) (receive_completed calls ctl S)"
  unfolding receive_completed_def
  by (rule leaves_and_then [OF leaves_update_events [OF assms(2)]])
    (use assms(1) in \<open>auto simp: calls_account_def Let_def split: option.splits\<close>)

lemma takes_readable:
  assumes "calls_account A calls" and "has_taken A M S"
  shows "leaves (has_taken A M) (so_on_readable V calls ctl io S)"
proof -
  note cb = takes_callback_and_close [OF assms(1)] takes_receive_completed [OF assms(1)]
  show ?thesis
    unfolding so_on_readable_def
    by (rule leaves_and_then [OF takes_lock_leaves [OF assms(2)]])
      (auto simp: Let_def split: option.splits sum.splits prod.splits intro!: leaves_and_then [where P = "has_taken A M"] leaves_pair cb)
qed

lemma takes_writable:
  assumes "calls_account A calls" and "has_taken A M S"
  shows "leaves (has_taken A M) (so_on_writable V calls ctl io S)"
proof -
  note cb = takes_callback_and_close [OF assms(1)] leaves_update_events
  have sent: "has_taken A M S \<Longrightarrow> leaves (has_taken A M) (call_sent calls c s S)" for c s S
    using assms(1) by (simp add: calls_account_def)
  show ?thesis
    unfolding so_on_writable_def
    by (rule leaves_and_then [OF takes_lock_leaves [OF assms(2)]])
      (auto simp: Let_def split: list.splits option.splits sum.splits prod.splits intro!: leaves_and_then [where P = "has_taken A M"] leaves_pair cb sent)
qed

lemma takes_event:
  assumes "calls_account A calls" and "has_taken A M S"
  shows "leaves (has_taken A M) (socket_on_event V W calls ctl io fd events S)"
  unfolding socket_on_event_def
  using assms by (auto intro!: leaves_and_then [where P = "has_taken A M"] takes_callback_and_close takes_readable takes_writable)

lemma takes_connect_event:
  assumes "calls_account A calls" and "has_taken A M S"
  shows "leaves (has_taken A M) (socket_on_connect calls ctl error fd S)"
proof -
  have c: "has_taken A M S \<Longrightarrow> leaves (has_taken A M) (call_connected calls c S)" for c S
    using assms(1) by (simp add: calls_account_def)
  show ?thesis
    unfolding socket_on_connect_def
    using assms by (auto simp: Let_def split: option.splits
        intro!: leaves_and_then [where P = "has_taken A M"] takes_callback_and_close leaves_with_loop c)
qed

text \<open>
  The descriptor of an accepted connection is the accept callback's, and is closed here only if it cannot be
  made non-blocking.  The handler gets to \<open>accept\<close> unless the close callback throws for an error condition.
\<close>

definition accepted :: "setup_io \<Rightarrow> int multiset" where
  "accepted io =
     (case (sys_accept io, set_non_blocking io) of (Inr (sock, _), Failure _) \<Rightarrow> {#sock#} | _ \<Rightarrow> {#})"

definition before_accept ::
  "('c, 'k, 'q, 'w) socket_calls \<Rightarrow> epoll_ctl \<Rightarrow> int \<Rightarrow> u32 \<Rightarrow> ('c, 'k, 'q, 'w) socket \<Rightarrow> unit res \<times> ('c, 'k, 'q, 'w) socket" where
  "before_accept calls ctl errno events S =
     (if 0 \<noteq> EPOLLERR AND events then so_callback_and_close calls ctl errno S else (Ret (), S))"

definition accept_takes ::
  "('c, 'k, 'q, 'w) socket_calls \<Rightarrow> epoll_ctl \<Rightarrow> setup_io \<Rightarrow> int \<Rightarrow> u32 \<Rightarrow> ('c, 'k, 'q, 'w) socket \<Rightarrow> int multiset" where
  "accept_takes calls ctl io errno events S =
     (if fst (before_accept calls ctl errno events S) = Ret () then accepted io else {#})"

lemma takes_accept_rest:
  assumes "calls_account A calls" and "has_taken A M S" and "\<forall>fd\<in>#accepted io. 0 \<le> fd"
  shows "leaves (has_taken A (M + accepted io))
    (case sys_accept io of
       Inl e \<Rightarrow> so_callback_and_close calls ctl e S
     | Inr (sock, address) \<Rightarrow>
         (case set_non_blocking io of
            Failure e \<Rightarrow>
              (case so_callback_and_close calls ctl (case error_code e of None \<Rightarrow> 0 | Some n \<Rightarrow> n) S of
                 (r, S) \<Rightarrow> (r, S\<lparr>so_closed := fd_close sock (so_closed S)\<rparr>))
          | Success _ \<Rightarrow>
              (case so_on_accept S of
                 None \<Rightarrow> (Throw Bad_Function_Call, S)
               | Some c \<Rightarrow> call_accept calls c sock address S)))"
proof -
  note cb = takes_callback_and_close [OF assms(1,2)]
  have c: "leaves (has_taken A M) (call_accept calls c fd a S)" for c fd a
    using assms(1,2) by (simp add: calls_account_def)
  have drop: "leaves (has_taken A (M + {#sock#})) (case x of (r, S) \<Rightarrow> (r, S\<lparr>so_closed := fd_close sock (so_closed S)\<rparr>))"
    if "leaves (has_taken A M) x" and "0 \<le> sock" for x :: "unit res \<times> ('b, 'c, 'd, 'a) socket" and sock
    using that dropped_has_taken by (cases x) (fastforce simp: leaves_def)
  show ?thesis
  proof (cases "sys_accept io")
    case (Inl e)
    with cb show ?thesis by (simp add: accepted_def)
  next
    case (Inr p)
    obtain sock a where p: "p = (sock, a)" by fastforce
    show ?thesis
    proof (cases "set_non_blocking io")
      case (Success u)
      with Inr p c assms(2) show ?thesis by (auto simp: accepted_def split: option.splits)
    next
      case (Failure e)
      then have m: "accepted io = {#sock#}" by (simp add: accepted_def Inr p)
      with assms(3) have "0 \<le> sock" by simp
      from drop [OF cb this] Failure Inr p m show ?thesis by simp
    qed
  qed
qed

lemma takes_accept_event:
  assumes "calls_account A calls" and "has_taken A M S" and "\<forall>fd\<in>#accepted io. 0 \<le> fd"
  shows "leaves (has_taken A (M + accept_takes calls ctl io errno events S)) (socket_on_accept calls ctl io errno fd events S)"
proof -
  obtain r T where first: "before_accept calls ctl errno events S = (r, T)" by fastforce
  have T: "leaves (has_taken A M) (r, T)"
    unfolding first [symmetric] before_accept_def using assms(2) takes_callback_and_close [OF assms(1)] by auto
  show ?thesis
    unfolding socket_on_accept_def before_accept_def [symmetric] first
    using T takes_accept_rest [OF assms(1) _ assms(3), of M T]
    by (cases r) (auto simp: accept_takes_def first)
qed

lemma takes_drop_handle: "detached A M S \<Longrightarrow> 0 \<le> fd \<Longrightarrow> has_taken A (add_mset fd M) (drop_handle fd S)"
  unfolding drop_handle_def by (intro dropped_has_taken detached_has_taken)

lemma takes_open:
  assumes "has_taken A M S" and "0 \<le> fd"
  shows "ensures (has_taken A (add_mset fd M)) (socket_open_nothrow ctl error fd S)"
  unfolding socket_open_nothrow_def
proof (rule ensures_noexcept, rule ensures_and_then [OF takes_close [OF assms(1)]])
  fix a :: unit and T :: "('b, 'c, 'd, 'a) socket" assume T: "detached A M T"
  have c: "has_taken A (add_mset fd M) (U\<lparr>so_fd := fd, so_connected := b\<rparr>)" if "detached A M U" for U :: "('b, 'c, 'd, 'a) socket" and b
    using committed_has_taken [OF that assms(2)] by simp
  show "ensures (has_taken A (add_mset fd M))
      (let S = T\<lparr>so_events := EPOLLIN\<rparr> in
       and_then (so_with_loop (event_loop_add ctl fd (so_events S) (Some (User_Handler On_Event))) S) (\<lambda>success S.
       if \<not> success then (Ret (system_failure ENODEV ''Failed to lock event loop''), drop_handle fd S)
       else (Ret (Success ()), S\<lparr>so_fd := fd, so_connected := (0 = error)\<rparr>)))"
    unfolding Let_def
    by (rule ensures_and_then [where P = "detached A M"]) (use T c assms(2) takes_drop_handle in \<open>auto intro!: ensures_with_loop\<close>)
qed

definition acquired :: "setup_io \<Rightarrow> sock_storage \<Rightarrow> int multiset" where
  "acquired io address = (case sys_socket io (sock_addr_family address) of Inl _ \<Rightarrow> {#} | Inr fd \<Rightarrow> {#fd#})"

lemma takes_listen:
  assumes "has_taken A M S" and "\<forall>fd\<in>#acquired io address. 0 \<le> fd"
  shows "ensures (has_taken A (M + acquired io address)) (socket_listen_nothrow ctl io address backlog options S)"
  unfolding socket_listen_nothrow_def
proof (rule ensures_noexcept, rule ensures_and_then [OF takes_close [OF assms(1)]], goal_cases)
  case (1 a T)
  show ?case
  proof (cases "sys_socket io (sock_addr_family address)")
    case (Inl e)
    with 1 show ?thesis by (simp add: acquired_def detached_has_taken)
  next
    case (Inr fd)
    then have m: "acquired io address = {#fd#}" by (simp add: acquired_def)
    with assms(2) have fd: "0 \<le> fd" by simp
    have d: "has_taken A (add_mset fd M) (drop_handle fd (U\<lparr>so_events := e\<rparr>))" if "detached A M U" for U :: "('b, 'c, 'd, 'a) socket" and e
      using takes_drop_handle [of A M "U\<lparr>so_events := e\<rparr>"] that fd by simp
    have l: "ensures (has_taken A (add_mset fd M))
        (and_then (so_with_loop f (T\<lparr>so_events := EPOLLIN\<rparr>)) (\<lambda>success S.
           if \<not> success then (Ret (system_failure ENODEV ''Event loop not available''), drop_handle fd S)
           else (Ret (Success ()), S\<lparr>so_fd := fd\<rparr>)))" for f
      by (rule ensures_and_then [where P = "detached A M"])
        (use 1 fd takes_drop_handle committed_has_taken in \<open>auto intro!: ensures_with_loop\<close>)
    show ?thesis
      using Inr m d [OF 1] l by (auto simp: Let_def split: option.splits result.splits)
  qed
qed

lemma takes_connect:
  assumes "calls_account A calls" and "has_taken A M S" and "\<forall>fd\<in>#acquired io address. 0 \<le> fd"
  shows "ensures (has_taken A (M + acquired io address)) (socket_connect_nothrow calls ctl io address options S)"
  unfolding socket_connect_nothrow_def
proof (rule ensures_noexcept, rule ensures_and_then [OF takes_close [OF assms(2)]], goal_cases)
  case (1 a T)
  show ?case
  proof (cases "sys_socket io (sock_addr_family address)")
    case (Inl e)
    with 1 show ?thesis by (simp add: acquired_def detached_has_taken Let_def)
  next
    case (Inr fd)
    then have m: "M + acquired io address = add_mset fd M" and fd: "0 \<le> fd" using assms(3) by (simp_all add: acquired_def)
    have d: "has_taken A (add_mset fd M) (drop_handle fd U)" if "detached A M U" for U :: "('b, 'c, 'd, 'a) socket"
      using takes_drop_handle [OF that fd] .
    have c: "has_taken A N U \<Longrightarrow> ensures (has_taken A N) (call_connected calls c U)" for N c U
      using assms(1) by (simp add: calls_account_def leaves_ensures)
    have l: "ensures (has_taken A (add_mset fd M))
        (and_then (so_with_loop f U) (\<lambda>success S.
           if \<not> success then (Ret (system_failure ENODEV ''Event loop not available''), drop_handle fd S)
           else
            let S = S\<lparr>so_fd := fd\<rparr> in
            and_then (case so_on_connected S of
                        Some c \<Rightarrow> if so_connected S then call_connected calls c S else (Ret (), S)
                      | None \<Rightarrow> (Ret (), S)) (\<lambda>_ S.
            (Ret (Success ()), S))))" if "detached A M U" for f and U :: "('b, 'c, 'd, 'a) socket"
      by (rule ensures_and_then [where P = "detached A M"])
        (use that fd d committed_has_taken in \<open>auto simp: Let_def split: option.splits
           intro!: ensures_with_loop ensures_and_then [where P = "has_taken A (add_mset fd M)"] takes_pair c\<close>)
    have dT: "detached A M (T\<lparr>so_events := e\<rparr>)" "detached A M (T\<lparr>so_events := e, so_connected := b\<rparr>)" for e b using 1 by simp_all
    show ?thesis
      unfolding m Let_def Inr sum.case
      using d dT l [unfolded Let_def]
      by (cases "set_non_blocking io"; cases "set_reuse io options"; cases "sys_connect io address (sock_addr_length address)") auto
  qed
qed

lemma takes_receive: "has_taken A M S \<Longrightarrow> leaves (has_taken A M) (socket_receive ctl k cb S)"
  unfolding socket_receive_def
  by (rule leaves_and_then [OF takes_lock_leaves])
    (auto simp: Let_def intro!: leaves_and_then [where P = "has_taken A M"] leaves_pair leaves_update_events)

lemma takes_send: "has_taken A M S \<Longrightarrow> leaves (has_taken A M) (socket_send ctl s cb S)"
  unfolding socket_send_def
  by (rule leaves_and_then [OF takes_lock_leaves])
    (auto simp: Let_def intro!: leaves_and_then [where P = "has_taken A M"] leaves_pair leaves_update_events)

lemma leaves_open:
  assumes "has_taken A M S" and "0 \<le> fd"
  shows "leaves (has_taken A (add_mset fd M)) (socket_open_nothrow ctl error fd S)"
  using takes_open [OF assms] unfolding socket_open_nothrow_def by (rule leaves_noexcept)

lemma leaves_listen:
  assumes "has_taken A M S" and "\<forall>fd\<in>#acquired io address. 0 \<le> fd"
  shows "leaves (has_taken A (M + acquired io address)) (socket_listen_nothrow ctl io address backlog options S)"
  using takes_listen [OF assms] unfolding socket_listen_nothrow_def by (rule leaves_noexcept)

lemma leaves_connect:
  assumes "calls_account A calls" and "has_taken A M S" and "\<forall>fd\<in>#acquired io address. 0 \<le> fd"
  shows "leaves (has_taken A (M + acquired io address)) (socket_connect_nothrow calls ctl io address options S)"
  using takes_connect [OF assms] unfolding socket_connect_nothrow_def by (rule leaves_noexcept)

lemma socket_close_world: "socket_close ctl S = (Ret (), T) \<Longrightarrow> so_world T = so_world S"
  by (auto simp: socket_close_def and_then_Ret_iff so_lock_def so_unlock_def so_with_loop_def Let_def
      split: if_splits option.splits prod.splits)

text \<open>
  The operations of a socket, each of them that changes its state and each handler, and what each takes from
  the system: \<open>op_offers\<close> is what the kernel gives when it is asked, \<open>op_takes\<close> what the operation asks for in
  a state.
\<close>

datatype ('c, 'k, 'q) socket_op =
    Op_Set_Accept "'c option"
  | Op_Set_Connected "'c option"
  | Op_Set_Close "'c option"
  | Op_Open int int
  | Op_Listen setup_io sock_storage int u32
  | Op_Connect setup_io sock_storage u32
  | Op_Receive "'k sink option" "'c option"
  | Op_Send "'q source option" "'c option"
  | Op_Close
  | Op_Event socket_handler setup_io fd_io int u32

fun socket_step ::
  "'k sink_vtable \<Rightarrow> 'q source_vtable \<Rightarrow> ('c, 'k, 'q, 'w) socket_calls \<Rightarrow> epoll_ctl \<Rightarrow> ('c, 'k, 'q) socket_op
     \<Rightarrow> ('c, 'k, 'q, 'w) socket \<Rightarrow> unit res \<times> ('c, 'k, 'q, 'w) socket" where
  "socket_step V W calls ctl (Op_Set_Accept cb) S = (Ret (), socket_set_accept_callback cb S)"
| "socket_step V W calls ctl (Op_Set_Connected cb) S = (Ret (), socket_set_connected_callback cb S)"
| "socket_step V W calls ctl (Op_Set_Close cb) S = (Ret (), socket_set_close_callback cb S)"
| "socket_step V W calls ctl (Op_Open error fd) S = socket_open ctl error fd S"
| "socket_step V W calls ctl (Op_Listen io a backlog options) S = socket_listen ctl io a backlog options S"
| "socket_step V W calls ctl (Op_Connect io a options) S = socket_connect calls ctl io a options S"
| "socket_step V W calls ctl (Op_Receive k cb) S = socket_receive ctl k cb S"
| "socket_step V W calls ctl (Op_Send s cb) S = socket_send ctl s cb S"
| "socket_step V W calls ctl Op_Close S = socket_close ctl S"
| "socket_step V W calls ctl (Op_Event h io fio fd events) S = socket_handle V W calls ctl io fio h fd events S"

fun op_offers :: "('c, 'k, 'q) socket_op \<Rightarrow> int multiset" where
  "op_offers (Op_Open error fd) = {#fd#}"
| "op_offers (Op_Listen io a backlog options) = acquired io a"
| "op_offers (Op_Connect io a options) = acquired io a"
| "op_offers (Op_Event On_Accept io fio fd events) = accepted io"
| "op_offers _ = {#}"

fun op_takes :: "('c, 'k, 'q, 'w) socket_calls \<Rightarrow> epoll_ctl \<Rightarrow> ('c, 'k, 'q) socket_op \<Rightarrow> ('c, 'k, 'q, 'w) socket \<Rightarrow> int multiset" where
  "op_takes calls ctl (Op_Event On_Accept io fio fd events) S = accept_takes calls ctl io (io_error fio) events S"
| "op_takes calls ctl p S = op_offers p"

text \<open>
  A program goes on with the object after an exception, which unwinds the guards of the mutex; so \<open>open\<close>,
  \<open>listen\<close> and \<open>connect\<close> stand here for both of their forms.  Only a failed assertion, a deadlock or
  \<open>std::terminate\<close> ends it.
\<close>

fun caught :: "unit res \<times> ('c, 'k, 'q, 'w) socket \<Rightarrow> unit res \<times> ('c, 'k, 'q, 'w) socket" where
  "caught (Throw e, S) = (Ret (), so_unlock S)"
| "caught x = x"

fun socket_steps ::
  "'k sink_vtable \<Rightarrow> 'q source_vtable \<Rightarrow> ('c, 'k, 'q, 'w) socket_calls \<Rightarrow> epoll_ctl \<Rightarrow> ('c, 'k, 'q) socket_op list
     \<Rightarrow> ('c, 'k, 'q, 'w) socket \<Rightarrow> unit res \<times> ('c, 'k, 'q, 'w) socket" where
  "socket_steps V W calls ctl [] S = (Ret (), S)"
| "socket_steps V W calls ctl (p # ps) S =
     and_then (caught (socket_step V W calls ctl p S)) (\<lambda>_. socket_steps V W calls ctl ps)"

fun steps_take ::
  "'k sink_vtable \<Rightarrow> 'q source_vtable \<Rightarrow> ('c, 'k, 'q, 'w) socket_calls \<Rightarrow> epoll_ctl \<Rightarrow> ('c, 'k, 'q) socket_op list
     \<Rightarrow> ('c, 'k, 'q, 'w) socket \<Rightarrow> int multiset" where
  "steps_take V W calls ctl [] S = {#}"
| "steps_take V W calls ctl (p # ps) S =
     op_takes calls ctl p S + steps_take V W calls ctl ps (snd (caught (socket_step V W calls ctl p S)))"

lemma ensures_caught: "leaves (has_taken A M) x \<Longrightarrow> ensures (has_taken A M) (caught x)"
  by (cases x rule: caught.cases) (auto simp: leaves_def ensures_def)

lemma leaves_success_or_throw: "leaves P x \<Longrightarrow> leaves P (and_then x success_or_throw)"
  by (erule leaves_and_then) (auto simp: success_or_throw_def check_or_terminate_def split: result.splits option.splits)

lemma takes_step:
  assumes "calls_account A calls" and "has_taken A M S" and "\<forall>fd\<in>#op_offers p. 0 \<le> fd"
  shows "leaves (has_taken A (M + op_takes calls ctl p S)) (socket_step V W calls ctl p S)"
proof (cases p)
  case (Op_Event h io fio fd events)
  with assms takes_accept_event [OF assms(1,2), of io] takes_connect_event [OF assms(1,2)] takes_event [OF assms(1,2)]
  show ?thesis by (cases h) (simp_all add: socket_handle_def)
next
  case (Op_Open error fd)
  with leaves_open [OF assms(2)] assms(3) show ?thesis by (simp add: socket_open_def leaves_success_or_throw)
next
  case (Op_Listen io a backlog options)
  with leaves_listen [OF assms(2)] assms(3) show ?thesis by (simp add: socket_listen_def leaves_success_or_throw)
next
  case (Op_Connect io a options)
  with leaves_connect [OF assms(1,2)] assms(3) show ?thesis by (simp add: socket_connect_def leaves_success_or_throw)
qed (use assms takes_receive takes_send leaves_close in \<open>auto simp: socket_set_accept_callback_def
       socket_set_connected_callback_def socket_set_close_callback_def\<close>)

lemma takes_steps:
  assumes "calls_account A calls" and "has_taken A M S" and "\<forall>p\<in>set ps. \<forall>fd\<in>#op_offers p. 0 \<le> fd"
  shows "ensures (has_taken A (M + steps_take V W calls ctl ps S)) (socket_steps V W calls ctl ps S)"
  using assms(2,3)
proof (induction ps arbitrary: M S)
  case Nil
  then show ?case by simp
next
  case (Cons p ps)
  obtain r T where T: "caught (socket_step V W calls ctl p S) = (r, T)" by fastforce
  have "ensures (has_taken A (M + op_takes calls ctl p S)) (r, T)"
    unfolding T [symmetric] using Cons.prems by (intro ensures_caught takes_step [OF assms(1)]) simp_all
  with Cons.IH [of "M + op_takes calls ctl p S" T] Cons.prems(2) T show ?case
    by (cases r) (simp_all add: add.assoc)
qed

section \<open>Property\<close>

text \<open>
  C29.  No descriptor leaks and none is closed twice.  Take any sequence of the operations of a socket,
  those that set callbacks included, and of reports of the kernel to its handlers, with any failures of the
  system calls and whether or not there still is an event loop; callbacks may return or throw and may use
  the socket, even open it anew; a program may catch an exception and go on.  As long as no assertion fails,
  the descriptors that the socket has closed and the one it holds are those that were handed to it or that
  the system gave it, each as often as it was taken; and its destruction closes the last.
\<close>

theorem socket_closes_what_it_takes:
  assumes "calls_account A calls" and "A w = {#}" and "\<forall>p\<in>set ps. \<forall>fd\<in>#op_offers p. 0 \<le> fd"
    and "socket_steps V W calls ctl ps (make_socket loop w) = (Ret (), S)" and "socket_destroy ctl S = (Ret (), T)"
    and "all = steps_take V W calls ctl ps (make_socket loop w) + A (so_world S)"
  shows "mset (so_closed S) + (if so_fd S = - 1 then {#} else {#so_fd S#}) = all
    \<and> so_fd T = - 1 \<and> mset (so_closed T) = all"
proof -
  let ?M = "steps_take V W calls ctl ps (make_socket loop w)"
  have "has_taken A {#} (make_socket loop w)" by (simp add: has_taken_def taken_def make_socket_def assms(2))
  from takes_steps [OF assms(1) this assms(3), of V W ctl] have S: "has_taken A ?M S"
    using assms(4) by (simp add: ensures_def)
  have "detached A ?M T" using takes_close [OF S, of ctl] assms(5) by (simp add: socket_destroy_def ensures_def)
  moreover have "so_world T = so_world S" using assms(5) socket_close_world by (simp add: socket_destroy_def)
  ultimately show ?thesis using S assms(6) by (simp add: has_taken_def taken_def detached_def)
qed

text \<open>
  A server that accepts, hands over and fails, with a close callback that opens the socket anew and an
  accept callback that throws; then a client.
\<close>

definition reopening :: "(nat, buffer, buffer, int list) socket_calls" where
  "reopening =
     \<lparr>call_accept = (\<lambda>c fd a S. (Throw Bad_Function_Call, S)),
      call_connected = (\<lambda>c S. (Ret (), S)), call_received = (\<lambda>c k S. (Ret (), S)), call_sent = (\<lambda>c s S. (Ret (), S)),
      call_close = (\<lambda>c e S. and_then (socket_open_nothrow accepting 0 8 S) (\<lambda>_ S. (Ret (), S\<lparr>so_world := 8 # so_world S\<rparr>)))\<rparr>"

definition some_ops :: "(nat, buffer, buffer) socket_op list" where
  "some_ops =
     (let io = plain_io\<lparr>sys_accept := Inr (7, [2, 0])\<rparr>; stuck = io\<lparr>sys_getfl := Some 9\<rparr> in
      [Op_Set_Accept (Some 1), Op_Set_Close (Some 2), Op_Set_Connected None, Op_Listen plain_io [2, 0] 5 0,
       Op_Event On_Accept io (taking 0) 5 EPOLLIN, Op_Event On_Accept stuck (taking 0) 5 EPOLLIN,
       Op_Set_Close None, Op_Connect plain_io [2, 0] 0, Op_Event On_Connect plain_io (taking 0) 5 EPOLLOUT,
       Op_Close, Op_Open 0 9])"

lemma reopening_account: "calls_account mset reopening"
proof -
  have "leaves (has_taken mset M) (call_close reopening c e S)" if "has_taken mset M S" for M c e S
  proof -
    have "has_taken mset (add_mset 8 M) T \<Longrightarrow> has_taken mset M (T\<lparr>so_world := 8 # so_world T\<rparr>)"
      for T :: "(nat, buffer, buffer, int list) socket"
      by (cases "so_fd T = - 1") (simp_all add: has_taken_def taken_def)
    with leaves_open [OF that, of 8 accepting 0] show ?thesis
      unfolding reopening_def
      by (cases "socket_open_nothrow accepting 0 8 S"; cases "fst (socket_open_nothrow accepting 0 8 S)")
        (auto simp: leaves_def socket_open_nothrow_def elim!: noexcept.elims)
  qed
  then show ?thesis by (simp add: calls_account_def reopening_def)
qed

theorem socket_closes_what_it_takes_witness:
  "\<exists>S T. socket_steps (buffer_sink granting) buffer_source reopening accepting some_ops (make_socket (Some plain_loop) [])
      = (Ret (), S) \<and> socket_destroy accepting S = (Ret (), T) \<and> so_fd S = 9 \<and> mset (so_closed T) = {#5, 5, 7, 8, 9#}"
proof -
  let ?r = "socket_steps (buffer_sink granting) buffer_source reopening accepting some_ops (make_socket (Some plain_loop) [])"
  have "fst ?r = Ret () \<and> so_fd (snd ?r) = 9 \<and> fst (socket_destroy accepting (snd ?r)) = Ret () \<and> so_world (snd ?r) = [8]" by code_simp
  then obtain S T where S: "?r = (Ret (), S)" "so_fd S = 9" "socket_destroy accepting S = (Ret (), T)" "so_world S = [8]"
    by (metis prod.collapse)
  have p: "\<forall>p\<in>set some_ops. \<forall>fd\<in>#op_offers p. 0 \<le> fd"
    by (auto simp: some_ops_def acquired_def plain_io_def Let_def accepted_def split: if_splits sum.splits result.splits)
  have t: "steps_take (buffer_sink granting) buffer_source reopening accepting some_ops (make_socket (Some plain_loop) []) = {#5, 5, 7, 9#}"
    by code_simp
  from socket_closes_what_it_takes [OF reopening_account _ p S(1,3) refl] S(4) t
  have "mset (so_closed T) = {#5, 5, 7, 8, 9#}" by (simp add: add_mset_commute)
  with S(1-3) show ?thesis by blast
qed

end
