(* ===== verification/Subprocess.thy ===== *)
theory Subprocess
  imports Fdio "HOL-Library.Multiset"
begin

text \<open>
  \<open>src/hlib_subprocess.cpp\<close>: \<open>Subprocess\<close>, a child process behind three pipes, with an event loop of its own or
  with one of the caller's.

  The three \<open>FileDescriptorIO\<close> members are a function of the enumeration \<open>Pipe\<close>; they share the event loop,
  which the object holds (\<open>None\<close> when the weak pointer has expired).  An operation on one of them focuses on
  it: \<open>focus\<close> gives it the loop and the whole object as its world, so that callbacks may use the object,
  and \<open>unfocus\<close> puts it back.  Sinks and sources are over buffers.  What the system gives is the
  argument \<open>os\<close>; the processes forked, the descriptors that the kernel gave and got back, and the signals
  sent are recorded.  The child of \<open>fork\<close> is the argument list it executes and its descriptors, which name
  open files.
\<close>

section \<open>State\<close>

datatype sp_state = Idle | Running | Exited | Failed

datatype sp_pipe = StdIn | StdOut | StdErr

text \<open>
  The callbacks of the members: \<open>onWritten\<close>, \<open>onClose\<close>, and those of the user.  \<open>Sp_Shared\<close> stands for no
  callback on a sink that the object itself holds too, so that what is read into it shows in both places.
\<close>

datatype 'c sp_callback = Sp_Written | Sp_Close sp_pipe | Sp_Shared | Sp_User 'c

text \<open>The process that \<open>fork\<close> makes: the arguments of the program it becomes, and its open files.\<close>

type_synonym child = "string option list res \<times> (int \<Rightarrow> nat option)"

record ('c, 'w) subprocess =
  sp_loop :: "(unit, unit) event_loop option"
  sp_intern :: bool
  sp_state :: sp_state
  sp_pid :: int
  sp_return_code :: int
  sp_source :: "buffer source option"
  sp_sink :: "sp_pipe \<Rightarrow> buffer sink option"
  sp_io :: "sp_pipe \<Rightarrow> ('c sp_callback, buffer, buffer, unit) fdio"
  sp_close_fds :: bool
  sp_exceptions :: "int set"
  sp_on_pipe_close :: "'c option"
  sp_children :: "(int \<times> child) list"
  sp_opened :: "int list"
  sp_closed :: "int list"
  sp_signals :: "(int \<times> int) list"
  sp_world :: 'w

type_synonym ('c, 'w) sp_member = "('c sp_callback, buffer, buffer, ('c, 'w) subprocess) fdio"

record ('c, 'w) sp_calls =
  call_read :: "'c \<Rightarrow> buffer sink option \<Rightarrow> ('c, 'w) subprocess \<Rightarrow> unit res \<times> ('c, 'w) subprocess"
  call_written :: "'c \<Rightarrow> buffer source option \<Rightarrow> ('c, 'w) subprocess \<Rightarrow> unit res \<times> ('c, 'w) subprocess"
  call_pipe_close :: "'c \<Rightarrow> sp_pipe \<Rightarrow> int \<Rightarrow> ('c, 'w) subprocess \<Rightarrow> unit res \<times> ('c, 'w) subprocess"

text \<open>
  The system: the allocator, \<open>epoll_ctl\<close>, the thread, the write of an interrupt, the time and the events of
  a dispatch with what the calls of the n-th handled event give, the pipes, the files that are open when the
  process forks, \<open>fork\<close>, the limit of descriptors, whether \<open>execvp\<close> can execute a program, \<open>waitpid\<close> and \<open>kill\<close>.
\<close>

datatype wait_status = Exit_Status int | Term_Signal int

record sp_system =
  os_alloc :: allocator
  os_ctl :: epoll_ctl
  os_self :: nat
  os_interrupt :: "int option"
  os_start :: timespec
  os_events :: "(timespec \<times> wait) list"
  os_io :: "nat \<Rightarrow> fd_io"
  os_pipe :: "sp_pipe \<Rightarrow> int + nat \<times> nat"
  os_files :: "int \<Rightarrow> nat option"
  os_fork :: "int + int"
  os_open_max :: int
  os_execvp :: "string option list \<Rightarrow> bool"
  os_waitpid :: "int \<Rightarrow> int + wait_status"
  os_kill :: "int \<Rightarrow> int \<Rightarrow> int option"

section \<open>The members\<close>

definition with_world ::
  "(unit, unit) event_loop option \<Rightarrow> 'w \<Rightarrow> ('c, 'k, 'q, 'v) fdio \<Rightarrow> ('c, 'k, 'q, 'w) fdio" where
  "with_world loop w F =
     \<lparr>fio_loop = loop, fio_fd = fio_fd F, fio_closed = fio_closed F, fio_sent = fio_sent F, fio_on_close = fio_on_close F,
      fio_locked = fio_locked F, fio_events = fio_events F, fio_read_sink = fio_read_sink F,
      fio_read_callback = fio_read_callback F, fio_write_queue = fio_write_queue F, fio_world = w\<rparr>"

definition focus :: "sp_pipe \<Rightarrow> ('c, 'w) subprocess \<Rightarrow> ('c, 'w) sp_member" where
  "focus p S = with_world (sp_loop S) S (sp_io S p)"

definition unfocus :: "sp_pipe \<Rightarrow> ('c, 'w) sp_member \<Rightarrow> ('c, 'w) subprocess" where
  "unfocus p F =
     (let S = fio_world F in
      S\<lparr>sp_loop := fio_loop F, sp_io := (sp_io S)(p := with_world None () F),
        sp_sink := (if fio_read_callback F = Some Sp_Shared then (sp_sink S)(p := fio_read_sink F) else sp_sink S)\<rparr>)"

definition on_member ::
  "sp_pipe \<Rightarrow> (('c, 'w) sp_member \<Rightarrow> 'a res \<times> ('c, 'w) sp_member) \<Rightarrow> ('c, 'w) subprocess \<Rightarrow> 'a res \<times> ('c, 'w) subprocess" where
  "on_member p f S = (case f (focus p S) of (r, F) \<Rightarrow> (r, unfocus p F))"

definition on_object ::
  "sp_pipe \<Rightarrow> (('c, 'w) subprocess \<Rightarrow> 'a res \<times> ('c, 'w) subprocess) \<Rightarrow> ('c, 'w) sp_member \<Rightarrow> 'a res \<times> ('c, 'w) sp_member" where
  "on_object p f F = (case f (unfocus p F) of (r, S) \<Rightarrow> (r, focus p S))"

section \<open>Callbacks\<close>

definition sp_on_written :: "sp_system \<Rightarrow> ('c, 'w) subprocess \<Rightarrow> unit res \<times> ('c, 'w) subprocess" where
  "sp_on_written os S = on_member StdIn (fdio_close (os_ctl os)) S"

definition sp_on_close ::
  "sp_system \<Rightarrow> ('c, 'w) sp_calls \<Rightarrow> sp_pipe \<Rightarrow> int \<Rightarrow> ('c, 'w) subprocess \<Rightarrow> unit res \<times> ('c, 'w) subprocess" where
  "sp_on_close os calls p error S =
     and_then (case sp_on_pipe_close S of None \<Rightarrow> (Ret (), S) | Some c \<Rightarrow> call_pipe_close calls c p error S) (\<lambda>_ S.
       if \<not> sp_intern S then (Ret (), S)
       else (case sp_loop S of
               None \<Rightarrow> (Fault Out_Of_Bounds, S)
             | Some L \<Rightarrow> (case event_loop_interrupt (os_interrupt os) L of (r, L1) \<Rightarrow> (r, S\<lparr>sp_loop := Some L1\<rparr>))))"

definition member_calls ::
  "sp_system \<Rightarrow> ('c, 'w) sp_calls \<Rightarrow> sp_pipe \<Rightarrow> ('c sp_callback, buffer, buffer, ('c, 'w) subprocess) fdio_calls" where
  "member_calls os calls p =
     \<lparr>on_read = (\<lambda>cb sink F. case cb of
          Sp_User c \<Rightarrow> on_object p (call_read calls c sink) F
        | Sp_Shared \<Rightarrow> (Ret (), F\<lparr>fio_world := (fio_world F)\<lparr>sp_sink := (sp_sink (fio_world F))(p := sink)\<rparr>\<rparr>)
        | _ \<Rightarrow> (Ret (), F)),
      on_written = (\<lambda>cb source F. case cb of
          Sp_User c \<Rightarrow> on_object p (call_written calls c source) F
        | Sp_Written \<Rightarrow> on_object p (sp_on_written os) F
        | _ \<Rightarrow> (Ret (), F)),
      on_close = (\<lambda>cb error F. case cb of
          Sp_Close q \<Rightarrow> on_object p (sp_on_close os calls q error) F
        | _ \<Rightarrow> (Ret (), F))\<rparr>"

text \<open>The handler that the event loop has for a descriptor is that of the member that has opened it.\<close>

definition sp_event ::
  "sp_system \<Rightarrow> ('c, 'w) sp_calls \<Rightarrow> fd_io \<Rightarrow> int \<Rightarrow> u32 \<Rightarrow> ('c, 'w) subprocess \<Rightarrow> unit res \<times> ('c, 'w) subprocess" where
  "sp_event os calls io fd events S =
     (let p = (if fio_fd (sp_io S StdIn) = fd then StdIn else if fio_fd (sp_io S StdOut) = fd then StdOut else StdErr)
      in on_member p (on_event (buffer_sink (os_alloc os)) buffer_source (member_calls os calls p) (os_ctl os) io fd events) S)"

section \<open>The child\<close>

definition to_argv :: "string \<Rightarrow> string list \<Rightarrow> string option list" where
  "to_argv command args = Some (c_str command) # map (\<lambda>arg. Some (c_str arg)) args @ [None]"

definition dup2 :: "int \<Rightarrow> int \<Rightarrow> (int \<Rightarrow> nat option) \<Rightarrow> int \<times> (int \<Rightarrow> nat option)" where
  "dup2 old new files = (case files old of None \<Rightarrow> (- 1, files) | Some f \<Rightarrow> (new, files(new := Some f)))"

definition verify_dup2 :: "int \<Rightarrow> int \<Rightarrow> (int \<Rightarrow> nat option) \<Rightarrow> unit res \<times> (int \<Rightarrow> nat option)" where
  "verify_dup2 old new files =
     (case dup2 old new files of (fd, files1) \<Rightarrow> (if - 1 \<noteq> fd then Ret () else Fault Assert_Failed, files1))"

definition pipe_get :: "nat \<Rightarrow> pipe_object \<Rightarrow> int" where
  "pipe_get i q = h_handle (if i = 0 then p_read q else p_write q)"

text \<open>What closing a pipe object closes.\<close>

definition child_close :: "pipe_object \<Rightarrow> (int \<Rightarrow> nat option) \<Rightarrow> unit res \<times> (int \<Rightarrow> nat option)" where
  "child_close q files =
     (case pipe_close q of (r, q1) \<Rightarrow> (r, fold (\<lambda>(_, fd) fs. fs(fd := None)) (drop (length (p_log q)) (p_log q1)) files))"

definition child_close_fds :: "int set \<Rightarrow> int \<Rightarrow> (int \<Rightarrow> nat option) \<Rightarrow> (int \<Rightarrow> nat option)" where
  "child_close_fds exceptions max_fd files =
     fold (\<lambda>fd fs. if fd \<in> exceptions then fs else fs(fd := None)) [0..max_fd - 1] files"

definition subprocess_child ::
  "sp_system \<Rightarrow> string option list \<Rightarrow> (sp_pipe \<Rightarrow> pipe_object) \<Rightarrow> ('c, 'w) subprocess \<Rightarrow> child" where
  "subprocess_child os argv pipes S =
     and_then (verify_dup2 (pipe_get 0 (pipes StdIn)) 0 (os_files os)) (\<lambda>_ files.
     and_then (verify_dup2 (pipe_get 1 (pipes StdOut)) 1 files) (\<lambda>_ files.
     and_then (verify_dup2 (pipe_get 1 (pipes StdErr)) 2 files) (\<lambda>_ files.
     and_then (child_close (pipes StdIn) files) (\<lambda>_ files.
     and_then (child_close (pipes StdOut) files) (\<lambda>_ files.
     and_then (child_close (pipes StdErr) files) (\<lambda>_ files.
       let files = (if sp_close_fds S then child_close_fds (sp_exceptions S) (os_open_max os) files else files) in
       if os_execvp os argv then (Ret argv, files) else (Fault Assert_Failed, files)))))))"

section \<open>Operations\<close>

definition wait_nothrow :: "sp_system \<Rightarrow> ('c, 'w) subprocess \<Rightarrow> int result res \<times> ('c, 'w) subprocess" where
  "wait_nothrow os S =
     (if \<not> sp_state S = Running then (Fault Assert_Failed, S)
      else let S = S\<lparr>sp_state := Failed\<rparr> in
      case os_waitpid os (sp_pid S) of
        Inl e \<Rightarrow> (Ret (Failure (Some (make_system_error e ''waitpid() failed''))), S)
      | Inr status \<Rightarrow>
          let S = (case status of Exit_Status c \<Rightarrow> S\<lparr>sp_return_code := c\<rparr> | Term_Signal _ \<Rightarrow> S);
              S = S\<lparr>sp_pid := - 1, sp_state := Exited\<rparr>
          in (Ret (Success (sp_return_code S)), S))"

definition subprocess_wait :: "sp_system \<Rightarrow> ('c, 'w) subprocess \<Rightarrow> int res \<times> ('c, 'w) subprocess" where
  "subprocess_wait os S = and_then (wait_nothrow os S) success_or_throw"

subsection \<open>Running\<close>

text \<open>
  The local variables of \<open>run\<close> are the three pipes; what a pipe closes is closed by the process.  A member of the
  object takes the handle at an end of a pipe.
\<close>

type_synonym ('c, 'w) run_state = "(sp_pipe \<Rightarrow> pipe_object) \<times> ('c, 'w) subprocess"

definition in_pipe ::
  "sp_pipe \<Rightarrow> (pipe_object \<Rightarrow> unit res \<times> pipe_object) \<Rightarrow> ('c, 'w) run_state \<Rightarrow> unit res \<times> ('c, 'w) run_state" where
  "in_pipe p f = (\<lambda>(pipes, S). case f (pipes p) of
     (r, q) \<Rightarrow> (r, (pipes(p := q\<lparr>p_log := []\<rparr>), S\<lparr>sp_closed := sp_closed S @ map snd (p_log q)\<rparr>)))"

definition in_object ::
  "(('c, 'w) subprocess \<Rightarrow> 'a res \<times> ('c, 'w) subprocess) \<Rightarrow> ('c, 'w) run_state \<Rightarrow> 'a res \<times> ('c, 'w) run_state" where
  "in_object f = (\<lambda>(pipes, S). case f S of (r, S1) \<Rightarrow> (r, (pipes, S1)))"

definition new_pipe :: "sp_system \<Rightarrow> sp_pipe \<Rightarrow> ('c, 'w) run_state \<Rightarrow> unit res \<times> ('c, 'w) run_state" where
  "new_pipe os p R =
     and_then (in_pipe p (\<lambda>_. make_pipe_open (os_pipe os p) True []) R) (\<lambda>_ (pipes, S).
       (Ret (), (pipes, S\<lparr>sp_opened := sp_opened S @ [pipe_get 0 (pipes p), pipe_get 1 (pipes p)]\<rparr>)))"

definition open_pipes :: "sp_system \<Rightarrow> ('c, 'w) run_state \<Rightarrow> unit res \<times> ('c, 'w) run_state" where
  "open_pipes os R =
     and_then (new_pipe os StdIn R) (\<lambda>_ R.
     and_then (new_pipe os StdOut R) (\<lambda>_ R.
     new_pipe os StdErr R))"

definition with_pipes ::
  "(('c, 'w) run_state \<Rightarrow> 'a res \<times> ('c, 'w) run_state) \<Rightarrow> ('c, 'w) subprocess \<Rightarrow> 'a res \<times> ('c, 'w) subprocess" where
  "with_pipes f S =
     (case f (\<lambda>_. make_pipe [], S) of (r, R) \<Rightarrow>
        let R = snd (in_pipe StdErr pipe_destroy R);
            R = snd (in_pipe StdOut pipe_destroy R);
            R = snd (in_pipe StdIn pipe_destroy R)
        in (r, snd R))"

definition move_end :: "sp_system \<Rightarrow> sp_pipe \<Rightarrow> nat \<Rightarrow> ('c, 'w) run_state \<Rightarrow> unit res \<times> ('c, 'w) run_state" where
  "move_end os p i = (\<lambda>(pipes, S).
     let q = pipes p;
         (fd, left) = handle_move (- 1) (if i = 0 then p_read q else p_write q)
     in case on_member p (fdio_open (os_ctl os) (h_handle fd)) S of
          (r, S1) \<Rightarrow> (r, (pipes(p := (if i = 0 then q\<lparr>p_read := left\<rparr> else q\<lparr>p_write := left\<rparr>)), S1)))"

definition move_ends :: "sp_system \<Rightarrow> ('c, 'w) run_state \<Rightarrow> unit res \<times> ('c, 'w) run_state" where
  "move_ends os R =
     and_then (move_end os StdIn 1 R) (\<lambda>_ R.
     and_then (move_end os StdOut 0 R) (\<lambda>_ R.
     move_end os StdErr 0 R))"

definition close_pipes :: "('c, 'w) run_state \<Rightarrow> unit res \<times> ('c, 'w) run_state" where
  "close_pipes R =
     and_then (in_pipe StdIn pipe_close R) (\<lambda>_ R.
     and_then (in_pipe StdOut pipe_close R) (\<lambda>_ R.
     in_pipe StdErr pipe_close R))"

text \<open>The sinks of the object are shared with its members.\<close>

definition add_streams :: "sp_system \<Rightarrow> ('c, 'w) subprocess \<Rightarrow> unit res \<times> ('c, 'w) subprocess" where
  "add_streams os S =
     and_then (case sp_source S of
                 None \<Rightarrow> (Ret (), S)
               | Some s \<Rightarrow> on_member StdIn (fdio_write (os_ctl os) (Some s) (Some Sp_Written)) S) (\<lambda>_ S.
     and_then (case sp_sink S StdOut of
                 None \<Rightarrow> (Ret (), S)
               | Some k \<Rightarrow> on_member StdOut (fdio_read (os_ctl os) (Some k) (Some Sp_Shared)) S) (\<lambda>_ S.
     case sp_sink S StdErr of
       None \<Rightarrow> (Ret (), S)
     | Some k \<Rightarrow> on_member StdErr (fdio_read (os_ctl os) (Some k) (Some Sp_Shared)) S))"

text \<open>
  The internal loop works on the object, with the number of events it has handled; a call that has not returned
  is in \<open>epoll_wait\<close>, and its result is \<open>None\<close>.
\<close>

definition loop_with :: "'w \<Rightarrow> ('c, 'v) event_loop \<Rightarrow> ('c, 'w) event_loop" where
  "loop_with w L =
     \<lparr>el_pipe_fd = el_pipe_fd L, el_pipe = el_pipe L, el_interrupt = el_interrupt L, el_locked = el_locked L,
      el_thread_id = el_thread_id L, el_callbacks = el_callbacks L, el_interest = el_interest L, el_world = w\<rparr>"

definition loop_call :: "sp_system \<Rightarrow> ('c, 'w) sp_calls \<Rightarrow> (unit, nat \<times> ('c, 'w) subprocess) call" where
  "loop_call os calls _ fd events L =
     (case el_world L of (n, S) \<Rightarrow>
        case sp_event os calls (os_io os n) fd events (S\<lparr>sp_loop := Some (loop_with () L)\<rparr>) of
          (r, S1) \<Rightarrow> (r, loop_with (Suc n, S1) (case sp_loop S1 of None \<Rightarrow> loop_with () L | Some L1 \<Rightarrow> L1)))"

definition run_loop :: "sp_system \<Rightarrow> ('c, 'w) sp_calls \<Rightarrow> ('c, 'w) subprocess \<Rightarrow> int result option res \<times> ('c, 'w) subprocess" where
  "run_loop os calls S =
     (case sp_loop S of
        None \<Rightarrow> (Fault Out_Of_Bounds, S)
      | Some L \<Rightarrow>
          (case dispatch (loop_call os calls) (os_self os) None (os_start os) (os_events os) (loop_with (0, S) (event_loop_flush L)) of
             (x, L1) \<Rightarrow>
               let S1 = (snd (el_world L1))\<lparr>sp_loop := Some (loop_with () L1)\<rparr>
               in case x of
                    In_Epoll_Wait \<Rightarrow> (Ret None, S1)
                  | Finished r \<Rightarrow> and_then (r, S1) (\<lambda>_ S. and_then (subprocess_wait os S) (\<lambda>c S. (Ret (Some (Success c)), S)))))"

text \<open>The branch of the parent.\<close>

definition run_parent ::
  "sp_system \<Rightarrow> ('c, 'w) sp_calls \<Rightarrow> ('c, 'w) run_state \<Rightarrow> int result option res \<times> ('c, 'w) run_state" where
  "run_parent os calls R =
     and_then (move_ends os R) (\<lambda>_ R.
     and_then (close_pipes R) (\<lambda>_ R.
     and_then (in_object (add_streams os) R) (\<lambda>_ (pipes, S).
       let S = S\<lparr>sp_state := Running\<rparr> in
       if \<not> sp_intern S then (Ret (Some (Success 0)), (pipes, S))
       else in_object (run_loop os calls) (pipes, S))))"

definition run_argv ::
  "sp_system \<Rightarrow> ('c, 'w) sp_calls \<Rightarrow> string option list \<Rightarrow> ('c, 'w) subprocess \<Rightarrow> int result option res \<times> ('c, 'w) subprocess" where
  "run_argv os calls argv S =
     (if \<not> - 1 = sp_pid S then (Fault Assert_Failed, S)
      else with_pipes (\<lambda>R. and_then (open_pipes os R) (\<lambda>_ (pipes, S).
        case os_fork os of
          Inl e \<Rightarrow> (Ret (Some (Failure (Some (make_system_error e ''fork() failed'')))), (pipes, S\<lparr>sp_pid := - 1\<rparr>))
        | Inr pid \<Rightarrow>
            run_parent os calls (pipes, S\<lparr>sp_pid := pid, sp_children := sp_children S @ [(pid, subprocess_child os argv pipes S)]\<rparr>)))
        (S\<lparr>sp_state := Failed, sp_return_code := 0\<rparr>))"

definition cannot_reuse :: exn where
  "cannot_reuse = Logic_Error ''Cannot reuse Subprocess instance''"

text \<open>The two sinks of a run in the internal loop.\<close>

definition make_sinks :: "sp_system \<Rightarrow> ('c, 'w) subprocess \<Rightarrow> unit res \<times> ('c, 'w) subprocess" where
  "make_sinks os S =
     and_then (case make_shared_sink_buffer (os_alloc os) MinimalCapacity of
                 (r, k) \<Rightarrow> (r, S\<lparr>sp_sink := (sp_sink S)(StdOut := Some k)\<rparr>)) (\<lambda>_ S.
     case make_shared_sink_buffer (os_alloc os) MinimalCapacity of
       (r, k) \<Rightarrow> (r, S\<lparr>sp_sink := (sp_sink S)(StdErr := Some k)\<rparr>))"

definition run_nothrow ::
  "sp_system \<Rightarrow> ('c, 'w) sp_calls \<Rightarrow> string \<Rightarrow> string list \<Rightarrow> ('c, 'w) subprocess
     \<Rightarrow> int result option res \<times> ('c, 'w) subprocess" where
  "run_nothrow os calls command args S = noexcept
     (if Idle \<noteq> sp_state S then (Ret (Some (Failure (Some cannot_reuse))), S)
      else and_then (if sp_intern S then make_sinks os (S\<lparr>sp_source := Some (make_source empty_buffer)\<rparr>) else (Ret (), S)) (\<lambda>_.
        run_argv os calls (to_argv command args)))"

definition run_input_nothrow ::
  "sp_system \<Rightarrow> ('c, 'w) sp_calls \<Rightarrow> string \<Rightarrow> string list \<Rightarrow> buffer \<Rightarrow> ('c, 'w) subprocess
     \<Rightarrow> int result option res \<times> ('c, 'w) subprocess" where
  "run_input_nothrow os calls command args input S = noexcept
     (if Idle \<noteq> sp_state S then (Ret (Some (Failure (Some cannot_reuse))), S)
      else if \<not> sp_intern S then (Ret (Some (Failure (Some (Logic_Error ''Invalid run() call on external event loop'')))), S)
      else and_then (make_sinks os (S\<lparr>sp_source := Some (make_source input)\<rparr>)) (\<lambda>_.
        run_argv os calls (to_argv command args)))"

text \<open>A call that has returned throws the error it would return.\<close>

definition returned_or_throw :: "'a result option \<Rightarrow> 's \<Rightarrow> 'a option res \<times> 's" where
  "returned_or_throw r s =
     (case r of None \<Rightarrow> (Ret None, s) | Some x \<Rightarrow> and_then (success_or_throw x s) (\<lambda>a s. (Ret (Some a), s)))"

definition subprocess_run ::
  "sp_system \<Rightarrow> ('c, 'w) sp_calls \<Rightarrow> string \<Rightarrow> string list \<Rightarrow> ('c, 'w) subprocess \<Rightarrow> int option res \<times> ('c, 'w) subprocess" where
  "subprocess_run os calls command args S = and_then (run_nothrow os calls command args S) returned_or_throw"

definition subprocess_run_input ::
  "sp_system \<Rightarrow> ('c, 'w) sp_calls \<Rightarrow> string \<Rightarrow> string list \<Rightarrow> buffer \<Rightarrow> ('c, 'w) subprocess \<Rightarrow> int option res \<times> ('c, 'w) subprocess" where
  "subprocess_run_input os calls command args input S = and_then (run_input_nothrow os calls command args input S) returned_or_throw"

subsection \<open>Construction\<close>

definition make_members :: "sp_pipe \<Rightarrow> ('c sp_callback, buffer, buffer, unit) fdio" where
  "make_members p = fdio_set_close_callback (Some (Sp_Close p)) (make_fdio None ())"

definition make_subprocess :: "(unit, unit) event_loop option \<Rightarrow> 'w \<Rightarrow> ('c, 'w) subprocess" where
  "make_subprocess loop w =
     \<lparr>sp_loop = loop, sp_intern = False, sp_state = Idle, sp_pid = - 1, sp_return_code = 0, sp_source = None,
      sp_sink = (\<lambda>_. None), sp_io = make_members, sp_close_fds = True, sp_exceptions = {0, 1, 2},
      sp_on_pipe_close = None, sp_children = [], sp_opened = [], sp_closed = [], sp_signals = [], sp_world = w\<rparr>"

text \<open>The constructor of the event loop gives it or throws.\<close>

definition make_subprocess_intern :: "unit res \<times> (unit, unit) event_loop \<Rightarrow> 'w \<Rightarrow> unit res \<times> ('c, 'w) subprocess" where
  "make_subprocess_intern make_loop w =
     (case make_loop of (r, L) \<Rightarrow> (r, (make_subprocess (Some L) w)\<lparr>sp_intern := True\<rparr>))"

definition subprocess_destroy :: "sp_system \<Rightarrow> ('c, 'w) subprocess \<Rightarrow> unit res \<times> ('c, 'w) subprocess" where
  "subprocess_destroy os S =
     and_then (on_member StdErr (fdio_destroy (os_ctl os)) S) (\<lambda>_ S.
     and_then (on_member StdOut (fdio_destroy (os_ctl os)) S) (\<lambda>_ S.
     on_member StdIn (fdio_destroy (os_ctl os)) S))"

text \<open>The constructors that run a program; an exception of \<open>run\<close> destroys the object.\<close>

definition destroy_on_throw :: "sp_system \<Rightarrow> 'a res \<times> ('c, 'w) subprocess \<Rightarrow> 'a res \<times> ('c, 'w) subprocess" where
  "destroy_on_throw os x =
     (case x of (Throw e, S) \<Rightarrow> and_then (subprocess_destroy os S) (\<lambda>_ S. (Throw e, S)) | _ \<Rightarrow> x)"

definition make_subprocess_run ::
  "sp_system \<Rightarrow> ('c, 'w) sp_calls \<Rightarrow> unit res \<times> (unit, unit) event_loop \<Rightarrow> string \<Rightarrow> string list \<Rightarrow> 'w
     \<Rightarrow> int option res \<times> ('c, 'w) subprocess" where
  "make_subprocess_run os calls make_loop command args w =
     and_then (make_subprocess_intern make_loop w) (\<lambda>_ S. destroy_on_throw os (subprocess_run os calls command args S))"

definition make_subprocess_run_input ::
  "sp_system \<Rightarrow> ('c, 'w) sp_calls \<Rightarrow> unit res \<times> (unit, unit) event_loop \<Rightarrow> string \<Rightarrow> string list \<Rightarrow> buffer \<Rightarrow> 'w
     \<Rightarrow> int option res \<times> ('c, 'w) subprocess" where
  "make_subprocess_run_input os calls make_loop command args input w =
     and_then (make_subprocess_intern make_loop w) (\<lambda>_ S. destroy_on_throw os (subprocess_run_input os calls command args input S))"

subsection \<open>The other operations\<close>

definition subprocess_output :: "('c, 'w) subprocess \<Rightarrow> buffer option" where
  "subprocess_output S = map_option sk_impl (sp_sink S StdOut)"

definition subprocess_error :: "('c, 'w) subprocess \<Rightarrow> buffer option" where
  "subprocess_error S = map_option sk_impl (sp_sink S StdErr)"

definition set_close_fds :: "bool \<Rightarrow> int set \<Rightarrow> ('c, 'w) subprocess \<Rightarrow> ('c, 'w) subprocess" where
  "set_close_fds enable exceptions S =
     S\<lparr>sp_close_fds := enable, sp_exceptions := insert 2 (insert 1 (insert 0 exceptions))\<rparr>"

definition set_pipe_close_callback :: "'c option \<Rightarrow> ('c, 'w) subprocess \<Rightarrow> ('c, 'w) subprocess" where
  "set_pipe_close_callback callback S = S\<lparr>sp_on_pipe_close := callback\<rparr>"

definition subprocess_write ::
  "sp_system \<Rightarrow> buffer source option \<Rightarrow> 'c option \<Rightarrow> ('c, 'w) subprocess \<Rightarrow> unit res \<times> ('c, 'w) subprocess" where
  "subprocess_write os source callback S =
     (if \<not> Running = sp_state S then (Fault Assert_Failed, S)
      else on_member StdIn (fdio_write (os_ctl os) source (map_option Sp_User callback)) S)"

definition subprocess_write_only ::
  "sp_system \<Rightarrow> buffer source option \<Rightarrow> ('c, 'w) subprocess \<Rightarrow> unit res \<times> ('c, 'w) subprocess" where
  "subprocess_write_only os source S =
     (if \<not> Running = sp_state S then (Fault Assert_Failed, S)
      else on_member StdIn (fdio_write_only (os_ctl os) source) S)"

definition subprocess_read ::
  "sp_system \<Rightarrow> buffer sink option \<Rightarrow> 'c option \<Rightarrow> bool \<Rightarrow> ('c, 'w) subprocess \<Rightarrow> unit res \<times> ('c, 'w) subprocess" where
  "subprocess_read os sink callback read_stderr S =
     (if \<not> Running = sp_state S then (Fault Assert_Failed, S)
      else if read_stderr then on_member StdErr (fdio_read (os_ctl os) sink (map_option Sp_User callback)) S
      else on_member StdOut (fdio_read (os_ctl os) sink (map_option Sp_User callback)) S)"

definition subprocess_close :: "sp_system \<Rightarrow> ('c, 'w) subprocess \<Rightarrow> unit res \<times> ('c, 'w) subprocess" where
  "subprocess_close os S = on_member StdIn (fdio_close (os_ctl os)) S"

definition kill_nothrow :: "sp_system \<Rightarrow> int \<Rightarrow> ('c, 'w) subprocess \<Rightarrow> unit result res \<times> ('c, 'w) subprocess" where
  "kill_nothrow os signal S =
     (if sp_pid S \<le> 0 then (Ret (Success ()), S)
      else case os_kill os (sp_pid S) signal of
             Some e \<Rightarrow> (Ret (Failure (Some (make_system_error e ''kill() failed''))), S\<lparr>sp_signals := sp_signals S @ [(sp_pid S, signal)]\<rparr>)
           | None \<Rightarrow> (Ret (Success ()), S\<lparr>sp_signals := sp_signals S @ [(sp_pid S, signal)]\<rparr>))"

definition SIGKILL :: int where "SIGKILL = 9"

definition kill_default_nothrow :: "sp_system \<Rightarrow> ('c, 'w) subprocess \<Rightarrow> unit result res \<times> ('c, 'w) subprocess" where
  "kill_default_nothrow os S = kill_nothrow os SIGKILL S"

definition subprocess_kill :: "sp_system \<Rightarrow> int \<Rightarrow> ('c, 'w) subprocess \<Rightarrow> unit res \<times> ('c, 'w) subprocess" where
  "subprocess_kill os signal S = and_then (kill_nothrow os signal S) success_or_throw"

end
