(* ===== verification/Subprocess_Invariant.thy ===== *)
theory Subprocess_Invariant
  imports Subprocess
begin

text \<open>
  The invariant of a \<open>Subprocess\<close>: the process it has forked, and who holds the descriptors of its pipes.
  The locale \<open>kept\<close> is what a property of the object must satisfy to survive the events and operations of
  the members, with callbacks that use the object.
\<close>

section \<open>The members and the object\<close>

lemma with_world_simps [simp]:
  "fio_loop (with_world l w F) = l" "fio_fd (with_world l w F) = fio_fd F" "fio_closed (with_world l w F) = fio_closed F"
  "fio_sent (with_world l w F) = fio_sent F" "fio_on_close (with_world l w F) = fio_on_close F"
  "fio_locked (with_world l w F) = fio_locked F" "fio_events (with_world l w F) = fio_events F"
  "fio_read_sink (with_world l w F) = fio_read_sink F" "fio_read_callback (with_world l w F) = fio_read_callback F"
  "fio_write_queue (with_world l w F) = fio_write_queue F" "fio_world (with_world l w F) = w"
  by (simp_all add: with_world_def)

lemma focus_simps [simp]:
  "fio_loop (focus p S) = sp_loop S" "fio_fd (focus p S) = fio_fd (sp_io S p)" "fio_closed (focus p S) = fio_closed (sp_io S p)"
  "fio_on_close (focus p S) = fio_on_close (sp_io S p)" "fio_world (focus p S) = S" "fio_locked (focus p S) = fio_locked (sp_io S p)"
  "fio_events (focus p S) = fio_events (sp_io S p)" "fio_read_sink (focus p S) = fio_read_sink (sp_io S p)"
  "fio_write_queue (focus p S) = fio_write_queue (sp_io S p)"
  by (simp_all add: focus_def)

lemma unfocus_simps [simp]:
  "sp_loop (unfocus p F) = fio_loop F" "sp_io (unfocus p F) = (sp_io (fio_world F))(p := with_world None () F)"
  "sp_intern (unfocus p F) = sp_intern (fio_world F)" "sp_state (unfocus p F) = sp_state (fio_world F)"
  "sp_pid (unfocus p F) = sp_pid (fio_world F)" "sp_return_code (unfocus p F) = sp_return_code (fio_world F)"
  "sp_exceptions (unfocus p F) = sp_exceptions (fio_world F)" "sp_children (unfocus p F) = sp_children (fio_world F)"
  "sp_opened (unfocus p F) = sp_opened (fio_world F)" "sp_closed (unfocus p F) = sp_closed (fio_world F)"
  "sp_signals (unfocus p F) = sp_signals (fio_world F)" "sp_on_pipe_close (unfocus p F) = sp_on_pipe_close (fio_world F)"
  by (simp_all add: unfocus_def Let_def)

lemma loop_with_world [simp]: "el_world (loop_with w L) = w"
  by (simp add: loop_with_def)

subsection \<open>What events and operations on the members keep\<close>

text \<open>
  A property of the object that does not depend on what the members do in an event, apart from closing their
  descriptor, and that the callbacks of the user keep.
\<close>

locale kept =
  fixes Q :: "('c, 'w) subprocess \<Rightarrow> bool" and calls :: "('c, 'w) sp_calls"
  assumes kept_member: "fio_fd G = fio_fd F \<Longrightarrow> fio_closed G = fio_closed F \<Longrightarrow> fio_on_close G = fio_on_close F
      \<Longrightarrow> fio_world G = fio_world F \<Longrightarrow> Q (unfocus p F) \<Longrightarrow> Q (unfocus p G)"
    and kept_close: "Q (unfocus p F) \<Longrightarrow> Q (unfocus p (F\<lparr>fio_closed := fd_close (fio_fd F) (fio_closed F), fio_fd := - 1\<rparr>))"
    and kept_sink: "Q (unfocus p F) \<Longrightarrow> Q (unfocus p (F\<lparr>fio_world := (fio_world F)\<lparr>sp_sink := k\<rparr>\<rparr>))"
    and kept_focus: "Q S \<Longrightarrow> Q (unfocus p (focus p S))"
    and kept_loop: "Q S \<Longrightarrow> Q (S\<lparr>sp_loop := l\<rparr>)"
    and kept_read: "Q S \<Longrightarrow> ensures Q (call_read calls c sink S)"
    and kept_written: "Q S \<Longrightarrow> ensures Q (call_written calls c source S)"
    and kept_pipe_close: "Q S \<Longrightarrow> ensures Q (call_pipe_close calls c q error S)"
begin

definition member_holds :: "sp_pipe \<Rightarrow> ('c, 'w) sp_member \<Rightarrow> bool" where
  "member_holds p F \<longleftrightarrow> Q (unfocus p F)"

lemma member_holds_simps:
  "member_holds p F \<Longrightarrow> member_holds p (F\<lparr>fio_loop := l\<rparr>)" "member_holds p F \<Longrightarrow> member_holds p (F\<lparr>fio_locked := b\<rparr>)"
  "member_holds p F \<Longrightarrow> member_holds p (F\<lparr>fio_events := e\<rparr>)" "member_holds p F \<Longrightarrow> member_holds p (F\<lparr>fio_read_sink := k\<rparr>)"
  "member_holds p F \<Longrightarrow> member_holds p (F\<lparr>fio_read_callback := cb\<rparr>)" "member_holds p F \<Longrightarrow> member_holds p (F\<lparr>fio_write_queue := q\<rparr>)"
  "member_holds p F \<Longrightarrow> member_holds p (F\<lparr>fio_sent := bs\<rparr>)" "member_holds p F \<Longrightarrow> member_holds p (fio_unlock F)"
  unfolding member_holds_def fio_unlock_def by (erule kept_member [rotated -1]; simp)+

lemma member_holds_close: "member_holds p F \<Longrightarrow> member_holds p (F\<lparr>fio_closed := fd_close (fio_fd F) (fio_closed F), fio_fd := - 1\<rparr>)"
  unfolding member_holds_def by (rule kept_close)

lemma member_holds_pair: "member_holds p F \<Longrightarrow> ensures (member_holds p) (r, F)"
  by (rule ensures_pair)

lemma on_member_keeps:
  assumes "\<And>F. member_holds p F \<Longrightarrow> ensures (member_holds p) (f F)" and "Q S"
  shows "ensures Q (on_member p f S)"
proof -
  have "member_holds p (focus p S)" unfolding member_holds_def by (rule kept_focus [OF assms(2)])
  from assms(1) [OF this] show ?thesis by (auto simp: on_member_def ensures_def member_holds_def split: prod.splits)
qed

lemma on_object_keeps:
  assumes "\<And>S. Q S \<Longrightarrow> ensures Q (f S)" and "member_holds p F"
  shows "ensures (member_holds p) (on_object p f F)"
proof -
  obtain r S where f: "f (unfocus p F) = (r, S)" by fastforce
  have "ensures Q (r, S)" using assms unfolding member_holds_def f [symmetric] by blast
  then show ?thesis using kept_focus by (auto simp: on_object_def f ensures_def member_holds_def)
qed

lemma member_keeps_lock: "member_holds p F \<Longrightarrow> ensures (member_holds p) (fio_lock F)"
  by (simp add: fio_lock_def member_holds_simps)

lemma keeps_with_loop: "member_holds p F \<Longrightarrow> ensures (member_holds p) (with_loop f F)"
  by (auto simp: with_loop_def intro!: member_holds_pair member_holds_simps split: option.splits prod.splits)

lemma member_keeps_update_events: "member_holds p F \<Longrightarrow> ensures (member_holds p) (update_events_locked ctl events F)"
  unfolding update_events_locked_def
  by (intro ensures_noexcept ensures_and_then [where P = "member_holds p"]) (auto intro: keeps_with_loop member_holds_simps)

lemma keeps_fdio_close: "member_holds p F \<Longrightarrow> ensures (member_holds p) (fdio_close ctl F)"
  unfolding fdio_close_def
  by (intro ensures_noexcept ensures_and_then [where P = "member_holds p"])
    (auto simp: Let_def intro!: ensures_and_then [where P = "member_holds p"] member_keeps_lock keeps_with_loop member_holds_simps member_holds_close)

lemma keeps_fdio_read: "member_holds p F \<Longrightarrow> ensures (member_holds p) (fdio_read ctl sink cb F)"
  unfolding fdio_read_def
  by (rule ensures_and_then [OF member_keeps_lock])
    (auto simp: Let_def intro!: ensures_and_then [where P = "member_holds p"] member_holds_pair member_keeps_update_events member_holds_simps)

lemma keeps_fdio_write: "member_holds p F \<Longrightarrow> ensures (member_holds p) (fdio_write ctl source cb F)"
  unfolding fdio_write_def
  by (rule ensures_and_then [OF member_keeps_lock])
    (auto simp: Let_def intro!: ensures_and_then [where P = "member_holds p"] member_holds_pair member_keeps_update_events member_holds_simps)

lemma keeps_on_written: "Q S \<Longrightarrow> ensures Q (sp_on_written os S)"
  unfolding sp_on_written_def by (rule on_member_keeps [OF keeps_fdio_close])

lemma keeps_on_close: "Q S \<Longrightarrow> ensures Q (sp_on_close os calls p e S)"
  unfolding sp_on_close_def
  by (rule ensures_and_then [where P = Q])
    (auto intro!: ensures_pair kept_pipe_close kept_loop split: option.splits prod.splits)

lemma keeps_member_calls:
  "member_holds p F \<Longrightarrow> ensures (member_holds p) (on_read (member_calls os calls p) cb sink F)"
  "member_holds p F \<Longrightarrow> ensures (member_holds p) (on_written (member_calls os calls p) cb source F)"
  "member_holds p F \<Longrightarrow> ensures (member_holds p) (on_close (member_calls os calls p) cb e F)"
  using kept_sink
  by (auto simp: member_calls_def member_holds_def [abs_def]
      intro!: member_holds_pair on_object_keeps [unfolded member_holds_def [abs_def]] kept_read kept_written keeps_on_written keeps_on_close split: sp_callback.splits)

lemma keeps_callback_and_close:
  assumes "member_holds p F"
  shows "ensures (member_holds p) (callback_and_close (member_calls os calls p) ctl e F)"
  unfolding callback_and_close_def
proof (rule ensures_and_then [where P = "member_holds p"])
  show "ensures (member_holds p) (case fio_on_close F of None \<Rightarrow> (Ret (), F) | Some c \<Rightarrow> on_close (member_calls os calls p) c e F)"
    using assms keeps_member_calls(3) by (auto split: option.splits)
qed (rule keeps_fdio_close)

lemma keeps_read_completed:
  assumes "member_holds p F"
  shows "ensures (member_holds p) (read_completed (member_calls os calls p) ctl F)"
  unfolding read_completed_def
  by (rule ensures_and_then [OF member_keeps_update_events [OF assms]])
    (auto simp: Let_def intro!: keeps_member_calls(1) member_holds_simps split: option.splits)

lemma keeps_readable:
  assumes "member_holds p F"
  shows "ensures (member_holds p) (on_readable V (member_calls os calls p) ctl io F)"
proof -
  note cb = keeps_callback_and_close keeps_read_completed
  show ?thesis
    unfolding on_readable_def
    by (rule ensures_and_then [OF member_keeps_lock [OF assms]])
      (auto simp: Let_def split: option.splits sum.splits prod.splits
        intro!: ensures_and_then [where P = "member_holds p"] member_holds_pair cb member_holds_simps)
qed

lemma member_keeps_writable:
  assumes "member_holds p F"
  shows "ensures (member_holds p) (on_writable W (member_calls os calls p) ctl io F)"
  unfolding on_writable_def
  by (rule ensures_and_then [OF member_keeps_lock [OF assms]])
    (auto simp: Let_def split: list.splits option.splits sum.splits prod.splits
      intro!: ensures_and_then [where P = "member_holds p"] member_holds_pair keeps_callback_and_close keeps_member_calls(2) member_keeps_update_events member_holds_simps)

lemma keeps_fdio_event: "member_holds p F \<Longrightarrow> ensures (member_holds p) (on_event V W (member_calls os calls p) ctl io fd events F)"
  unfolding on_event_def
  by (auto intro!: ensures_and_then [where P = "member_holds p"] keeps_callback_and_close keeps_readable member_keeps_writable)

lemma keeps_event: "Q S \<Longrightarrow> ensures Q (sp_event os calls io fd events S)"
  unfolding sp_event_def Let_def by (rule on_member_keeps [OF keeps_fdio_event])

lemma keeps_operations:
  "Q S \<Longrightarrow> ensures Q (subprocess_write os source cb S)" "Q S \<Longrightarrow> ensures Q (subprocess_write_only os source S)"
  "Q S \<Longrightarrow> ensures Q (subprocess_read os sink cb err S)" "Q S \<Longrightarrow> ensures Q (subprocess_close os S)"
  "Q S \<Longrightarrow> ensures Q (add_streams os S)"
proof -
  note m = on_member_keeps [OF keeps_fdio_close] on_member_keeps [OF keeps_fdio_read] on_member_keeps [OF keeps_fdio_write]
  show "ensures Q (subprocess_write os source cb S)" "ensures Q (subprocess_write_only os source S)"
    "ensures Q (subprocess_read os sink cb err S)" "ensures Q (subprocess_close os S)" if "Q S"
    using that by (auto simp: subprocess_write_def subprocess_write_only_def fdio_write_only_def [abs_def] subprocess_read_def
        subprocess_close_def intro!: m)
  show "ensures Q (add_streams os S)" if "Q S"
    unfolding add_streams_def using that by (auto intro!: ensures_and_then [where P = Q] m split: option.splits)
qed

text \<open>Dispatching, until it returns or waits.\<close>

lemma keeps_handler:
  assumes "Q (snd (el_world L))" and "call_handler (loop_call os calls) h fd events L = (Ret u, L1)"
  shows "Q (snd (el_world L1))"
proof -
  obtain n S where w: "el_world L = (n, S)" by fastforce
  obtain r S1 where e: "sp_event os calls (os_io os n) fd events (S\<lparr>sp_loop := Some (loop_with () L)\<rparr>) = (r, S1)" by fastforce
  have "Q (S\<lparr>sp_loop := Some (loop_with () L)\<rparr>)" using assms(1) w by (simp add: kept_loop)
  from keeps_event [OF this, of os "os_io os n" fd events] have "r = Ret u \<Longrightarrow> Q S1" for u by (simp add: e ensures_def)
  with assms w e show ?thesis
    by (cases h) (auto simp: call_handler_def loop_call_def pipe_read_def split: handler.splits if_splits nat.splits prod.splits)
qed

lemma keeps_dispatch_loop:
  assumes "Q (snd (el_world L))" and "dispatch_loop (loop_call os calls) expire env L = (x, L1)"
    and "x = In_Epoll_Wait \<or> x = Finished (Ret ())"
  shows "Q (snd (el_world L1))"
  using assms
proof (induction env arbitrary: L)
  case (Cons cw env)
  obtain current w where cw: "cw = (current, w)" by fastforce
  show ?case
  proof (cases w)
    case (Wait_Event fd events)
    show ?thesis
    proof (cases "el_callbacks L fd")
      case (Some h)
      with Wait_Event Cons.prems cw show ?thesis
        by (auto split: if_splits res.splits prod.splits intro: Cons.IH [OF keeps_handler])
    qed (use Wait_Event Cons.prems cw Cons.IH [of "L\<lparr>el_locked := True\<rparr>"] in \<open>auto split: if_splits res.splits\<close>)
  qed (use Cons.prems cw Cons.IH in \<open>auto split: if_splits res.splits\<close>)
qed (auto split: if_splits)

lemma keeps_dispatch:
  assumes "Q (snd (el_world L))" and "dispatch (loop_call os calls) self timeout start env L = (x, L1)"
    and "x = In_Epoll_Wait \<or> x = Finished (Ret ())"
  shows "Q (snd (el_world L1))"
proof -
  from assms(2,3) obtain L2 where
    d: "dispatch_loop (loop_call os calls) (map_option (clock_add start) timeout) env (L\<lparr>el_thread_id := Some self, el_interrupt := False\<rparr>) = (x, L2)"
    and w: "el_world L1 = el_world L2"
    by (auto simp: dispatch_def Let_def split: if_splits prod.splits outcome.splits)
  from keeps_dispatch_loop [OF _ d assms(3)] assms(1) w show ?thesis by simp
qed

end

subsection \<open>The invariant\<close>

text \<open>
  The descriptors that a member has taken, and those that the process has; \<open>M\<close> are those that are in the local
  variables of \<open>run\<close>.
\<close>

definition member_taken :: "('c, 'k, 'q, 'w) fdio \<Rightarrow> int multiset" where
  "member_taken F = mset (fio_closed F) + (if fio_fd F = - 1 then {#} else {#fio_fd F#})"

definition sp_taken :: "('c, 'w) subprocess \<Rightarrow> int multiset" where
  "sp_taken S = mset (sp_closed S) + member_taken (sp_io S StdIn) + member_taken (sp_io S StdOut) + member_taken (sp_io S StdErr)"

definition members_ok :: "int multiset \<Rightarrow> ('c, 'w) subprocess \<Rightarrow> bool" where
  "members_ok M S \<longleftrightarrow>
     {0, 1, 2} \<subseteq> sp_exceptions S \<and>
     (\<forall>p. (fio_fd (sp_io S p) = - 1 \<or> 0 \<le> fio_fd (sp_io S p)) \<and> fio_on_close (sp_io S p) = Some (Sp_Close p)) \<and>
     mset (sp_opened S) = sp_taken S + M"

definition forked_self :: "('c, 'w) subprocess \<Rightarrow> bool" where
  "forked_self S \<longleftrightarrow> 0 < sp_pid S \<and> map fst (sp_children S) = [sp_pid S]"

definition process_ok :: "('c, 'w) subprocess \<Rightarrow> bool" where
  "process_ok S \<longleftrightarrow>
     fst ` set (sp_signals S) \<subseteq> fst ` set (sp_children S) \<and>
     (case sp_state S of
        Idle \<Rightarrow> sp_pid S = - 1 \<and> sp_children S = []
      | Running \<Rightarrow> forked_self S
      | Exited \<Rightarrow> sp_pid S = - 1 \<and> length (sp_children S) = 1
      | Failed \<Rightarrow> sp_pid S = - 1 \<and> sp_children S = [] \<or> forked_self S)"

definition sp_inv :: "('c, 'w) subprocess \<Rightarrow> bool" where
  "sp_inv S \<longleftrightarrow> members_ok {#} S \<and> process_ok S"

text \<open>In \<open>run\<close>, before and after the process has forked.\<close>

definition starting :: "int multiset \<Rightarrow> ('c, 'w) subprocess \<Rightarrow> bool" where
  "starting M S \<longleftrightarrow> members_ok M S \<and> sp_state S = Failed \<and> sp_pid S = - 1 \<and> sp_children S = [] \<and> sp_signals S = []"

definition forked :: "int multiset \<Rightarrow> ('c, 'w) subprocess \<Rightarrow> bool" where
  "forked M S \<longleftrightarrow> members_ok M S \<and> process_ok S \<and> sp_state S = Failed \<and> forked_self S"

lemmas sp_inv_defs = sp_inv_def members_ok_def process_ok_def forked_self_def starting_def forked_def sp_taken_def member_taken_def

lemma members_ok_member:
  assumes "fio_fd G = fio_fd F" and "fio_closed G = fio_closed F" and "fio_on_close G = fio_on_close F" and "fio_world G = fio_world F"
  shows "members_ok M (unfocus p G) \<longleftrightarrow> members_ok M (unfocus p F)"
  using assms by (cases p) (simp_all add: members_ok_def sp_taken_def member_taken_def)

lemma members_ok_close:
  "members_ok M (unfocus p F) \<Longrightarrow> members_ok M (unfocus p (F\<lparr>fio_closed := fd_close (fio_fd F) (fio_closed F), fio_fd := - 1\<rparr>))"
  by (cases p) (auto simp: members_ok_def sp_taken_def member_taken_def fd_close_def split: if_splits)

lemma members_ok_open:
  "members_ok (add_mset fd M) (unfocus p F) \<Longrightarrow> fio_fd F = - 1 \<Longrightarrow> 0 \<le> fd \<Longrightarrow> members_ok M (unfocus p (F\<lparr>fio_fd := fd\<rparr>))"
  by (cases p) (auto simp: members_ok_def sp_taken_def member_taken_def split: if_splits)

lemma members_ok_updates [simp]:
  "members_ok M (unfocus p (F\<lparr>fio_world := (fio_world F)\<lparr>sp_sink := k\<rparr>\<rparr>)) = members_ok M (unfocus p F)"
  "members_ok M (unfocus p (focus p S)) = members_ok M S" "members_ok M (S\<lparr>sp_loop := l\<rparr>) = members_ok M S"
  "members_ok M (S\<lparr>sp_state := st\<rparr>) = members_ok M S" "members_ok M (S\<lparr>sp_pid := pid\<rparr>) = members_ok M S"
  "members_ok M (S\<lparr>sp_return_code := c\<rparr>) = members_ok M S" "members_ok M (S\<lparr>sp_source := src\<rparr>) = members_ok M S"
  "members_ok M (S\<lparr>sp_sink := k\<rparr>) = members_ok M S" "members_ok M (S\<lparr>sp_children := cs\<rparr>) = members_ok M S"
  "members_ok M (S\<lparr>sp_on_pipe_close := cb\<rparr>) = members_ok M S"
  by (cases p; auto simp: members_ok_def sp_taken_def member_taken_def)+

lemma process_ok_updates [simp]:
  "forked_self (unfocus p F) = forked_self (fio_world F)" "process_ok (unfocus p F) = process_ok (fio_world F)"
  "process_ok (S\<lparr>sp_loop := l\<rparr>) = process_ok S" "process_ok (S\<lparr>sp_opened := xs\<rparr>) = process_ok S"
  "process_ok (S\<lparr>sp_closed := xs\<rparr>) = process_ok S" "process_ok (S\<lparr>sp_sink := k\<rparr>) = process_ok S"
  "process_ok (S\<lparr>sp_source := src\<rparr>) = process_ok S" "process_ok (S\<lparr>sp_on_pipe_close := cb\<rparr>) = process_ok S"
  "forked_self (S\<lparr>sp_loop := l\<rparr>) = forked_self S" "forked_self (S\<lparr>sp_closed := xs\<rparr>) = forked_self S"
  "forked_self (S\<lparr>sp_sink := k\<rparr>) = forked_self S"
  by (simp_all add: process_ok_def forked_self_def cong: sp_state.case_cong)

text \<open>The callbacks of the user keep the invariant, as the operations do; and callbacks that do nothing.\<close>

definition respects_object :: "('c, 'w) sp_calls \<Rightarrow> bool" where
  "respects_object calls \<longleftrightarrow>
     (\<forall>S. sp_inv S \<longrightarrow>
        (\<forall>c k. ensures sp_inv (call_read calls c k S)) \<and> (\<forall>c s. ensures sp_inv (call_written calls c s S)) \<and>
        (\<forall>c p e. ensures sp_inv (call_pipe_close calls c p e S)))"

definition idle_calls :: "('c, 'w) sp_calls" where
  "idle_calls = \<lparr>call_read = (\<lambda>c k S. (Ret (), S)), call_written = (\<lambda>c s S. (Ret (), S)), call_pipe_close = (\<lambda>c p e S. (Ret (), S))\<rparr>"

lemma kept_inv: "respects_object calls \<Longrightarrow> kept sp_inv calls"
proof (unfold_locales, goal_cases)
  case (1 G F p)
  then show ?case using members_ok_member [OF 1(2-5)] by (simp add: sp_inv_def)
next
  case (2 p F)
  then show ?case using members_ok_close [of "{#}" p F] by (simp add: sp_inv_def)
qed (auto simp: sp_inv_def respects_object_def)

interpretation forking: kept "forked M" idle_calls
proof (unfold_locales, goal_cases)
  case (1 G F p)
  then show ?case using members_ok_member [OF 1(1-4)] by (simp add: forked_def)
next
  case (2 p F)
  then show ?case using members_ok_close [of M p F] by (simp add: forked_def)
qed (auto simp: forked_def idle_calls_def)

subsection \<open>Pipes\<close>

definition handle_ok :: "(int, string) handle \<Rightarrow> bool" where
  "handle_ok h \<longleftrightarrow> h_handle h = - 1 \<or> 0 \<le> h_handle h \<and> h_destructor h = Some ''fd_close''"

definition pipes_ok :: "(sp_pipe \<Rightarrow> pipe_object) \<Rightarrow> bool" where
  "pipes_ok pipes \<longleftrightarrow> (\<forall>p. p_log (pipes p) = [] \<and> handle_ok (p_read (pipes p)) \<and> handle_ok (p_write (pipes p)))"

definition pipe_holds :: "pipe_object \<Rightarrow> int multiset" where
  "pipe_holds q = mset_of (- 1) (h_handle (p_read q)) + mset_of (- 1) (h_handle (p_write q))"

definition held :: "(sp_pipe \<Rightarrow> pipe_object) \<Rightarrow> int multiset" where
  "held pipes = pipe_holds (pipes StdIn) + pipe_holds (pipes StdOut) + pipe_holds (pipes StdErr)"

definition pipe_of :: "nat \<Rightarrow> nat \<Rightarrow> pipe_object" where
  "pipe_of r w = \<lparr>p_read = make_handle (int r) (Some ''fd_close''), p_write = make_handle (int w) (Some ''fd_close''), p_log = []\<rparr>"

text \<open>A predicate on what the pipes hold and on the object, in a state of \<open>run\<close>.\<close>

definition run_ok :: "(int multiset \<Rightarrow> ('c, 'w) subprocess \<Rightarrow> bool) \<Rightarrow> ('c, 'w) run_state \<Rightarrow> bool" where
  "run_ok P R \<longleftrightarrow> pipes_ok (fst R) \<and> P (held (fst R)) (snd R)"

definition inv_with :: "int multiset \<Rightarrow> ('c, 'w) subprocess \<Rightarrow> bool" where
  "inv_with M S \<longleftrightarrow> members_ok M S \<and> process_ok S"

lemma inv_with_sp_inv: "inv_with {#} S \<longleftrightarrow> sp_inv S"
  by (simp add: inv_with_def sp_inv_def)

lemma inv_withI: "starting M S \<Longrightarrow> inv_with M S" "forked M S \<Longrightarrow> inv_with M S"
  by (simp_all add: inv_with_def starting_def forked_def process_ok_def)

lemma run_ok_weaken: "run_ok P R \<Longrightarrow> (\<And>M S. P M S \<Longrightarrow> P' M S) \<Longrightarrow> run_ok P' R"
  by (simp add: run_ok_def)

lemma held_update: "held (pipes(p := q)) + pipe_holds (pipes p) = held pipes + pipe_holds q"
  by (cases p) (simp_all add: held_def)

lemma make_pipe_open_eq:
  "make_pipe_open (Inr (r, w)) True [] = (Ret (), pipe_of r w)" "fst (make_pipe_open (Inl e) True []) \<noteq> Ret ()"
  by (simp_all add: make_pipe_open_def pipe_open_def pipe_open_nothrow_def pipe_close_def on_fd_def make_pipe_def handle_defs pipe_of_def)

lemma new_pipe_eq:
  "os_pipe os p = Inr (r, w) \<Longrightarrow>
     new_pipe os p (pipes, S) = (Ret (), (pipes(p := pipe_of r w), S\<lparr>sp_opened := sp_opened S @ [int r, int w]\<rparr>))"
  by (simp add: new_pipe_def in_pipe_def make_pipe_open_eq pipe_get_def) (simp add: pipe_of_def make_handle_def)

lemma new_pipe_Ret:
  assumes "new_pipe os p R = (Ret u, R1)"
  obtains r w where "os_pipe os p = Inr (r, w)"
proof (cases "os_pipe os p")
  case (Inl e)
  obtain x q where m: "make_pipe_open (Inl e) True [] = (x, q)" by fastforce
  then have "x \<noteq> Ret ()" using make_pipe_open_eq(2) [of e] by simp
  with assms Inl m show ?thesis by (cases x) (auto simp: new_pipe_def in_pipe_def split: prod.splits)
qed (use that in auto)

lemma pipe_of_ok [simp]: "handle_ok (p_read (pipe_of r w))" "handle_ok (p_write (pipe_of r w))" "p_log (pipe_of r w) = []"
  "pipe_holds (pipe_of r w) = {#int r, int w#}"
  by (simp_all add: pipe_of_def handle_ok_def make_handle_def pipe_holds_def mset_of_def)

lemma open_pipes_Ret:
  assumes "open_pipes os (\<lambda>_. make_pipe [], S) = (Ret u, (pipes, S1))"
  obtains r w where "\<And>p. os_pipe os p = Inr (r p, w p)" and "pipes = (\<lambda>p. pipe_of (r p) (w p))"
    and "S1 = S\<lparr>sp_opened := sp_opened S @ map int [r StdIn, w StdIn, r StdOut, w StdOut, r StdErr, w StdErr]\<rparr>"
proof -
  from assms obtain R1 R2 where n: "new_pipe os StdIn (\<lambda>_. make_pipe [], S) = (Ret (), R1)" "new_pipe os StdOut R1 = (Ret (), R2)"
      "new_pipe os StdErr R2 = (Ret (), (pipes, S1))"
    unfolding open_pipes_def and_then_Ret_iff by auto
  obtain r1 w1 r2 w2 r3 w3 where e: "os_pipe os StdIn = Inr (r1, w1)" "os_pipe os StdOut = Inr (r2, w2)" "os_pipe os StdErr = Inr (r3, w3)"
    using n by (metis new_pipe_Ret)
  let ?r = "case_sp_pipe r1 r2 r3" and ?w = "case_sp_pipe w1 w2 w3"
  have "os_pipe os p = Inr (?r p, ?w p)" for p by (cases p) (simp_all add: e)
  moreover have "pipes p = pipe_of (?r p) (?w p)" for p
    using n by (cases p) (auto simp: new_pipe_eq [OF e(1)] new_pipe_eq [OF e(2)] new_pipe_eq [OF e(3)])
  then have "pipes = (\<lambda>p. pipe_of (?r p) (?w p))" by (rule ext)
  moreover have "S1 = S\<lparr>sp_opened := sp_opened S @ map int [?r StdIn, ?w StdIn, ?r StdOut, ?w StdOut, ?r StdErr, ?w StdErr]\<rparr>"
    using n by (auto simp: new_pipe_eq [OF e(1)] new_pipe_eq [OF e(2)] new_pipe_eq [OF e(3)])
  ultimately show ?thesis by (rule that)
qed

lemma in_pipe_close:
  assumes "pipes_ok pipes"
  shows "\<exists>pipes1 xs. in_pipe p pipe_close (pipes, S) = (Ret (), (pipes1, S\<lparr>sp_closed := sp_closed S @ xs\<rparr>))
    \<and> pipes_ok pipes1 \<and> held pipes = held pipes1 + mset xs \<and> pipe_holds (pipes1 p) = {#} \<and> (\<forall>q. q \<noteq> p \<longrightarrow> pipes1 q = pipes q)"
proof -
  let ?q = "pipes p"
  have ok: "p_log ?q = []" "handle_ok (p_read ?q)" "handle_ok (p_write ?q)" using assms by (auto simp: pipes_ok_def)
  then obtain q1 where c: "pipe_close ?q = (Ret (), q1)" "handle_ok (p_read q1)" "handle_ok (p_write q1)"
      "pipe_holds q1 = {#}" "mset (map snd (p_log q1)) = pipe_holds ?q"
    by (auto simp: handle_ok_def pipe_close_def on_fd_def handle_defs pipe_holds_def mset_of_def)
  let ?p1 = "pipes(p := q1\<lparr>p_log := []\<rparr>)"
  have h: "pipe_holds (q1\<lparr>p_log := []\<rparr>) = {#}" using c(4) by (simp add: pipe_holds_def)
  have "held pipes = held ?p1 + mset (map snd (p_log q1))" using held_update [of pipes p "q1\<lparr>p_log := []\<rparr>"] h c(5) by simp
  with assms c h show ?thesis
    by (intro exI [of _ ?p1] exI [of _ "map snd (p_log q1)"]) (auto simp: in_pipe_def pipes_ok_def)
qed

definition closing_ok :: "(int multiset \<Rightarrow> ('c, 'w) subprocess \<Rightarrow> bool) \<Rightarrow> bool" where
  "closing_ok P \<longleftrightarrow> (\<forall>M xs S. P (M + mset xs) S \<longrightarrow> P M (S\<lparr>sp_closed := sp_closed S @ xs\<rparr>))"

lemma closing_ok: "closing_ok forked" "closing_ok inv_with"
  by (auto simp: closing_ok_def forked_def inv_with_def members_ok_def sp_taken_def ac_simps)

lemma close_pipe_ok:
  assumes "closing_ok P" and "run_ok P (pipes, S)"
  shows "\<exists>pipes1 S1. in_pipe p pipe_close (pipes, S) = (Ret (), (pipes1, S1)) \<and> run_ok P (pipes1, S1)
    \<and> pipe_holds (pipes1 p) = {#} \<and> (\<forall>q. q \<noteq> p \<longrightarrow> pipes1 q = pipes q)"
proof -
  have "pipes_ok pipes" using assms(2) by (simp add: run_ok_def)
  from in_pipe_close [OF this, of p S] obtain pipes1 xs where
    c: "in_pipe p pipe_close (pipes, S) = (Ret (), (pipes1, S\<lparr>sp_closed := sp_closed S @ xs\<rparr>))" "pipes_ok pipes1"
      "held pipes = held pipes1 + mset xs" "pipe_holds (pipes1 p) = {#}" "\<forall>q. q \<noteq> p \<longrightarrow> pipes1 q = pipes q" by blast
  moreover have "P (held pipes1) (S\<lparr>sp_closed := sp_closed S @ xs\<rparr>)"
    using assms c(3) by (simp add: closing_ok_def run_ok_def)
  ultimately show ?thesis by (auto simp: run_ok_def)
qed

text \<open>Closing the three pipes, in any order.\<close>

lemma close_all_ok:
  assumes "closing_ok P" and "run_ok P R" and "{p, q, r} = {StdIn, StdOut, StdErr}"
  shows "\<exists>R1 R2 R3. in_pipe p pipe_close R = (Ret (), R1) \<and> in_pipe q pipe_close R1 = (Ret (), R2)
    \<and> in_pipe r pipe_close R2 = (Ret (), R3) \<and> run_ok P R3 \<and> held (fst R3) = {#}"
proof -
  obtain pipes S where R: "R = (pipes, S)" by fastforce
  from close_pipe_ok [OF assms(1) assms(2) [unfolded R], of p] obtain pipes1 S1 where
    1: "in_pipe p pipe_close (pipes, S) = (Ret (), (pipes1, S1))" "run_ok P (pipes1, S1)" "pipe_holds (pipes1 p) = {#}" by blast
  from close_pipe_ok [OF assms(1) 1(2), of q] obtain pipes2 S2 where
    2: "in_pipe q pipe_close (pipes1, S1) = (Ret (), (pipes2, S2))" "run_ok P (pipes2, S2)" "pipe_holds (pipes2 q) = {#}"
      "\<forall>p. p \<noteq> q \<longrightarrow> pipes2 p = pipes1 p" by blast
  from close_pipe_ok [OF assms(1) 2(2), of r] obtain pipes3 S3 where
    3: "in_pipe r pipe_close (pipes2, S2) = (Ret (), (pipes3, S3))" "run_ok P (pipes3, S3)" "pipe_holds (pipes3 r) = {#}"
      "\<forall>p. p \<noteq> r \<longrightarrow> pipes3 p = pipes2 p" by blast
  have "pipe_holds (pipes3 x) = {#}" if "x \<in> {p, q, r}" for x
    using that 1(3) 2(3,4) 3(3,4) by (cases "x = r"; cases "x = q") auto
  then have "held pipes3 = {#}" unfolding assms(3) held_def by simp
  with 1(1) 2(1) 3(1,2) R show ?thesis by fastforce
qed

lemma close_pipes_ok: "run_ok forked R \<Longrightarrow> ensures (\<lambda>R. run_ok forked R \<and> held (fst R) = {#}) (close_pipes R)"
  using close_all_ok [OF closing_ok(1), of R StdIn StdOut StdErr] by (auto simp: close_pipes_def)

lemma with_pipes_ok:
  assumes "ensures (run_ok inv_with) (f (\<lambda>_. make_pipe [], S))"
  shows "ensures sp_inv (with_pipes f S)"
proof -
  obtain r R where f: "f (\<lambda>_. make_pipe [], S) = (r, R)" by (metis surj_pair)
  have "sp_inv (snd (with_pipes f S))" if r: "r = Ret a" for a
  proof -
    have "run_ok inv_with R" "{StdErr, StdOut, StdIn} = {StdIn, StdOut, StdErr}" using assms f r by auto
    from close_all_ok [OF closing_ok(2) this] obtain R1 R2 R3 where
      "in_pipe StdErr pipe_close R = (Ret (), R1)" "in_pipe StdOut pipe_close R1 = (Ret (), R2)"
      "in_pipe StdIn pipe_close R2 = (Ret (), R3)" "run_ok inv_with R3" "held (fst R3) = {#}" by auto
    then show ?thesis by (auto simp: with_pipes_def f pipe_destroy_def run_ok_def inv_with_sp_inv)
  qed
  moreover have "fst (with_pipes f S) = r" by (simp add: with_pipes_def f Let_def)
  ultimately show ?thesis by (auto simp: ensures_def)
qed

lemma fdio_close_closed: "fdio_close ctl F = (Ret u, F1) \<Longrightarrow> fio_fd F1 = - 1"
  by (auto simp: fdio_close_def and_then_Ret_iff fio_lock_def fio_unlock_def with_loop_def Let_def split: if_splits option.splits prod.splits)

lemma forked_opens:
  assumes "forked (add_mset fd M) S" and "0 \<le> fd"
  shows "ensures (forked M) (on_member p (fdio_open ctl fd) S)"
proof -
  let ?N = "add_mset fd M"
  have F: "forking.member_holds ?N p (focus p S)" unfolding forking.member_holds_def by (rule forking.kept_focus [OF assms(1)])
  have "forked M (unfocus p F1)" if "fdio_open ctl fd (focus p S) = (Ret (), F1)" for F1
  proof -
    from that obtain F2 F3 where "fdio_close ctl (focus p S) = (Ret (), F2)"
      and l: "with_loop (event_loop_add ctl fd (fio_events F2) (Some (User_Handler ()))) F2 = (Ret True, F3)" and F1: "F1 = F3\<lparr>fio_fd := fd\<rparr>"
      by (auto simp: fdio_open_def fdio_open_nothrow_def and_then_Ret_iff success_or_throw_Ret_iff split: if_splits)
    then have "forking.member_holds ?N p F2" "fio_fd F2 = - 1"
      using forking.keeps_fdio_close [OF F, of ctl] fdio_close_closed by (auto simp: ensures_def)
    then have "forking.member_holds ?N p F3 \<and> fio_fd F3 = - 1"
      using l by (auto simp: with_loop_def intro: forking.member_holds_simps(1) split: option.splits prod.splits)
    with F1 members_ok_open [OF _ _ assms(2), of M p F3] show ?thesis by (simp add: forking.member_holds_def forked_def)
  qed
  then show ?thesis by (auto simp: on_member_def ensures_def split: prod.splits)
qed

lemma move_end_ok:
  assumes "run_ok forked (pipes, S)" and "0 \<le> pipe_get i (pipes p)"
  shows "ensures (\<lambda>R. run_ok forked R \<and> (\<forall>q. q \<noteq> p \<longrightarrow> fst R q = pipes q)) (move_end os p i (pipes, S))"
proof -
  let ?q = "pipes p" and ?fd = "pipe_get i (pipes p)"
  let ?left = "\<lparr>h_handle = - 1, h_destructor = None\<rparr> :: (int, string) handle"
  let ?q1 = "if i = 0 then ?q\<lparr>p_read := ?left\<rparr> else ?q\<lparr>p_write := ?left\<rparr>"
  have "pipe_holds ?q = add_mset ?fd (pipe_holds ?q1)" using assms(2) by (auto simp: pipe_holds_def pipe_get_def mset_of_def)
  with held_update [of pipes p ?q1] have h: "held pipes = add_mset ?fd (held (pipes(p := ?q1)))" by simp
  have ok: "pipes_ok (pipes(p := ?q1))" using assms(1) by (auto simp: run_ok_def pipes_ok_def handle_ok_def)
  have "forked (add_mset ?fd (held (pipes(p := ?q1)))) S" using assms(1) h by (simp add: run_ok_def)
  from forked_opens [OF this assms(2), of p "os_ctl os"] ok
  show ?thesis
    by (auto simp: move_end_def handle_move_def pipe_get_def run_ok_def ensures_def Let_def split: prod.splits if_splits)
qed

subsection \<open>Operations keep the invariant\<close>

lemma wait_keeps: "sp_inv S \<Longrightarrow> ensures sp_inv (wait_nothrow os S)"
  by (auto simp: wait_nothrow_def sp_inv_def process_ok_def forked_self_def Let_def split: sum.splits wait_status.splits)

lemma kill_keeps: "sp_inv S \<Longrightarrow> ensures sp_inv (kill_nothrow os signal S)"
  by (auto simp: kill_nothrow_def sp_inv_def members_ok_def process_ok_def forked_self_def sp_taken_def split: option.splits sp_state.splits)

lemma set_keeps: "sp_inv S \<Longrightarrow> sp_inv (set_close_fds enable exceptions S)" "sp_inv S \<Longrightarrow> sp_inv (set_pipe_close_callback cb S)"
  by (auto simp: set_close_fds_def set_pipe_close_callback_def sp_inv_def members_ok_def process_ok_def forked_self_def sp_taken_def split: sp_state.splits)

lemma run_loop_keeps:
  assumes "respects_object calls" and "sp_inv S"
  shows "ensures sp_inv (run_loop os calls S)"
proof (cases "sp_loop S")
  case (Some L)
  obtain x L1 where d: "dispatch (loop_call os calls) (os_self os) None (os_start os) (os_events os) (loop_with (0, S) (event_loop_flush L)) = (x, L1)"
    by fastforce
  have k: "x = In_Epoll_Wait \<or> x = Finished (Ret ()) \<Longrightarrow> sp_inv ((snd (el_world L1))\<lparr>sp_loop := l\<rparr>)" for l
    using kept.keeps_dispatch [OF kept_inv [OF assms(1)] _ d] assms(2) by (simp add: sp_inv_def)
  have w: "sp_inv T \<Longrightarrow> ensures sp_inv (and_then (subprocess_wait os T) (\<lambda>c T. (Ret (Some (Success c)), T)))" for T :: "('a, 'b) subprocess"
    unfolding subprocess_wait_def
    by (intro ensures_and_then [where P = sp_inv] wait_keeps) (auto simp: success_or_throw_def check_or_terminate_def split: result.splits)
  show ?thesis
  proof (cases x)
    case (Finished r)
    with k w show ?thesis by (cases r) (simp_all add: run_loop_def Some d)
  qed (use k in \<open>simp add: run_loop_def Some d\<close>)
qed (simp add: run_loop_def)

definition fork_ok :: "sp_system \<Rightarrow> bool" where
  "fork_ok os \<longleftrightarrow> (case os_fork os of Inl _ \<Rightarrow> True | Inr pid \<Rightarrow> 0 < pid)"

lemma open_pipes_ok:
  assumes "starting {#} S" and "open_pipes os (\<lambda>_. make_pipe [], S) = (Ret u, (pipes, S1))"
  shows "run_ok starting (pipes, S1)" and "0 \<le> pipe_get i (pipes p)"
proof -
  from open_pipes_Ret [OF assms(2)] obtain r w where p: "pipes = (\<lambda>p. pipe_of (r p) (w p))"
    and S1: "S1 = S\<lparr>sp_opened := sp_opened S @ map int [r StdIn, w StdIn, r StdOut, w StdOut, r StdErr, w StdErr]\<rparr>" by metis
  show "0 \<le> pipe_get i (pipes p)" by (simp add: p pipe_get_def pipe_of_def make_handle_def)
  have "held pipes = mset (map int [r StdIn, w StdIn, r StdOut, w StdOut, r StdErr, w StdErr])" by (simp add: p held_def)
  then have "members_ok (held pipes) S1" using assms(1) by (simp add: S1 starting_def members_ok_def sp_taken_def)
  then show "run_ok starting (pipes, S1)" using assms(1) by (simp add: S1 run_ok_def starting_def) (simp add: p pipes_ok_def)
qed

lemma in_object_ok: "ensures P (f (snd R)) \<Longrightarrow> ensures (\<lambda>R1. fst R1 = fst R \<and> P (snd R1)) (in_object f R)"
  by (auto simp: in_object_def ensures_def split: prod.splits)

lemma move_ends_ok:
  assumes "run_ok forked R" and "\<And>p i. 0 \<le> pipe_get i (fst R p)"
  shows "ensures (run_ok forked) (move_ends os R)"
proof -
  let ?P = "\<lambda>A R. run_ok forked R \<and> (\<forall>p i. p \<in> A \<longrightarrow> 0 \<le> pipe_get i (fst R p))"
  have mv: "ensures (?P (A - {p})) (move_end os p i R)" if "?P A R" "p \<in> A" for A p i and R :: "('a, 'b) run_state"
    using move_end_ok [of "fst R" "snd R" i p os] that by (fastforce simp: ensures_def)
  show ?thesis
    unfolding move_ends_def
    by (rule ensures_and_then [OF mv [of _ UNIV]], use assms in simp, simp,
        rule ensures_and_then [OF mv [of _ "UNIV - {StdIn}"]], assumption, simp,
        rule ensures_weaken [OF mv [of _ "UNIV - {StdIn} - {StdOut}"]], assumption, simp_all)
qed

lemma run_parent_keeps:
  assumes "respects_object calls" and "run_ok forked R" and "\<And>p i. 0 \<le> pipe_get i (fst R p)"
  shows "ensures (run_ok inv_with) (run_parent os calls R)"
proof -
  let ?P = "\<lambda>R. run_ok forked R \<and> held (fst R) = {#}"
  have streams: "ensures ?P (in_object (add_streams os) R)" if "?P R" for R :: "('a, 'b) run_state"
    using in_object_ok [of "forked {#}" "add_streams os" R] forking.keeps_operations(5) [of "{#}" "snd R" os] that
    by (auto simp: ensures_def run_ok_def)
  have running: "sp_inv (S\<lparr>sp_state := Running\<rparr>)" if "?P (pipes, S)" for pipes and S :: "('a, 'b) subprocess"
    using that by (auto simp: run_ok_def sp_inv_def forked_def process_ok_def forked_self_def)
  have last: "ensures (run_ok inv_with) (case R of (pipes, S) \<Rightarrow> let S = S\<lparr>sp_state := Running\<rparr> in
      if \<not> sp_intern S then (Ret (Some (Success 0)), (pipes, S)) else in_object (run_loop os calls) (pipes, S))"
    if "?P R" for R :: "('a, 'b) run_state"
  proof -
    obtain pipes S where R: "R = (pipes, S)" by fastforce
    note inv = running [OF that [unfolded R]]
    have "ensures (\<lambda>R1. fst R1 = pipes \<and> sp_inv (snd R1)) (in_object (run_loop os calls) (pipes, S\<lparr>sp_state := Running\<rparr>))"
      using in_object_ok [of sp_inv "run_loop os calls" "(pipes, S\<lparr>sp_state := Running\<rparr>)"] run_loop_keeps [OF assms(1) inv] by simp
    then have "ensures (run_ok inv_with) (in_object (run_loop os calls) (pipes, S\<lparr>sp_state := Running\<rparr>))"
      by (rule ensures_weaken) (use that R in \<open>auto simp: run_ok_def inv_with_sp_inv\<close>)
    then show ?thesis using inv that R by (simp add: Let_def run_ok_def inv_with_sp_inv)
  qed
  show ?thesis
    unfolding run_parent_def
    by (rule ensures_and_then [OF move_ends_ok [OF assms(2,3)]], rule ensures_and_then [OF close_pipes_ok], assumption,
        rule ensures_and_then [OF streams], assumption, rule last)
qed

lemma run_argv_keeps:
  assumes "respects_object calls" and "sp_inv S" and "sp_state S = Idle" and "fork_ok os"
  shows "ensures sp_inv (run_argv os calls argv S)"
proof -
  have pid: "sp_pid S = - 1" "sp_children S = []" "sp_signals S = []" using assms(2,3) by (auto simp: sp_inv_def process_ok_def)
  let ?S = "S\<lparr>sp_state := Failed, sp_return_code := 0\<rparr>"
  let ?P = "\<lambda>R. run_ok starting R \<and> (\<forall>p i. 0 \<le> pipe_get i (fst R p))"
  have "starting {#} ?S" using assms(2) pid by (simp add: starting_def sp_inv_def)
  from open_pipes_ok [OF this] have o: "ensures ?P (open_pipes os (\<lambda>_. make_pipe [], ?S))"
    unfolding ensures_def by (metis prod.collapse)
  have "ensures (run_ok inv_with) (case R of (pipes, S) \<Rightarrow>
        case os_fork os of
          Inl e \<Rightarrow> (Ret (Some (Failure (Some (make_system_error e ''fork() failed'')))), (pipes, S\<lparr>sp_pid := - 1\<rparr>))
        | Inr pid \<Rightarrow>
            run_parent os calls (pipes, S\<lparr>sp_pid := pid, sp_children := sp_children S @ [(pid, subprocess_child os argv pipes S)]\<rparr>))"
    if "?P R" for R :: "('a, 'b) run_state"
  proof -
    obtain pipes T where R: "R = (pipes, T)" by fastforce
    have "run_ok forked (pipes, T\<lparr>sp_pid := pid, sp_children := sp_children T @ [(pid, c)]\<rparr>)" if "0 < pid" for pid c
      using \<open>?P R\<close> that R by (simp add: run_ok_def starting_def forked_def process_ok_def forked_self_def)
    from run_parent_keeps [OF assms(1) this] that R
    have p: "0 < pid \<Longrightarrow> ensures (run_ok inv_with) (run_parent os calls (pipes, T\<lparr>sp_pid := pid, sp_children := sp_children T @ [(pid, c)]\<rparr>))" for pid c
      by simp
    have "run_ok inv_with (pipes, T\<lparr>sp_pid := - 1\<rparr>)"
      using that R by (simp add: run_ok_def starting_def inv_with_def process_ok_def forked_self_def)
    with p assms(4) R show ?thesis by (simp add: fork_ok_def split: sum.splits)
  qed
  with o show ?thesis unfolding run_argv_def pid(1) simp_thms if_False
    by (intro with_pipes_ok ensures_and_then [where P = ?P])
qed

lemma make_sinks_keeps:
  assumes "sp_inv S" and "sp_state S = Idle"
  shows "ensures (\<lambda>S. sp_inv S \<and> sp_state S = Idle) (make_sinks os S)"
  unfolding make_sinks_def
  by (rule ensures_and_then [where P = "\<lambda>S. sp_inv S \<and> sp_state S = Idle"])
    (use assms in \<open>auto simp: sp_inv_def intro!: ensures_pair split: prod.splits\<close>)

lemma run_keeps:
  assumes "respects_object calls" and "sp_inv S" and "fork_ok os"
  shows "ensures sp_inv (run_nothrow os calls command args S)" and "ensures sp_inv (run_input_nothrow os calls command args input S)"
proof -
  have r: "ensures sp_inv (and_then x (\<lambda>_. run_argv os calls argv))"
    if "ensures (\<lambda>S. sp_inv S \<and> sp_state S = Idle) x" for x :: "unit res \<times> ('a, 'b) subprocess" and argv
    by (rule ensures_and_then [OF that]) (auto intro: run_argv_keeps [OF assms(1) _ _ assms(3)])
  have s: "sp_state S = Idle \<Longrightarrow> ensures (\<lambda>S. sp_inv S \<and> sp_state S = Idle) (make_sinks os (S\<lparr>sp_source := src\<rparr>))" for src
    by (rule make_sinks_keeps) (use assms(2) in \<open>simp_all add: sp_inv_def\<close>)
  show "ensures sp_inv (run_nothrow os calls command args S)" "ensures sp_inv (run_input_nothrow os calls command args input S)"
    unfolding run_nothrow_def run_input_nothrow_def using assms(2)
    by (auto intro!: ensures_noexcept r s run_argv_keeps [OF assms(1) _ _ assms(3)])
qed

text \<open>What a program does with the object; \<open>os\<close> may change from call to call.\<close>

datatype 'c sp_command =
    Set_Close_FDs bool "int set"
  | Set_Pipe_Close_Callback "'c option"
  | Run sp_system string "string list"
  | Run_Input sp_system string "string list" buffer
  | Write sp_system "buffer source option" "'c option"
  | Write_Only sp_system "buffer source option"
  | Read sp_system "buffer sink option" "'c option" bool
  | Close sp_system
  | Event sp_system fd_io int u32
  | Wait sp_system
  | Kill sp_system int

fun command_ok :: "'c sp_command \<Rightarrow> bool" where
  "command_ok (Run os command args) = fork_ok os"
| "command_ok (Run_Input os command args input) = fork_ok os"
| "command_ok _ = True"

fun sp_exec :: "('c, 'w) sp_calls \<Rightarrow> 'c sp_command \<Rightarrow> ('c, 'w) subprocess \<Rightarrow> unit res \<times> ('c, 'w) subprocess" where
  "sp_exec calls (Set_Close_FDs enable exceptions) S = (Ret (), set_close_fds enable exceptions S)"
| "sp_exec calls (Set_Pipe_Close_Callback callback) S = (Ret (), set_pipe_close_callback callback S)"
| "sp_exec calls (Run os command args) S = and_then (run_nothrow os calls command args S) (\<lambda>_ S. (Ret (), S))"
| "sp_exec calls (Run_Input os command args input) S = and_then (run_input_nothrow os calls command args input S) (\<lambda>_ S. (Ret (), S))"
| "sp_exec calls (Write os source callback) S = subprocess_write os source callback S"
| "sp_exec calls (Write_Only os source) S = subprocess_write_only os source S"
| "sp_exec calls (Read os sink callback err) S = subprocess_read os sink callback err S"
| "sp_exec calls (Close os) S = subprocess_close os S"
| "sp_exec calls (Event os io fd events) S = sp_event os calls io fd events S"
| "sp_exec calls (Wait os) S = and_then (wait_nothrow os S) (\<lambda>_ S. (Ret (), S))"
| "sp_exec calls (Kill os signal) S = and_then (kill_nothrow os signal S) (\<lambda>_ S. (Ret (), S))"

fun sp_program :: "('c, 'w) sp_calls \<Rightarrow> 'c sp_command list \<Rightarrow> ('c, 'w) subprocess \<Rightarrow> unit res \<times> ('c, 'w) subprocess" where
  "sp_program calls [] S = (Ret (), S)"
| "sp_program calls (c # cs) S = and_then (sp_exec calls c S) (\<lambda>_. sp_program calls cs)"

lemma sp_exec_keeps:
  assumes "respects_object calls" and "sp_inv S" and "command_ok c"
  shows "ensures sp_inv (sp_exec calls c S)"
proof -
  note k = kept_inv [OF assms(1)]
  note unit = ensures_and_then [where P = sp_inv and Q = sp_inv]
  show ?thesis
    using assms by (cases c) (auto intro!: unit run_keeps wait_keeps kill_keeps set_keeps kept.keeps_event [OF k] kept.keeps_operations [OF k])
qed

lemma sp_program_keeps:
  assumes "respects_object calls" and "sp_inv S" and "list_all command_ok cs"
  shows "ensures sp_inv (sp_program calls cs S)"
  using assms(2,3)
proof (induction cs arbitrary: S)
  case (Cons c cs)
  then show ?case by (auto intro!: ensures_and_then [OF sp_exec_keeps [OF assms(1)]])
qed simp

lemma make_subprocess_inv:
  "sp_inv (make_subprocess loop w)" "make_subprocess_intern make_loop w = (r, S) \<Longrightarrow> sp_inv S"
  by (auto simp: make_subprocess_def make_subprocess_intern_def sp_inv_def members_ok_def process_ok_def sp_taken_def member_taken_def
      make_members_def fdio_set_close_callback_def make_fdio_def split: prod.splits)

lemma constructed_inv:
  "S = make_subprocess loop w \<or> make_subprocess_intern make_loop w = (Ret (), S) \<Longrightarrow> sp_inv S"
  by (auto intro: make_subprocess_inv)

text \<open>Destruction closes what the members hold.\<close>

interpretation open_members: kept "members_ok M" idle_calls
proof (unfold_locales, goal_cases)
  case (1 G F p)
  then show ?case using members_ok_member [OF 1(1-4)] by simp
next
  case (2 p F)
  then show ?case by (rule members_ok_close)
qed (auto simp: idle_calls_def)

lemma fdio_close_world: "fdio_close ctl F = (Ret u, F1) \<Longrightarrow> fio_world F1 = fio_world F"
  by (auto simp: fdio_close_def and_then_Ret_iff fio_lock_def fio_unlock_def with_loop_def Let_def split: if_splits option.splits prod.splits)

lemma member_destroyed:
  assumes "members_ok {#} S" and "on_member p (fdio_destroy ctl) S = (Ret (), S1)"
  shows "members_ok {#} S1" and "fio_fd (sp_io S1 p) = - 1" and "q \<noteq> p \<Longrightarrow> sp_io S1 q = sp_io S q"
proof -
  obtain F where F: "fdio_close ctl (focus p S) = (Ret (), F)" "S1 = unfocus p F"
    using assms(2) by (auto simp: on_member_def fdio_destroy_def split: prod.splits)
  have "ensures (members_ok {#}) (on_member p (fdio_close ctl) S)"
    by (rule open_members.on_member_keeps [OF open_members.keeps_fdio_close assms(1)])
  with F show "members_ok {#} S1" by (simp add: on_member_def)
  show "fio_fd (sp_io S1 p) = - 1" using fdio_close_closed [OF F(1)] F(2) by simp
  show "sp_io S1 q = sp_io S q" if "q \<noteq> p" using fdio_close_world [OF F(1)] F(2) that by simp
qed

lemma destroy_closes:
  assumes "members_ok {#} S" and "subprocess_destroy os S = (Ret (), S1)"
  shows "mset (sp_opened S1) = mset (sp_closed S1 @ fio_closed (sp_io S1 StdIn) @ fio_closed (sp_io S1 StdOut) @ fio_closed (sp_io S1 StdErr))"
proof -
  from assms(2) obtain Sa Sb where d: "on_member StdErr (fdio_destroy (os_ctl os)) S = (Ret (), Sa)"
      "on_member StdOut (fdio_destroy (os_ctl os)) Sa = (Ret (), Sb)" "on_member StdIn (fdio_destroy (os_ctl os)) Sb = (Ret (), S1)"
    unfolding subprocess_destroy_def and_then_Ret_iff by auto
  note a = member_destroyed [OF assms(1) d(1)]
  note b = member_destroyed [OF a(1) d(2)]
  note c = member_destroyed [OF b(1) d(3)]
  have "fio_fd (sp_io S1 p) = - 1" for p
    using a(2) b(2) b(3) [of StdErr] c(2) c(3) [of StdErr] c(3) [of StdOut] by (cases p) simp_all
  with c(1) show ?thesis by (simp add: members_ok_def sp_taken_def member_taken_def)
qed

end
