(* ===== verification/Subprocess_Process.thy ===== *)
theory Subprocess_Process
  imports Subprocess_Invariant
begin

text \<open>
  What a \<open>Subprocess\<close> does through its life: the process it forks, the descriptors of its pipes, the
  descriptors the child gets, and what a run reports.
\<close>

section \<open>The descriptors of the child\<close>

lemma child_close_spec:
  assumes "handle_ok (p_read q)" and "handle_ok (p_write q)"
  shows "child_close q files = (Ret (), (\<lambda>fd. if fd \<noteq> - 1 \<and> (fd = pipe_get 0 q \<or> fd = pipe_get 1 q) then None else files fd))"
proof -
  obtain a da b db l where q: "q = \<lparr>p_read = \<lparr>h_handle = a, h_destructor = da\<rparr>, p_write = \<lparr>h_handle = b, h_destructor = db\<rparr>, p_log = l\<rparr>"
    by (metis pipe_object.cases handle.cases)
  have g: "pipe_get 0 q = a" "pipe_get 1 q = b" by (simp_all add: q pipe_get_def)
  have c: "pipe_close q = (Ret (), \<lparr>p_read = \<lparr>h_handle = - 1, h_destructor = da\<rparr>, p_write = \<lparr>h_handle = - 1, h_destructor = db\<rparr>,
      p_log = l @ map (Pair ''fd_close'') (filter (\<lambda>fd. fd \<noteq> - 1) [b, a])\<rparr>)"
    using assms by (auto simp: q pipe_close_def on_fd_def handle_defs handle_ok_def)
  show ?thesis unfolding child_close_def c g by (auto simp: q fun_eq_iff)
qed

lemma child_close_fds_eq:
  "child_close_fds exceptions max_fd files = (\<lambda>fd. if 0 \<le> fd \<and> fd < max_fd \<and> fd \<notin> exceptions then None else files fd)"
proof -
  have "fold (\<lambda>fd fs. if fd \<in> exceptions then fs else fs(fd := None)) fds files
    = (\<lambda>fd. if fd \<in> set fds - exceptions then None else files fd)" for fds :: "int list"
    by (induction fds arbitrary: files) (auto simp: fun_eq_iff)
  then show ?thesis by (auto simp: child_close_fds_def fun_eq_iff)
qed

lemma pipe_get_pipe_of: "pipe_get 0 (pipe_of r w) = int r" "pipe_get (Suc 0) (pipe_of r w) = int w"
  by (simp_all add: pipe_get_def pipe_of_def make_handle_def)

lemma child_close_pipe_of:
  "child_close (pipe_of r w) files = (Ret (), (\<lambda>fd. if fd = int r \<or> fd = int w then None else files fd))"
  by (subst child_close_spec) (simp_all add: pipe_get_pipe_of, auto simp: fun_eq_iff)

section \<open>The outcome of a run\<close>

text \<open>What \<open>run\<close> reports from; callbacks that leave it alone.\<close>

definition process_of :: "('c, 'w) subprocess \<Rightarrow> sp_state \<times> int \<times> int \<times> bool" where
  "process_of S = (sp_state S, sp_pid S, sp_return_code S, sp_intern S)"

definition leaves_process :: "('c, 'w) sp_calls \<Rightarrow> bool" where
  "leaves_process calls \<longleftrightarrow>
     (\<forall>S. (\<forall>c k. process_of (snd (call_read calls c k S)) = process_of S) \<and>
          (\<forall>c s. process_of (snd (call_written calls c s S)) = process_of S) \<and>
          (\<forall>c p e. process_of (snd (call_pipe_close calls c p e S)) = process_of S))"

lemma kept_process: "leaves_process calls \<Longrightarrow> kept (\<lambda>S. process_of S = v) calls"
  by unfold_locales (auto simp: process_of_def leaves_process_def ensures_def)

interpretation same_process: kept "\<lambda>S. process_of S = v" idle_calls
  by (rule kept_process) (simp add: leaves_process_def idle_calls_def)

lemma process_in_pipe: "process_of (snd R) = v \<Longrightarrow> process_of (snd (snd (in_pipe p f R))) = v"
  by (cases R) (simp add: in_pipe_def process_of_def split: prod.splits)

lemma process_with_pipes:
  assumes "with_pipes f S = (Ret a, S1)"
  obtains R where "f (\<lambda>_. make_pipe [], S) = (Ret a, R)" and "process_of S1 = process_of (snd R)"
proof -
  obtain r R where f: "f (\<lambda>_. make_pipe [], S) = (r, R)" by (metis surj_pair)
  with assms have "r = Ret a" "process_of S1 = process_of (snd R)"
    by (auto simp: with_pipes_def Let_def process_in_pipe)
  with f that show ?thesis by simp
qed

lemma process_move_end: "ensures (\<lambda>R1. process_of (snd R1) = process_of (snd R)) (move_end os p i R)"
proof -
  obtain pipes S where R: "R = (pipes, S)" by fastforce
  have "process_of (unfocus p F1) = process_of S" if "fdio_open ctl fd (focus p S) = (Ret (), F1)" for ctl fd F1
  proof -
    from that obtain F2 F3 where "fdio_close ctl (focus p S) = (Ret (), F2)"
      and "with_loop (event_loop_add ctl fd (fio_events F2) (Some (User_Handler ()))) F2 = (Ret True, F3)" and "F1 = F3\<lparr>fio_fd := fd\<rparr>"
      by (auto simp: fdio_open_def fdio_open_nothrow_def and_then_Ret_iff success_or_throw_Ret_iff split: if_splits)
    with fdio_close_world show ?thesis by (fastforce simp: with_loop_def process_of_def split: option.splits prod.splits)
  qed
  then show ?thesis unfolding R by (auto simp: move_end_def on_member_def ensures_def Let_def split: prod.splits)
qed

lemma process_move_ends: "ensures (\<lambda>R1. process_of (snd R1) = process_of (snd R)) (move_ends os R)"
proof -
  have m: "ensures (\<lambda>R1. process_of (snd R1) = v) (move_end os p i R)" if "process_of (snd R) = v" for p i v and R :: "('a, 'b) run_state"
    using process_move_end [of R os p i] that by simp
  show ?thesis unfolding move_ends_def by (intro ensures_and_then [where P = "\<lambda>R1. process_of (snd R1) = process_of (snd R)"] m refl)
qed

lemma process_close_pipes: "ensures (\<lambda>R1. process_of (snd R1) = process_of (snd R)) (close_pipes R)"
proof -
  have i: "ensures (\<lambda>R1. process_of (snd R1) = v) (in_pipe p f R)" if "process_of (snd R) = v" for p f v and R :: "('a, 'b) run_state"
    using process_in_pipe [OF that] by (simp add: ensures_def)
  show ?thesis unfolding close_pipes_def by (intro ensures_and_then [where P = "\<lambda>R1. process_of (snd R1) = process_of (snd R)"] i refl)
qed

lemma process_add_streams: "ensures (\<lambda>R1. process_of (snd R1) = process_of (snd R)) (in_object (add_streams os) R)"
  using in_object_ok [of "\<lambda>S. process_of S = process_of (snd R)" "add_streams os" R] same_process.keeps_operations(5) [of "snd R"]
  by (auto simp: ensures_def)

definition exit_code :: "wait_status \<Rightarrow> int" where
  "exit_code status = (case status of Exit_Status c \<Rightarrow> c | Term_Signal _ \<Rightarrow> 0)"

lemma run_loop_outcome:
  assumes "leaves_process calls" and "process_of S = (Running, pid, 0, True)" and "run_loop os calls S = (Ret (Some x), S1)"
  obtains status where "os_waitpid os pid = Inr status" and "x = Success (exit_code status)"
    and "process_of S1 = (Exited, - 1, exit_code status, True)"
proof -
  obtain L where L: "sp_loop S = Some L" using assms(3) by (cases "sp_loop S") (auto simp: run_loop_def)
  obtain y L1 where d: "dispatch (loop_call os calls) (os_self os) None (os_start os) (os_events os) (loop_with (0, S) (event_loop_flush L)) = (y, L1)"
    by fastforce
  from assms(3) have y: "y = Finished (Ret ())"
    by (cases y; cases "\<exists>r. y = Finished r") (auto simp: run_loop_def L d and_then_Ret_iff)
  let ?S = "(snd (el_world L1))\<lparr>sp_loop := Some (loop_with () L1)\<rparr>"
  have "process_of ?S = (Running, pid, 0, True)"
    using kept.keeps_dispatch [OF kept_process [OF assms(1)] _ d] assms(2) y by (simp add: process_of_def)
  moreover from assms(3) obtain c where "wait_nothrow os ?S = (Ret (Success c), S1)" and "x = Success c"
    by (auto simp: run_loop_def L d y subprocess_wait_def and_then_Ret_iff success_or_throw_Ret_iff)
  ultimately show ?thesis
    using that by (auto simp: wait_nothrow_def process_of_def exit_code_def Let_def split: sum.splits wait_status.splits)
qed

text \<open>What a run that has returned has done, by the result of \<open>fork\<close>.\<close>

definition run_outcome :: "sp_system \<Rightarrow> int result option \<Rightarrow> sp_state \<times> int \<times> int \<times> bool \<Rightarrow> bool" where
  "run_outcome os x v \<longleftrightarrow>
     (case (x, os_fork os) of
        (None, _) \<Rightarrow> True
      | (Some x, Inl e) \<Rightarrow> x = Failure (Some (System_Error e ''fork() failed'')) \<and> v = (Failed, - 1, 0, True)
      | (Some x, Inr pid) \<Rightarrow> (\<exists>status. os_waitpid os pid = Inr status \<and> x = Success (exit_code status)
          \<and> v = (Exited, - 1, exit_code status, True)))"

lemma run_parent_outcome:
  assumes "leaves_process calls" and "process_of (snd R) = (Failed, pid, 0, True)" and "run_parent os calls R = (Ret x, R1)"
  shows "case x of None \<Rightarrow> True
    | Some y \<Rightarrow> (\<exists>status. os_waitpid os pid = Inr status \<and> y = Success (exit_code status)
        \<and> process_of (snd R1) = (Exited, - 1, exit_code status, True))"
proof -
  from assms(3) obtain R2 R3 pipes S where "move_ends os R = (Ret (), R2)" "close_pipes R2 = (Ret (), R3)"
      and "in_object (add_streams os) R3 = (Ret (), (pipes, S))"
      and e: "(let S = S\<lparr>sp_state := Running\<rparr> in if \<not> sp_intern S then (Ret (Some (Success 0)), (pipes, S)) else in_object (run_loop os calls) (pipes, S))
        = (Ret x, R1)"
    by (auto simp: run_parent_def and_then_Ret_iff)
  then have "process_of S = (Failed, pid, 0, True)"
    using assms(2) process_move_ends [of R os] process_close_pipes [of R2] process_add_streams [of R3 os] by (simp add: ensures_def)
  then have S: "process_of (S\<lparr>sp_state := Running\<rparr>) = (Running, pid, 0, True)" by (simp add: process_of_def)
  with e obtain S1 where r: "run_loop os calls (S\<lparr>sp_state := Running\<rparr>) = (Ret x, S1)" "snd R1 = S1"
    by (auto simp: in_object_def process_of_def split: prod.splits)
  show ?thesis
  proof (cases x)
    case (Some y)
    from run_loop_outcome [OF assms(1) S r(1) [unfolded Some]] obtain status where
      "os_waitpid os pid = Inr status" "y = Success (exit_code status)" "process_of S1 = (Exited, - 1, exit_code status, True)" .
    with Some r(2) show ?thesis by auto
  qed simp
qed

lemma run_argv_outcome:
  assumes "leaves_process calls" and "process_of S = (Idle, - 1, c, True)" and "run_argv os calls argv S = (Ret x, S1)"
  shows "run_outcome os x (process_of S1)"
proof -
  let ?S = "S\<lparr>sp_state := Failed, sp_return_code := 0\<rparr>"
  have S: "process_of ?S = (Failed, - 1, 0, True)" "sp_pid S = - 1" using assms(2) by (simp_all add: process_of_def)
  have w: "with_pipes (\<lambda>R. and_then (open_pipes os R) (\<lambda>_ (pipes, S).
        case os_fork os of
          Inl e \<Rightarrow> (Ret (Some (Failure (Some (make_system_error e ''fork() failed'')))), (pipes, S\<lparr>sp_pid := - 1\<rparr>))
        | Inr pid \<Rightarrow>
            run_parent os calls (pipes, S\<lparr>sp_pid := pid, sp_children := sp_children S @ [(pid, subprocess_child os argv pipes S)]\<rparr>)))
        ?S = (Ret x, S1)"
    using assms(3) S(2) by (simp add: run_argv_def)
  from process_with_pipes [OF w] obtain R where
    f: "and_then (open_pipes os (\<lambda>_. make_pipe [], ?S)) (\<lambda>_ (pipes, S).
        case os_fork os of
          Inl e \<Rightarrow> (Ret (Some (Failure (Some (make_system_error e ''fork() failed'')))), (pipes, S\<lparr>sp_pid := - 1\<rparr>))
        | Inr pid \<Rightarrow>
            run_parent os calls (pipes, S\<lparr>sp_pid := pid, sp_children := sp_children S @ [(pid, subprocess_child os argv pipes S)]\<rparr>))
        = (Ret x, R)"
    and S1: "process_of S1 = process_of (snd R)" .
  obtain y pipes T where o': "open_pipes os (\<lambda>_. make_pipe [], ?S) = (y, (pipes, T))" by (metis surj_pair)
  with f have o: "open_pipes os (\<lambda>_. make_pipe [], ?S) = (Ret (), (pipes, T))" by (cases y) simp_all
  with f have r: "(case os_fork os of
          Inl e \<Rightarrow> (Ret (Some (Failure (Some (make_system_error e ''fork() failed'')))), (pipes, T\<lparr>sp_pid := - 1\<rparr>))
        | Inr pid \<Rightarrow>
            run_parent os calls (pipes, T\<lparr>sp_pid := pid, sp_children := sp_children T @ [(pid, subprocess_child os argv pipes T)]\<rparr>)) = (Ret x, R)"
    by simp
  have T: "process_of T = (Failed, - 1, 0, True)"
    by (rule open_pipes_Ret [OF o]) (use S(1) in \<open>simp add: process_of_def\<close>)
  show ?thesis
  proof (cases "os_fork os")
    case (Inl e)
    with r T S1 show ?thesis by (auto simp: run_outcome_def process_of_def make_system_error_def)
  next
    case (Inr pid)
    let ?T = "T\<lparr>sp_pid := pid, sp_children := sp_children T @ [(pid, subprocess_child os argv pipes T)]\<rparr>"
    have p: "process_of (snd (pipes, ?T)) = (Failed, pid, 0, True)" using T by (simp add: process_of_def)
    from r Inr have "run_parent os calls (pipes, ?T) = (Ret x, R)" by simp
    from run_parent_outcome [OF assms(1) p this] Inr S1 show ?thesis by (cases x) (auto simp: run_outcome_def)
  qed
qed

lemma run_outcomes:
  assumes "leaves_process calls" and "process_of S = (Idle, - 1, c, True)"
  shows "run_nothrow os calls command args S = (Ret x, S1) \<Longrightarrow> run_outcome os x (process_of S1)"
    and "run_input_nothrow os calls command args input S = (Ret x, S1) \<Longrightarrow> run_outcome os x (process_of S1)"
proof -
  have s: "process_of T1 = process_of T" if "make_sinks os T = (Ret (), T1)" for T T1 :: "('a, 'b) subprocess"
    using that by (auto simp: make_sinks_def process_of_def and_then_Ret_iff split: prod.splits)
  have "sp_state S = Idle" "sp_intern S" using assms(2) by (simp_all add: process_of_def)
  moreover have "process_of (S\<lparr>sp_source := src\<rparr>) = (Idle, - 1, c, True)" for src using assms(2) by (simp add: process_of_def)
  ultimately show "run_nothrow os calls command args S = (Ret x, S1) \<Longrightarrow> run_outcome os x (process_of S1)"
      "run_input_nothrow os calls command args input S = (Ret x, S1) \<Longrightarrow> run_outcome os x (process_of S1)"
    using s by (fastforce simp: run_nothrow_def run_input_nothrow_def and_then_Ret_iff intro: run_argv_outcome [OF assms(1)])+
qed

text \<open>
  The first pipe that is reported to hang up ends an internal run, whatever the others hold: the close
  callback interrupts the loop, and the process is waited for.
\<close>

lemma hangup_event:
  assumes S: "sp_intern S" "sp_on_pipe_close S = None" "sp_loop S = Some L"
    and L: "\<not> el_locked L" "el_callbacks L fd = Some (Some (User_Handler ()))" "fd \<noteq> - 1"
    and F: "fio_fd (sp_io S p) = fd" "\<And>q. q \<noteq> p \<Longrightarrow> fio_fd (sp_io S q) \<noteq> fd" "fio_on_close (sp_io S p) = Some (Sp_Close p)"
      "\<not> fio_locked (sp_io S p)"
    and os: "os_ctl os = accepting" "os_interrupt os = None"
  shows "\<exists>S1. sp_event os calls io fd EPOLLHUP S = (Ret (), S1) \<and> process_of S1 = process_of S
    \<and> sp_loop S1 = Some (L\<lparr>el_pipe := el_pipe L + 1, el_callbacks := (el_callbacks L)(fd := None), el_interest := (el_interest L)(fd := None)\<rparr>)"
proof -
  have bits: "(0 \<noteq> EPOLLIN AND EPOLLHUP) = False" "(0 \<noteq> EPOLLOUT AND EPOLLHUP) = False" "(0 \<noteq> (EPOLLERR OR EPOLLHUP) AND EPOLLHUP) = True"
    by (simp_all add: EPOLLIN_def EPOLLOUT_def EPOLLERR_def EPOLLHUP_def)
  have own: "(if fio_fd (sp_io S StdIn) = fd then StdIn else if fio_fd (sp_io S StdOut) = fd then StdOut else StdErr) = p"
    using F(1,2) by (cases p) auto
  let ?S = "(unfocus p (focus p S))\<lparr>sp_loop := Some (L\<lparr>el_pipe := el_pipe L + 1\<rparr>)\<rparr>"
  have c: "on_close (member_calls os calls p) (Sp_Close p) e (focus p S) = (Ret (), focus p ?S)" for e
    using S os by (simp add: member_calls_def on_object_def sp_on_close_def event_loop_interrupt_def event_loop_interrupt_nothrow_def)
  obtain F1 where d: "fdio_close accepting (focus p ?S) = (Ret (), F1)" "fio_world F1 = ?S"
      "fio_loop F1 = Some (L\<lparr>el_pipe := el_pipe L + 1, el_callbacks := (el_callbacks L)(fd := None), el_interest := (el_interest L)(fd := None)\<rparr>)"
    using S L F by (simp add: fdio_close_def fio_lock_def fio_unlock_def with_loop_def event_loop_remove_def accepting_def Let_def)
  have "on_event V W (member_calls os calls p) accepting io fd EPOLLHUP (focus p S) = (Ret (), F1)" for V W
    unfolding on_event_def bits if_True if_False using F c d(1) by (simp add: callback_and_close_def)
  with d(2,3) os show ?thesis by (auto simp: sp_event_def own on_member_def process_of_def)
qed

lemma hangup_ends_run:
  assumes S: "sp_state S = Running" "sp_return_code S = 0" "sp_intern S" "sp_on_pipe_close S = None" "sp_loop S = Some L"
    and L: "\<not> el_locked L" "el_callbacks L fd = Some (Some (User_Handler ()))" "fd \<noteq> - 1"
      "el_callbacks L (el_pipe_fd L) = Some (Some Interrupt_Handler)" "fd \<noteq> el_pipe_fd L"
    and F: "fio_fd (sp_io S p) = fd" "\<And>q. q \<noteq> p \<Longrightarrow> fio_fd (sp_io S q) \<noteq> fd" "fio_on_close (sp_io S p) = Some (Sp_Close p)"
      "\<not> fio_locked (sp_io S p)"
    and os: "os_ctl os = accepting" "os_interrupt os = None" "os_waitpid os (sp_pid S) = Inr status"
      "os_events os = [(t1, Wait_Event fd EPOLLHUP), (t2, Wait_Event (el_pipe_fd L) EPOLLIN)]"
  shows "fst (run_loop os calls S) = Ret (Some (Success (exit_code status)))"
proof -
  have bit: "(0 \<noteq> EPOLLIN AND EPOLLIN) = True" by (simp add: EPOLLIN_def)
  let ?L = "(loop_with (0 :: nat, S) (event_loop_flush L))\<lparr>el_thread_id := Some (os_self os), el_interrupt := False\<rparr>"
  let ?M = "loop_with () ?L"
  have M: "\<not> el_locked ?M" "el_callbacks ?M fd = Some (Some (User_Handler ()))" "el_pipe ?M = 0"
    using L by (simp_all add: loop_with_def event_loop_flush_empties)
  obtain S1 where e: "sp_event os calls (os_io os 0) fd EPOLLHUP (S\<lparr>sp_loop := Some ?M\<rparr>) = (Ret (), S1)"
      "process_of S1 = process_of S"
      "sp_loop S1 = Some (?M\<lparr>el_pipe := 1, el_callbacks := (el_callbacks ?M)(fd := None), el_interest := (el_interest ?M)(fd := None)\<rparr>)"
    using hangup_event [of "S\<lparr>sp_loop := Some ?M\<rparr>" ?M fd p os calls "os_io os 0"] S L F os M
    by (auto simp: process_of_def)
  let ?L1 = "loop_with (1 :: nat, S1) (?M\<lparr>el_pipe := 1, el_callbacks := (el_callbacks ?M)(fd := None), el_interest := (el_interest ?M)(fd := None)\<rparr>)"
  have h: "call_handler (loop_call os calls) (Some (User_Handler ())) fd EPOLLHUP ?L = (Ret (), ?L1)"
    using e(1,3) by (simp add: call_handler_def loop_call_def)
  have r: "call_handler (loop_call os calls) (Some Interrupt_Handler) fd2 EPOLLIN L2 = (Ret (), L2\<lparr>el_pipe := n, el_interrupt := True\<rparr>)"
    if "el_pipe L2 = Suc n" for fd2 L2 n
    using that by (simp add: call_handler_def bit pipe_read_def)
  have "dispatch_loop (loop_call os calls) None (os_events os) ?L = (Finished (Ret ()), ?L1\<lparr>el_pipe := 0, el_interrupt := True\<rparr>)"
    using L h r [of ?L1 0] by (simp add: os(4) wait_milliseconds_def loop_with_def event_loop_flush_empties)
  then have "\<exists>L2. dispatch (loop_call os calls) (os_self os) None (os_start os) (os_events os) (loop_with (0 :: nat, S) (event_loop_flush L))
      = (Finished (Ret ()), L2) \<and> snd (el_world L2) = S1"
    using L by (simp add: dispatch_def loop_with_def event_loop_flush_empties)
  then show ?thesis
    using S(1,2,5) e(2) os(3)
    by (auto simp: run_loop_def subprocess_wait_def wait_nothrow_def process_of_def exit_code_def Let_def split: wait_status.splits)
qed

text \<open>The stages of a run in the internal loop, and what adding the streams to an open object leaves.\<close>

lemma fst_with_pipes: "fst (with_pipes f S) = fst (f (\<lambda>_. make_pipe [], S))"
  by (simp add: with_pipes_def Let_def split: prod.split)

lemma run_argv_result:
  assumes "sp_pid S = - 1" and "open_pipes os (\<lambda>_. make_pipe [], S\<lparr>sp_state := Failed, sp_return_code := 0\<rparr>) = (Ret (), (pipes, T))"
    and "os_fork os = Inr pid"
    and "and_then (move_ends os (pipes, T\<lparr>sp_pid := pid, sp_children := sp_children T @ [(pid, subprocess_child os argv pipes T)]\<rparr>))
        (\<lambda>_. close_pipes) = (Ret (), (left, U))"
    and "add_streams os U = (Ret (), V)" and "sp_intern V"
  shows "fst (run_argv os calls argv S) = fst (run_loop os calls (V\<lparr>sp_state := Running\<rparr>))"
proof -
  have "fst (run_parent os calls R) = fst (run_loop os calls (V\<lparr>sp_state := Running\<rparr>))"
    if "and_then (move_ends os R) (\<lambda>_. close_pipes) = (Ret (), (left, U))" for R
  proof -
    from that obtain R1 where "move_ends os R = (Ret (), R1)" "close_pipes R1 = (Ret (), (left, U))" by (auto simp: and_then_Ret_iff)
    with assms(5,6) show ?thesis by (simp add: run_parent_def in_object_def Let_def split: prod.split)
  qed
  from this [OF assms(4)] assms(1-3) show ?thesis by (simp add: run_argv_def fst_with_pipes)
qed

definition opened :: "(unit, unit) event_loop \<Rightarrow> (sp_pipe \<Rightarrow> int) \<Rightarrow> ('c, 'w) subprocess \<Rightarrow> bool" where
  "opened L fds S \<longleftrightarrow>
     (\<exists>i. sp_loop S = Some (L\<lparr>el_interest := i\<rparr>)) \<and> sp_on_pipe_close S = None \<and>
     (\<forall>p. fio_fd (sp_io S p) = fds p \<and> fio_on_close (sp_io S p) = Some (Sp_Close p) \<and> \<not> fio_locked (sp_io S p))"

lemma opened_member:
  assumes "opened L fds S" and "fds p \<noteq> - 1"
  shows "\<exists>S1. on_member p (fdio_read accepting k cb) S = (Ret (), S1) \<and> opened L fds S1 \<and> process_of S1 = process_of S"
    and "\<exists>S1. on_member p (fdio_write accepting src cb) S = (Ret (), S1) \<and> opened L fds S1 \<and> process_of S1 = process_of S"
  using assms
  by (auto simp: opened_def on_member_def fdio_read_def fdio_write_def fio_lock_def fio_unlock_def update_events_locked_def with_loop_def
      event_loop_modify_def event_loop_modify_nothrow_def accepting_def process_of_def Let_def)

lemma opened_add_streams:
  assumes "opened L fds S" and "- 1 \<notin> range fds" and "os_ctl os = accepting"
  shows "\<exists>S1. add_streams os S = (Ret (), S1) \<and> opened L fds S1 \<and> process_of S1 = process_of S"
proof -
  let ?Q = "\<lambda>x. \<exists>S1. x = (Ret (), S1) \<and> opened L fds S1 \<and> process_of S1 = process_of S"
  have ne: "fds p \<noteq> - 1" for p using assms(2) by (metis rangeI)
  have t: "?Q (and_then x k)" if "?Q x" "\<And>S1. opened L fds S1 \<Longrightarrow> process_of S1 = process_of S \<Longrightarrow> ?Q (k () S1)" for x k
    using that by auto
  have w: "?Q (case x of None \<Rightarrow> (Ret (), T) | Some s \<Rightarrow> on_member p (fdio_write accepting (Some s) cb) T)"
    and r: "?Q (case y of None \<Rightarrow> (Ret (), T) | Some k \<Rightarrow> on_member p (fdio_read accepting (Some k) cb) T)"
    if "opened L fds T" "process_of T = process_of S" for T p x y cb
    using that opened_member [OF that(1) ne, of p] by (cases x; cases y; simp)+
  show ?thesis
    unfolding add_streams_def assms(3) by (intro t w r assms(1) refl)
qed

text \<open>A sink that \<open>run\<close> makes is full whatever it holds, so that its member reads into it once.\<close>

lemma run_sinks_full:
  assumes "make_shared_sink_buffer A MinimalCapacity = (Ret (), k)"
  shows "sink_full (buffer_sink A) (k\<lparr>sk_impl := b\<rparr>)"
proof -
  have "sk_maximum k = MinimalCapacity"
    using assms by (auto simp: make_shared_sink_buffer_def buffer_sink_ctor_def and_then_Ret_iff lift_impl_def split: if_splits)
  then show ?thesis by (simp add: sink_full_def)
qed

text \<open>
  A pipe that gets the descriptor of a closed standard stream: what the stream is made a copy of is closed
  with the pipe.
\<close>

lemma pipe_on_standard_stream:
  assumes "pipes = (\<lambda>p. pipe_of (r p) (w p))" and "r StdIn = 0" and "subprocess_child os argv pipes S = (Ret a, files)"
  shows "files 0 = None"
  using assms
  by (auto simp: subprocess_child_def and_then_Ret_iff child_close_spec child_close_fds_eq pipe_get_pipe_of Let_def split: if_splits)

text \<open>
  Failures that \<open>run\<close> does not report as a result: a pipe that cannot be made, and in the internal loop a wait
  that fails, for instance as a signal interrupts it, end the program.
\<close>

lemma pipe_failure_terminates:
  assumes "sp_state S = Idle" and "sp_pid S = - 1" and "\<not> sp_intern S" and "os_pipe os StdIn = Inl e"
  shows "fst (run_nothrow os calls command args S) = Fault Terminated"
proof -
  have t: "fst (run_argv os calls argv S) = Throw (Hlib_Error (Some (System_Error e [])))" for argv
    using assms by (simp add: run_argv_def fst_with_pipes open_pipes_def new_pipe_def in_pipe_def make_pipe_open_def pipe_open_def
        pipe_open_nothrow_def pipe_close_def on_fd_def make_pipe_def handle_defs make_system_error_def)
  have "fst (noexcept x) = Fault Terminated" if "fst x = Throw f" for x :: "int result option res \<times> ('a, 'b) subprocess" and f
    using that by (cases x) simp
  from this [OF t] assms(1,3) show ?thesis by (simp add: run_nothrow_def)
qed

lemma wait_failure_terminates:
  assumes "sp_state S = Running" and "os_waitpid os (sp_pid S) = Inl e"
  shows "fst (noexcept (subprocess_wait os S)) = Fault Terminated"
  using assms by (simp add: subprocess_wait_def wait_nothrow_def Let_def)

section \<open>Properties\<close>

text \<open>A system for the examples: a pipe is reported to hang up, and the program exits with 3.\<close>

definition demo_os :: sp_system where
  "demo_os =
     \<lparr>os_alloc = granting, os_ctl = accepting, os_self = 1, os_interrupt = None, os_start = Timespec 0 0,
      os_events = [(Timespec 0 0, Wait_Event 7 EPOLLHUP), (Timespec 0 0, Wait_Event 3 EPOLLIN)],
      os_io = (\<lambda>_. taking 0),
      os_pipe = (\<lambda>p. case p of StdIn \<Rightarrow> Inr (5, 6) | StdOut \<Rightarrow> Inr (7, 8) | StdErr \<Rightarrow> Inr (9, 10)),
      os_files = (\<lambda>fd. if 0 \<le> fd \<and> fd \<le> 12 then Some (nat fd) else None),
      os_fork = Inr 42, os_open_max = 12, os_execvp = (\<lambda>_. True), os_waitpid = (\<lambda>_. Inr (Exit_Status 3)), os_kill = (\<lambda>_ _. None)\<rparr>"

definition demo_subprocess :: "bool \<Rightarrow> (unit, unit) subprocess" where
  "demo_subprocess intern =
     (if intern then snd (make_subprocess_intern (make_event_loop accepting None (Inr 3) None ()) ())
      else make_subprocess (Some (snd (make_event_loop accepting None (Inr 3) None ()))) ())"

text \<open>
  C30.  The life of a \<open>Subprocess\<close>: after any calls and events, with any failures of the system, it has
  forked at most once.  While it is running it knows that process; when it is idle or has exited it knows
  none; no signal was sent to any other process; the standard streams are on the list of descriptors to
  keep; and once it has been run it refuses to run again and does not change.
\<close>

theorem subprocess_lifecycle:
  assumes "respects_object calls" and "list_all command_ok cs"
    and "S0 = make_subprocess loop w \<or> make_subprocess_intern make_loop w = (Ret (), S0)"
    and "sp_program calls cs S0 = (Ret (), S)"
  shows "(case sp_state S of
        Idle \<Rightarrow> sp_pid S = - 1 \<and> sp_children S = []
      | Running \<Rightarrow> 0 < sp_pid S \<and> map fst (sp_children S) = [sp_pid S]
      | Exited \<Rightarrow> sp_pid S = - 1 \<and> length (sp_children S) = 1
      | Failed \<Rightarrow> sp_pid S = - 1 \<and> sp_children S = [] \<or> 0 < sp_pid S \<and> map fst (sp_children S) = [sp_pid S])
    \<and> fst ` set (sp_signals S) \<subseteq> fst ` set (sp_children S) \<and> {0, 1, 2} \<subseteq> sp_exceptions S
    \<and> (sp_state S \<noteq> Idle \<longrightarrow> run_nothrow os calls command args S = (Ret (Some (Failure (Some cannot_reuse))), S)
         \<and> run_input_nothrow os calls command args input S = (Ret (Some (Failure (Some cannot_reuse))), S))"
proof -
  note inv = constructed_inv [OF assms(3)]
  from sp_program_keeps [OF assms(1) inv assms(2)] assms(4) have "sp_inv S" by simp
  then show ?thesis
    by (simp add: sp_inv_def members_ok_def process_ok_def forked_self_def run_nothrow_def run_input_nothrow_def eq_commute [of Idle]
        cong: sp_state.case_cong)
qed

definition demo_program :: "unit sp_command list" where
  "demo_program = [Set_Close_FDs True {7}, Run demo_os ''cat'' [''x''], Kill demo_os 15, Wait demo_os, Kill demo_os 9]"

lemma demo_program_runs:
  "list_all command_ok demo_program" "respects_object (idle_calls :: (unit, unit) sp_calls)"
  by (simp_all add: demo_program_def fork_ok_def demo_os_def respects_object_def idle_calls_def)

definition demo_result :: "unit res \<times> (unit, unit) subprocess" where
  "demo_result = sp_program idle_calls demo_program (demo_subprocess False)"

text \<open>What an object with its pipes looks like; the object after the program, and its destruction.\<close>

definition running_view :: "('c, 'w) subprocess
    \<Rightarrow> (sp_state \<times> int \<times> int \<times> bool) \<times> bool \<times> (int \<times> bool \<times> 'c sp_callback option) list \<times> (bool \<times> int \<times> unit handler option option list) option" where
  "running_view U =
     (process_of U, Option.is_none (sp_on_pipe_close U),
      map (\<lambda>p. (fio_fd (sp_io U p), fio_locked (sp_io U p), fio_on_close (sp_io U p))) [StdIn, StdOut, StdErr],
      map_option (\<lambda>L. (el_locked L, el_pipe_fd L, map (el_callbacks L) [6, 7, 9, 3])) (sp_loop U))"

lemma demo_result_view:
  "(case demo_result of (r, S) \<Rightarrow> (r, running_view S, sp_opened S))
    = (let h = Some (Some (User_Handler ())) in
       (Ret (), ((Exited, - 1, 3, False), True,
          [(6, False, Some (Sp_Close StdIn)), (7, False, Some (Sp_Close StdOut)), (9, False, Some (Sp_Close StdErr))],
          Some (False, 3, [h, h, h, Some (Some Interrupt_Handler)])), [5, 6, 7, 8, 9, 10]))"
  by code_simp

lemma member_destroy_open:
  assumes "sp_loop S = Some L" and "\<not> el_locked L" and "fio_fd (sp_io S p) \<noteq> - 1" and "\<not> fio_locked (sp_io S p)"
    and "el_callbacks L (fio_fd (sp_io S p)) \<noteq> None" and "os_ctl os = accepting"
  shows "\<exists>S1 L1. on_member p (fdio_destroy (os_ctl os)) S = (Ret (), S1) \<and> sp_opened S1 = sp_opened S
    \<and> sp_loop S1 = Some L1 \<and> el_locked L1 = el_locked L \<and> el_callbacks L1 = (el_callbacks L)(fio_fd (sp_io S p) := None)
    \<and> (\<forall>q. q \<noteq> p \<longrightarrow> sp_io S1 q = sp_io S q)"
  using assms
  by (auto simp: on_member_def fdio_destroy_def fdio_close_def fio_lock_def fio_unlock_def with_loop_def event_loop_remove_def
      accepting_def Let_def)

lemma demo_results:
  obtains S S1 where "sp_program idle_calls demo_program (demo_subprocess False) = (Ret (), S)" and "sp_state S = Exited"
    and "subprocess_destroy demo_os S = (Ret (), S1)" and "sp_opened S1 = [5, 6, 7, 8, 9, 10]"
proof -
  note view = demo_result_view [unfolded running_view_def process_of_def Let_def]
  obtain S where d: "demo_result = (Ret (), S)" using view by (auto split: prod.splits)
  note view = view [unfolded d, simplified]
  from view obtain L where L: "sp_loop S = Some L" "\<not> el_locked L" "el_callbacks L 6 \<noteq> None" "el_callbacks L 7 \<noteq> None" "el_callbacks L 9 \<noteq> None"
    by auto
  have S: "sp_program idle_calls demo_program (demo_subprocess False) = (Ret (), S)" "sp_state S = Exited" "sp_opened S = [5, 6, 7, 8, 9, 10]"
    using view d by (simp_all add: demo_result_def)
  have fds: "fio_fd (sp_io S StdIn) = 6" "fio_fd (sp_io S StdOut) = 7" "fio_fd (sp_io S StdErr) = 9"
      "\<not> fio_locked (sp_io S StdIn)" "\<not> fio_locked (sp_io S StdOut)" "\<not> fio_locked (sp_io S StdErr)"
    using view by simp_all
  have ctl: "os_ctl demo_os = accepting" by (simp add: demo_os_def)
  from member_destroy_open [OF L(1,2), of StdErr demo_os] fds L ctl obtain Sa La where
    a: "on_member StdErr (fdio_destroy (os_ctl demo_os)) S = (Ret (), Sa)" "sp_opened Sa = sp_opened S" "sp_loop Sa = Some La"
      "\<not> el_locked La" "el_callbacks La = (el_callbacks L)(9 := None)" "\<forall>q. q \<noteq> StdErr \<longrightarrow> sp_io Sa q = sp_io S q"
    using L(2) by auto
  from member_destroy_open [OF a(3,4), of StdOut demo_os] fds L ctl a obtain Sb Lb where
    b: "on_member StdOut (fdio_destroy (os_ctl demo_os)) Sa = (Ret (), Sb)" "sp_opened Sb = sp_opened S" "sp_loop Sb = Some Lb"
      "\<not> el_locked Lb" "el_callbacks Lb = (el_callbacks La)(7 := None)" "\<forall>q. q \<noteq> StdOut \<longrightarrow> sp_io Sb q = sp_io Sa q"
    by auto
  from member_destroy_open [OF b(3,4), of StdIn demo_os] fds L ctl a b obtain Sc where
    "on_member StdIn (fdio_destroy (os_ctl demo_os)) Sb = (Ret (), Sc)" "sp_opened Sc = sp_opened S"
    by auto
  with a(1) b(1) S that show ?thesis by (simp add: subprocess_destroy_def)
qed

lemma demo_constructed:
  "demo_subprocess False = make_subprocess (Some (snd (make_event_loop accepting None (Inr 3) None ()))) ()
    \<or> make_subprocess_intern (make_event_loop accepting None (Inr 3) None ()) () = (Ret (), demo_subprocess False)"
  by (simp add: demo_subprocess_def)

theorem subprocess_lifecycle_witness:
  "\<exists>S. sp_program idle_calls demo_program (demo_subprocess False) = (Ret (), S) \<and> length (sp_children S) = 1
    \<and> run_nothrow demo_os idle_calls ''ls'' [] S = (Ret (Some (Failure (Some cannot_reuse))), S)"
proof -
  obtain S S1 where S: "sp_program idle_calls demo_program (demo_subprocess False) = (Ret (), S)" "sp_state S = Exited"
    by (rule demo_results)
  from subprocess_lifecycle [OF demo_program_runs(2,1) demo_constructed S(1), of demo_os "''ls''" "[]"] S show ?thesis by simp
qed

text \<open>
  C31.  The descriptors of the pipes: after any calls and events, with any failures of the system, the
  destruction of the object leaves every descriptor that a pipe brought into the process closed exactly once.
\<close>

theorem subprocess_closes_its_pipes:
  assumes "respects_object calls" and "list_all command_ok cs"
    and "S0 = make_subprocess loop w \<or> make_subprocess_intern make_loop w = (Ret (), S0)"
    and "sp_program calls cs S0 = (Ret (), S)" and "subprocess_destroy os S = (Ret (), S1)"
  shows "mset (sp_opened S1)
    = mset (sp_closed S1 @ fio_closed (sp_io S1 StdIn) @ fio_closed (sp_io S1 StdOut) @ fio_closed (sp_io S1 StdErr))"
proof -
  note inv = constructed_inv [OF assms(3)]
  from sp_program_keeps [OF assms(1) inv assms(2)] assms(4) have "members_ok {#} S" by (simp add: sp_inv_def)
  from destroy_closes [OF this assms(5)] show ?thesis .
qed

theorem subprocess_closes_its_pipes_witness:
  "\<exists>S S1. sp_program idle_calls demo_program (demo_subprocess False) = (Ret (), S) \<and> subprocess_destroy demo_os S = (Ret (), S1)
    \<and> mset (sp_closed S1 @ fio_closed (sp_io S1 StdIn) @ fio_closed (sp_io S1 StdOut) @ fio_closed (sp_io S1 StdErr))
      = {#5, 6, 7, 8, 9, 10#}"
proof -
  obtain S S1 where S: "sp_program idle_calls demo_program (demo_subprocess False) = (Ret (), S)"
      "subprocess_destroy demo_os S = (Ret (), S1)" "sp_opened S1 = [5, 6, 7, 8, 9, 10]"
    by (rule demo_results)
  from subprocess_closes_its_pipes [OF demo_program_runs(2,1) demo_constructed S(1,2)] S show ?thesis by simp
qed

lemma verify_dup2_open: "files old = Some x \<Longrightarrow> new \<noteq> - 1 \<Longrightarrow> verify_dup2 old new files = (Ret (), files(new := Some x))"
  by (simp add: verify_dup2_def dup2_def)

definition pipe_descriptors :: "(sp_pipe \<Rightarrow> nat) \<Rightarrow> (sp_pipe \<Rightarrow> nat) \<Rightarrow> int set" where
  "pipe_descriptors r w = (int \<circ> r) ` UNIV \<union> (int \<circ> w) ` UNIV"

lemma pipe_descriptors_eq:
  "pipe_descriptors r w = {int (r StdIn), int (r StdOut), int (r StdErr), int (w StdIn), int (w StdOut), int (w StdErr)}"
proof -
  have U: "(UNIV :: sp_pipe set) = {StdIn, StdOut, StdErr}" using sp_pipe.exhaust by blast
  show ?thesis unfolding pipe_descriptors_def U by auto
qed

lemma closed_pipes:
  "(\<lambda>fd. if fd = int (r StdErr) \<or> fd = int (w StdErr) then None
         else if fd = int (r StdOut) \<or> fd = int (w StdOut) then None
         else if fd = int (r StdIn) \<or> fd = int (w StdIn) then None else h fd)
   = (\<lambda>fd. if fd \<in> pipe_descriptors r w then None else h fd)"
  unfolding pipe_descriptors_eq by (simp add: fun_eq_iff)

lemma closed_table:
  "(if b then child_close_fds E m (\<lambda>fd. if fd \<in> P then None else h fd) else (\<lambda>fd. if fd \<in> P then None else h fd))
   = (\<lambda>fd. if fd \<in> P then None else if b \<and> 0 \<le> fd \<and> fd < m \<and> fd \<notin> E then None else h fd)"
  by (simp add: child_close_fds_eq fun_eq_iff)

text \<open>The child in terms of the table of descriptors, whatever the numbers of the pipes are.\<close>

lemma subprocess_child_files:
  assumes "\<And>p. os_files os (int (r p)) \<noteq> None" and "\<And>p. os_files os (int (w p)) \<noteq> None"
    and "pipes = (\<lambda>p. pipe_of (r p) (w p))"
  obtains a b c where "os_files os (int (r StdIn)) = Some a"
    and "((os_files os)(0 := Some a)) (int (w StdOut)) = Some b"
    and "((os_files os)(0 := Some a, 1 := Some b)) (int (w StdErr)) = Some c"
    and "subprocess_child os argv pipes S
      = (if os_execvp os argv then Ret argv else Fault Assert_Failed,
         \<lambda>fd. if fd \<in> pipe_descriptors r w then None
              else if sp_close_fds S \<and> 0 \<le> fd \<and> fd < os_open_max os \<and> fd \<notin> sp_exceptions S then None
              else ((os_files os)(0 := Some a, 1 := Some b, 2 := Some c)) fd)"
proof -
  obtain a where a: "os_files os (int (r StdIn)) = Some a" using assms(1) by blast
  let ?f0 = "(os_files os)(0 := Some a)"
  have "?f0 (int (w StdOut)) \<noteq> None" using assms(2) [of StdOut] by simp
  then obtain b where b: "?f0 (int (w StdOut)) = Some b" by blast
  let ?f1 = "?f0(1 := Some b)"
  have "?f1 (int (w StdErr)) \<noteq> None" using assms(2) [of StdErr] by simp
  then obtain c where c: "?f1 (int (w StdErr)) = Some c" by blast
  let ?g = "\<lambda>fd. if fd = int (r StdErr) \<or> fd = int (w StdErr) then None
      else if fd = int (r StdOut) \<or> fd = int (w StdOut) then None
      else if fd = int (r StdIn) \<or> fd = int (w StdIn) then None else (?f1(2 := Some c)) fd"
  note d = verify_dup2_open [where files = "os_files os" and old = "int (r StdIn)", OF a]
    verify_dup2_open [where files = ?f0 and old = "int (w StdOut)", OF b]
    verify_dup2_open [where files = ?f1 and old = "int (w StdErr)", OF c]
  have "subprocess_child os argv pipes S
      = (if os_execvp os argv then Ret argv else Fault Assert_Failed,
         if sp_close_fds S then child_close_fds (sp_exceptions S) (os_open_max os) ?g else ?g)"
    unfolding subprocess_child_def assms(3)
    by (simp add: pipe_get_pipe_of d child_close_pipe_of Let_def
        del: fun_upd_apply)
  also have "\<dots> = (if os_execvp os argv then Ret argv else Fault Assert_Failed,
      \<lambda>fd. if fd \<in> pipe_descriptors r w then None
           else if sp_close_fds S \<and> 0 \<le> fd \<and> fd < os_open_max os \<and> fd \<notin> sp_exceptions S then None
           else (?f1(2 := Some c)) fd)"
    unfolding closed_pipes closed_table by (rule refl)
  finally show ?thesis using a b c that by blast
qed

text \<open>
  C32.  What the child gets.  When the descriptors of the three pipes are above the standard streams, which
  they are as long as the parent has its standard streams open, the standard streams of the child are the
  ends of the pipes that the parent does not keep.  Otherwise a standard stream whose number a pipe got is
  closed in the child.  In both cases the six descriptors of the pipes are closed, every other one above
  the standard streams and below the limit of the system is closed too unless it is on the list to keep or
  closing is switched off, and the child executes the command with its arguments, or aborts when that fails.
\<close>

theorem child_gets_its_pipes:
  assumes "sp_inv S" and "open_pipes os (\<lambda>_. make_pipe [], S) = (Ret (), (pipes, S1))"
    and "\<And>p. os_pipe os p = Inr (r p, w p)"
    and "\<And>p. os_files os (int (r p)) \<noteq> None" and "\<And>p. os_files os (int (w p)) \<noteq> None"
  shows "\<exists>files. subprocess_child os (to_argv command args) pipes S1
      = (if os_execvp os (to_argv command args) then Ret (to_argv command args) else Fault Assert_Failed, files)
    \<and> (if \<forall>p. 2 < r p \<and> 2 < w p
       then files 0 = os_files os (int (r StdIn)) \<and> files 1 = os_files os (int (w StdOut)) \<and> files 2 = os_files os (int (w StdErr))
       else \<exists>fd \<in> {0, 1, 2} \<inter> pipe_descriptors r w. files fd = None)
    \<and> (\<forall>fd. fd \<in> pipe_descriptors r w \<longrightarrow> files fd = None)
    \<and> (\<forall>fd. fd \<notin> {0, 1, 2} \<union> pipe_descriptors r w \<longrightarrow>
         files fd = (if sp_close_fds S \<and> 0 \<le> fd \<and> fd < os_open_max os \<and> fd \<notin> sp_exceptions S then None else os_files os fd))"
proof (rule open_pipes_Ret [OF assms(2)])
  fix r1 w1 assume o: "\<And>p. os_pipe os p = Inr (r1 p, w1 p)" and p: "pipes = (\<lambda>p. pipe_of (r1 p) (w1 p))"
    and S1: "S1 = S\<lparr>sp_opened := sp_opened S @ map int [r1 StdIn, w1 StdIn, r1 StdOut, w1 StdOut, r1 StdErr, w1 StdErr]\<rparr>"
  have e: "r1 = r" "w1 = w" using o assms(3) by (auto simp: fun_eq_iff)
  have s: "sp_exceptions S1 = sp_exceptions S" "sp_close_fds S1 = sp_close_fds S" by (simp_all add: S1)
  have exc: "{0, 1, 2} \<subseteq> sp_exceptions S" using assms(1) by (simp add: sp_inv_def members_ok_def)
  let ?P = "pipe_descriptors r w"
  obtain a b c where abc: "os_files os (int (r StdIn)) = Some a" "((os_files os)(0 := Some a)) (int (w StdOut)) = Some b"
      "((os_files os)(0 := Some a, 1 := Some b)) (int (w StdErr)) = Some c"
    and child: "subprocess_child os (to_argv command args) pipes S1
      = (if os_execvp os (to_argv command args) then Ret (to_argv command args) else Fault Assert_Failed,
         \<lambda>fd. if fd \<in> ?P then None
              else if sp_close_fds S \<and> 0 \<le> fd \<and> fd < os_open_max os \<and> fd \<notin> sp_exceptions S then None
              else ((os_files os)(0 := Some a, 1 := Some b, 2 := Some c)) fd)" (is "_ = (_, ?files)")
    by (rule subprocess_child_files [OF assms(4,5) p [unfolded e], where argv = "to_argv command args" and S = S1, unfolded s])
      (rule that)
  have streams: "if \<forall>p. 2 < r p \<and> 2 < w p
      then ?files 0 = os_files os (int (r StdIn)) \<and> ?files 1 = os_files os (int (w StdOut)) \<and> ?files 2 = os_files os (int (w StdErr))
      else \<exists>fd \<in> {0, 1, 2} \<inter> ?P. ?files fd = None"
  proof (cases "\<forall>p. 2 < r p \<and> 2 < w p")
    case True
    have n: "r p \<noteq> 0" "w p \<noteq> 0" "r p \<noteq> Suc 0" "w p \<noteq> Suc 0" "r p \<noteq> 2" "w p \<noteq> 2" for p
      using True [rule_format, of p] by auto
    have "0 \<notin> ?P" "1 \<notin> ?P" "2 \<notin> ?P" unfolding pipe_descriptors_eq by (auto simp: n)
    moreover have "os_files os (int (w StdOut)) = Some b" "os_files os (int (w StdErr)) = Some c"
      using abc(2,3) n [of StdOut] n [of StdErr] by simp_all
    moreover have "0 \<in> sp_exceptions S" "1 \<in> sp_exceptions S" "2 \<in> sp_exceptions S" using exc by simp_all
    ultimately show ?thesis unfolding if_P [OF True] using abc(1) by simp
  next
    case False
    then obtain p where "r p \<in> {0, 1, 2} \<or> w p \<in> {0, 1, 2}" by (auto simp: not_less le_Suc_eq numeral_2_eq_2)
    then have "int (r p) \<in> {0, 1, 2} \<inter> ?P \<or> int (w p) \<in> {0, 1, 2} \<inter> ?P" by (auto simp: pipe_descriptors_def)
    then obtain fd where fd: "fd \<in> {0, 1, 2} \<inter> ?P" by blast
    then have "?files fd = None" by simp
    with fd show ?thesis unfolding if_not_P [OF False] by (intro bexI [of _ fd])
  qed
  have closed: "\<forall>fd. fd \<in> ?P \<longrightarrow> ?files fd = None" by simp
  have others: "\<forall>fd. fd \<notin> {0, 1, 2} \<union> ?P \<longrightarrow>
      ?files fd = (if sp_close_fds S \<and> 0 \<le> fd \<and> fd < os_open_max os \<and> fd \<notin> sp_exceptions S then None else os_files os fd)"
    by simp
  show ?thesis
    unfolding child by (intro exI [of _ ?files] conjI refl streams closed others)
qed

lemma demo_pipes:
  "\<exists>S1. open_pipes demo_os (\<lambda>_. make_pipe [], demo_subprocess True)
      = (Ret (), ((\<lambda>p. case p of StdIn \<Rightarrow> pipe_of 5 6 | StdOut \<Rightarrow> pipe_of 7 8 | StdErr \<Rightarrow> pipe_of 9 10), S1))"
proof -
  have p: "os_pipe demo_os StdIn = Inr (5, 6)" "os_pipe demo_os StdOut = Inr (7, 8)" "os_pipe demo_os StdErr = Inr (9, 10)"
    by (simp_all add: demo_os_def)
  have e: "(\<lambda>_. make_pipe [])(StdIn := pipe_of 5 6, StdOut := pipe_of 7 8, StdErr := pipe_of 9 10)
      = (\<lambda>p. case p of StdIn \<Rightarrow> pipe_of 5 6 | StdOut \<Rightarrow> pipe_of 7 8 | StdErr \<Rightarrow> pipe_of 9 10)"
    by (auto simp: fun_eq_iff split: sp_pipe.split)
  show ?thesis by (simp add: open_pipes_def new_pipe_eq [OF p(1)] new_pipe_eq [OF p(2)] new_pipe_eq [OF p(3)] e)
qed

theorem child_gets_its_pipes_witness:
  "\<exists>pipes S1 files. open_pipes demo_os (\<lambda>_. make_pipe [], demo_subprocess True) = (Ret (), (pipes, S1))
    \<and> subprocess_child demo_os (to_argv ''cat'' [''x'']) pipes S1 = (Ret [Some ''cat'', Some ''x'', None], files)
    \<and> map files [0, 1, 2, 3, 4, 5, 6, 7, 8, 9, 10, 11] = [Some 5, Some 8, Some 10, None, None, None, None, None, None, None, None, None]"
proof -
  obtain pipes S1 where o: "open_pipes demo_os (\<lambda>_. make_pipe [], demo_subprocess True) = (Ret (), (pipes, S1))"
    using demo_pipes by blast
  define r w :: "sp_pipe \<Rightarrow> nat" where "r = case_sp_pipe 5 7 9" and "w = case_sp_pipe 6 8 10"
  have inv: "sp_inv (demo_subprocess True)"
    by (auto simp: demo_subprocess_def intro: make_subprocess_inv(2) prod.collapse [symmetric])
  have h: "os_pipe demo_os p = Inr (r p, w p)" "2 < r p" "2 < w p" "os_files demo_os (int (r p)) \<noteq> None" "os_files demo_os (int (w p)) \<noteq> None" for p
    by (cases p; simp add: demo_os_def r_def w_def)+
  have U: "UNIV = {StdIn, StdOut, StdErr}" using sp_pipe.exhaust by blast
  have s: "sp_close_fds (demo_subprocess True)" "sp_exceptions (demo_subprocess True) = {0, 1, 2}"
    by (simp_all add: demo_subprocess_def make_subprocess_intern_def make_subprocess_def split: prod.split)
  obtain files where f: "subprocess_child demo_os (to_argv ''cat'' [''x'']) pipes S1
      = (if os_execvp demo_os (to_argv ''cat'' [''x'']) then Ret (to_argv ''cat'' [''x'']) else Fault Assert_Failed, files)"
    "files 0 = os_files demo_os 5 \<and> files 1 = os_files demo_os 8 \<and> files 2 = os_files demo_os 10"
    "\<forall>fd. fd \<in> pipe_descriptors r w \<longrightarrow> files fd = None"
    "\<forall>fd. fd \<notin> {0, 1, 2} \<union> pipe_descriptors r w \<longrightarrow> files fd = (if 0 \<le> fd \<and> fd < 12 \<and> fd \<notin> {0, 1, 2} then None else os_files demo_os fd)"
    using child_gets_its_pipes [OF inv o h(1,4,5), of "''cat''" "[''x'']"] h(2,3) s
    by (simp add: r_def w_def demo_os_def) blast
  have "files 3 = None" "files 4 = None" "files 5 = None" "files 6 = None" "files 7 = None" "files 8 = None" "files 9 = None"
      "files 10 = None" "files 11 = None"
    using f(3,4) by (simp_all add: pipe_descriptors_eq r_def w_def)
  with f(1,2) o show ?thesis by (simp add: to_argv_def c_str_def demo_os_def)
qed

text \<open>
  C33.  A run in the internal loop that has returned: when the process could not be forked it reports that
  error; otherwise it has waited for the child and reports its exit status, the object has exited and
  knows no process, and a child that a signal has killed counts as one that exits with 0.
\<close>

theorem run_reports_child:
  assumes "leaves_process calls" and "sp_inv S" and "sp_state S = Idle" and "sp_return_code S = 0" and "sp_intern S"
    and "run_nothrow os calls command args S = (Ret (Some x), S1) \<or> run_input_nothrow os calls command args input S = (Ret (Some x), S1)"
  shows "case os_fork os of
      Inl e \<Rightarrow> x = Failure (Some (System_Error e ''fork() failed'')) \<and> sp_state S1 = Failed \<and> sp_pid S1 = - 1
    | Inr pid \<Rightarrow> \<exists>status. os_waitpid os pid = Inr status \<and> sp_state S1 = Exited \<and> sp_pid S1 = - 1 \<and> sp_return_code S1 = exit_code status
        \<and> x = Success (case status of Exit_Status c \<Rightarrow> c | Term_Signal _ \<Rightarrow> 0)"
proof -
  have "process_of S = (Idle, - 1, 0, True)" using assms(2-5) by (simp add: process_of_def sp_inv_def process_ok_def)
  with run_outcomes [OF assms(1)] assms(6) have "run_outcome os (Some x) (process_of S1)" by blast
  then show ?thesis by (auto simp: run_outcome_def process_of_def exit_code_def split: sum.splits)
qed

text \<open>The stages of an internal run of the example.\<close>

definition demo_sinks :: "unit res \<times> (unit, unit) subprocess" where
  "demo_sinks = make_sinks demo_os ((demo_subprocess True)\<lparr>sp_source := Some (make_source empty_buffer)\<rparr>)"

definition demo_opened :: "unit res \<times> (unit, unit) run_state" where
  "demo_opened = open_pipes demo_os (\<lambda>_. make_pipe [], (snd demo_sinks)\<lparr>sp_state := Failed, sp_return_code := 0\<rparr>)"

definition demo_moved :: "unit res \<times> (unit, unit) run_state" where
  "demo_moved =
     (case demo_opened of (_, (pipes, T)) \<Rightarrow>
        and_then (move_ends demo_os (pipes, T\<lparr>sp_pid := 42, sp_children := sp_children T @ [(42, subprocess_child demo_os (to_argv ''cat'' [''x'']) pipes T)]\<rparr>))
          (\<lambda>_. close_pipes))"

lemma demo_stages: "fst demo_sinks = Ret ()" "fst demo_opened = Ret ()" "sp_pid (snd demo_sinks) = - 1" "fst demo_moved = Ret ()"
  by code_simp+

lemma demo_running_view:
  "running_view (snd (snd demo_moved))
    = (let h = Some (Some (User_Handler ())) in
       ((Failed, 42, 0, True), True,
        [(6, False, Some (Sp_Close StdIn)), (7, False, Some (Sp_Close StdOut)), (9, False, Some (Sp_Close StdErr))],
        Some (False, 3, [h, h, h, Some (Some Interrupt_Handler)])))"
  by code_simp

lemma demo_run_returns:
  "\<exists>S1. run_nothrow demo_os idle_calls ''cat'' [''x''] (demo_subprocess True) = (Ret (Some (Success 3)), S1)"
proof -
  define U where "U = snd (snd demo_moved)"
  note view = demo_running_view [folded U_def, unfolded running_view_def process_of_def Let_def, simplified]
  from view obtain L where L: "sp_loop U = Some L" "\<not> el_locked L" "el_pipe_fd L = 3"
      "el_callbacks L 7 = Some (Some (User_Handler ()))" "el_callbacks L 3 = Some (Some Interrupt_Handler)" by auto
  define fds where "fds = case_sp_pipe (6 :: int) 7 9"
  have "\<exists>i. L = L\<lparr>el_interest := i\<rparr>" by (rule exI [of _ "el_interest L"]) simp
  moreover have "fio_fd (sp_io U p) = fds p" "fio_on_close (sp_io U p) = Some (Sp_Close p)" "\<not> fio_locked (sp_io U p)" for p
    using view by (cases p; simp add: fds_def)+
  ultimately have "opened L fds U" using view L by (auto simp: opened_def Option.is_none_def split: option.splits)
  moreover have "- 1 \<notin> range fds" by (auto simp: fds_def split: sp_pipe.splits)
  moreover have ctl: "os_ctl demo_os = accepting" by (simp add: demo_os_def)
  ultimately obtain V where V: "add_streams demo_os U = (Ret (), V)" "opened L fds V" "process_of V = process_of U"
    using opened_add_streams by blast
  then have pV: "sp_pid V = 42" "sp_return_code V = 0" "sp_intern V" using view by (simp_all add: process_of_def)
  from V(2) obtain i where Li: "sp_loop V = Some (L\<lparr>el_interest := i\<rparr>)" and V': "sp_on_pipe_close V = None"
      "\<And>p. fio_fd (sp_io V p) = fds p" "\<And>p. fio_on_close (sp_io V p) = Some (Sp_Close p)" "\<And>p. \<not> fio_locked (sp_io V p)"
    by (auto simp: opened_def)
  have "fst (run_loop demo_os idle_calls (V\<lparr>sp_state := Running\<rparr>)) = Ret (Some (Success (exit_code (Exit_Status 3))))"
    by (rule hangup_ends_run [where p = StdOut and fd = 7 and L = "L\<lparr>el_interest := i\<rparr>"])
      (use L Li V' pV in \<open>auto simp: fds_def demo_os_def split: sp_pipe.splits\<close>)
  moreover obtain pipes T where o: "demo_opened = (Ret (), (pipes, T))" using demo_stages(2) by (metis prod.collapse)
  moreover obtain left where "demo_moved = (Ret (), (left, U))" using demo_stages(4) U_def by (metis prod.collapse)
  then have m: "and_then (move_ends demo_os (pipes, T\<lparr>sp_pid := 42, sp_children := sp_children T @ [(42, subprocess_child demo_os (to_argv ''cat'' [''x'']) pipes T)]\<rparr>))
      (\<lambda>_. close_pipes) = (Ret (), (left, U))" by (simp add: demo_moved_def o)
  have fk: "os_fork demo_os = Inr 42" by (simp add: demo_os_def)
  note run_argv_result [OF demo_stages(3) o [unfolded demo_opened_def] fk m V(1) pV(3), of idle_calls]
  ultimately have "fst (run_argv demo_os idle_calls (to_argv ''cat'' [''x'']) (snd demo_sinks)) = Ret (Some (Success 3))"
    by (simp add: exit_code_def)
  moreover have "sp_state (demo_subprocess True) = Idle" "sp_intern (demo_subprocess True)"
    by (simp_all add: demo_subprocess_def make_subprocess_intern_def make_subprocess_def split: prod.split)
  moreover have "make_sinks demo_os ((demo_subprocess True)\<lparr>sp_source := Some (make_source empty_buffer)\<rparr>) = (Ret (), snd demo_sinks)"
    using demo_stages(1) by (metis demo_sinks_def prod.collapse)
  ultimately show ?thesis by (cases "run_argv demo_os idle_calls (to_argv ''cat'' [''x'']) (snd demo_sinks)") (simp add: run_nothrow_def)
qed

theorem run_reports_child_witness:
  "\<exists>S1. run_nothrow demo_os idle_calls ''cat'' [''x''] (demo_subprocess True) = (Ret (Some (Success 3)), S1)
    \<and> sp_state S1 = Exited \<and> sp_pid S1 = - 1 \<and> sp_return_code S1 = 3"
proof -
  obtain S1 where r: "run_nothrow demo_os idle_calls ''cat'' [''x''] (demo_subprocess True) = (Ret (Some (Success 3)), S1)"
    using demo_run_returns by blast
  have calls: "leaves_process (idle_calls :: (unit, unit) sp_calls)" by (simp add: leaves_process_def idle_calls_def)
  have inv: "sp_inv (demo_subprocess True)"
    by (auto simp: demo_subprocess_def intro: make_subprocess_inv(2) prod.collapse [symmetric])
  have s: "sp_state (demo_subprocess True) = Idle" "sp_return_code (demo_subprocess True) = 0" "sp_intern (demo_subprocess True)"
    by (simp_all add: demo_subprocess_def make_subprocess_intern_def make_subprocess_def split: prod.split)
  from run_reports_child [OF calls inv s disjI1 [OF r]] r show ?thesis by (auto simp: demo_os_def exit_code_def)
qed

end
