(* ===== verification/Spec2Isabelle.thy ===== *)
theory Spec2Isabelle
  imports Serial Base64 Uri Usage Fsm Time_Parse Event_Bus Memory Pool Latch Container File_Write File_System Sock_Addr Fdio Cpu Utility Socket_Descriptors Subprocess_Process
begin

text \<open>
  hlib is a C++ library for programs around an event loop on Linux: buffers and byte streams,
  serialization, text, URIs, command lines, time, files, addresses, and the loop itself with timers,
  queues of callbacks, a bus of subscriptions and helpers for threads.  This development models it as
  functions over explicit states, component by component, and proves what each component promises.

  \<^bold>\<open>How the code is modelled.\<close>  An object is a record of its members, or the block of its bytes where
  the code stores structures into one; a member function is a function from the object, or a tuple with
  whatever else it changes, to the result and the object after it.  A result is a value, an exception or a
  fault (\<open>Prelude.res\<close>): a fault is an access outside a block, a failed assertion, signed overflow, a wait
  for a mutex that its own thread holds, or the end of the program when an exception leaves a
  \<open>noexcept\<close> function.  The two overloads of most operations, with \<open>std::nothrow\<close> and throwing, are two
  definitions, the first with the suffix \<open>_nothrow\<close>.  A \<open>std::size_t\<close> is a natural number with the
  wrap-around of additions and subtractions written out, other integers are words or integers with their
  bounds written out.  What the code gets from the system is an argument: the allocator, the results of
  system calls, the descriptors' data, the conversions of network addresses.  Threads are interleavings of
  the sections between the points where a mutex is taken or released, as step relations.

  \<^bold>\<open>The theories\<close>, in the order in which they use each other, with the files under \<open>src/\<close>:

  \<^item> \<open>Prelude\<close>: sizes, results, blocks of memory with the collection \<open>block_reads\<close>, searching in texts.
  \<^item> \<open>Buffer\<close> (\<open>hlib_buffer.cpp\<close>): the growable byte block.  Every reachable buffer is well-formed, and
    every operation refines one on byte strings.
  \<^item> \<open>Source_Sink\<close> (\<open>hlib_source.cpp\<close>, \<open>hlib_sink.cpp\<close>): the abstract streams as records of their
    virtual functions; the contracts are the locales \<open>sink_provider\<close> and \<open>source_provider\<close>, interpreted on
    the adapters over buffers and containers.
  \<^item> \<open>Serial\<close> (\<open>serial.hpp\<close>): the wire format in both byte orders and its round trip through streams.
  \<^item> \<open>Strings\<close> (\<open>hlib_string.cpp\<close>): conversions, predicates, \<open>split\<close> and \<open>join\<close>.  The loop of \<open>count\<close> is a
    \<open>partial_function\<close>, as it need not end.
  \<^item> \<open>Base64\<close> (in \<open>hlib_string.cpp\<close>), \<open>Uri\<close> (\<open>hlib_uri.cpp\<close>), \<open>Usage\<close> (\<open>hlib_usage.cpp\<close>): encoders and
    parsers, against reference definitions and round trips.
  \<^item> \<open>Math\<close>, \<open>Math_Double\<close> (\<open>math.hpp\<close>, \<open>hlib_math.cpp\<close>): conversions between units, and the functions on
    \<open>double\<close> as rational numbers with a rounding.  \<open>Time\<close>, \<open>Time_Parse\<close> (\<open>hlib_time.cpp\<close>): the arithmetic of
    durations and clocks, as a refinement of integer arithmetic, and the parser of ISO 8601 texts.
  \<^item> \<open>Result\<close> (\<open>result.hpp\<close>, \<open>hlib_error.cpp\<close>), \<open>Fsm\<close> (\<open>fsm.hpp\<close>), \<open>Container\<close> (\<open>container.hpp\<close>).
  \<^item> \<open>Memory\<close> (\<open>memory.hpp\<close>): handles, with a log of the destructor calls, over programs of variables.
  \<^item> \<open>Pool\<close> (\<open>pool.hpp\<close>), \<open>Latch\<close> (\<open>hlib_latch.cpp\<close>, \<open>hlib_scope_guard.cpp\<close>): step relations of any
    number of threads, with invariants over reachable states; what \<open>get\<close> does without its mutex is a step
    for each access to the deque.
  \<^item> \<open>Event_Loop\<close> (\<open>hlib_event_loop.cpp\<close>): registration, dispatch and interruption over the list of what
    \<open>epoll_wait\<close> returns; \<open>Timer\<close> (\<open>hlib_timer.cpp\<close>); \<open>Event_Queue\<close> (\<open>hlib_event_queue.cpp\<close>) with the
    locales \<open>job_queue\<close> and \<open>timerfd\<close>; \<open>Event_Bus\<close> (\<open>hlib_event_bus.cpp\<close>).
  \<^item> \<open>File_Read\<close>, \<open>File_Write\<close>, \<open>File_System\<close> (\<open>hlib_file.cpp\<close>): every overload of \<open>read\<close> and \<open>write\<close>,
    paths, and the classes \<open>File\<close> and \<open>Pipe\<close> over handles.
  \<^item> \<open>Sock_Addr\<close> (\<open>hlib_sock_addr.cpp\<close>): socket addresses on the bytes of their storage.
  \<^item> \<open>Fdio\<close> (\<open>hlib_fdio.cpp\<close>): descriptors that the event loop reads into a sink and writes from a queue of
    sources, with callbacks that may use the object; sinks and sources enter through the locales of
    \<open>Source_Sink\<close>.
  \<^item> \<open>Socket\<close> (\<open>hlib_socket.cpp\<close>): the class with its connection, its listener and its callbacks;
    \<open>Socket_Fdio\<close> shows that a connected socket behaves as the \<open>Fdio\<close> it is derived from, by a simulation of
    its operations and handlers; \<open>Socket_Descriptors\<close> that it closes each descriptor it takes.
  \<^item> \<open>Subprocess\<close> (\<open>hlib_subprocess.cpp\<close>): three \<open>Fdio\<close> objects behind a child process, sharing a loop,
    each in the focus of the whole object while it works; the child of the fork with its descriptors.
    \<open>Subprocess_Invariant\<close> is what every event and operation keeps, over the locale \<open>kept\<close>;
    \<open>Subprocess_Process\<close> what the child gets and what a run reports.
  \<^item> \<open>Cpu\<close> (\<open>hlib_cpu.cpp\<close>): the parser of \<open>/proc/stat\<close> and the monitor of the load;
    \<open>Utility\<close> (\<open>hlib_utility.cpp\<close>): typed values of the environment.

  This theory composes the bus, the queue, the timer and the event loop: a notification reaches the
  callback that subscribed to it.

  \<^bold>\<open>The lemmas\<close> of a theory come in groups: facts of its data, one specification per operation on each of
  its branches, the invariant of the component, and the properties, each after a text that begins with its
  number.  A property with hypotheses is followed by its witness, a concrete use of it.  Interfaces between
  components are locales, interpreted in the theory of the component that provides them.

  \<^bold>\<open>Bounds.\<close>  Loops are structural recursions or have a termination proof, by the length of what is left
  to read or to report.  The one that takes fuel is \<open>scan_cstring\<close>, the search for the end of a C string: it
  is called with the size of the source, and every round consumes a byte, so that it does not run out.  The
  calls that need not return, \<open>count\<close>, \<open>to_fraction\<close> and the \<open>write\<close> that calls itself, are
  \<open>partial_function\<close>s.  The lists of kernel events and of device data are finite, of any length.

  \<^bold>\<open>Not modelled.\<close>  The text of floating-point values is read by arguments of the model, and infinities and NaN are not values.  Memory of
  the caller that overlaps a buffer's own block is outside the model.  Shared objects are held by value,
  so that a client that changes a sink while it is read into is not covered.  Signals, the detection of a debugger and
  UUIDs are single calls of the system or of a library; \<open>hlib_format.cpp\<close> wraps \<open>vsnprintf\<close>, and its
  formats are written out where they are used; the test framework, type traits and macros have no
  behaviour of the library's own.
\<close>

lemma notify_live:
  assumes "subs bus (action, name) = Some s" and "lock_queue qs s = Some (i, q)"
  shows "bus_notify push name action data (bus, qs) = (bus, qs(i \<mapsto> push (sub_callback s, data) q))"
  using assms by (auto simp: bus_notify_def subs_def split: option.splits)

lemma notify_all_live:
  assumes "subs bus (action, name) = Some s" and "sub_queue s = Some i" and "qs i = Some q"
  shows "fold (\<lambda>d. bus_notify push name action d) ds (bus, qs)
    = (bus, qs(i \<mapsto> fold push (map (Pair (sub_callback s)) ds) q))"
  using assms(3)
proof (induction ds arbitrary: qs q)
  case Nil
  then show ?case by (simp add: fun_upd_idem)
next
  case (Cons d ds)
  have "lock_queue qs s = Some (i, q)" using assms(2) Cons.prems by (simp add: lock_queue_Some)
  note n = notify_live [OF assms(1) this, of push d]
  note ih = Cons.IH [of "qs(i \<mapsto> push (sub_callback s, d) q)", OF fun_upd_same, unfolded fun_upd_upd]
  show ?case by (simp only: fold_simps list.map n ih)
qed

text \<open>
  C3.  From the bus to the callback: a callback subscribed with a live queue is run by the event loop
  once for every notification, with the data of the notifications in the order they were made and after
  what was pending before.  The callbacks may return, throw or push more: the loop runs them first in first
  out, and waits with the timer cleared when nothing is left; an exception ends \<open>dispatch\<close> with it and leaves
  the timer armed.  When they return and push nothing, as many reports as there are callbacks run them all.
\<close>

theorem notifications_reach_subscriber:
  assumes "accepts_normal settime" and "bus_wf bus" and "qs i = Some q0" and "queue_in_step q0"
    and "bus_subscribe qs name action \<lparr>sub_queue = Some i, sub_callback = Some cb\<rparr> bus = (ok, bus1)"
    and "fold (\<lambda>d. bus_notify (queue_push settime) name action d) ds (bus1, qs) = (bus2, qs2)"
    and "qs2 i = Some q2"
    and "\<not> el_locked L" and "el_callbacks L fd = Some (Some (User_Handler ()))" and "el_world L = (q2, w)"
  shows "ok
    \<and> (\<forall>n left w1. fifo f n (eq_queue q0 @ map (Pair (Some cb)) ds) w = (Ret (), left, w1) \<longrightarrow>
        (\<exists>q. dispatch (queue_call settime (Inr 8) (job_run settime f)) self None start (replicate n (c, Wait_Event fd EPOLLIN)) L
            = (In_Epoll_Wait, L\<lparr>el_thread_id := Some self, el_interrupt := False, el_world := (q, w1)\<rparr>)
          \<and> eq_queue q = left \<and> timer_armed (eq_timer q) = (left \<noteq> [])))
    \<and> (\<forall>n e left w1. fifo f n (eq_queue q0 @ map (Pair (Some cb)) ds) w = (Throw e, left, w1) \<longrightarrow>
        (\<exists>q. dispatch (queue_call settime (Inr 8) (job_run settime f)) self None start (replicate n (c, Wait_Event fd EPOLLIN)) L
            = (Finished (Throw e), L\<lparr>el_thread_id := None, el_interrupt := False, el_world := (q, w1)\<rparr>)
          \<and> eq_queue q = left \<and> timer_armed (eq_timer q)))
    \<and> (\<forall>g. (\<forall>j w. f j w = (Ret (), [], g j w)) \<longrightarrow>
        fifo f (length (eq_queue q0) + length ds) (eq_queue q0 @ map (Pair (Some cb)) ds) w
          = (Ret (), [], fold (\<lambda>d. g (Some cb, d)) ds (fold g (eq_queue q0) w)))"
proof -
  let ?s = "\<lparr>sub_queue = Some i, sub_callback = Some cb\<rparr>"
  note fd = timerfd.intro [OF assms(1)]
  have live: "\<not> queue_expired qs ?s" using assms(3) by (simp add: queue_expired_iff lock_queue_def)
  from subs_subscribe [OF assms(2,5)] live have ok: ok and s: "subs bus1 (action, name) = Some ?s" by auto
  have q2: "q2 = fold (queue_push settime) (map (Pair (Some cb)) ds) q0"
    using notify_all_live [OF s, of i qs q0 "queue_push settime" ds] assms(3,6,7) by simp
  have p: "eq_queue q2 = eq_queue q0 @ map (Pair (Some cb)) ds" unfolding q2 by (rule timerfd.pending_pushes [OF fd])
  have "queue_in_step q2" unfolding q2 by (rule timerfd.pushes_in_step [OF fd assms(4)])
  note drains = event_loop_runs_queue [OF assms(1,8,9,10) this, unfolded p, of f self start c]
  have "fifo f (length (eq_queue q0) + length ds) (eq_queue q0 @ map (Pair (Some cb)) ds) w
      = (Ret (), [], fold (\<lambda>d. g (Some cb, d)) ds (fold g (eq_queue q0) w))" if "\<forall>j w. f j w = (Ret (), [], g j w)" for g
    using fifo_returning [of f g "eq_queue q0 @ map (Pair (Some cb)) ds" w] that by (simp add: fold_map comp_def)
  with ok drains show ?thesis by blast
qed

definition loop_on_queue :: "(bool option \<times> nat) event_queue \<Rightarrow> (unit, (bool option \<times> nat) event_queue \<times> nat list) event_loop" where
  "loop_on_queue q =
     snd (event_loop_add (\<lambda>_ _ _. None) 5 EPOLLIN (Some (User_Handler ()))
       (snd (make_event_loop (\<lambda>_ _ _. None) None (Inr 3) None (q, []))))"

theorem notifications_reach_subscriber_witness:
  "\<exists>ok bus1. bus_subscribe ([0 \<mapsto> make_event_queue] :: (bool option \<times> nat) event_queue queues) ''ipc'' ''send'' \<lparr>sub_queue = Some 0, sub_callback = Some True\<rparr> [] = (ok, bus1)
     \<and> (\<exists>bus2 qs2 q2. fold (\<lambda>d. bus_notify (queue_push normal_itimerspec) ''ipc'' ''send'' d) [4, 2, 9 :: nat] (bus1, [0 \<mapsto> make_event_queue])
            = (bus2, qs2) \<and> qs2 0 = Some q2
         \<and> (\<exists>q. dispatch (queue_call normal_itimerspec (Inr 8) (job_run normal_itimerspec (\<lambda>j w. (Ret (), [], w @ [snd j])))) 1 None (Timespec 0 0)
              (replicate 3 (Timespec 0 0, Wait_Event 5 EPOLLIN)) (loop_on_queue q2)
            = (In_Epoll_Wait, (loop_on_queue q2)\<lparr>el_thread_id := Some 1, el_interrupt := False, el_world := (q, [4, 2, 9])\<rparr>)
           \<and> eq_queue q = []))"
proof -
  let ?qs = "[0 \<mapsto> make_event_queue] :: (bool option \<times> nat) event_queue queues"
  let ?s = "\<lparr>sub_queue = Some 0, sub_callback = Some True\<rparr>"
  let ?f = "\<lambda>j w. (Ret (), [], w @ [snd j])"
  obtain ok bus1 where b1: "bus_subscribe ?qs ''ipc'' ''send'' ?s [] = (ok, bus1)" by fastforce
  have wf: "bus_wf ([] :: bool event_bus)" by (simp add: bus_wf_def)
  have "\<not> queue_expired ?qs ?s" by (simp add: queue_expired_iff lock_queue_def)
  with subs_subscribe [OF wf b1] have s: "subs bus1 (''send'', ''ipc'') = Some ?s" by simp
  let ?q2 = "fold (queue_push normal_itimerspec) (map (Pair (Some True)) [4, 2, 9]) make_event_queue"
  have f: "fold (\<lambda>d. bus_notify (queue_push normal_itimerspec) ''ipc'' ''send'' d) [4, 2, 9 :: nat] (bus1, ?qs) = (bus1, ?qs(0 \<mapsto> ?q2))"
    using notify_all_live [OF s, of 0 ?qs make_event_queue "queue_push normal_itimerspec" "[4, 2, 9]"] by simp
  have l: "\<not> el_locked (loop_on_queue ?q2)" "el_callbacks (loop_on_queue ?q2) 5 = Some (Some (User_Handler ()))"
    "el_world (loop_on_queue ?q2) = (?q2, [])"
    by (simp_all add: loop_on_queue_def make_event_loop_def event_loop_add_def Let_def)
  have q0: "?qs 0 = Some make_event_queue" and q2: "(?qs(0 \<mapsto> ?q2)) 0 = Some ?q2"
    and st: "queue_in_step (make_event_queue :: (bool option \<times> nat) event_queue)"
    by (simp_all add: queue_in_step_def make_event_queue_def timer_armed_def)
  have "fifo ?f 3 (eq_queue make_event_queue @ map (Pair (Some True)) [4, 2, 9]) [] = (Ret (), [], [4, 2, 9])"
    by (simp add: make_event_queue_def numeral_3_eq_3)
  with notifications_reach_subscriber [OF checked.accepts wf q0 st b1 f q2 l, of ?f 1 "Timespec 0 0" "Timespec 0 0"]
  obtain q where "dispatch (queue_call normal_itimerspec (Inr 8) (job_run normal_itimerspec ?f)) 1 None (Timespec 0 0)
      (replicate 3 (Timespec 0 0, Wait_Event 5 EPOLLIN)) (loop_on_queue ?q2)
    = (In_Epoll_Wait, (loop_on_queue ?q2)\<lparr>el_thread_id := Some 1, el_interrupt := False, el_world := (q, [4, 2, 9])\<rparr>)"
    and "eq_queue q = []" by blast
  with b1 f q2 show ?thesis by (intro exI conjI)
qed

end
